(* ===== verification/Go_Prelude.thy ===== *)
theory Go_Prelude
  imports Main "HOL-Library.Word"
begin

unbundle bit_operations_syntax

text \<open>
  The part of the Go language that the modelled packages use, and the generic lemmas the
  component theories share: machine integers, errors and panics as values, slice
  expressions with their bounds checks, \<^verbatim>\<open>copy\<close>, little-endian integers and byte strings.

  A slice is modelled by the list of its elements. A slice expression \<^verbatim>\<open>b[lo:hi]\<close> of Go is
  checked against the capacity of \<^verbatim>\<open>b\<close>; the model takes the capacity to be the length, as it is
  for every buffer made with \<^verbatim>\<open>make([]byte, n)\<close>. Cursors and indices are \<^typ>\<open>int\<close>.
\<close>

section \<open>Machine integers and bytes\<close>

type_synonym byte = "8 word"
type_synonym bytes = "8 word list"
type_synonym u16 = "16 word"
type_synonym u32 = "32 word"
type_synonym u64 = "64 word"

section \<open>Errors and panics as values\<close>

datatype go_error = Panic string | Error string

type_synonym 'a res = "go_error + 'a"

definition rbind :: "'a res \<Rightarrow> ('a \<Rightarrow> 'b res) \<Rightarrow> 'b res" where
  "rbind m f = (case m of Inl e \<Rightarrow> Inl e | Inr x \<Rightarrow> f x)"

definition isOk :: "'a res \<Rightarrow> bool" where
  "isOk m = (case m of Inl _ \<Rightarrow> False | Inr _ \<Rightarrow> True)"

fun panics :: "'a res \<Rightarrow> bool" where
  "panics (Inl (Panic _)) = True"
| "panics _ = False"

named_theorems wire_simps "evaluation of reads and writes on a splice"
named_theorems len_simps "lengths of wire images"

lemma rbind_Inr [simp]: "rbind (Inr x) f = f x"
  by (simp add: rbind_def)

lemma rbind_Inl [simp]: "rbind (Inl e) f = Inl e"
  by (simp add: rbind_def)

lemma rbind_eq_Inr: "rbind m f = Inr y \<longleftrightarrow> (\<exists>x. m = Inr x \<and> f x = Inr y)"
  by (cases m) auto

lemma rbind_InrE:
  assumes "rbind m f = Inr y"
  obtains x where "m = Inr x" and "f x = Inr y"
  using assms by (auto simp: rbind_eq_Inr)

lemma rbind_assoc: "rbind (rbind m f) g = rbind m (\<lambda>x. rbind (f x) g)"
  by (cases m) auto

lemma isOk_simps [simp]: "isOk (Inr x)" "\<not> isOk (Inl e)"
  by (simp_all add: isOk_def)

lemma isOk_iff: "isOk m \<longleftrightarrow> (\<exists>x. m = Inr x)"
  by (cases m) auto

section \<open>Slice expressions, indexing and copy\<close>

definition bounds_panic :: "go_error" where
  "bounds_panic = Panic ''slice bounds out of range''"

definition index_panic :: "go_error" where
  "index_panic = Panic ''index out of range''"

definition nil_panic :: "go_error" where
  "nil_panic = Panic ''nil pointer dereference''"

definition deref :: "'a option \<Rightarrow> 'a res" where
  "deref p = (case p of None \<Rightarrow> Inl nil_panic | Some x \<Rightarrow> Inr x)"

lemma deref_simps [simp]: "deref None = Inl nil_panic" "deref (Some x) = Inr x"
  by (simp_all add: deref_def)

definition slice_expr :: "'a list \<Rightarrow> int \<Rightarrow> int \<Rightarrow> 'a list res" where
  "slice_expr b lo hi =
     (if 0 \<le> lo \<and> lo \<le> hi \<and> hi \<le> int (length b)
      then Inr (take (nat (hi - lo)) (drop (nat lo) b)) else Inl bounds_panic)"

definition index_expr :: "'a list \<Rightarrow> int \<Rightarrow> 'a res" where
  "index_expr b i =
     (if 0 \<le> i \<and> i < int (length b) then Inr (b ! nat i) else Inl index_panic)"

definition set_index :: "'a list \<Rightarrow> int \<Rightarrow> 'a \<Rightarrow> 'a list res" where
  "set_index b i v =
     (if 0 \<le> i \<and> i < int (length b) then Inr (b[nat i := v]) else Inl index_panic)"

lemma deref_eq_Inr: "deref p = Inr x \<longleftrightarrow> p = Some x"
  by (cases p) simp_all

lemma set_index_nat: "k < length b \<Longrightarrow> set_index b (int k) v = Inr (b[k := v])"
  by (simp add: set_index_def)

lemma index_expr_nat: "k < length b \<Longrightarrow> index_expr b (int k) = Inr (b ! k)"
  by (simp add: index_expr_def)

lemma index_expr_beyond: "length b \<le> k \<Longrightarrow> index_expr b (int k) = Inl index_panic"
  by (simp add: index_expr_def)

text \<open>\<^verbatim>\<open>copy(dst, src)\<close> overwrites the first \<^verbatim>\<open>min(len(dst), len(src))\<close> elements of \<^verbatim>\<open>dst\<close>.\<close>

definition copy_to :: "'a list \<Rightarrow> 'a list \<Rightarrow> 'a list" where
  "copy_to dst src = take (length dst) src @ drop (length src) dst"

text \<open>\<^verbatim>\<open>copy(b[lo:hi], src)\<close>, as its effect on the whole of \<^verbatim>\<open>b\<close>.\<close>

definition copy_range :: "'a list \<Rightarrow> int \<Rightarrow> int \<Rightarrow> 'a list \<Rightarrow> 'a list res" where
  "copy_range b lo hi src =
     rbind (slice_expr b lo hi) (\<lambda>dst.
       Inr (take (nat lo) b @ copy_to dst src @ drop (nat hi) b))"

lemma length_copy_to [simp]: "length (copy_to dst src) = length dst"
  by (simp add: copy_to_def)

lemma copy_to_same [simp]: "length dst = length src \<Longrightarrow> copy_to dst src = src"
  by (simp add: copy_to_def)

lemma slice_expr_ok:
  "0 \<le> lo \<Longrightarrow> lo \<le> hi \<Longrightarrow> hi \<le> int (length b) \<Longrightarrow>
   slice_expr b lo hi = Inr (take (nat (hi - lo)) (drop (nat lo) b))"
  by (simp add: slice_expr_def)

lemma slice_expr_mid [simp]:
  "slice_expr (pre @ mid @ post) (int (length pre)) (int (length pre) + int (length mid)) = Inr mid"
  by (simp add: slice_expr_def)

lemma slice_expr_Inr_length:
  "slice_expr b lo hi = Inr xs \<Longrightarrow> int (length xs) = hi - lo"
  by (auto simp: slice_expr_def split: if_splits)

lemma slice_expr_panics [simp]: "slice_expr b lo hi = Inl e \<longleftrightarrow>
    e = bounds_panic \<and> \<not> (0 \<le> lo \<and> lo \<le> hi \<and> hi \<le> int (length b))"
  by (auto simp: slice_expr_def)

lemma copy_range_mid:
  assumes "length src = length mid"
  shows "copy_range (pre @ mid @ post) (int (length pre)) (int (length pre) + int (length mid)) src
         = Inr (pre @ src @ post)"
  using assms by (simp add: copy_range_def nat_add_distrib)

lemma copy_range_length:
  "copy_range b lo hi src = Inr b' \<Longrightarrow> length b' = length b"
  by (auto simp: copy_range_def slice_expr_def split: if_splits)

lemma copy_range_Inr_iff:
  "isOk (copy_range b lo hi src) \<longleftrightarrow> 0 \<le> lo \<and> lo \<le> hi \<and> hi \<le> int (length b)"
  by (auto simp: copy_range_def slice_expr_def)

section \<open>Loops that can fail and integer division\<close>

text \<open>A \<^verbatim>\<open>for\<close> loop that appends one result per element and stops at the first failure.\<close>

fun rmap :: "('a \<Rightarrow> 'b res) \<Rightarrow> 'a list \<Rightarrow> 'b list res" where
  "rmap f [] = Inr []"
| "rmap f (x # xs) = rbind (f x) (\<lambda>y. rbind (rmap f xs) (\<lambda>ys. Inr (y # ys)))"

text \<open>A \<^verbatim>\<open>for\<close> loop that threads a state.\<close>

fun rfold :: "('a \<Rightarrow> 's \<Rightarrow> 's res) \<Rightarrow> 'a list \<Rightarrow> 's \<Rightarrow> 's res" where
  "rfold f [] s = Inr s"
| "rfold f (x # xs) s = rbind (f x s) (rfold f xs)"

text \<open>The operators \<^verbatim>\<open>/\<close> and \<^verbatim>\<open>%\<close> of Go truncate towards zero and panic on a zero divisor.\<close>

definition go_div :: "int \<Rightarrow> int \<Rightarrow> int res" where
  "go_div a b = (if b = 0 then Inl (Panic ''integer divide by zero'')
                 else Inr (sgn a * sgn b * (\<bar>a\<bar> div \<bar>b\<bar>)))"

definition go_mod :: "int \<Rightarrow> int \<Rightarrow> int res" where
  "go_mod a b = rbind (go_div a b) (\<lambda>q. Inr (a - b * q))"

lemma rmap_Inr: "(\<And>x. x \<in> set xs \<Longrightarrow> f x = Inr (g x)) \<Longrightarrow> rmap f xs = Inr (map g xs)"
  by (induction xs) auto

lemma rmap_iff: "rmap f xs = Inr ys \<longleftrightarrow> list_all2 (\<lambda>x y. f x = Inr y) xs ys"
  by (induction xs arbitrary: ys) (auto simp: rbind_eq_Inr list_all2_Cons1)

lemma rfold_append: "rfold f (xs @ ys) s = rbind (rfold f xs s) (rfold f ys)"
  by (induction xs arbitrary: s) (auto simp: rbind_assoc intro!: arg_cong2 [where f = rbind])

lemma go_div_nonneg [simp]: "0 \<le> a \<Longrightarrow> 0 < b \<Longrightarrow> go_div a b = Inr (a div b)"
  by (cases "a = 0") (auto simp: go_div_def)

lemma go_mod_nonneg [simp]: "0 \<le> a \<Longrightarrow> 0 < b \<Longrightarrow> go_mod a b = Inr (a mod b)"
  by (simp add: go_mod_def minus_mult_div_eq_mod)

section \<open>Byte strings\<close>

text \<open>Go strings are byte sequences; the source's literals are ASCII.\<close>

definition bytes_of_string :: "string \<Rightarrow> bytes" where
  "bytes_of_string s = map (\<lambda>c. word_of_nat (of_char c)) s"

definition string_of_bytes :: "bytes \<Rightarrow> string" where
  "string_of_bytes b = map (\<lambda>w. char_of (unat w)) b"

lemma length_bytes_of_string [simp]: "length (bytes_of_string s) = length s"
  by (simp add: bytes_of_string_def)

lemma length_string_of_bytes [simp]: "length (string_of_bytes s) = length s"
  by (simp add: string_of_bytes_def)

lemma unat_of_char: "unat (word_of_nat (of_char c) :: byte) = of_char c"
  using nat_of_char_less_256[of c] by (simp only: unat_of_nat) simp

lemma string_of_bytes_of_string [simp]: "string_of_bytes (bytes_of_string s) = s"
  by (induction s) (simp_all add: string_of_bytes_def bytes_of_string_def unat_of_char)

lemma bytes_of_string_inj: "bytes_of_string s = bytes_of_string t \<Longrightarrow> s = t"
  by (metis string_of_bytes_of_string)

section \<open>Little-endian integers\<close>

text \<open>\<^verbatim>\<open>encoding/binary.LittleEndian\<close>: the bytes of a word, least significant first.\<close>

definition le_bytes :: "nat \<Rightarrow> 'a::len word \<Rightarrow> bytes" where
  "le_bytes n v = map (\<lambda>i. ucast (drop_bit (8 * i) v)) [0..<n]"

fun le_word :: "bytes \<Rightarrow> 'a::len word" where
  "le_word [] = 0"
| "le_word (b # bs) = ucast b OR push_bit 8 (le_word bs)"

lemma length_le_bytes [simp]: "length (le_bytes n v) = n"
  by (simp add: le_bytes_def)

lemma bit_le_word:
  fixes bs :: bytes
  shows "bit (le_word bs :: 'a::len word) k \<longleftrightarrow>
         k < LENGTH('a) \<and> k div 8 < length bs \<and> bit (bs ! (k div 8)) (k mod 8)"
proof (induction bs arbitrary: k)
  case Nil
  then show ?case by simp
next
  case (Cons b bs)
  show ?case
  proof (cases "k < 8")
    case True
    then show ?thesis by (auto simp: bit_simps)
  next
    case False
    then obtain j where j: "k = 8 + j"
      using le_Suc_ex by (metis not_less)
    have b8: "\<not> bit b k"
      using False bit_imp_le_length[of b k] by auto
    have "bit (le_word (b # bs) :: 'a word) k \<longleftrightarrow> k < LENGTH('a) \<and> bit (le_word bs :: 'a word) j"
      using b8 by (auto simp: bit_simps j)
    also have "\<dots> \<longleftrightarrow> k < LENGTH('a) \<and> j div 8 < length bs \<and> bit (bs ! (j div 8)) (j mod 8)"
      using j by (auto simp: Cons.IH)
    moreover have "(8 + j) div 8 = Suc (j div 8)" by simp
    ultimately show ?thesis by (simp add: j)
  qed
qed

lemma le_word_le_bytes:
  assumes "LENGTH('a::len) = 8 * n"
  shows "le_word (le_bytes n v) = (v :: 'a word)"
proof (rule bit_word_eqI)
  fix k assume k: "k < LENGTH('a)"
  then have "k div 8 < n" using assms by auto
  moreover have "8 * (k div 8) + k mod 8 = k" by simp
  ultimately show "bit (le_word (le_bytes n v) :: 'a word) k = bit v k"
    using k by (simp add: bit_le_word le_bytes_def bit_simps)
qed

lemma le_bytes_le_word:
  assumes "LENGTH('a::len) = 8 * n" and "length bs = n"
  shows "le_bytes n (le_word bs :: 'a word) = bs"
proof (rule nth_equalityI)
  show "length (le_bytes n (le_word bs :: 'a word)) = length bs" using assms by simp
next
  fix i assume "i < length (le_bytes n (le_word bs :: 'a word))"
  then have i: "i < n" by simp
  show "le_bytes n (le_word bs :: 'a word) ! i = bs ! i"
  proof (rule bit_word_eqI)
    fix k assume "k < LENGTH(8)"
    then have "k < 8" by simp
    then show "bit (le_bytes n (le_word bs :: 'a word) ! i) k = bit (bs ! i) k"
      using i assms by (auto simp: le_bytes_def bit_simps bit_le_word)
  qed
qed

section \<open>Generic lemmas on lists and options\<close>

lemma find_append_None: "find P xs = None \<Longrightarrow> find P (xs @ ys) = find P ys"
  by (induction xs) auto

lemma find_Some_in_set: "find P xs = Some x \<Longrightarrow> x \<in> set xs \<and> P x"
  by (induction xs) (auto split: if_splits)

lemma find_None_iff_all: "find P xs = None \<longleftrightarrow> (\<forall>x\<in>set xs. \<not> P x)"
  by (induction xs) auto

lemma nat_int_diff_add [simp]: "nat (int a + int b - int a) = b"
  by simp

section \<open>Deleting from a slice\<close>

text \<open>\<^verbatim>\<open>append(s[:i], s[i+1:]...)\<close>, for an index in range.\<close>

definition del_at :: "nat \<Rightarrow> 'a list \<Rightarrow> 'a list" where
  "del_at i xs = take i xs @ drop (Suc i) xs"

text \<open>The first index whose element satisfies the test, as a loop with an early exit finds it.\<close>

fun find_index :: "('a \<Rightarrow> bool) \<Rightarrow> 'a list \<Rightarrow> nat option" where
  "find_index P [] = None"
| "find_index P (x # xs) = (if P x then Some 0 else map_option Suc (find_index P xs))"

definition remove_first :: "('a \<Rightarrow> bool) \<Rightarrow> 'a list \<Rightarrow> 'a list" where
  "remove_first P xs = (case find_index P xs of None \<Rightarrow> xs | Some i \<Rightarrow> del_at i xs)"

lemma find_index_None: "find_index P xs = None \<longleftrightarrow> (\<forall>x\<in>set xs. \<not> P x)"
  by (induction xs) auto

lemma find_index_Some:
  "find_index P xs = Some i \<longleftrightarrow> i < length xs \<and> P (xs ! i) \<and> (\<forall>j<i. \<not> P (xs ! j))"
proof (induction xs arbitrary: i)
  case (Cons x xs)
  then show ?case by (cases i) (auto simp: nth_Cons' less_Suc_eq_0_disj split: if_splits)
qed simp

lemma find_by_index: "find P xs = map_option (nth xs) (find_index P xs)"
  by (induction xs) (auto simp: option.map_comp comp_def)

lemma remove_first_Nil [simp]: "remove_first P [] = []"
  by (simp add: remove_first_def)

lemma remove_first_Cons [simp]: "remove_first P (x # xs) = (if P x then xs else x # remove_first P xs)"
  unfolding remove_first_def del_at_def by (simp split: option.split)

lemma remove_first_none: "\<forall>x\<in>set xs. \<not> P x \<Longrightarrow> remove_first P xs = xs"
  by (induction xs) auto

lemma remove_first_distinct:
  "distinct (map k xs) \<Longrightarrow> remove_first (\<lambda>x. k x = c) xs = filter (\<lambda>x. k x \<noteq> c) xs"
proof (induction xs)
  case (Cons x xs)
  then have "filter (\<lambda>y. k y \<noteq> k x) xs = xs" 
    using Cons.prems by (intro filter_True) (metis distinct.simps(2) image_eqI list.map(2) list.set_map)
  then show ?case using Cons by auto
qed simp

lemma length_del_at [simp]: "i < length xs \<Longrightarrow> length (del_at i xs) = length xs - 1"
  by (simp add: del_at_def)

lemma nth_del_at: "i < length xs \<Longrightarrow> j < length xs - 1 \<Longrightarrow> del_at i xs ! j = (if j < i then xs ! j else xs ! Suc j)"
  by (auto simp: del_at_def nth_append)

lemma set_del_at: "set (del_at i xs) \<subseteq> set xs"
  by (auto simp: del_at_def dest: in_set_takeD in_set_dropD)

lemma map_del_at: "map f (del_at i xs) = del_at i (map f xs)"
  by (simp add: del_at_def take_map drop_map)

lemma distinct_del_at: "distinct xs \<Longrightarrow> distinct (del_at i xs)"
  unfolding del_at_def by (simp add: set_take_disj_set_drop_if_distinct)

lemma set_del_at_distinct:
  assumes "i < length xs" and "distinct xs"
  shows "set (del_at i xs) = set xs - {xs ! i}"
proof -
  have split: "xs = take i xs @ xs ! i # drop (Suc i) xs" using assms(1) by (rule id_take_nth_drop)
  have "set (A @ B) = set (A @ x # B) - {x}" if "distinct (A @ x # B)" for A B :: "'a list" and x
    using that by auto
  from this [of "take i xs" "xs ! i" "drop (Suc i) xs"] show ?thesis
    using assms(2) split by (simp only: del_at_def)
qed

lemma nth_upd: "xs[i := v] ! k = (if i = k \<and> i < length xs then v else xs ! k)"
  by (cases "i < length xs") (simp_all add: nth_list_update list_update_beyond)

section \<open>Code that fails only by panicking\<close>

definition no_error :: "'a res \<Rightarrow> bool" where
  "no_error m \<longleftrightarrow> (\<forall>s. m \<noteq> Inl (Error s))"

lemma no_error_rbind: "no_error m \<Longrightarrow> (\<And>x. m = Inr x \<Longrightarrow> no_error (f x)) \<Longrightarrow> no_error (rbind m f)"
  by (cases m) (auto simp: no_error_def)

lemma no_error_Inr [simp]: "no_error (Inr x)"
  by (simp add: no_error_def)

lemma no_error_deref [simp]: "no_error (deref p)"
  by (cases p) (simp_all add: no_error_def nil_panic_def)

lemma no_error_index [simp]: "no_error (index_expr b i)"
  by (simp add: no_error_def index_expr_def index_panic_def)

lemma no_error_rfold: "(\<And>x s. no_error (f x s)) \<Longrightarrow> no_error (rfold f xs s)"
  by (induction xs arbitrary: s) (auto intro: no_error_rbind)

lemma no_error_cases: "no_error m \<Longrightarrow> (\<exists>x. m = Inr x) \<or> (\<exists>e. m = Inl (Panic e))"
  unfolding no_error_def by (metis go_error.exhaust sumE)

lemma panics_iff: "panics m \<longleftrightarrow> (\<exists>p. m = Inl (Panic p))"
  by (cases m rule: panics.cases) simp_all

lemma panics_no_error: "panics m \<Longrightarrow> no_error m"
  by (auto simp: panics_iff no_error_def)

lemma panics_rbind: "no_error m \<Longrightarrow> (\<And>x. m = Inr x \<Longrightarrow> panics (f x)) \<Longrightarrow> panics (rbind m f)"
  using no_error_cases [of m] by (auto simp: panics_iff)

lemma no_error_copy_range [simp]: "no_error (copy_range b lo hi src)"
  by (auto simp: copy_range_def no_error_def slice_expr_def bounds_panic_def)

end
