(* ===== verification/Crypto.thy ===== *)
theory Crypto
  imports Go_Prelude
begin

unbundle bit_operations_syntax

text \<open>
  The cryptographic layer: \<^verbatim>\<open>pkg/crypto\<close> with \<^verbatim>\<open>sha256\<close>, \<^verbatim>\<open>nonce\<close> and \<^verbatim>\<open>ciph\<close>.
  The primitives come from packages outside the repository (minio/sha256-simd, decred's
  secp256k1) or are the AES block function; they are the fields of the parameter
  \<open>crypto_ops\<close>, and what the code relies on is the predicate \<open>crypto_laws\<close>. The rest
  (cloaked keys, key sets, identifiers, the counter mode of the cipher) is translated.
  Random bytes read from the operating system are arguments.
\<close>

section \<open>Primitives\<close>

datatype prv = Prv (prv_key: "256 word")
datatype pub = Pub (pub_x: "256 word") (pub_y: "256 word")

record crypto_ops =
  sum256 :: "bytes \<Rightarrow> bytes"
  aes_block :: "bytes \<Rightarrow> bytes \<Rightarrow> bytes"
  shared_secret :: "prv \<Rightarrow> pub \<Rightarrow> bytes"
  prv_pub :: "prv \<Rightarrow> pub"
  prv_serialize :: "prv \<Rightarrow> bytes"
  prv_from_bytes :: "bytes \<Rightarrow> prv"
  pub_compressed :: "pub \<Rightarrow> bytes"
  pub_parse :: "bytes \<Rightarrow> pub option"
  scalar_add :: "prv \<Rightarrow> prv \<Rightarrow> prv"
  schnorr_sign :: "prv \<Rightarrow> bytes \<Rightarrow> bytes res"
  schnorr_verify :: "pub \<Rightarrow> bytes \<Rightarrow> bytes \<Rightarrow> bool res"
  ecdsa_compact :: "prv \<Rightarrow> bytes \<Rightarrow> bytes"

definition BlindLen :: nat where "BlindLen = 4"
definition HashLen :: nat where "HashLen = 4"
definition CloakLen :: nat where "CloakLen = BlindLen + HashLen"
definition PrvKeyLen :: nat where "PrvKeyLen = 32"
definition PubKeyLen :: nat where "PubKeyLen = 33"
definition SigLen :: nat where "SigLen = 64"
definition sha256_Len :: nat where "sha256_Len = 32"
definition IVLen :: nat where "IVLen = 16"
definition IDLen :: nat where "IDLen = 8"

lemmas crypto_lens [simp] = BlindLen_def HashLen_def CloakLen_def PrvKeyLen_def PubKeyLen_def
  SigLen_def sha256_Len_def IVLen_def IDLen_def

text \<open>Documented behaviour of the primitives: the sizes of a SHA256 digest, of a serialised
  private key, of a compressed public key and of a signature, that both sides of a
  Diffie-Hellman exchange compute the same secret, and that a signature made with a private key
  verifies under its public key.\<close>

definition crypto_laws :: "crypto_ops \<Rightarrow> bool" where
  "crypto_laws C \<longleftrightarrow>
     (\<forall>b. length (sum256 C b) = sha256_Len) \<and>
     (\<forall>k. length (prv_serialize C k) = PrvKeyLen) \<and>
     (\<forall>p. length (pub_compressed C p) = PubKeyLen) \<and>
     (\<forall>a b. shared_secret C a (prv_pub C b) = shared_secret C b (prv_pub C a)) \<and>
     (\<forall>k h sg. schnorr_sign C k h = Inr sg \<longrightarrow>
        length sg = SigLen \<and> schnorr_verify C (prv_pub C k) h sg = Inr True)"

text \<open>A key that survives serialisation: for public keys, a point on the curve; for private
  keys, a scalar below the group order.\<close>

definition valid_pub :: "crypto_ops \<Rightarrow> pub \<Rightarrow> bool" where
  "valid_pub C p \<longleftrightarrow> pub_parse C (pub_compressed C p) = Some p"

definition valid_prv :: "crypto_ops \<Rightarrow> prv \<Rightarrow> bool" where
  "valid_prv C k \<longleftrightarrow> prv_from_bytes C (prv_serialize C k) = k"

lemma crypto_laws_lengths [simp]:
  assumes "crypto_laws C"
  shows "length (sum256 C b) = 32" and "length (prv_serialize C k) = 32"
    and "length (pub_compressed C p) = 33"
  using assms unfolding crypto_laws_def crypto_lens by blast+

lemma crypto_laws_ecdh:
  "crypto_laws C \<Longrightarrow> shared_secret C a (prv_pub C b) = shared_secret C b (prv_pub C a)"
  unfolding crypto_laws_def by blast

lemma crypto_laws_sign:
  assumes "crypto_laws C" and "schnorr_sign C k h = Inr sg"
  shows "length sg = 64" and "schnorr_verify C (prv_pub C k) h sg = Inr True"
  using assms unfolding crypto_laws_def crypto_lens by blast+

section \<open>sha256\<close>

definition Single :: "crypto_ops \<Rightarrow> bytes \<Rightarrow> bytes" where
  "Single C b = sum256 C b"

definition Double :: "crypto_ops \<Rightarrow> bytes \<Rightarrow> bytes" where
  "Double C b = (let h = Single C b in Single C h)"

text \<open>\<^verbatim>\<open>Zero(h Hash)\<close> receives the array by value and overwrites its own copy; what the caller
  holds afterwards is the result of the model: the pair of the callee's and the caller's array.\<close>

definition zero_hash :: bytes where
  "zero_hash = replicate sha256_Len 0"

definition sha256_Zero :: "bytes \<Rightarrow> bytes \<times> bytes" where
  "sha256_Zero h = (copy_to h zero_hash, h)"

section \<open>nonce\<close>

record id_state =
  counter :: u16
  seed :: bytes

definition reseed :: "bytes \<Rightarrow> id_state \<Rightarrow> id_state" where
  "reseed rand st = st\<lparr>seed := copy_to (seed st) rand, counter := counter st + 1\<rparr>"

definition NewID :: "crypto_ops \<Rightarrow> bytes \<Rightarrow> id_state \<Rightarrow> bytes \<times> id_state" where
  "NewID C rand st =
     (let st1 = (if counter st = 0 then reseed rand st else st);
          s = Single C (seed st1);
          sd = copy_to (seed st1) s
      in (take IDLen sd, st1\<lparr>seed := sd, counter := counter st1 + 1\<rparr>))"

section \<open>Keys, cloaks and key sets\<close>

record keys =
  kPub :: pub
  kBytes :: bytes
  kPrv :: prv

definition DerivePub :: "crypto_ops \<Rightarrow> prv option \<Rightarrow> pub option" where
  "DerivePub C p = map_option (prv_pub C) p"

definition Prv_ToBytes :: "crypto_ops \<Rightarrow> prv \<Rightarrow> bytes" where
  "Prv_ToBytes C p = copy_to (replicate PrvKeyLen 0) (take PrvKeyLen (prv_serialize C p))"

definition Pub_ToBytes :: "crypto_ops \<Rightarrow> pub \<Rightarrow> bytes" where
  "Pub_ToBytes C k = copy_to (replicate PubKeyLen 0) (pub_compressed C k)"

definition PubFromBytes :: "crypto_ops \<Rightarrow> bytes \<Rightarrow> pub res" where
  "PubFromBytes C b = (case pub_parse C b of None \<Rightarrow> Inl (Error ''invalid public key'')
                       | Some p \<Rightarrow> Inr p)"

definition PrvKeyFromBytes :: "crypto_ops \<Rightarrow> bytes \<Rightarrow> prv" where
  "PrvKeyFromBytes C b = prv_from_bytes C b"

definition MakeKeys :: "crypto_ops \<Rightarrow> prv \<Rightarrow> keys" where
  "MakeKeys C pr = (let pubkey = prv_pub C pr
                    in \<lparr>kPub = pubkey, kBytes = Pub_ToBytes C pubkey, kPrv = pr\<rparr>)"

definition GenerateKeys :: "crypto_ops \<Rightarrow> prv res \<Rightarrow> keys res" where
  "GenerateKeys C gen = rbind gen (\<lambda>p. let k = prv_pub C p
      in Inr \<lparr>kPub = k, kBytes = Pub_ToBytes C k, kPrv = p\<rparr>)"

definition Generate2Keys :: "crypto_ops \<Rightarrow> prv res \<Rightarrow> prv res \<Rightarrow> (keys \<times> keys) res" where
  "Generate2Keys C gen1 gen2 =
     rbind (GenerateKeys C gen1) (\<lambda>one. rbind (GenerateKeys C gen2) (\<lambda>two. Inr (one, two)))"

definition Cloak :: "crypto_ops \<Rightarrow> bytes \<Rightarrow> bytes \<Rightarrow> bytes" where
  "Cloak C b key =
     (let h = Single C (b @ key);
          c = replicate CloakLen 0;
          c1 = copy_to (take BlindLen c) (take BlindLen b) @ drop BlindLen c
      in take BlindLen c1 @ copy_to (drop BlindLen c1) (take HashLen h))"

definition GetCloak :: "crypto_ops \<Rightarrow> bytes \<Rightarrow> pub \<Rightarrow> bytes" where
  "GetCloak C rand s = Cloak C (copy_to (replicate BlindLen 0) rand) (Pub_ToBytes C s)"

definition Match :: "crypto_ops \<Rightarrow> bytes \<Rightarrow> bytes \<Rightarrow> bool" where
  "Match C r k = (let b = copy_to (replicate BlindLen 0) (take BlindLen r);
                      hash = Cloak C b k
                  in r = hash)"

record keyset =
  Base :: prv
  Increment :: prv

definition Next :: "crypto_ops \<Rightarrow> keyset \<Rightarrow> prv \<times> keyset" where
  "Next C ks = (let next = scalar_add C (Base ks) (Increment ks)
                in (next, ks\<lparr>Base := next\<rparr>))"

fun NextN :: "crypto_ops \<Rightarrow> nat \<Rightarrow> keyset \<Rightarrow> prv list \<times> keyset" where
  "NextN C 0 ks = ([], ks)"
| "NextN C (Suc n) ks =
     (let (k, ks1) = Next C ks; (kt, ks2) = NextN C n ks1 in (k # kt, ks2))"

definition Next2 :: "crypto_ops \<Rightarrow> keyset \<Rightarrow> prv list \<times> keyset" where
  "Next2 C ks = NextN C 2 ks"

definition Next3 :: "crypto_ops \<Rightarrow> keyset \<Rightarrow> prv list \<times> keyset" where
  "Next3 C ks = NextN C 3 ks"

definition NewSigner :: "prv res \<Rightarrow> prv res \<Rightarrow> (prv \<times> keyset) res" where
  "NewSigner gen1 gen2 = rbind gen1 (\<lambda>b. rbind gen2 (\<lambda>i.
      Inr (b, \<lparr>Base = b, Increment = i\<rparr>)))"

definition ComputeSharedSecret :: "crypto_ops \<Rightarrow> prv \<Rightarrow> pub \<Rightarrow> bytes" where
  "ComputeSharedSecret C prv pub = Single C (shared_secret C prv pub)"

definition GenCiphers :: "crypto_ops \<Rightarrow> prv list \<Rightarrow> pub list \<Rightarrow> bytes list" where
  "GenCiphers C prvs pubs = map2 (ComputeSharedSecret C) prvs pubs"

section \<open>Signatures and comparison\<close>

definition Prv_Sign :: "crypto_ops \<Rightarrow> prv \<Rightarrow> bytes \<Rightarrow> bytes res" where
  "Prv_Sign C p bs =
     (case schnorr_sign C p (Single C bs) of
        Inl _ \<Rightarrow> Inl (Panic ''nil pointer dereference'')
      | Inr sg \<Rightarrow> Inr (copy_to (replicate SigLen 0) sg))"

definition Pub_Verify :: "crypto_ops \<Rightarrow> pub \<Rightarrow> bytes \<Rightarrow> bytes \<Rightarrow> bool res" where
  "Pub_Verify C k data sigBytes = schnorr_verify C k (Single C data) sigBytes"

text \<open>\<^verbatim>\<open>MatchesPubkey\<close> logs an error of the verification and then reports no match.\<close>

definition MatchesPubkey :: "crypto_ops \<Rightarrow> bytes \<Rightarrow> bytes \<Rightarrow> pub option \<Rightarrow> bool res" where
  "MatchesPubkey C sb data pk =
     (case pk of
        None \<Rightarrow> Inl (Panic ''nil pointer dereference'')
      | Some k \<Rightarrow> Inr (case Pub_Verify C k data sb of Inl _ \<Rightarrow> False | Inr m \<Rightarrow> m))"

definition crypto_Sign :: "crypto_ops \<Rightarrow> prv \<Rightarrow> bytes \<Rightarrow> bytes" where
  "crypto_Sign C prv hash = copy_to (replicate SigLen 0) (ecdsa_compact C prv hash)"

definition Pub_Equals :: "crypto_ops \<Rightarrow> pub \<Rightarrow> pub \<Rightarrow> bool" where
  "Pub_Equals C k key = (Pub_ToBytes C key = Pub_ToBytes C k)"

definition Prv_Equals :: "crypto_ops \<Rightarrow> prv \<Rightarrow> prv \<Rightarrow> bool" where
  "Prv_Equals C k key = (Prv_ToBytes C key = Prv_ToBytes C k)"

section \<open>ciph: AES in counter mode\<close>

text \<open>The counter block is a big-endian number that is incremented per block and wraps around.\<close>

fun ctr_inc_rev :: "bytes \<Rightarrow> bytes" where
  "ctr_inc_rev [] = []"
| "ctr_inc_rev (b # bs) = (if b + 1 = 0 then 0 # ctr_inc_rev bs else (b + 1) # bs)"

definition ctr_inc :: "bytes \<Rightarrow> bytes" where
  "ctr_inc iv = rev (ctr_inc_rev (rev iv))"

definition keystream :: "(bytes \<Rightarrow> bytes) \<Rightarrow> bytes \<Rightarrow> nat \<Rightarrow> byte" where
  "keystream blk iv i = (let e = blk ((ctr_inc ^^ (i div 16)) iv) in
      if i mod 16 < length e then e ! (i mod 16) else 0)"

definition XORKeyStream :: "(bytes \<Rightarrow> bytes) \<Rightarrow> bytes \<Rightarrow> bytes \<Rightarrow> bytes" where
  "XORKeyStream blk iv b = map (\<lambda>i. (b ! i) XOR keystream blk iv i) [0..<length b]"

definition BlockFromHash :: "crypto_ops \<Rightarrow> bytes \<Rightarrow> (bytes \<Rightarrow> bytes) option" where
  "BlockFromHash C h = Some (aes_block C h)"

definition GetBlock :: "crypto_ops \<Rightarrow> prv \<Rightarrow> pub \<Rightarrow> (bytes \<Rightarrow> bytes) option" where
  "GetBlock C from to = (let secret = ComputeSharedSecret C from to in Some (aes_block C secret))"

definition Encipher :: "(bytes \<Rightarrow> bytes) option \<Rightarrow> bytes \<Rightarrow> bytes \<Rightarrow> bytes res" where
  "Encipher blk n b =
     (case blk of
        None \<Rightarrow> Inl (Panic ''Encipher called without a block cipher provided'')
      | Some e \<Rightarrow> Inr (XORKeyStream e n b))"

section \<open>Lemmas\<close>

lemma Single_length [simp]: "crypto_laws C \<Longrightarrow> length (Single C b) = 32"
  by (simp add: Single_def)

lemma length_ComputeSharedSecret [simp]: "crypto_laws C \<Longrightarrow> length (ComputeSharedSecret C a p) = 32"
  by (simp add: ComputeSharedSecret_def)

lemma length_Prv_ToBytes [simp]: "length (Prv_ToBytes C k) = 32"
  by (simp add: Prv_ToBytes_def)

lemma length_Pub_ToBytes [simp]: "length (Pub_ToBytes C k) = 33"
  by (simp add: Pub_ToBytes_def)

lemma Pub_ToBytes_eq: "crypto_laws C \<Longrightarrow> Pub_ToBytes C k = pub_compressed C k"
  by (simp add: Pub_ToBytes_def)

lemma Prv_ToBytes_eq: "crypto_laws C \<Longrightarrow> Prv_ToBytes C k = prv_serialize C k"
  by (simp add: Prv_ToBytes_def)

lemma PubFromBytes_ToBytes [simp]:
  "crypto_laws C \<Longrightarrow> valid_pub C p \<Longrightarrow> PubFromBytes C (Pub_ToBytes C p) = Inr p"
  by (simp add: PubFromBytes_def Pub_ToBytes_eq valid_pub_def)

lemma PrvKeyFromBytes_ToBytes [simp]:
  "crypto_laws C \<Longrightarrow> valid_prv C k \<Longrightarrow> PrvKeyFromBytes C (Prv_ToBytes C k) = k"
  by (simp add: PrvKeyFromBytes_def Prv_ToBytes_eq valid_prv_def)

lemma length_Cloak [simp]: "length (Cloak C b key) = 8"
  by (simp add: Cloak_def Let_def)

lemma Cloak_eq:
  assumes "crypto_laws C" and "length b = 4"
  shows "Cloak C b key = b @ take 4 (Single C (b @ key))"
  using assms by (simp add: Cloak_def Let_def)

lemma length_GetCloak [simp]: "length (GetCloak C r s) = 8"
  by (simp add: GetCloak_def)

lemma Match_iff:
  assumes "crypto_laws C"
  shows "Match C r k \<longleftrightarrow> length r = 8 \<and> drop 4 r = take 4 (Single C (take 4 r @ k))"
proof (cases "length r = 8")
  case True
  then have b: "copy_to (replicate 4 0) (take 4 r) = take 4 r" by simp
  have "Match C r k \<longleftrightarrow> r = take 4 r @ take 4 (Single C (take 4 r @ k))"
    using True assms by (simp add: Match_def Let_def b Cloak_eq)
  also have "\<dots> \<longleftrightarrow> drop 4 r = take 4 (Single C (take 4 r @ k))"
    by (metis append_take_drop_id same_append_eq)
  finally show ?thesis using True by simp
next
  case False
  then have "r \<noteq> Cloak C b k" for b
    using length_Cloak [of C b k] by metis
  then show ?thesis using False by (simp add: Match_def Let_def)
qed

lemma Match_GetCloak:
  assumes "crypto_laws C"
  shows "Match C (GetCloak C blind p) (Pub_ToBytes C p)"
proof -
  let ?b = "copy_to (replicate 4 0) blind"
  have "GetCloak C blind p = ?b @ take 4 (Single C (?b @ Pub_ToBytes C p))"
    using assms by (simp add: GetCloak_def Cloak_eq)
  then show ?thesis using assms by (simp add: Match_iff)
qed

lemma NextN_iterates:
  "NextN C n ks =
     (map (\<lambda>i. ((\<lambda>b. scalar_add C b (Increment ks)) ^^ Suc i) (Base ks)) [0..<n],
      ks\<lparr>Base := ((\<lambda>b. scalar_add C b (Increment ks)) ^^ n) (Base ks)\<rparr>)"
proof (induction n arbitrary: ks)
  case 0
  then show ?case by simp
next
  case (Suc n)
  let ?f = "\<lambda>b. scalar_add C b (Increment ks)"
  have "NextN C n (ks\<lparr>Base := ?f (Base ks)\<rparr>)
      = (map (\<lambda>i. (?f ^^ Suc i) (?f (Base ks))) [0..<n],
         ks\<lparr>Base := (?f ^^ n) (?f (Base ks))\<rparr>)"
    by (simp add: Suc.IH)
  moreover have "(?f ^^ k) (?f x) = ?f ((?f ^^ k) x)" for k x
    using funpow_swap1 [of ?f k x] by simp
  ultimately show ?case
    by (simp add: Next_def Let_def upt_conv_Cons map_Suc_upt [symmetric] del: upt_Suc)
qed

lemma length_XORKeyStream [simp]: "length (XORKeyStream e n b) = length b"
  by (simp add: XORKeyStream_def)

lemma XORKeyStream_nth:
  "i < length b \<Longrightarrow> XORKeyStream e n b ! i = b ! i XOR keystream e n i"
  by (simp add: XORKeyStream_def)

lemma XORKeyStream_involutive [simp]: "XORKeyStream e n (XORKeyStream e n b) = b"
  by (rule nth_equalityI) (simp_all add: XORKeyStream_nth xor.assoc)

lemma XORKeyStream_commute:
  "XORKeyStream e n (XORKeyStream e' n' b) = XORKeyStream e' n' (XORKeyStream e n b)"
  by (rule nth_equalityI) (simp_all add: XORKeyStream_nth xor.assoc xor.commute xor.left_commute)

lemma Encipher_Some [simp]: "Encipher (Some e) n b = Inr (XORKeyStream e n b)"
  by (simp add: Encipher_def)

lemma GetBlock_symmetric:
  "crypto_laws C \<Longrightarrow> GetBlock C a (prv_pub C b) = GetBlock C b (prv_pub C a)"
  by (simp add: GetBlock_def ComputeSharedSecret_def crypto_laws_ecdh [of C a b])

lemma Prv_Sign_verifies:
  assumes "crypto_laws C" and "Prv_Sign C k bs = Inr sg"
  shows "length sg = 64" and "MatchesPubkey C sg bs (Some (prv_pub C k)) = Inr True"
proof -
  from assms(2) obtain g where g: "schnorr_sign C k (Single C bs) = Inr g"
    "sg = copy_to (replicate SigLen 0) g"
    by (auto simp: Prv_Sign_def split: sum.splits)
  with crypto_laws_sign [OF assms(1)] have "sg = g" by simp
  with g crypto_laws_sign [OF assms(1)]
  show "length sg = 64" and "MatchesPubkey C sg bs (Some (prv_pub C k)) = Inr True"
    by (auto simp: MatchesPubkey_def Pub_Verify_def)
qed

lemma NewID_counter:
  "counter (snd (NewID C r st)) = (if counter st = 0 then 2 else counter st + 1)"
  by (simp add: NewID_def Let_def reseed_def)

lemma NewID_no_reseed:
  assumes "counter st \<noteq> 0"
  shows "NewID C r st = NewID C r' st"
  using assms by (simp add: NewID_def Let_def)

section \<open>A concrete instance of the primitives\<close>

text \<open>A small instance that satisfies the laws, on which witnesses are evaluated: digests and
  keys are padded or folded byte strings, private keys are 8-bit scalars.\<close>

definition fold_bytes :: "bytes \<Rightarrow> byte" where
  "fold_bytes b = foldr (\<lambda>x a. x + 3 * a + 1) b 0"

definition demo_ops :: crypto_ops where
  "demo_ops = \<lparr>
     sum256 = (\<lambda>b. replicate 32 (fold_bytes b)),
     aes_block = (\<lambda>k n. map (\<lambda>x. x + fold_bytes k) (replicate 16 (fold_bytes n))),
     shared_secret = (\<lambda>k p. replicate 32 (ucast (prv_key k) * ucast (pub_x p))),
     prv_pub = (\<lambda>k. Pub (ucast (ucast (prv_key k) :: byte)) 0),
     prv_serialize = (\<lambda>k. replicate 31 0 @ [ucast (prv_key k)]),
     prv_from_bytes = (\<lambda>b. Prv (ucast (last b))),
     pub_compressed = (\<lambda>p. 2 # replicate 31 0 @ [ucast (pub_x p)]),
     pub_parse = (\<lambda>b. if length b = 33 \<and> hd b = 2 then Some (Pub (ucast (last b)) 0) else None),
     scalar_add = (\<lambda>a b. Prv (prv_key a + prv_key b)),
     schnorr_sign = (\<lambda>k h. Inr (replicate 32 (ucast (prv_key k)) @ replicate 32 (fold_bytes h))),
     schnorr_verify = (\<lambda>p h sg. Inr (sg = replicate 32 (ucast (pub_x p)) @ replicate 32 (fold_bytes h))),
     ecdsa_compact = (\<lambda>k h. replicate 65 (ucast (prv_key k)))\<rparr>"

lemma ucast_byte_256 [simp]: "(ucast (ucast (b :: byte) :: 256 word) :: byte) = b"
  by (rule bit_word_eqI) (auto simp: bit_simps)

lemma demo_ops_laws [simp]: "crypto_laws demo_ops"
  by (simp add: crypto_laws_def demo_ops_def mult.commute)

lemma demo_valid_pub [simp]: "valid_pub demo_ops (Pub (ucast (b :: byte)) 0)"
  by (simp add: valid_pub_def demo_ops_def)

lemma demo_valid_prv [simp]: "valid_prv demo_ops (Prv (ucast (b :: byte)))"
  by (simp add: valid_prv_def demo_ops_def)

end
