(* ===== verification/Slice_Util.thy ===== *)
theory Slice_Util
  imports Crypto
begin

unbundle bit_operations_syntax

text \<open>
  Package \<^verbatim>\<open>pkg/util/slice\<close>: length-prefix integers, concatenation and cutting, hash-chain
  noise padding, splitting a message into equal segments, and the 64-bit view of a byte
  slice used for fast XOR. A slice that a function writes through is returned updated.
\<close>

section \<open>Integers\<close>

definition Uint64Len :: nat where "Uint64Len = 8"
definition Uint32Len :: nat where "Uint32Len = 4"
definition Uint24Len :: nat where "Uint24Len = 3"
definition Uint16Len :: nat where "Uint16Len = 2"

lemmas uint_lens [simp] = Uint64Len_def Uint32Len_def Uint24Len_def Uint16Len_def

definition DecodeUint16 :: "bytes \<Rightarrow> int res" where
  "DecodeUint16 b = (if length b < 2 then Inl index_panic
                     else Inr (uint (le_word (take 2 b) :: u16)))"

text \<open>\<^verbatim>\<open>append(b[:3], 0)\<close> writes into the backing array when the capacity allows it, so the fourth
  byte of the caller's slice is cleared; the slice comes back beside the value.\<close>

definition DecodeUint24 :: "bytes \<Rightarrow> (int \<times> bytes) res" where
  "DecodeUint24 b =
     rbind (slice_expr b 0 (int Uint24Len)) (\<lambda>u.
       Inr (uint (le_word (u @ [0]) :: u32),
            if length b > Uint24Len then b[Uint24Len := 0] else b))"

definition DecodeUint32 :: "bytes \<Rightarrow> int res" where
  "DecodeUint32 b = (if length b < 4 then Inl index_panic
                     else Inr (uint (le_word (take 4 b) :: u32)))"

definition DecodeUint64 :: "bytes \<Rightarrow> u64 res" where
  "DecodeUint64 b = (if length b < 8 then Inl index_panic else Inr (le_word (take 8 b)))"

definition EncodeUint16 :: "bytes \<Rightarrow> int \<Rightarrow> bytes res" where
  "EncodeUint16 b n = (if length b < 2 then Inl index_panic
                       else Inr (copy_to b (le_bytes 2 (word_of_int n :: u16))))"

definition EncodeUint24 :: "bytes \<Rightarrow> int \<Rightarrow> bytes" where
  "EncodeUint24 b n = copy_to b (take Uint24Len (le_bytes 4 (word_of_int n :: u32)))"

definition EncodeUint32 :: "bytes \<Rightarrow> int \<Rightarrow> bytes res" where
  "EncodeUint32 b n = (if length b < 4 then Inl index_panic
                       else Inr (copy_to b (le_bytes 4 (word_of_int n :: u32))))"

definition EncodeUint64 :: "bytes \<Rightarrow> u64 \<Rightarrow> bytes res" where
  "EncodeUint64 b n = (if length b < 8 then Inl index_panic
                       else Inr (copy_to b (le_bytes 8 n)))"

section \<open>Concatenation, cutting, zeroing\<close>

fun SumLen :: "bytes list \<Rightarrow> nat" where
  "SumLen [] = 0"
| "SumLen (c # cs) = length c + SumLen cs"

definition Cat :: "bytes list \<Rightarrow> bytes" where
  "Cat chunks = foldl (\<lambda>pkt c. pkt @ c) [] chunks"

definition Cut :: "'a list \<Rightarrow> int \<Rightarrow> ('a list \<times> 'a list) res" where
  "Cut b l = rbind (slice_expr b 0 l) (\<lambda>seg.
             rbind (slice_expr b l (int (length b))) (\<lambda>rem. Inr (seg, rem)))"

definition Bytes_Zero :: "bytes \<Rightarrow> bytes" where
  "Bytes_Zero b = map (\<lambda>_. 0) b"

section \<open>Noise padding\<close>

text \<open>The loop of \<^verbatim>\<open>NoisePad\<close>: each pass hashes the seed and copies up to 32 bytes of it.\<close>

function noise_loop :: "crypto_ops \<Rightarrow> nat \<Rightarrow> nat \<Rightarrow> bytes \<Rightarrow> bytes \<Rightarrow> bytes" where
  "noise_loop C l cursor sd noise =
     (if cursor < l then
        (let e = (if cursor + sha256_Len > l then l else cursor + sha256_Len);
             sd' = Single C sd;
             noise' = take cursor noise
                      @ copy_to (take (e - cursor) (drop cursor noise)) (take (e - cursor) sd')
                      @ drop e noise
         in noise_loop C l e sd' noise')
      else noise)"
  by pat_completeness auto
termination
  by (relation "measure (\<lambda>(C, l, cursor, sd, noise). l - cursor)") (auto simp: Let_def)

declare noise_loop.simps [simp del]

text \<open>\<open>rand\<close> is what the system's random source delivered: None when it failed.\<close>

definition NoisePad :: "crypto_ops \<Rightarrow> bytes option \<Rightarrow> nat \<Rightarrow> bytes" where
  "NoisePad C rand l =
     (case rand of
        None \<Rightarrow> replicate l 0
      | Some r \<Rightarrow> noise_loop C l 0 (copy_to zero_hash r) (replicate l 0))"

section \<open>Segmenting a message\<close>

text \<open>\<^verbatim>\<open>for begin := 0; end < lb; begin += segmentSize\<close>. With a segment size of zero the loop
  never ends: its value is None.\<close>

partial_function (option) segment_loop ::
  "crypto_ops \<Rightarrow> bytes option \<Rightarrow> bytes \<Rightarrow> int \<Rightarrow> int \<Rightarrow> int \<Rightarrow> bytes list \<Rightarrow> bytes list res option" where
  "segment_loop C rand b segmentSize begn en segs =
     (if en < int (length b) then
        (let en' = begn + segmentSize in
         if en' > int (length b) then
           (case slice_expr b begn (int (length b)) of
              Inl e \<Rightarrow> Some (Inl e)
            | Inr d \<Rightarrow> segment_loop C rand b segmentSize (begn + segmentSize) en'
                        (segs @ [d @ NoisePad C rand (nat (en' - int (length b)))]))
         else
           (case slice_expr b begn en' of
              Inl e \<Rightarrow> Some (Inl e)
            | Inr d \<Rightarrow> segment_loop C rand b segmentSize (begn + segmentSize) en' (segs @ [d])))
      else Some (Inr segs))"

definition Segment :: "crypto_ops \<Rightarrow> bytes option \<Rightarrow> bytes \<Rightarrow> int \<Rightarrow> bytes list res option" where
  "Segment C rand b segmentSize = segment_loop C rand b segmentSize 0 0 []"

section \<open>The 64-bit view of a byte slice\<close>

type_synonym u64slice = "u64 list"

fun words_of :: "nat \<Rightarrow> bytes \<Rightarrow> u64 list" where
  "words_of 0 b = []"
| "words_of (Suc n) b = le_word (take 8 b) # words_of n (drop 8 b)"

text \<open>\<^verbatim>\<open>ToU64Slice\<close> appends \<^verbatim>\<open>8-mMod+8\<close> zero bytes, views the memory as \<^verbatim>\<open>uLen\<close> little-endian
  words and appends the byte length; \<^verbatim>\<open>ToMessage\<close> views that memory as bytes again.\<close>

definition ToU64Slice :: "bytes \<Rightarrow> u64slice" where
  "ToU64Slice b =
     (let mLen = length b;
          mMod = mLen mod 8;
          uLen = (if mMod \<noteq> 0 then mLen div 8 + 1 else mLen div 8);
          padded = b @ replicate (8 - mMod + 8) 0
      in words_of uLen padded @ [word_of_nat mLen])"

definition ToMessage :: "u64slice \<Rightarrow> bytes res" where
  "ToMessage u = rbind (index_expr u (int (length u) - 1)) (\<lambda>l.
      Inr (take (unat l) (concat (map (le_bytes 8) u))))"

definition U64Slice_XOR :: "u64slice \<Rightarrow> u64slice \<Rightarrow> u64slice res" where
  "U64Slice_XOR u v =
     rbind (index_expr u (int (length u) - 1)) (\<lambda>lu.
     rbind (index_expr v (int (length v) - 1)) (\<lambda>lv.
       if lu \<noteq> lv then Inl (Panic ''programmer error, trying to XOR slices of different size'')
       else if length v < length u - 1 then Inl index_panic
       else Inr (map (\<lambda>i. if i < length u - 1 then (u ! i) XOR (v ! i) else u ! i) [0..<length u])))"

definition U64Slice_Zero :: "u64slice \<Rightarrow> u64slice res" where
  "U64Slice_Zero u = rbind (slice_expr u 0 (int (length u) - 1)) (\<lambda>h.
      Inr (map (\<lambda>_. 8) h @ drop (length u - 1) u))"

section \<open>Lemmas\<close>

lemma DecodeUint16_le [simp]: "DecodeUint16 (le_bytes 2 (v :: u16)) = Inr (uint v)"
  by (simp add: DecodeUint16_def le_word_le_bytes)

lemma DecodeUint32_le [simp]: "DecodeUint32 (le_bytes 4 (v :: u32)) = Inr (uint v)"
  by (simp add: DecodeUint32_def le_word_le_bytes)

lemma DecodeUint64_le [simp]: "DecodeUint64 (le_bytes 8 v) = Inr v"
  by (simp add: DecodeUint64_def le_word_le_bytes)

lemma Cat_concat [simp]: "Cat chunks = concat chunks"
proof -
  have "foldl (\<lambda>pkt c. pkt @ c) a cs = a @ concat cs" for a :: bytes and cs
    by (induction cs arbitrary: a) auto
  then show ?thesis by (simp add: Cat_def)
qed

lemma SumLen_length_concat: "SumLen chunks = length (concat chunks)"
  by (induction chunks) auto

lemma Cut_append [simp]: "length a = n \<Longrightarrow> Cut (a @ r) (int n) = Inr (a, r)"
  by (auto simp: Cut_def slice_expr_def)

lemma noise_loop_length: "length (noise_loop C l cursor sd noise) = length noise"
proof (induction C l cursor sd noise rule: noise_loop.induct)
  case (1 C l cursor sd noise)
  then show ?case
    by (subst noise_loop.simps) (auto simp: Let_def)
qed

lemma NoisePad_length [simp]: "length (NoisePad C rand l) = l"
  by (simp add: NoisePad_def noise_loop_length split: option.splits)

text \<open>Number of segments a positive segment size gives.\<close>

definition seg_count :: "nat \<Rightarrow> nat \<Rightarrow> nat" where
  "seg_count lb ss = (lb + ss - 1) div ss"

lemma segment_loop_done:
  "int (length b) \<le> en \<Longrightarrow> segment_loop C rand b ss begn en segs = Some (Inr segs)"
  by (subst segment_loop.simps) simp

text \<open>The loop from position \<open>i\<close>: the remaining bytes, chunked, the last chunk padded.\<close>

lemma segment_loop_result:
  assumes "0 < ss" and "i \<le> length b"
  shows "\<exists>out. segment_loop C rand b (int ss) (int i) (int i) segs = Some (Inr (segs @ out)) \<and>
           (\<exists>pad. concat out = drop i b @ pad \<and> length pad < ss) \<and>
           (\<forall>x\<in>set out. length x = ss)"
  using assms
proof (induction "length b - i" arbitrary: i segs rule: less_induct)
  case less
  consider (finished) "i = length b" | (short) "i < length b" "length b < i + ss"
    | (full) "i + ss \<le> length b" "i < length b"
    using less.prems by linarith
  then show ?case
  proof cases
    case finished
    then show ?thesis using less.prems by (auto simp: segment_loop_done intro!: exI [of _ "[]"])
  next
    case short
    let ?d = "drop i b @ NoisePad C rand (i + ss - length b)"
    have "slice_expr b (int i) (int (length b)) = Inr (drop i b)"
      using short by (simp add: slice_expr_def)
    moreover have "nat (int i + int ss - int (length b)) = i + ss - length b" by linarith
    ultimately have "segment_loop C rand b (int ss) (int i) (int i) segs = Some (Inr (segs @ [?d]))"
      using short by (subst segment_loop.simps) (simp add: Let_def segment_loop_done)
    moreover have "i + ss - length b < ss" using short by linarith
    ultimately show ?thesis using short by (intro exI [of _ "[?d]"]) auto
  next
    case full
    let ?d = "take ss (drop i b)"
    have sl: "slice_expr b (int i) (int i + int ss) = Inr ?d"
      using full by (simp add: slice_expr_def)
    obtain out where out:
      "segment_loop C rand b (int ss) (int (i + ss)) (int (i + ss)) (segs @ [?d])
         = Some (Inr ((segs @ [?d]) @ out))"
      "\<exists>pad. concat out = drop (i + ss) b @ pad \<and> length pad < ss"
      "\<forall>x\<in>set out. length x = ss"
      using less.hyps [of "i + ss" "segs @ [?d]"] less.prems full by fastforce
    have "segment_loop C rand b (int ss) (int i) (int i) segs = Some (Inr (segs @ ?d # out))"
      using full out(1) by (subst segment_loop.simps) (simp add: Let_def sl)
    moreover have "?d @ drop (i + ss) b = drop i b"
      by (metis add.commute append_take_drop_id drop_drop)
    ultimately show ?thesis
      using out(2,3) full by (intro exI [of _ "?d # out"]) (auto simp: append_assoc [symmetric] simp del: append_assoc)
  qed
qed

lemma concat_uniform_length: "\<forall>x\<in>set xs. length x = n \<Longrightarrow> length (concat xs) = length xs * n"
  by (induction xs) auto

lemma words_of_bytes:
  assumes "8 * n \<le> length b"
  shows "concat (map (le_bytes 8) (words_of n b)) = take (8 * n) b"
  using assms
proof (induction n arbitrary: b)
  case 0
  then show ?case by simp
next
  case (Suc n)
  then have "le_bytes 8 (le_word (take 8 b) :: u64) = take 8 b"
    by (intro le_bytes_le_word) auto
  moreover have "concat (map (le_bytes 8) (words_of n (drop 8 b))) = take (8 * n) (drop 8 b)"
    using Suc by simp
  moreover have "take 8 b @ take (8 * n) (drop 8 b) = take (8 * Suc n) b"
    by (simp add: take_add [symmetric])
  ultimately show ?case by simp
qed

lemma length_words_of [simp]: "length (words_of n b) = n"
  by (induction n arbitrary: b) auto

end
