(* ===== verification/Packet.thy ===== *)
theory Packet
  imports Slice_Util
begin

unbundle bit_operations_syntax

text \<open>
  Package \<^verbatim>\<open>pkg/engine/packet\<close>: the encrypted packet frame (\<^verbatim>\<open>packet.go\<close>), the plan that cuts
  a message into sections of data and parity segments (\<^verbatim>\<open>segcalc.go\<close>), splitting a message into
  packets and joining the received ones (\<^verbatim>\<open>segment.go\<close>). The Reed-Solomon coder is a package
  outside the repository: the parameter \<open>rs_ops\<close> with the laws \<open>rs_laws\<close>. Random bytes and the
  clock are arguments.
\<close>

section \<open>Packets\<close>

definition Overhead :: nat where
  "Overhead = 4 + PubKeyLen + CloakLen + IVLen"

lemma Overhead_val [simp]: "Overhead = 61"
  by (simp add: Overhead_def)

record packet_params =
  ppID :: bytes
  ppTo :: pub
  ppFrom :: prv
  ppParity :: int
  ppSeq :: int
  ppLength :: int
  ppData :: bytes

record packet =
  pID :: bytes
  pSeq :: u16
  pLength :: u32
  pParity :: byte
  pData :: bytes
  pTime :: int

definition PacketParams_GetOverhead :: "packet_params \<Rightarrow> nat" where
  "PacketParams_GetOverhead ep = Overhead + IDLen + 7"

definition Packet_GetOverhead :: "packet \<Rightarrow> nat" where
  "Packet_GetOverhead p = Overhead"

definition Packets_Less :: "packet \<Rightarrow> packet \<Rightarrow> bool" where
  "Packets_Less a b = (pSeq a < pSeq b)"

text \<open>\<^verbatim>\<open>copy(pkt[*c:c.Inc(n)], v)\<close> on the pair of the buffer and the cursor.\<close>

definition put_at :: "nat \<Rightarrow> bytes \<Rightarrow> bytes \<times> int \<Rightarrow> (bytes \<times> int) res" where
  "put_at n v bc = (case bc of (b, c) \<Rightarrow>
     rbind (copy_range b c (c + int n) v) (\<lambda>b'. Inr (b', c + int n)))"

definition EncodePacket ::
  "crypto_ops \<Rightarrow> bytes \<Rightarrow> bytes \<Rightarrow> packet_params \<Rightarrow> bytes res" where
  "EncodePacket C nonc blind ep =
     (let blk = GetBlock C (ppFrom ep) (ppTo ep) in
      rbind (EncodeUint16 (replicate Uint16Len 0) (ppSeq ep)) (\<lambda>Seq.
      rbind (EncodeUint32 (replicate Uint32Len 0) (ppLength ep)) (\<lambda>Length.
      let pkt = replicate (SumLen [Seq, Length, ppData ep] + 1 + Overhead + IDLen) 0;
          k = Pub_ToBytes C (prv_pub C (ppFrom ep));
          cloaked = GetCloak C blind (ppTo ep) in
      rbind (put_at PubKeyLen k (pkt, 4)) (\<lambda>bc1.
      rbind (put_at CloakLen cloaked bc1) (\<lambda>bc2.
      rbind (put_at IVLen nonc bc2) (\<lambda>bc3.
      rbind (put_at IDLen (ppID ep) bc3) (\<lambda>bc4.
      rbind (put_at Uint16Len Seq bc4) (\<lambda>bc5.
      rbind (put_at Uint32Len Length bc5) (\<lambda>(b6, c6).
      rbind (set_index b6 c6 (word_of_int (ppParity ep))) (\<lambda>b7.
      rbind (copy_range b7 (c6 + 1) (int (length b7)) (ppData ep)) (\<lambda>b8.
      rbind (slice_expr b8 (int Overhead) (int (length b8))) (\<lambda>plain.
      rbind (Encipher blk nonc plain) (\<lambda>enc.
      let b9 = take Overhead b8 @ enc in
      rbind (slice_expr b9 4 (int (length b9))) (\<lambda>r.
        copy_range b9 0 4 (take 4 (Single C r))))))))))))))))"

definition GetKeysFromPacket :: "crypto_ops \<Rightarrow> bytes \<Rightarrow> (pub \<times> bytes \<times> bytes) res" where
  "GetKeysFromPacket C d =
     (if length d < Overhead then Inl (Error ''packet too small'')
      else
      rbind (slice_expr d 0 4) (\<lambda>chek.
      rbind (slice_expr d 4 (int (length d))) (\<lambda>r.
      if chek \<noteq> take 4 (Single C r) then Inl (Error ''check failed'')
      else
      rbind (slice_expr d 4 (4 + int PubKeyLen)) (\<lambda>kb.
      let k = copy_to (replicate PubKeyLen 0) kb in
      rbind (slice_expr d (4 + int PubKeyLen) (4 + int PubKeyLen + int CloakLen)) (\<lambda>tb.
      let to = copy_to (replicate CloakLen 0) tb in
      rbind (PubFromBytes C k) (\<lambda>from. Inr (from, to, replicate IVLen 0)))))))"

text \<open>\<^verbatim>\<open>DecodePacket\<close> deciphers in place: the caller's slice comes back beside the packet. The
  argument \<open>iv\<close> is overwritten from the frame.\<close>

definition DecodePacket ::
  "crypto_ops \<Rightarrow> int \<Rightarrow> bytes \<Rightarrow> pub \<Rightarrow> prv \<Rightarrow> bytes \<Rightarrow> (packet \<times> bytes) res" where
  "DecodePacket C now d from to iv =
     (if length d < Overhead then Inl (Error ''packet too small'')
      else
      rbind (slice_expr d (int (4 + PubKeyLen + CloakLen))
               (int (4 + PubKeyLen + CloakLen) + int IVLen)) (\<lambda>ivb.
      let iv' = copy_to iv ivb;
          c = int (4 + PubKeyLen + CloakLen) + int IVLen;
          blk = GetBlock C to from in
      rbind (slice_expr d c (int (length d))) (\<lambda>data0.
      rbind (Encipher blk iv' data0) (\<lambda>data1.
      rbind (Cut data1 (int IDLen)) (\<lambda>(id, data2).
      rbind (Cut data2 (int Uint16Len)) (\<lambda>(seq, data3).
      rbind (DecodeUint16 seq) (\<lambda>sq.
      rbind (Cut data3 (int Uint32Len)) (\<lambda>(len, data4).
      rbind (DecodeUint32 len) (\<lambda>ln.
      rbind (index_expr data4 0) (\<lambda>par.
      rbind (slice_expr data4 1 (int (length data4))) (\<lambda>data5.
        Inr (\<lparr>pID = copy_to (replicate IDLen 0) id, pSeq = word_of_int sq,
              pLength = word_of_int ln, pParity = par, pData = data5, pTime = now\<rparr>,
             take (nat c) d @ data1))))))))))))"

section \<open>The segment plan\<close>

record segment =
  DStart :: int
  DEnd :: int
  PEnd :: int
  SLen :: int
  Last :: int

text \<open>The loop of \<^verbatim>\<open>NewSegments\<close> over the full sections.\<close>

fun full_sections :: "nat \<Rightarrow> int \<Rightarrow> int \<Rightarrow> int \<Rightarrow> int \<Rightarrow> segment list" where
  "full_sections 0 start sectsD segSize lst = []"
| "full_sections (Suc n) start sectsD segSize lst =
     \<lparr>DStart = start, DEnd = start + sectsD, PEnd = start + 256, SLen = segSize, Last = lst\<rparr>
     # full_sections n (start + 256) sectsD segSize lst"

definition NewSegments :: "int \<Rightarrow> int \<Rightarrow> int \<Rightarrow> int \<Rightarrow> segment list res" where
  "NewSegments payloadLen segmentSize overhead parity =
     (let segSize = segmentSize - overhead in
      rbind (go_div payloadLen segSize) (\<lambda>q.
      let nSegs = q + 1 in
      rbind (go_mod payloadLen segSize) (\<lambda>lastSeg.
      let sectsD = 256 - parity; sectsP = parity in
      rbind (go_div (nSegs * sectsP) sectsD) (\<lambda>r.
      let withR0 = nSegs + r;
          withR = (if withR0 = nSegs \<and> parity > 0 then withR0 + 1 else withR0) in
      rbind (go_div nSegs sectsD) (\<lambda>sects.
      rbind (go_mod nSegs sectsD) (\<lambda>lastSect.
      let lst = (if lastSect = 0 \<and> sects = 1 then lastSeg else segSize);
          s = (if sects > 0 then full_sections (nat sects) 0 sectsD segSize lst else []);
          start = (if sects > 0 then sects * 256 else 0) in
      if lastSect > 0 then
        let endD = start + lastSect;
            withR' = (if withR = endD \<and> parity > 0 then withR + 1 else withR)
        in Inr (s @ [\<lparr>DStart = start, DEnd = endD, PEnd = withR', SLen = segSize, Last = lastSeg\<rparr>])
      else Inr s))))))"

section \<open>Reed-Solomon parity\<close>

text \<open>\<^verbatim>\<open>reedsolomon.New\<close>, \<^verbatim>\<open>RS.Encode\<close> and \<^verbatim>\<open>RS.Reconst\<close> for \<open>d\<close> data and \<open>p\<close> parity shards.\<close>

record rs_ops =
  rs_new :: "int \<Rightarrow> int \<Rightarrow> unit res"
  rs_encode :: "int \<Rightarrow> int \<Rightarrow> bytes list \<Rightarrow> bytes list res"
  rs_reconst :: "int \<Rightarrow> int \<Rightarrow> bytes list \<Rightarrow> int list \<Rightarrow> int list \<Rightarrow> bytes list res"

text \<open>The loop of \<^verbatim>\<open>AddParity\<close>. An error of the coder ends it with the shards made so far; a
  successful call of the coder clears an earlier error.\<close>

fun parity_loop ::
  "rs_ops \<Rightarrow> segment list \<Rightarrow> bytes list \<Rightarrow> bytes list \<Rightarrow> go_error option
   \<Rightarrow> (bytes list \<times> go_error option) res" where
  "parity_loop R [] segs shards e = Inr (shards, e)"
| "parity_loop R (sm # s) segs shards e =
     (let dLen = DEnd sm - DStart sm; pLen = PEnd sm - DEnd sm in
      rbind (slice_expr segs 0 dLen) (\<lambda>data.
      rbind (slice_expr segs dLen (int (length segs))) (\<lambda>segs'.
      let sect = data @ replicate (nat pLen) (replicate (nat (SLen sm)) 0) in
      if pLen > 0 then
        (case rbind (rs_new R dLen pLen) (\<lambda>_. rs_encode R dLen pLen sect) of
           Inl (Panic p) \<Rightarrow> Inl (Panic p)
         | Inl (Error m) \<Rightarrow> Inr (shards, Some (Error m))
         | Inr sect' \<Rightarrow> parity_loop R s segs' (shards @ sect') None)
      else parity_loop R s segs' (shards @ sect) e)))"

definition AddParity ::
  "rs_ops \<Rightarrow> segment list \<Rightarrow> bytes list \<Rightarrow> (bytes list \<times> go_error option) res" where
  "AddParity R s segs =
     (let segLen = sum_list (map (\<lambda>x. DEnd x - DStart x) s);
          e = (if int (length segs) \<noteq> segLen then Some (Error ''slice wrong length'') else None)
      in parity_loop R s segs [] e)"

section \<open>Splitting\<close>

text \<open>The sending loop: one key of the key set, one nonce and one blinder per packet. The error
  that \<^verbatim>\<open>AddParity\<close> may return is overwritten by the first turn of the loop, so that it is only
  seen when there are no shards at all.\<close>

fun encode_loop ::
  "crypto_ops \<Rightarrow> (nat \<Rightarrow> bytes) \<Rightarrow> (nat \<Rightarrow> bytes) \<Rightarrow> packet_params \<Rightarrow> keyset \<Rightarrow> nat \<Rightarrow> bytes list
   \<Rightarrow> (bytes list \<times> keyset) res" where
  "encode_loop C nonc blind pp ks i [] = Inr ([], ks)"
| "encode_loop C nonc blind pp ks i (d # ds) =
     (let (k, ks1) = Next C ks in
      rbind (EncodePacket C (nonc i) (blind i) (pp\<lparr>ppData := d, ppSeq := int i, ppFrom := k\<rparr>)) (\<lambda>s.
      rbind (encode_loop C nonc blind pp ks1 (Suc i) ds) (\<lambda>(r, ks2). Inr (s # r, ks2))))"

definition SplitToPackets ::
  "crypto_ops \<Rightarrow> rs_ops \<Rightarrow> bytes option \<Rightarrow> (nat \<Rightarrow> bytes) \<Rightarrow> (nat \<Rightarrow> bytes) \<Rightarrow> packet_params \<Rightarrow> int
   \<Rightarrow> keyset \<Rightarrow> (int \<times> bytes list \<times> keyset) res option" where
  "SplitToPackets C R rand nonc blind pp segSize ks =
     (if ppData pp = [] then Some (Inl (Error ''cannot encode empty bytes''))
      else
      let pp1 = pp\<lparr>ppLength := int (length (ppData pp))\<rparr>;
          overhead = int (PacketParams_GetOverhead pp1);
          ss = segSize - overhead in
      map_option (\<lambda>sg. rbind sg (\<lambda>segments.
        rbind (NewSegments (ppLength pp1) segSize (int (PacketParams_GetOverhead pp1)) (ppParity pp1)) (\<lambda>segMap.
        rbind (index_expr segMap (int (length segMap) - 1)) (\<lambda>lastSm.
        let dataShards = DEnd lastSm in
        rbind (AddParity R segMap segments) (\<lambda>(p, e).
          case (p, e) of
            ([], Some err) \<Rightarrow> Inl err
          | _ \<Rightarrow> rbind (encode_loop C nonc blind pp1 ks 0 p) (\<lambda>(packets, ks').
                   Inr (dataShards, packets, ks')))))))
        (Segment C rand (ppData pp) ss))"

section \<open>Joining\<close>

definition RemovePacket :: "packet list \<Rightarrow> int \<Rightarrow> packet list res" where
  "RemovePacket ps s = rbind (slice_expr ps 0 s) (\<lambda>a.
     rbind (slice_expr ps (s + 1) (int (length ps))) (\<lambda>b. Inr (a @ b)))"

definition packet_join :: "bytes \<Rightarrow> bytes list \<Rightarrow> int \<Rightarrow> int \<Rightarrow> bytes res" where
  "packet_join msg segments sLen lst =
     (let b = Cat segments in
      rbind (if sLen \<noteq> lst then slice_expr b 0 (int (length b) - sLen + lst) else Inr b)
        (\<lambda>b'. Inr (msg @ b')))"

text \<open>The loop that compares the packets behind the first with it and collects duplicates.\<close>

fun common_loop ::
  "crypto_ops \<Rightarrow> packet list \<Rightarrow> u32 \<Rightarrow> byte \<Rightarrow> u16 \<Rightarrow> int list \<Rightarrow> packet list \<Rightarrow> int list res" where
  "common_loop C packets length' red prevSeq discard [] = Inr discard"
| "common_loop C packets length' red prevSeq discard (ps # rest) =
     rbind (if pSeq ps = prevSeq then
              if red = 0 then Inl (Error ''found duplicate packet, no redundancy, decoding failed'')
              else rbind (index_expr packets (uint prevSeq)) (\<lambda>q.
                     Inr (Single C (pData ps) = Single C (pData q)))
            else Inr False) (\<lambda>dup.
     if dup then common_loop C packets length' red prevSeq (discard @ [uint (pSeq ps)]) rest
     else if pParity ps \<noteq> red then Inl (Error ''found disagreement about common data: parity'')
     else if pLength ps \<noteq> length' then Inl (Error ''found disagreement about common data: length'')
     else common_loop C packets length' red (pSeq ps) discard rest)"

fun discard_loop :: "nat \<Rightarrow> int list \<Rightarrow> packet list \<Rightarrow> packet list res" where
  "discard_loop i [] packets = Inr packets"
| "discard_loop i (d # ds) packets =
     rbind (RemovePacket packets (d - int i)) (discard_loop (Suc i) ds)"

fun collate :: "packet list \<Rightarrow> packet option list \<Rightarrow> packet option list res" where
  "collate [] pkts = Inr pkts"
| "collate (p # ps) pkts = rbind (set_index pkts (uint (pSeq p)) (Some p)) (collate ps)"

text \<open>All segments were received: the data shards of a section, concatenated.\<close>

definition join_complete :: "packet list \<Rightarrow> segment \<Rightarrow> bytes \<Rightarrow> bytes res" where
  "join_complete packets sm msg =
     rbind (rmap (\<lambda>i. rbind (index_expr packets i) (\<lambda>p. Inr (pData p))) [DStart sm..DEnd sm - 1])
       (\<lambda>segments. packet_join msg segments (SLen sm) (Last sm))"

text \<open>Some were lost: reconstruct the section where that is needed and possible.\<close>

definition is_have :: "packet option list \<Rightarrow> int \<Rightarrow> bool res" where
  "is_have pkts i = rbind (index_expr pkts i) (\<lambda>p. Inr (p \<noteq> None))"

definition data_of :: "packet option list \<Rightarrow> int \<Rightarrow> int \<Rightarrow> bytes res" where
  "data_of pkts slen i = rbind (index_expr pkts i) (\<lambda>p.
     Inr (case p of None \<Rightarrow> replicate (nat slen) 0 | Some q \<Rightarrow> pData q))"

definition join_section :: "rs_ops \<Rightarrow> packet option list \<Rightarrow> segment \<Rightarrow> bytes \<Rightarrow> bytes res" where
  "join_section R pkts sm msg =
     rbind (rmap (is_have pkts) [DStart sm..DEnd sm - 1]) (\<lambda>hd.
     rbind (rmap (is_have pkts) [DEnd sm..PEnd sm - 1]) (\<lambda>hp.
     let dLen = DEnd sm - DStart sm;
         idxD = zip [0..dLen - 1] hd;
         idxP = zip [dLen..PEnd sm - DStart sm - 1] hp;
         hD = map fst (filter snd idxD);
         lD = map fst (filter (\<lambda>x. \<not> snd x) idxD);
         hP = map fst (filter snd idxP) in
     if int (length hD + length hP) < dLen then Inl (Error ''too many lost to recover in section'')
     else if int (length hD) = dLen then
       rbind (rmap (data_of pkts (SLen sm)) [DStart sm..DEnd sm - 1]) (\<lambda>segments.
         packet_join msg segments (SLen sm) (Last sm))
     else
       rbind (rmap (data_of pkts (SLen sm)) [DStart sm..PEnd sm - 1]) (\<lambda>segments.
       rbind (rs_new R dLen (PEnd sm - DEnd sm)) (\<lambda>_.
       rbind (rs_reconst R dLen (PEnd sm - DEnd sm) segments (hD @ hP) lD) (\<lambda>segments'.
       rbind (slice_expr segments' 0 dLen) (\<lambda>ds. packet_join msg ds (SLen sm) (Last sm)))))))"

text \<open>The sort is by sequence number; on packets that share one, \<^verbatim>\<open>sort.Sort\<close> may choose either
  order, the model keeps the order of arrival.\<close>

definition JoinPackets ::
  "crypto_ops \<Rightarrow> rs_ops \<Rightarrow> packet option list \<Rightarrow> (packet option list \<times> bytes) res" where
  "JoinPackets C R packets0 =
     (if packets0 = [] then Inl (Error ''empty packets'')
      else
      let packets = sort_key pSeq (List.map_filter id packets0) in
      rbind (index_expr packets 0) (\<lambda>p.
      let overhead = Packet_GetOverhead p in
      rbind (NewSegments (uint (pLength p)) (int (length (pData p) + overhead)) (int overhead)
               (uint (pParity p))) (\<lambda>segMap.
      rbind (index_expr segMap (int (length segMap) - 1)) (\<lambda>lastSm.
      let segCount = PEnd lastSm; red = pParity p in
      rbind (common_loop C packets (pLength p) red (pSeq p) [] (tl packets)) (\<lambda>discard.
      rbind (discard_loop 0 discard packets) (\<lambda>packets'.
      let lp = int (length packets') in
      if red = 0 \<and> lp < segCount then Inl (Error ''no redundancy with lost packets'')
      else if segCount = lp then
        rbind (rfold (join_complete packets') segMap []) (\<lambda>msg. Inr ([], msg))
      else
        rbind (collate packets' (replicate (nat segCount) None)) (\<lambda>pkts.
        rbind (rfold (join_section R pkts) segMap []) (\<lambda>msg. Inr (pkts, msg)))))))))"

section \<open>Joining with all results\<close>

text \<open>\<^verbatim>\<open>JoinPackets\<close> with its three results: the packets and the message are also returned beside an error, as far as they
  were made. Only a panic is a failure here.\<close>

definition join_plan :: "crypto_ops \<Rightarrow> packet option list \<Rightarrow> (packet list \<times> segment list \<times> int) res" where
  "join_plan C packets0 =
     (if packets0 = [] then Inl (Error ''empty packets'')
      else
      let packets = sort_key pSeq (List.map_filter id packets0) in
      rbind (index_expr packets 0) (\<lambda>p.
      let overhead = Packet_GetOverhead p in
      rbind (NewSegments (uint (pLength p)) (int (length (pData p) + overhead)) (int overhead) (uint (pParity p))) (\<lambda>segMap.
      rbind (index_expr segMap (int (length segMap) - 1)) (\<lambda>lastSm.
      let segCount = PEnd lastSm; red = pParity p in
      rbind (common_loop C packets (pLength p) red (pSeq p) [] (tl packets)) (\<lambda>discard.
      rbind (discard_loop 0 discard packets) (\<lambda>packets'.
      if red = 0 \<and> int (length packets') < segCount then Inl (Error ''no redundancy with lost packets'')
      else Inr (packets', segMap, segCount)))))))"

fun join_sections :: "rs_ops \<Rightarrow> packet option list \<Rightarrow> segment list \<Rightarrow> bytes \<Rightarrow> (bytes \<times> string option) res" where
  "join_sections R pkts [] msg = Inr (msg, None)"
| "join_sections R pkts (sm # sms) msg = (case join_section R pkts sm msg of
      Inl (Error e) \<Rightarrow> Inr (msg, Some e)
    | Inl (Panic p) \<Rightarrow> Inl (Panic p)
    | Inr msg' \<Rightarrow> join_sections R pkts sms msg')"

definition JoinPackets_results ::
  "crypto_ops \<Rightarrow> rs_ops \<Rightarrow> packet option list \<Rightarrow> (packet option list \<times> bytes \<times> string option) res" where
  "JoinPackets_results C R packets0 = (case join_plan C packets0 of
      Inl (Error e) \<Rightarrow> Inr ([], [], Some e)
    | Inl (Panic p) \<Rightarrow> Inl (Panic p)
    | Inr (packets, segMap, segCount) \<Rightarrow>
        if segCount = int (length packets) then
          rbind (rfold (join_complete packets) segMap []) (\<lambda>msg. Inr ([], msg, None))
        else
          rbind (collate packets (replicate (nat segCount) None)) (\<lambda>pkts.
          rbind (join_sections R pkts segMap []) (\<lambda>(msg, e). Inr (pkts, msg, e))))"

end
