(* ===== verification/Packet_Props.thy ===== *)
theory Packet_Props
  imports Packet "HOL-Library.Multiset"
begin

unbundle bit_operations_syntax

text \<open>
  Correctness of the packet layer: the frame (\<open>EncodePacket\<close> against \<open>GetKeysFromPacket\<close> and
  \<open>DecodePacket\<close>), the segment plan, and that splitting a message and joining the packets gives
  the message back.
\<close>

section \<open>The frame\<close>

text \<open>A buffer of which the first bytes are written and the rest is still zero.\<close>

definition partial_buf :: "bytes \<Rightarrow> nat \<Rightarrow> bytes" where
  "partial_buf pre m = pre @ replicate m 0"

lemma put_at_partial:
  assumes "length v = n" and "n \<le> m" and "c = int (length pre)"
  shows "put_at n v (partial_buf pre m, c) = Inr (partial_buf (pre @ v) (m - n), c + int n)"
proof -
  have "replicate m (0 :: byte) = replicate n 0 @ replicate (m - n) 0"
    using assms(2) by (simp add: replicate_add [symmetric])
  then show ?thesis
    using assms copy_range_mid [of v "replicate n 0" pre "replicate (m - n) 0"]
    by (simp add: put_at_def partial_buf_def)
qed

lemma set_index_partial:
  assumes "c = int (length pre)" and "0 < m"
  shows "set_index (partial_buf pre m) c v = Inr (partial_buf (pre @ [v]) (m - 1))"
  using assms by (cases m) (simp_all add: set_index_def partial_buf_def list_update_append)

lemma copy_rest_partial:
  assumes "c = int (length pre)" and "length v = m"
  shows "copy_range (partial_buf pre m) c (int (length (partial_buf pre m))) v = Inr (pre @ v)"
  using assms copy_range_mid [of v "replicate m 0" pre "[]"] by (simp add: partial_buf_def)

text \<open>The bytes of the frame behind the check, and the plain text of the encrypted part.\<close>

definition frame_plain :: "packet_params \<Rightarrow> bytes" where
  "frame_plain ep = ppID ep @ le_bytes 2 (word_of_int (ppSeq ep) :: u16)
     @ le_bytes 4 (word_of_int (ppLength ep) :: u32) @ [word_of_int (ppParity ep)] @ ppData ep"

definition frame_rest :: "crypto_ops \<Rightarrow> bytes \<Rightarrow> bytes \<Rightarrow> packet_params \<Rightarrow> bytes" where
  "frame_rest C nonc blind ep =
     Pub_ToBytes C (prv_pub C (ppFrom ep)) @ GetCloak C blind (ppTo ep) @ nonc
     @ XORKeyStream (aes_block C (ComputeSharedSecret C (ppFrom ep) (ppTo ep))) nonc (frame_plain ep)"

lemma length_frame_plain [simp]: "length (frame_plain ep) = length (ppID ep) + 7 + length (ppData ep)"
  by (simp add: frame_plain_def)

lemma EncodePacket_eq:
  assumes C: "crypto_laws C" and n: "length nonc = 16" and i: "length (ppID ep) = 8"
  shows "EncodePacket C nonc blind ep =
    Inr (take 4 (Single C (frame_rest C nonc blind ep)) @ frame_rest C nonc blind ep)"
proof -
  let ?h = "replicate 4 (0 :: byte) @ Pub_ToBytes C (prv_pub C (ppFrom ep)) @ GetCloak C blind (ppTo ep) @ nonc"
  let ?F = "frame_rest C nonc blind ep"
  have z: "replicate (76 + length (ppData ep)) (0 :: byte)
      = partial_buf (replicate 4 0) (72 + length (ppData ep))"
    by (simp add: partial_buf_def replicate_add [symmetric])
  have split: "slice_expr (?h @ frame_plain ep) 61 (int (length (?h @ frame_plain ep))) = Inr (frame_plain ep)"
    "take 61 (?h @ frame_plain ep) = ?h"
    using n slice_expr_mid [of ?h "frame_plain ep" "[]"] by simp_all
  have body: "EncodePacket C nonc blind ep =
      (let b9 = ?h @ XORKeyStream (aes_block C (ComputeSharedSecret C (ppFrom ep) (ppTo ep))) nonc (frame_plain ep) in
       rbind (slice_expr b9 4 (int (length b9))) (\<lambda>r. copy_range b9 0 4 (take 4 (Single C r))))"
    using split n i
    by (simp add: EncodePacket_def Let_def EncodeUint16_def EncodeUint32_def z put_at_partial
        set_index_partial copy_rest_partial GetBlock_def frame_plain_def)
  have "slice_expr (replicate 4 0 @ ?F) 4 (4 + int (length ?F)) = Inr ?F"
    using slice_expr_mid [of "replicate 4 0" ?F "[]"] by simp
  moreover have "copy_range (replicate 4 0 @ ?F) 0 4 (take 4 (Single C ?F)) = Inr (take 4 (Single C ?F) @ ?F)"
    using C by (simp add: copy_range_def slice_expr_def)
  ultimately show ?thesis
    unfolding body by (simp add: Let_def frame_rest_def)
qed

text \<open>A packet whose frame fields fit their wire widths.\<close>

definition params_ok :: "packet_params \<Rightarrow> bool" where
  "params_ok ep \<longleftrightarrow> length (ppID ep) = 8 \<and> 0 \<le> ppSeq ep \<and> ppSeq ep < 2 ^ 16 \<and>
     0 \<le> ppLength ep \<and> ppLength ep < 2 ^ 32 \<and> 0 \<le> ppParity ep \<and> ppParity ep < 2 ^ 8"

definition packet_of :: "packet_params \<Rightarrow> int \<Rightarrow> packet" where
  "packet_of ep now = \<lparr>pID = ppID ep, pSeq = word_of_int (ppSeq ep), pLength = word_of_int (ppLength ep),
     pParity = word_of_int (ppParity ep), pData = ppData ep, pTime = now\<rparr>"

lemma GetKeysFromPacket_frame:
  assumes "crypto_laws C" and "length nonc = 16" and "valid_pub C (prv_pub C (ppFrom ep))"
  shows "GetKeysFromPacket C (take 4 (Single C (frame_rest C nonc blind ep)) @ frame_rest C nonc blind ep)
    = Inr (prv_pub C (ppFrom ep), GetCloak C blind (ppTo ep), replicate 16 0)"
proof -
  let ?F = "frame_rest C nonc blind ep"
  let ?c = "take 4 (Single C ?F)" and ?k = "Pub_ToBytes C (prv_pub C (ppFrom ep))"
  let ?t = "GetCloak C blind (ppTo ep)"
  obtain r where F: "?F = ?k @ ?t @ r" and r: "16 \<le> length r"
    using assms(2) by (simp add: frame_rest_def)
  have c: "length ?c = 4" using assms(1) by simp
  have "slice_expr (?c @ ?F) 0 4 = Inr ?c" "slice_expr (?c @ ?F) 4 (int (length (?c @ ?F))) = Inr ?F"
    using slice_expr_mid [of "[]" ?c ?F] slice_expr_mid [of ?c ?F "[]"] c by simp_all
  moreover have "slice_expr (?c @ ?F) 4 37 = Inr ?k" "slice_expr (?c @ ?F) 37 45 = Inr ?t"
    unfolding F using slice_expr_mid [of ?c ?k "?t @ r"] slice_expr_mid [of "?c @ ?k" ?t r] c
    by (simp_all add: F)
  ultimately show ?thesis
    using assms c r F by (simp add: GetKeysFromPacket_def Let_def)
qed

lemma Cut_prefix:
  assumes "length a = n" and "k = int n"
  shows "Cut (a @ r) k = Inr (a, r)"
  using assms by simp

lemma DecodePacket_frame:
  assumes "crypto_laws C" and "length nonc = 16" and "length chk = 4" and "params_ok ep"
    and "ppTo ep = prv_pub C to" and "length iv = 16"
  shows "\<exists>d'. DecodePacket C now (chk @ frame_rest C nonc blind ep) (prv_pub C (ppFrom ep)) to iv
    = Inr (packet_of ep now, d')"
proof -
  let ?h = "chk @ Pub_ToBytes C (prv_pub C (ppFrom ep)) @ GetCloak C blind (ppTo ep)"
  let ?e = "aes_block C (ComputeSharedSecret C (ppFrom ep) (ppTo ep))"
  let ?x = "XORKeyStream ?e nonc (frame_plain ep)"
  have blk: "GetBlock C to (prv_pub C (ppFrom ep)) = Some ?e"
    using GetBlock_symmetric [OF assms(1), of to "ppFrom ep"] assms(5) by (simp add: GetBlock_def)
  have d: "chk @ frame_rest C nonc blind ep = ?h @ nonc @ ?x"
    by (simp add: frame_rest_def)
  have h: "length ?h = 45" using assms(3) by simp
  have s1: "slice_expr (?h @ nonc @ ?x) 45 61 = Inr nonc"
    using slice_expr_mid [of ?h nonc ?x] h assms(2) by simp
  have s2: "slice_expr (?h @ nonc @ ?x) 61 (int (length (?h @ nonc @ ?x))) = Inr ?x"
    using slice_expr_mid [of "?h @ nonc" ?x "[]"] h assms(2) by simp
  have "uint (word_of_int (ppSeq ep) :: u16) = ppSeq ep" "uint (word_of_int (ppLength ep) :: u32) = ppLength ep"
    using assms(4) by (simp_all add: params_ok_def uint_word_of_int)
  moreover have "index_expr (p # ppData ep) 0 = Inr p"
    "slice_expr (p # ppData ep) 1 (int (length (p # ppData ep))) = Inr (ppData ep)" for p
    by (simp_all add: index_expr_def slice_expr_def)
  ultimately show ?thesis
    unfolding d using s1 s2 blk assms(2,4,6) h
    by (simp add: DecodePacket_def Let_def frame_plain_def Cut_prefix params_ok_def packet_of_def
        del: Cut_append)
qed

section \<open>The segment plan\<close>

fun contiguous :: "int \<Rightarrow> segment list \<Rightarrow> bool" where
  "contiguous a [] = True"
| "contiguous a (s # ss) = (DStart s = a \<and> contiguous (PEnd s) ss)"

text \<open>A section the coder accepts: at least one data segment, at most 256 segments, and parity
  segments exactly when parity is asked for.\<close>

definition section_ok :: "int \<Rightarrow> int \<Rightarrow> segment \<Rightarrow> bool" where
  "section_ok parity ss s \<longleftrightarrow> 0 \<le> DStart s \<and> DStart s < DEnd s \<and> DEnd s \<le> PEnd s \<and>
     PEnd s \<le> DStart s + 256 \<and> (0 < parity \<longleftrightarrow> DEnd s < PEnd s) \<and> SLen s = ss"

definition seg_total :: "int \<Rightarrow> int \<Rightarrow> int" where
  "seg_total payloadLen ss = payloadLen div ss + 1"

definition last_section :: "int \<Rightarrow> int \<Rightarrow> int \<Rightarrow> segment" where
  "last_section L ss P =
     (let n = seg_total L ss; D = 256 - P; m = n mod D; start = 256 * (n div D) in
      \<lparr>DStart = start, DEnd = start + m,
       PEnd = start + m + (if P = 0 then 0 else max 1 (m * P div D)), SLen = ss, Last = L mod ss\<rparr>)"

lemma parity_division:
  assumes "0 < D" and "D + P = (256::int)"
  shows "n + n * P div D = 256 * (n div D) + n mod D + (n mod D) * P div D"
proof -
  define q m where "q = n div D" and "m = n mod D"
  have n: "n = D * q + m" by (simp add: q_def m_def)
  have "(D * q + m) * P = m * P + D * (q * P)" by (simp add: algebra_simps)
  then have "n * P = m * P + D * (q * P)" by (simp only: n)
  then have "n * P div D = q * P + m * P div D"
    using assms(1) by simp
  moreover have "256 * q = D * q + P * q"
    using assms(2) by (simp flip: distrib_right)
  ultimately have "n + n * P div D = 256 * q + m + m * P div D"
    using n mult.commute [of q P] by linarith
  then show ?thesis by (simp only: q_def m_def)
qed

text \<open>The two places that bump the number of segments up when the parity rounds to zero.\<close>

lemma parity_bump:
  assumes "0 < D" and "D + P = (256::int)" and "0 \<le> P" and "0 < n" and "0 < n mod D"
  shows "(let w0 = n + n * P div D; w = (if w0 = n \<and> P > 0 then w0 + 1 else w0) in
      if w = 256 * (n div D) + n mod D \<and> P > 0 then w + 1 else w)
      = 256 * (n div D) + n mod D + (if P = 0 then 0 else max 1 (n mod D * P div D))"
proof (cases "P = 0")
  case False
  have pd: "n + n * P div D = 256 * (n div D) + n mod D + (n mod D) * P div D"
    using assms by (intro parity_division)
  have r: "0 \<le> n * P div D" "0 \<le> n mod D * P div D" "0 \<le> n div D"
    using assms by (simp_all add: pos_imp_zdiv_nonneg_iff)
  have "D \<le> 256" using assms by linarith
  then have "D * (n div D) \<le> 256 * (n div D)" using r(3) by (rule mult_right_mono)
  then have "n \<le> 256 * (n div D) + n mod D" using mult_div_mod_eq [of D n] by linarith
  then show ?thesis using False pd r assms(3) by (auto simp: Let_def max_def)
qed (use parity_division [OF assms(1,2), of n] in \<open>simp add: Let_def\<close>)

lemma NewSegments_eq:
  assumes "0 \<le> L" and "0 < ss" and "0 \<le> P" and "P < 256" and "segSize - overhead = ss"
  shows "NewSegments L segSize overhead P =
    (let n = seg_total L ss; D = 256 - P; q = n div D; m = n mod D;
         lst = (if m = 0 \<and> q = 1 then L mod ss else ss)
     in Inr (full_sections (nat q) 0 D ss lst @ (if m > 0 then [last_section L ss P] else [])))"
proof -
  define n D where "n = seg_total L ss" and "D = 256 - P"
  have n: "0 < n" "L div ss + 1 = n" and D: "0 < D" "256 - P = D" "D + P = 256"
    using assms by (auto simp: n_def D_def seg_total_def pos_imp_zdiv_nonneg_iff add_nonneg_pos)
  have q: "0 \<le> n div D" using n D by (simp add: pos_imp_zdiv_nonneg_iff)
  have start: "(if n div D > 0 then n div D * 256 else 0) = 256 * (n div D)"
    and full: "(if n div D > 0 then full_sections (nat (n div D)) 0 D ss l else [])
      = full_sections (nat (n div D)) 0 D ss l" for l
    using q by auto
  have ls: "last_section L ss P = \<lparr>DStart = 256 * (n div D), DEnd = 256 * (n div D) + n mod D,
      PEnd = (let w0 = n + n * P div D; w = (if w0 = n \<and> P > 0 then w0 + 1 else w0) in
        if w = 256 * (n div D) + n mod D \<and> P > 0 then w + 1 else w), SLen = ss, Last = L mod ss\<rparr>"
    if "n mod D > 0"
    unfolding parity_bump [OF D(1,3) assms(3) n(1) that]
    by (simp only: last_section_def Let_def n_def [symmetric] D_def [symmetric])
  have "NewSegments L segSize overhead P = Inr (full_sections (nat (n div D)) 0 D ss
      (if n mod D = 0 \<and> n div D = 1 then L mod ss else ss)
      @ (if n mod D > 0 then [last_section L ss P] else []))"
  proof (cases "n mod D > 0")
    case True
    show ?thesis
      unfolding NewSegments_def Let_def assms(5) ls [OF True]
      using assms(1-4) n D True by (simp only: go_div_nonneg go_mod_nonneg rbind_Inr n(2) D(2)
        start full mult_nonneg_nonneg less_imp_le if_True)
  next
    case False
    then show ?thesis
      unfolding NewSegments_def Let_def assms(5)
      using assms(1-4) n D by (simp only: go_div_nonneg go_mod_nonneg rbind_Inr n(2) D(2)
        start full mult_nonneg_nonneg less_imp_le if_False append_Nil2)
  qed
  then show ?thesis by (simp only: Let_def n_def D_def)
qed

lemma full_sections_contiguous: "contiguous a (full_sections k a D ss l)"
  by (induction k arbitrary: a) simp_all

lemma full_sections_ok:
  assumes "0 < D" and "D + P = 256" and "0 \<le> P" and "0 \<le> a"
  shows "s \<in> set (full_sections k a D ss l) \<Longrightarrow> section_ok P ss s \<and> Last s = l"
  using assms(4)
proof (induction k arbitrary: a)
  case (Suc k)
  show ?case
  proof (cases "s \<in> set (full_sections k (a + 256) D ss l)")
    case True
    then show ?thesis using Suc.IH [of "a + 256"] Suc.prems(2) by simp
  next
    case False
    then show ?thesis using Suc.prems assms by (auto simp: section_ok_def)
  qed
qed simp

lemma full_sections_Nil [simp]: "full_sections k a D ss l = [] \<longleftrightarrow> k = 0"
  by (cases k) simp_all

lemma full_sections_data:
  "sum_list (map (\<lambda>s. DEnd s - DStart s) (full_sections k a D ss l)) = int k * D"
  by (induction k arbitrary: a) (simp_all add: algebra_simps)

lemma contiguous_full_append:
  "contiguous a (full_sections k a D ss l @ xs) \<longleftrightarrow> contiguous (a + 256 * int k) xs"
  by (induction k arbitrary: a) (simp_all add: algebra_simps)

lemma last_section_ok:
  assumes "0 \<le> L" and "0 < ss" and "0 \<le> P" and "P < 256" and "0 < seg_total L ss mod (256 - P)"
  shows "section_ok P ss (last_section L ss P)"
proof -
  define n m D where "n = seg_total L ss" and "m = seg_total L ss mod (256 - P)" and "D = 256 - P"
  have n: "0 < n" and m: "0 < m" "m < D" "n mod D = m" and D: "0 < D" "D + P = 256"
    using assms by (auto simp: n_def m_def D_def seg_total_def pos_imp_zdiv_nonneg_iff add_nonneg_pos)
  have "0 \<le> n div D" using n D by (simp add: pos_imp_zdiv_nonneg_iff)
  moreover have "m * P div D \<le> P"
  proof -
    have "m * P \<le> D * P" using m assms(3) by (intro mult_right_mono) auto
    then have "m * P div D \<le> D * P div D" using D(1) by (rule zdiv_mono1)
    then show ?thesis using D by simp
  qed
  moreover have "m + 1 \<le> D" using m by linarith
  moreover have "P \<noteq> 0 \<Longrightarrow> m + max 1 (m * P div D) \<le> 256"
    using calculation D assms(3) by (auto simp: max_def)
  ultimately show ?thesis
    unfolding section_ok_def last_section_def Let_def n_def [symmetric] D_def [symmetric] m(3)
    using m D assms(3) by (auto simp: max_def)
qed

text \<open>The plan covers the message: consecutive sections the coder accepts, one data segment per
  segment of the payload.\<close>

lemma NewSegments_plan:
  assumes "0 \<le> L" and "0 < ss" and "0 \<le> P" and "P < 256" and "segSize - overhead = ss"
  shows "\<exists>plan. NewSegments L segSize overhead P = Inr plan \<and> plan \<noteq> [] \<and> contiguous 0 plan \<and>
     (\<forall>s\<in>set plan. section_ok P ss s) \<and>
     sum_list (map (\<lambda>s. DEnd s - DStart s) plan) = seg_total L ss \<and>
     (let n = seg_total L ss; D = 256 - P in \<not> (n mod D = 0 \<and> n div D > 1) \<longrightarrow>
        Last (last plan) = L mod ss \<and> (\<forall>s\<in>set (butlast plan). Last s = ss))"
proof -
  define n D where "n = seg_total L ss" and "D = 256 - P"
  define q m where "q = n div D" and "m = n mod D"
  have n: "0 < n" and D: "0 < D" "D + P = 256"
    using assms by (auto simp: n_def D_def seg_total_def pos_imp_zdiv_nonneg_iff add_nonneg_pos)
  have q: "0 \<le> q" and m: "0 \<le> m" and nqm: "n = D * q + m"
    using n D by (auto simp: q_def m_def pos_imp_zdiv_nonneg_iff)
  let ?l = "if m = 0 \<and> q = 1 then L mod ss else ss"
  let ?full = "full_sections (nat q) 0 D ss ?l"
  let ?tail = "if m > 0 then [last_section L ss P] else []"
  have eq: "NewSegments L segSize overhead P = Inr (?full @ ?tail)"
    using NewSegments_eq [OF assms] by (simp only: Let_def n_def D_def q_def m_def)
  have lastd: "DStart (last_section L ss P) = 256 * q"
    "DEnd (last_section L ss P) - DStart (last_section L ss P) = m" "Last (last_section L ss P) = L mod ss"
    by (simp_all add: last_section_def Let_def n_def D_def q_def m_def)
  have ok: "m > 0 \<Longrightarrow> section_ok P ss (last_section L ss P)"
    using last_section_ok [OF assms(1-4)] by (simp add: n_def D_def m_def)
  note fs = full_sections_ok [OF D assms(3), of 0 _ "nat q" ss ?l, simplified]
  have "contiguous 0 (?full @ ?tail)"
    using q by (simp add: contiguous_full_append lastd)
  moreover have "\<forall>s\<in>set (?full @ ?tail). section_ok P ss s"
    using fs ok by auto
  moreover have "sum_list (map (\<lambda>s. DEnd s - DStart s) (?full @ ?tail)) = n"
  proof -
    have "sum_list (map (\<lambda>s. DEnd s - DStart s) ?tail) = m" using m lastd(2) by simp
    moreover have "int (nat q) * D + m = n" using nqm q by (simp only: nat_0_le mult.commute)
    ultimately show ?thesis
      by (simp only: map_append sum_list_append full_sections_data)
  qed
  moreover have "?full @ ?tail \<noteq> []"
    using n m q nqm by (cases "q = 0") auto
  moreover have "Last (last (?full @ ?tail)) = L mod ss \<and> (\<forall>s\<in>set (butlast (?full @ ?tail)). Last s = ss)"
    if "\<not> (m = 0 \<and> q > 1)"
  proof (cases "m > 0")
    case True
    then show ?thesis using fs lastd by auto
  next
    case False
    then have "m = 0" using m by linarith
    then have "q \<noteq> 0" using n nqm by auto
    then have "q = 1" using that \<open>m = 0\<close> q by linarith
    with \<open>m = 0\<close> show ?thesis by simp
  qed
  ultimately show ?thesis
    unfolding eq Let_def n_def [symmetric] D_def [symmetric] q_def [symmetric] m_def [symmetric] by blast
qed

section \<open>Reed-Solomon laws\<close>

text \<open>What the coder promises for \<open>d\<close> data and \<open>p\<close> parity shards of equal size: encoding keeps the
  data shards and fills in the parity shards; any \<open>d\<close> shards of an encoding restore the listed
  lost ones.\<close>

definition rs_code :: "rs_ops \<Rightarrow> nat \<Rightarrow> nat \<Rightarrow> bool" where
  "rs_code R d p \<longleftrightarrow>
     rs_new R (int d) (int p) = Inr () \<and>
     (\<forall>data n. length data = d \<and> 0 < n \<and> (\<forall>x\<in>set data. length x = n) \<longrightarrow>
        (\<exists>par. rs_encode R (int d) (int p) (data @ replicate p (replicate n 0)) = Inr (data @ par) \<and>
           length par = p \<and> (\<forall>x\<in>set par. length x = n) \<and>
           (\<forall>vects got lost. length vects = d + p \<and> (\<forall>x\<in>set vects. length x = n) \<and>
              distinct got \<and> set got \<union> set lost \<subseteq> {0..<int (d + p)} \<and> d \<le> length got \<and>
              (\<forall>i\<in>set got. vects ! nat i = (data @ par) ! nat i) \<longrightarrow>
              (\<exists>v. rs_reconst R (int d) (int p) vects got lost = Inr v \<and> length v = d + p \<and>
                 (\<forall>i\<in>set got \<union> set lost. v ! nat i = (data @ par) ! nat i)))))"

lemma rs_code_encode:
  assumes "rs_code R d p" and "length data = d" and "0 < n" and "\<forall>x\<in>set data. length x = n"
  obtains par where "length par = p" and "\<forall>x\<in>set par. length x = n"
    and "rs_new R (int d) (int p) = Inr ()"
    and "rs_encode R (int d) (int p) (data @ replicate p (replicate n 0)) = Inr (data @ par)"
  using assms unfolding rs_code_def by blast

lemma rs_code_reconst:
  assumes "rs_code R d p" and "length data = d" and "0 < n" and "\<forall>x\<in>set data. length x = n"
    and "rs_encode R (int d) (int p) (data @ replicate p (replicate n 0)) = Inr (data @ par)"
    and "length vects = d + p" and "\<forall>x\<in>set vects. length x = n" and "distinct got"
    and "set got \<union> set lost \<subseteq> {0..<int (d + p)}" and "d \<le> length got"
    and "\<forall>i\<in>set got. vects ! nat i = (data @ par) ! nat i"
  obtains v where "rs_reconst R (int d) (int p) vects got lost = Inr v" and "length v = d + p"
    and "\<forall>i\<in>set got \<union> set lost. v ! nat i = (data @ par) ! nat i"
proof -
  from assms(1-4) obtain par' where
    e: "rs_encode R (int d) (int p) (data @ replicate p (replicate n 0)) = Inr (data @ par')" and
    r: "\<forall>vects got lost. length vects = d + p \<and> (\<forall>x\<in>set vects. length x = n) \<and>
              distinct got \<and> set got \<union> set lost \<subseteq> {0..<int (d + p)} \<and> d \<le> length got \<and>
              (\<forall>i\<in>set got. vects ! nat i = (data @ par') ! nat i) \<longrightarrow>
              (\<exists>v. rs_reconst R (int d) (int p) vects got lost = Inr v \<and> length v = d + p \<and>
                 (\<forall>i\<in>set got \<union> set lost. v ! nat i = (data @ par') ! nat i))"
    unfolding rs_code_def by blast
  from e assms(5) have "par' = par" by simp
  with r [rule_format, of vects got lost] assms(6-) that show thesis by blast
qed

text \<open>The shards of a plan: per section the data segments and their parity.\<close>

definition section_shards :: "rs_ops \<Rightarrow> nat \<Rightarrow> segment \<Rightarrow> bytes list \<Rightarrow> bytes list \<Rightarrow> bool" where
  "section_shards R ss s data par \<longleftrightarrow>
     int (length data) = DEnd s - DStart s \<and> int (length par) = PEnd s - DEnd s \<and>
     (\<forall>x\<in>set data. length x = ss) \<and> (\<forall>x\<in>set par. length x = ss) \<and>
     (par \<noteq> [] \<longrightarrow> rs_encode R (int (length data)) (int (length par))
         (data @ replicate (length par) (replicate ss 0)) = Inr (data @ par))"

inductive coded :: "rs_ops \<Rightarrow> nat \<Rightarrow> segment list \<Rightarrow> bytes list \<Rightarrow> bytes list \<Rightarrow> bool"
  for R :: rs_ops and ss :: nat where
  coded_Nil: "coded R ss [] [] []"
| coded_Cons: "section_shards R ss s data par \<Longrightarrow> coded R ss plan segs shards \<Longrightarrow>
     coded R ss (s # plan) (data @ segs) (data @ par @ shards)"

definition plan_coder :: "rs_ops \<Rightarrow> segment list \<Rightarrow> bool" where
  "plan_coder R plan \<longleftrightarrow>
     (\<forall>s\<in>set plan. DEnd s < PEnd s \<longrightarrow> rs_code R (nat (DEnd s - DStart s)) (nat (PEnd s - DEnd s)))"

lemma parity_loop_coded:
  assumes "\<forall>s\<in>set plan. section_ok P (int ss) s" and "plan_coder R plan" and "0 < ss"
    and "\<forall>x\<in>set segs. length x = ss"
    and "int (length segs) = sum_list (map (\<lambda>s. DEnd s - DStart s) plan)"
  shows "\<exists>out e'. parity_loop R plan segs sh e = Inr (sh @ out, e') \<and> coded R ss plan segs out"
  using assms
proof (induction plan arbitrary: segs sh e)
  case Nil
  then show ?case by (auto intro: coded.intros)
next
  case (Cons s plan)
  define d p where "d = nat (DEnd s - DStart s)" and "p = nat (PEnd s - DEnd s)"
  have s: "DEnd s - DStart s = int d" "PEnd s - DEnd s = int p" "SLen s = int ss" "0 < d"
    using Cons.prems(1) by (auto simp: section_ok_def d_def p_def)
  have "\<forall>x\<in>set plan. 0 \<le> DEnd x - DStart x" using Cons.prems(1) by (auto simp: section_ok_def)
  then have "0 \<le> sum_list (map (\<lambda>s. DEnd s - DStart s) plan)" by (auto intro!: sum_list_nonneg)
  then have dl: "d \<le> length segs" using Cons.prems(5) s by simp
  define data rest where "data = take d segs" and "rest = drop d segs"
  have dr: "segs = data @ rest" "length data = d" and u: "\<forall>x\<in>set data. length x = ss" "\<forall>x\<in>set rest. length x = ss"
    using dl Cons.prems(4) by (auto simp: data_def rest_def dest: in_set_takeD in_set_dropD)
  have sl: "slice_expr segs 0 (int d) = Inr data" "slice_expr segs (int d) (int (length segs)) = Inr rest"
    using dl by (simp_all add: slice_expr_def data_def rest_def)
  obtain par where par: "length par = p" "\<forall>x\<in>set par. length x = ss"
    "p > 0 \<longrightarrow> rs_new R (int d) (int p) = Inr () \<and>
      rs_encode R (int d) (int p) (data @ replicate p (replicate ss 0)) = Inr (data @ par)"
  proof (cases "p = 0")
    case False
    then have "DEnd s < PEnd s" using s(2) by linarith
    then have "rs_code R d p" using Cons.prems(2) unfolding plan_coder_def d_def p_def by simp
    from rs_code_encode [OF this dr(2) Cons.prems(3) u(1)] show ?thesis using that by blast
  qed (use that in auto)
  have IH: "\<exists>out e''. parity_loop R plan rest (sh @ data @ par) e' = Inr ((sh @ data @ par) @ out, e'')
      \<and> coded R ss plan rest out" for e'
    using Cons.prems(1-3,5) dr u s(1) by (intro Cons.IH) (simp_all add: plan_coder_def)
  have step: "parity_loop R (s # plan) segs sh e
      = parity_loop R plan rest (sh @ data @ par) (if p > 0 then None else e)"
    using par by (cases "p = 0") (simp_all add: Let_def s sl)
  obtain out e'' where "parity_loop R (s # plan) segs sh e = Inr (sh @ data @ par @ out, e'')"
    "coded R ss plan rest out"
    using IH [of "if p > 0 then None else e"] step by auto
  moreover have "section_shards R ss s data par"
    using par dr(2) u(1) s by (auto simp: section_shards_def)
  ultimately show ?case unfolding dr(1) by (metis coded_Cons)
qed

lemma coded_length:
  "coded R ss plan segs shards \<Longrightarrow> contiguous a plan \<Longrightarrow> plan \<noteq> [] \<Longrightarrow>
   PEnd (last plan) = a + int (length shards)"
proof (induction arbitrary: a rule: coded.induct)
  case (coded_Cons s data par plan segs shards)
  then have sh: "PEnd s = a + int (length data) + int (length par)" by (auto simp: section_shards_def)
  show ?case
  proof (cases "plan = []")
    case True
    then show ?thesis using coded_Cons.hyps(2) sh by (auto elim: coded.cases)
  next
    case False
    then show ?thesis using coded_Cons.IH [of "PEnd s"] coded_Cons.prems sh by simp
  qed
qed simp

section \<open>Joining\<close>

lemma upto_map_int: "[int a..int b - 1] = map int [a..<b]"
proof (induction b)
  case (Suc b)
  show ?case
  proof (cases "a \<le> b")
    case True
    then have "[int a..int (Suc b) - 1] = [int a..int b - 1] @ [int b]"
      by (simp add: upto_rec2)
    then show ?thesis using Suc True by simp
  qed simp
qed simp

lemma map_nth_range: "map (\<lambda>j. (pre @ data @ post) ! (length pre + j)) [0..<length data] = data"
  by (rule nth_equalityI) (simp_all add: nth_append)

lemma map_upt_shift: "map f [a..<a + k] = map (\<lambda>j. f (a + j)) [0..<k]"
proof -
  have "[a..<a + k] = map (\<lambda>j. a + j) [0..<k]" by (induction k) auto
  then show ?thesis by simp
qed

lemma map_nth_ints:
  "map (\<lambda>i. (pre @ data @ post) ! nat i) (map int [length pre..<length pre + length data]) = data"
proof -
  have "map (\<lambda>i. all ! nat i) (map int xs) = map ((!) all) xs" for all :: "'a list" and xs by simp
  then have "map (\<lambda>i. (pre @ data @ post) ! nat i) (map int [length pre..<length pre + length data])
      = map ((!) (pre @ data @ post)) [length pre..<length pre + length data]" by blast
  then show ?thesis by (simp only: map_upt_shift map_nth_range)
qed

lemma packet_join_full:
  "packet_join msg segments sLen sLen = Inr (msg @ concat segments)"
  by (simp add: packet_join_def)

lemma packet_join_last:
  assumes "0 \<le> l" and "l \<le> int ss" and "ss \<le> length (concat segments)"
  shows "packet_join msg segments (int ss) l
    = Inr (msg @ take (length (concat segments) - (ss - nat l)) (concat segments))"
proof (cases "l = int ss")
  case False
  have "slice_expr (concat segments) 0 (int (length (concat segments)) - int ss + l)
      = Inr (take (length (concat segments) - (ss - nat l)) (concat segments))"
    using assms by (subst slice_expr_ok) (auto intro!: arg_cong2 [where f = take])
  then show ?thesis using False by (auto simp: packet_join_def Let_def)
qed (simp add: packet_join_def)

lemma section_data_long:
  assumes "section_shards R ss s data par" and "section_ok P (int ss) s"
  shows "ss \<le> length (concat data)"
  using assms by (cases data) (auto simp: section_shards_def section_ok_def)

lemma coded_data_long:
  "coded R ss plan segs shards \<Longrightarrow> plan \<noteq> [] \<Longrightarrow> \<forall>s\<in>set plan. section_ok P (int ss) s \<Longrightarrow>
   ss \<le> length (concat segs)"
  by (erule coded.cases) (use section_data_long in \<open>fastforce+\<close>)

text \<open>A step that concatenates the data shards of its section, folded over the plan.\<close>

definition joins_sections ::
  "rs_ops \<Rightarrow> nat \<Rightarrow> bytes list \<Rightarrow> (segment \<Rightarrow> bytes \<Rightarrow> bytes res) \<Rightarrow> segment \<Rightarrow> bool" where
  "joins_sections R ss all step s \<longleftrightarrow>
     (\<forall>msg pre data par post. all = pre @ data @ par @ post \<and> int (length pre) = DStart s \<and>
        section_shards R ss s data par \<longrightarrow> step s msg = packet_join msg data (int ss) (Last s))"

lemma rfold_joins:
  assumes "coded R ss plan segs shards" and "contiguous (int (length pre)) plan" and "plan \<noteq> []"
    and "all = pre @ shards @ post" and "\<forall>s\<in>set plan. joins_sections R ss all step s"
    and "\<forall>s\<in>set plan. section_ok P (int ss) s"
    and "\<forall>s\<in>set (butlast plan). Last s = int ss" and "0 \<le> Last (last plan)" and "Last (last plan) \<le> int ss"
  shows "rfold step plan msg
    = Inr (msg @ take (length (concat segs) - (ss - nat (Last (last plan)))) (concat segs))"
  using assms
proof (induction arbitrary: pre msg rule: coded.induct)
  case (coded_Cons s data par plan segs shards)
  have a: "all = pre @ data @ par @ (shards @ post)" using coded_Cons.prems by simp
  have step: "step s msg = packet_join msg data (int ss) (Last s)" for msg
    using coded_Cons.prems(1,4) coded_Cons.hyps(1) a unfolding joins_sections_def by fastforce
  have sh: "PEnd s = int (length (pre @ data @ par))"
    using coded_Cons.hyps(1) coded_Cons.prems(1) by (simp add: section_shards_def)
  show ?case
  proof (cases "plan = []")
    case True
    then have "segs = []" using coded_Cons.hyps(2) by (auto elim: coded.cases)
    moreover have "ss \<le> length (concat data)"
      using section_data_long [OF coded_Cons.hyps(1), of P] coded_Cons.prems(5) by simp
    ultimately show ?thesis
      using True coded_Cons.prems(7,8) by (simp add: step packet_join_last)
  next
    case False
    have c: "contiguous (int (length (pre @ data @ par))) plan"
      using coded_Cons.prems(1) sh by simp
    have "Last s = int ss" using False coded_Cons.prems(6) by simp
    then have "rfold step (s # plan) msg = rfold step plan (msg @ concat data)"
      by (simp add: step packet_join_full)
    also have "\<dots> = Inr ((msg @ concat data) @
        take (length (concat segs) - (ss - nat (Last (last plan)))) (concat segs))"
      using False coded_Cons.prems(3-8) c by (intro coded_Cons.IH [of "pre @ data @ par"]) auto
    also have "\<dots> = Inr (msg @ take (length (concat (data @ segs)) - (ss - nat (Last (last (s # plan)))))
        (concat (data @ segs)))"
    proof -
      have "ss \<le> length (concat segs)"
        using coded_data_long [OF coded_Cons.hyps(2) False, of P] coded_Cons.prems(5) by simp
      then have "ss - nat (Last (last plan)) \<le> length (concat segs)" by linarith
      then show ?thesis using False by simp
    qed
    finally show ?thesis .
  qed
qed simp

lemma section_bounds:
  assumes "all = pre @ data @ par @ post" and "int (length pre) = DStart s" and "section_shards R ss s data par"
  shows "DStart s = int (length pre)" and "DEnd s = int (length pre + length data)"
    and "PEnd s = int (length pre + (length data + length par))"
  using assms by (auto simp: section_shards_def)

lemma index_expr_last: "xs \<noteq> [] \<Longrightarrow> index_expr xs (int (length xs) - 1) = Inr (last xs)"
proof -
  assume ne: "xs \<noteq> []"
  then have "int (length xs) - 1 = int (length xs - 1)" "length xs - 1 < length xs"
    by (cases xs; simp)+
  then show ?thesis using index_expr_nat [of "length xs - 1" xs] last_conv_nth [OF ne] by metis
qed

lemma join_complete_joins:
  assumes "\<forall>i<length all. i < length packets \<and> pData (packets ! i) = all ! i" and "SLen s = int ss"
  shows "joins_sections R ss all (join_complete packets) s"
  unfolding joins_sections_def
proof (intro allI impI, elim conjE)
  fix msg pre data par post
  assume a: "all = pre @ data @ par @ post" "int (length pre) = DStart s" "section_shards R ss s data par"
  note b = section_bounds [OF a]
  have "rmap (\<lambda>i. rbind (index_expr packets i) (\<lambda>p. Inr (pData p))) (map int [length pre..<length pre + length data])
      = Inr (map (\<lambda>i. all ! nat i) (map int [length pre..<length pre + length data]))"
    using assms(1) a(1) by (intro rmap_Inr) (auto simp: index_expr_nat)
  also have "\<dots> = Inr data"
    unfolding a(1) map_nth_ints by (rule refl)
  finally show "join_complete packets s msg = packet_join msg data (int ss) (Last s)"
    using assms(2) unfolding join_complete_def b upto_map_int by simp
qed

text \<open>The view of the received packets: per position nothing or the shard of that position.\<close>

definition received :: "bytes list \<Rightarrow> packet option list \<Rightarrow> bool" where
  "received all pkts \<longleftrightarrow> length pkts = length all \<and>
     (\<forall>i<length all. pkts ! i = None \<or> (\<exists>p. pkts ! i = Some p \<and> pData p = all ! i))"

definition enough :: "packet option list \<Rightarrow> segment \<Rightarrow> bool" where
  "enough pkts s \<longleftrightarrow> DEnd s - DStart s \<le>
     int (length (filter (\<lambda>i. pkts ! nat i \<noteq> None) [DStart s..PEnd s - 1]))"

lemma filter_zip_map:
  "map fst (filter snd (zip (map int xs) (map H xs))) = map int (filter H xs)"
  "map fst (filter (\<lambda>x. \<not> snd x) (zip (map int xs) (map H xs))) = map int (filter (\<lambda>x. \<not> H x) xs)"
  by (induction xs) auto

lemma length_filter_full: "length (filter P [0..<d]) = d \<longleftrightarrow> (\<forall>j<d. P j)"
  using length_filter_less [of _ "[0..<d]" P] by (fastforce simp: filter_id_conv)

text \<open>The bookkeeping of a section in natural numbers: which of its positions are there.\<close>

lemma section_view:
  assumes "received all pkts" and "all = pre @ data @ par @ post" and "enough pkts s"
    and "int (length pre) = DStart s" and "section_shards R ss s data par"
  defines "H \<equiv> \<lambda>j. pkts ! (length pre + j) \<noteq> None"
    and "d \<equiv> length data" and "p \<equiv> length par"
  shows "rmap (is_have pkts) [DStart s..DEnd s - 1] = Inr (map H [0..<d])"
    and "rmap (is_have pkts) [DEnd s..PEnd s - 1] = Inr (map H [d..<d + p])"
    and "rmap (data_of pkts (int ss)) [DStart s..DEnd s - 1]
      = Inr (map (\<lambda>j. if H j then (data @ par) ! j else replicate ss 0) [0..<d])"
    and "rmap (data_of pkts (int ss)) [DStart s..PEnd s - 1]
      = Inr (map (\<lambda>j. if H j then (data @ par) ! j else replicate ss 0) [0..<d + p])"
    and "d \<le> length (filter H [0..<d + p])"
proof -
  note b = section_bounds [OF assms(2,4,5)]
  let ?a = "length pre"
  let ?g = "\<lambda>j. if H j then (data @ par) ! j else replicate ss 0"
  have len: "?a + (d + p) \<le> length pkts"
    using assms(1,2) by (simp add: received_def d_def p_def)
  have have1: "is_have pkts (int (?a + j)) = Inr (H j)" if "j < d + p" for j
    using that len by (simp add: is_have_def index_expr_def H_def nat_add_distrib)
  have data1: "data_of pkts (int ss) (int (?a + j)) = Inr (?g j)" if "j < d + p" for j
  proof -
    have "all ! (?a + j) = (data @ par) ! j"
      using that by (auto simp: assms(2) nth_append d_def p_def)
    moreover have "pkts ! (?a + j) = None \<or> (\<exists>q. pkts ! (?a + j) = Some q \<and> pData q = all ! (?a + j))"
      using that len assms(1) by (simp add: received_def)
    ultimately show ?thesis
      using that len by (auto simp: data_of_def index_expr_def H_def nat_add_distrib)
  qed
  have ints: "[DStart s..DEnd s - 1] = map (\<lambda>j. int (?a + j)) [0..<d]"
    "[DEnd s..PEnd s - 1] = map (\<lambda>j. int (?a + j)) [d..<d + p]"
    "[DStart s..PEnd s - 1] = map (\<lambda>j. int (?a + j)) [0..<d + p]"
    unfolding b upto_map_int d_def p_def
    by (simp_all only: map_upt_shift add.assoc [symmetric]) (simp_all only: map_upt_shift add.assoc)
  have rm: "rmap f (map (\<lambda>j. int (?a + j)) xs) = Inr (map g xs)"
    if "\<And>j. j \<in> set xs \<Longrightarrow> f (int (?a + j)) = Inr (g j)" for xs g and f :: "int \<Rightarrow> 'c res"
    using that by (induction xs) auto
  show "rmap (is_have pkts) [DStart s..DEnd s - 1] = Inr (map H [0..<d])"
    and "rmap (is_have pkts) [DEnd s..PEnd s - 1] = Inr (map H [d..<d + p])"
    and "rmap (data_of pkts (int ss)) [DStart s..DEnd s - 1] = Inr (map ?g [0..<d])"
    and "rmap (data_of pkts (int ss)) [DStart s..PEnd s - 1] = Inr (map ?g [0..<d + p])"
    unfolding ints by (rule rm; use have1 data1 in simp)+
  show "d \<le> length (filter H [0..<d + p])"
  proof -
    have "DEnd s - DStart s = int d" using b by (simp add: d_def)
    moreover have "filter (\<lambda>i. pkts ! nat i \<noteq> None) (map (\<lambda>j. int (?a + j)) xs)
        = map (\<lambda>j. int (?a + j)) (filter H xs)" for xs
      by (induction xs) (auto simp: H_def nat_add_distrib)
    ultimately show ?thesis using assms(3) unfolding enough_def ints by simp
  qed
qed

lemma section_reconst:
  assumes sh: "section_shards R ss s data par" and ss: "0 < ss" and par: "par \<noteq> []"
    and code: "rs_code R (length data) (length par)"
    and en: "length data \<le> length (filter H [0..<length data + length par])"
  defines "d \<equiv> length data" and "p \<equiv> length par"
  shows "\<exists>v. rs_reconst R (int d) (int p)
      (map (\<lambda>j. if H j then (data @ par) ! j else replicate ss 0) [0..<d + p])
      (map int (filter H [0..<d]) @ map int (filter H [d..<d + p]))
      (map int (filter (\<lambda>j. \<not> H j) [0..<d])) = Inr v \<and> length v = d + p \<and> take d v = data"
proof -
  let ?g = "\<lambda>j. if H j then (data @ par) ! j else replicate ss 0"
  let ?h = "map int (filter H [0..<d]) @ map int (filter H [d..<d + p])"
  let ?l = "map int (filter (\<lambda>j. \<not> H j) [0..<d])"
  have en': "length data \<le> length (filter H [0..<length data]) + length (filter H [length data..<length data + length par])"
    using en by (simp add: upt_add_eq_append [of 0 "length data" "length par"])
  have u: "\<forall>x\<in>set (data @ par). length x = ss" "\<forall>x\<in>set data. length x = ss"
    using sh by (auto simp: section_shards_def)
  have enc: "rs_encode R (int d) (int p) (data @ replicate p (replicate ss 0)) = Inr (data @ par)"
    using sh par unfolding section_shards_def d_def p_def by blast
  have vl: "\<forall>x\<in>set (map ?g [0..<d + p]). length x = ss"
    using u(1) nth_mem [of _ "data @ par"] by (auto simp: d_def p_def)
  obtain v where v: "rs_reconst R (int d) (int p) (map ?g [0..<d + p]) ?h ?l = Inr v"
    "length v = d + p" "\<forall>i\<in>set ?h \<union> set ?l. v ! nat i = (data @ par) ! nat i"
    by (rule rs_code_reconst [OF code [folded d_def p_def] d_def [symmetric, THEN meta_eq_to_obj_eq] ss u(2) enc _ vl,
          where got = ?h and lost = ?l])
       (use en' in \<open>auto simp: distinct_map d_def p_def\<close>)
  have "take d v = data"
  proof (rule nth_equalityI)
    fix i assume "i < length (take d v)"
    then have i: "i < d" using v(2) by simp
    then have "int i \<in> set ?h \<union> set ?l" by (cases "H i") auto
    with v(3) have "v ! i = (data @ par) ! i" by (metis nat_int)
    then show "take d v ! i = data ! i" using i by (simp add: nth_append d_def)
  qed (use v(2) in \<open>simp add: d_def\<close>)
  with v show ?thesis by blast
qed

lemma join_section_joins:
  assumes rec: "received all pkts" and en: "enough pkts s" and ss: "SLen s = int ss" "0 < ss"
    and code: "DEnd s < PEnd s \<longrightarrow> rs_code R (nat (DEnd s - DStart s)) (nat (PEnd s - DEnd s))"
  shows "joins_sections R ss all (join_section R pkts) s"
  unfolding joins_sections_def
proof (intro allI impI, elim conjE)
  fix msg pre data par post
  assume a: "all = pre @ data @ par @ post" "int (length pre) = DStart s" "section_shards R ss s data par"
  define d p H where "d = length data" and "p = length par"
    and "H = (\<lambda>j. pkts ! (length pre + j) \<noteq> None)"
  note v = section_view [OF rec a(1) en a(2,3), folded d_def p_def H_def]
  have b: "DEnd s - DStart s = int d" "PEnd s - DEnd s = int p" "PEnd s - DStart s = int (d + p)"
    unfolding section_bounds [OF a] d_def p_def by simp_all
  define hD lD hP where "hD = map int (filter H [0..<d])" and "lD = map int (filter (\<lambda>j. \<not> H j) [0..<d])"
    and "hP = map int (filter H [d..<d + p])"
  have lens: "length (hD @ hP) = length (filter H [0..<d + p])"
    by (simp add: hD_def hP_def upt_add_eq_append [of 0 d p])
  have ixs: "zip [0..int d - 1] (map H [0..<d]) = zip (map int [0..<d]) (map H [0..<d])"
    "zip [int d..int (d + p) - 1] (map H [d..<d + p]) = zip (map int [d..<d + p]) (map H [d..<d + p])"
    using upto_map_int [of 0 d] upto_map_int [of d "d + p"] by simp_all
  have body: "join_section R pkts s msg =
     (if int (length hD + length hP) < int d then Inl (Error ''too many lost to recover in section'')
      else if int (length hD) = int d then
        packet_join msg (map (\<lambda>j. if H j then (data @ par) ! j else replicate ss 0) [0..<d]) (int ss) (Last s)
      else rbind (rs_new R (int d) (int p)) (\<lambda>_.
        rbind (rs_reconst R (int d) (int p)
          (map (\<lambda>j. if H j then (data @ par) ! j else replicate ss 0) [0..<d + p]) (hD @ hP) lD) (\<lambda>sg.
        rbind (slice_expr sg 0 (int d)) (\<lambda>ds. packet_join msg ds (int ss) (Last s)))))"
    unfolding join_section_def Let_def b ss v(1-4) rbind_Inr ixs filter_zip_map
    by (simp only: hD_def hP_def lD_def H_def)
  have enough': "\<not> int (length hD + length hP) < int d" using v(5) lens by simp
  show "join_section R pkts s msg = packet_join msg data (int ss) (Last s)"
  proof (cases "length hD = d")
    case True
    then have "\<forall>j<d. H j" by (simp add: hD_def length_filter_full)
    then have "map (\<lambda>j. if H j then (data @ par) ! j else replicate ss 0) [0..<d] = data"
      by (intro nth_equalityI) (simp_all add: d_def nth_append)
    then show ?thesis using enough' True by (simp add: body)
  next
    case False
    have "p \<noteq> 0"
    proof
      assume "p = 0"
      then have "d \<le> length hD" using enough' by (simp add: hP_def)
      moreover have "length hD \<le> d"
        using length_filter_le [of H "[0..<d]"] by (simp add: hD_def)
      ultimately show False using \<open>length hD \<noteq> d\<close> by simp
    qed
    then have "DEnd s < PEnd s" using b(2) by linarith
    then have c: "par \<noteq> []" "rs_code R d p" using code b \<open>p \<noteq> 0\<close> by (auto simp: p_def)
    obtain v where v: "rs_reconst R (int d) (int p)
          (map (\<lambda>j. if H j then (data @ par) ! j else replicate ss 0) [0..<d + p]) (hD @ hP) lD = Inr v"
      "length v = d + p" "take d v = data"
      using section_reconst [OF a(3) ss(2) c(1), of H, folded d_def p_def] c(2) v(5)
      unfolding hD_def hP_def lD_def by blast
    moreover have "rs_new R (int d) (int p) = Inr ()" using c(2) by (simp add: rs_code_def)
    moreover have "slice_expr v 0 (int d) = Inr data" using v by (simp add: slice_expr_def)
    ultimately show ?thesis using enough' False by (simp add: body)
  qed
qed

text \<open>The packets that came in for a message: distinct positions, the shard of the position, the
  common fields of the message.\<close>

definition packets_for :: "bytes list \<Rightarrow> int \<Rightarrow> int \<Rightarrow> packet list \<Rightarrow> bool" where
  "packets_for shards L P ps \<longleftrightarrow> ps \<noteq> [] \<and> distinct (map pSeq ps) \<and>
     (\<forall>p\<in>set ps. unat (pSeq p) < length shards \<and> pData p = shards ! unat (pSeq p) \<and>
        uint (pLength p) = L \<and> uint (pParity p) = P)"

definition arrived :: "packet list \<Rightarrow> segment \<Rightarrow> nat" where
  "arrived ps s = length (filter (\<lambda>i. i \<in> (\<lambda>p. uint (pSeq p)) ` set ps) [DStart s..PEnd s - 1])"

lemma common_loop_distinct:
  assumes "distinct (sq # map pSeq rest)" and "\<forall>p\<in>set rest. pParity p = red \<and> pLength p = l"
  shows "common_loop C packets l red sq discard rest = Inr discard"
  using assms by (induction rest arbitrary: sq) auto

lemma collate_result:
  assumes "distinct (map pSeq ps)" and "\<forall>p\<in>set ps. unat (pSeq p) < length pkts"
  shows "\<exists>out. collate ps pkts = Inr out \<and> length out = length pkts \<and>
     (\<forall>p\<in>set ps. out ! unat (pSeq p) = Some p) \<and>
     (\<forall>i. i \<notin> (\<lambda>p. unat (pSeq p)) ` set ps \<longrightarrow> out ! i = pkts ! i)"
  using assms
proof (induction ps arbitrary: pkts)
  case (Cons p ps)
  let ?pkts = "pkts[unat (pSeq p) := Some p]"
  have "set_index pkts (uint (pSeq p)) (Some p) = Inr ?pkts"
    using Cons.prems(2) by (simp add: set_index_def uint_nat del: of_nat_unat)
  moreover obtain out where out: "collate ps ?pkts = Inr out" "length out = length pkts"
    "\<forall>q\<in>set ps. out ! unat (pSeq q) = Some q"
    "\<forall>i. i \<notin> (\<lambda>p. unat (pSeq p)) ` set ps \<longrightarrow> out ! i = ?pkts ! i"
    using Cons.IH [of ?pkts] Cons.prems by auto
  moreover have "out ! unat (pSeq p) = Some p"
  proof -
    have "unat (pSeq p) \<notin> (\<lambda>p. unat (pSeq p)) ` set ps" using Cons.prems(1) by (auto dest: unsigned_word_eqI)
    then show ?thesis using out(4) Cons.prems(2) by simp
  qed
  moreover have "\<forall>i. i \<notin> (\<lambda>p. unat (pSeq p)) ` set (p # ps) \<longrightarrow> out ! i = pkts ! i"
    using out(4) by auto
  ultimately show ?case by simp
qed simp

lemma sorted_packets_all:
  assumes "packets_for shards L P ps" and "length ps = length shards"
  shows "map (\<lambda>p. unat (pSeq p)) (sort_key pSeq ps) = [0..<length shards]"
proof (rule sorted_distinct_set_unique)
  have "sorted (map pSeq (sort_key pSeq ps))" by (rule sorted_sort_key)
  then show "sorted (map (\<lambda>p. unat (pSeq p)) (sort_key pSeq ps))"
    by (simp add: sorted_iff_nth_mono unat_mono word_le_nat_alt)
  have inj: "inj_on (\<lambda>p. unat (pSeq p)) (set ps)" and d: "distinct ps"
    using assms(1) by (auto simp: packets_for_def distinct_map inj_on_def dest: unsigned_word_eqI)
  then show "distinct (map (\<lambda>p. unat (pSeq p)) (sort_key pSeq ps))"
    by (simp add: distinct_map)
  have "(\<lambda>p. unat (pSeq p)) ` set ps \<subseteq> {0..<length shards}"
    using assms(1) by (auto simp: packets_for_def)
  moreover have "card ((\<lambda>p. unat (pSeq p)) ` set ps) = length shards"
    using inj d assms(2) by (simp add: card_image distinct_card)
  ultimately show "set (map (\<lambda>p. unat (pSeq p)) (sort_key pSeq ps)) = set [0..<length shards]"
    using card_subset_eq [of "{0..<length shards}"] by simp
qed simp_all

lemma map_filter_id_Some [simp]: "List.map_filter id (map Some ps) = ps"
  by (induction ps) (simp_all add: List.map_filter_def)

lemma sort_key_Nil_iff: "sort_key f xs = [] \<longleftrightarrow> xs = []"
  by (metis length_0_conv length_sort)

lemma packets_for_sorted:
  "packets_for shards L P ps \<Longrightarrow> packets_for shards L P (sort_key pSeq ps)"
  by (auto simp: packets_for_def distinct_map sort_key_Nil_iff)

text \<open>The two ways in which \<^verbatim>\<open>JoinPackets\<close> puts the sections together.\<close>

lemma join_all_arrived:
  assumes "packets_for shards L P ps" and "length ps = length shards" and "SLen s = int ss"
  shows "joins_sections R ss shards (join_complete (sort_key pSeq ps)) s"
proof (rule join_complete_joins [OF _ assms(3)], intro allI impI)
  fix i assume i: "i < length shards"
  let ?sp = "sort_key pSeq ps"
  have len: "i < length ?sp" using i assms(2) by simp
  have "unat (pSeq (?sp ! i)) = map (\<lambda>p. unat (pSeq p)) ?sp ! i" using len by simp
  also have "\<dots> = i" using sorted_packets_all [OF assms(1,2)] i by simp
  finally have "unat (pSeq (?sp ! i)) = i" .
  moreover have "?sp ! i \<in> set ps" using len nth_mem [of i ?sp] by simp
  ultimately show "i < length ?sp \<and> pData (?sp ! i) = shards ! i"
    using assms(1) len by (auto simp: packets_for_def)
qed

lemma collate_received:
  assumes "packets_for shards L P ps"
  obtains pkts where "collate ps (replicate (length shards) None) = Inr pkts" and "received shards pkts"
    and "\<And>s. 0 \<le> DStart s \<Longrightarrow> PEnd s \<le> int (length shards) \<Longrightarrow> DEnd s - DStart s \<le> int (arrived ps s) \<Longrightarrow> enough pkts s"
proof -
  from assms have "distinct (map pSeq ps)" "\<forall>p\<in>set ps. unat (pSeq p) < length (replicate (length shards) (None :: packet option))"
    by (auto simp: packets_for_def)
  from collate_result [OF this] obtain pkts where
    p: "collate ps (replicate (length shards) None) = Inr pkts" "length pkts = length shards"
    "\<forall>p\<in>set ps. pkts ! unat (pSeq p) = Some p"
    "\<forall>i. i \<notin> (\<lambda>p. unat (pSeq p)) ` set ps \<longrightarrow> pkts ! i = replicate (length shards) None ! i"
    by auto
  have "received shards pkts"
    unfolding received_def
  proof (intro conjI allI impI)
    fix i assume i: "i < length shards"
    show "pkts ! i = None \<or> (\<exists>p. pkts ! i = Some p \<and> pData p = shards ! i)"
    proof (cases "i \<in> (\<lambda>p. unat (pSeq p)) ` set ps")
      case True
      then show ?thesis using p(3) assms by (auto simp: packets_for_def)
    next
      case False
      then show ?thesis using p(4) i by simp
    qed
  qed (rule p(2))
  moreover have "enough pkts s" if en: "0 \<le> DStart s" "PEnd s \<le> int (length shards)"
    "DEnd s - DStart s \<le> int (arrived ps s)" for s
  proof -
    have "pkts ! nat i \<noteq> None \<longleftrightarrow> i \<in> (\<lambda>p. uint (pSeq p)) ` set ps" if i: "i \<in> set [DStart s..PEnd s - 1]" for i
    proof -
      have b: "0 \<le> i" "nat i < length shards" using i en(1,2) by auto
      have "i \<in> (\<lambda>p. uint (pSeq p)) ` set ps \<longleftrightarrow> nat i \<in> (\<lambda>p. unat (pSeq p)) ` set ps"
        using b(1) by (force simp: uint_nat image_iff simp del: of_nat_unat)
      then show ?thesis using p(3,4) b(2) by (auto simp: image_iff)
    qed
    then have "filter (\<lambda>i. pkts ! nat i \<noteq> None) [DStart s..PEnd s - 1]
        = filter (\<lambda>i. i \<in> (\<lambda>p. uint (pSeq p)) ` set ps) [DStart s..PEnd s - 1]"
      by (intro filter_cong) auto
    then show ?thesis using en(3) by (simp add: enough_def arrived_def)
  qed
  ultimately show thesis using that p(1) by blast
qed

lemma coded_bounds:
  "coded R ss plan segs shards \<Longrightarrow> contiguous a plan \<Longrightarrow> s \<in> set plan \<Longrightarrow>
   PEnd s \<le> a + int (length shards)"
proof (induction arbitrary: a rule: coded.induct)
  case (coded_Cons t data par plan segs shards)
  have t: "PEnd t = a + int (length data) + int (length par)"
    using coded_Cons.hyps(1) coded_Cons.prems(1) by (auto simp: section_shards_def)
  show ?case
  proof (cases "s = t")
    case False
    then have "PEnd s \<le> PEnd t + int (length shards)"
      using coded_Cons.IH coded_Cons.prems by simp
    then show ?thesis using t by simp
  qed (use t in simp)
qed simp

lemma coded_uniform: "coded R ss plan segs shards \<Longrightarrow> x \<in> set shards \<Longrightarrow> length x = ss"
  by (induction rule: coded.induct) (auto simp: section_shards_def)

text \<open>\<^verbatim>\<open>JoinPackets\<close> by its plan, and with its three results, which carry exactly what the result with an error as a
  failure does.\<close>

lemma JoinPackets_by_plan:
  "JoinPackets C R ps = rbind (join_plan C ps) (\<lambda>(packets, segMap, segCount).
      if segCount = int (length packets) then rbind (rfold (join_complete packets) segMap []) (\<lambda>msg. Inr ([], msg))
      else rbind (collate packets (replicate (nat segCount) None)) (\<lambda>pkts.
           rbind (rfold (join_section R pkts) segMap []) (\<lambda>msg. Inr (pkts, msg))))"
  unfolding JoinPackets_def join_plan_def Let_def by (simp add: rbind_assoc if_distrib [of "\<lambda>m. rbind m f" for f] cong: if_cong)

lemma join_sections_rfold:
  "rfold (join_section R pkts) sms msg = rbind (join_sections R pkts sms msg) (\<lambda>(m, e). case e of None \<Rightarrow> Inr m | Some x \<Rightarrow> Inl (Error x))"
  by (induction sms arbitrary: msg) (auto split: sum.splits go_error.splits)

lemma JoinPackets_by_results:
  "JoinPackets C R ps = rbind (JoinPackets_results C R ps) (\<lambda>(c, m, e). case e of None \<Rightarrow> Inr (c, m) | Some x \<Rightarrow> Inl (Error x))"
  unfolding JoinPackets_results_def JoinPackets_by_plan
  by (cases "join_plan C ps")
    (auto simp: rbind_assoc join_sections_rfold rbind_def split: sum.splits go_error.splits prod.splits option.splits)

lemma JoinPackets_results_ok: "JoinPackets C R ps = Inr (c, m) \<Longrightarrow> JoinPackets_results C R ps = Inr (c, m, None)"
  by (auto simp: JoinPackets_by_results [of C R ps] rbind_eq_Inr split: option.splits)

text \<open>The plan for packets of one message.\<close>

lemma join_plan_base:
  assumes ps: "packets_for shards L P ps" "List.map_filter id packets0 = ps"
    and plan: "NewSegments L (int ss) 0 P = Inr plan" "plan \<noteq> []" "PEnd (last plan) = int (length shards)"
    and uni: "\<forall>x\<in>set shards. length x = ss"
  shows "join_plan C packets0 =
     (if P = 0 \<and> length ps < length shards then Inl (Error ''no redundancy with lost packets'')
      else Inr (sort_key pSeq ps, plan, int (length shards)))"
proof -
  obtain p rest where sp: "sort_key pSeq ps = p # rest"
    using ps(1) by (cases "sort_key pSeq ps") (auto simp: packets_for_def sort_key_Nil_iff)
  have psp: "packets_for shards L P (p # rest)" using packets_for_sorted [OF ps(1)] sp by simp
  then have pd: "length (pData p) = ss" "uint (pLength p) = L" "uint (pParity p) = P"
    using uni by (auto simp: packets_for_def)
  have seg: "NewSegments L (int (length (pData p) + Packet_GetOverhead p)) (int (Packet_GetOverhead p)) P = Inr plan"
    using plan(1) pd(1) by (simp add: NewSegments_def)
  have common: "common_loop C (p # rest) (pLength p) (pParity p) (pSeq p) [] rest = Inr []"
    using psp by (intro common_loop_distinct) (auto simp: packets_for_def intro: unsigned_word_eqI)
  have red: "pParity p = 0 \<longleftrightarrow> P = 0" using pd(3) uint_0_iff [of "pParity p"] by auto
  have lsp: "length ps = Suc (length rest)" using sp length_sort [of pSeq ps] by simp
  have ne: "packets0 \<noteq> []" using ps by (auto simp: packets_for_def map_filter_def)
  show ?thesis
    unfolding join_plan_def Let_def ps(2) sp
    using ne pd(2,3) seg plan(3) index_expr_last [OF plan(2)] common red lsp index_expr_nat [of 0 "p # rest"] by simp
qed

lemma JoinPackets_base:
  assumes "packets_for shards L P ps" "List.map_filter id packets0 = ps"
    and "NewSegments L (int ss) 0 P = Inr plan" "plan \<noteq> []" "PEnd (last plan) = int (length shards)"
    and "\<forall>x\<in>set shards. length x = ss"
  shows "JoinPackets C R packets0 =
     (if P = 0 \<and> length ps < length shards then Inl (Error ''no redundancy with lost packets'')
      else if length shards = length ps then
        rbind (rfold (join_complete (sort_key pSeq ps)) plan []) (\<lambda>msg. Inr ([], msg))
      else
        rbind (collate (sort_key pSeq ps) (replicate (length shards) None)) (\<lambda>pkts.
        rbind (rfold (join_section R pkts) plan []) (\<lambda>msg. Inr (pkts, msg))))"
  unfolding JoinPackets_by_plan join_plan_base [OF assms] by simp

text \<open>What \<^verbatim>\<open>JoinPackets\<close> makes of packets of one message when each section has enough of them.\<close>

lemma JoinPackets_coded:
  assumes ps: "packets_for shards L P ps" "List.map_filter id packets0 = ps"
    and L: "0 \<le> L" and P: "0 \<le> P" "P < 256" and ss: "0 < ss"
    and plan: "NewSegments L (int ss) 0 P = Inr plan"
    and cod: "coded R ss plan segs shards" "plan_coder R plan"
    and arr: "\<forall>s\<in>set plan. DEnd s - DStart s \<le> int (arrived ps s)" "P = 0 \<longrightarrow> length ps = length shards"
    and trim: "\<not> (seg_total L (int ss) mod (256 - P) = 0 \<and> seg_total L (int ss) div (256 - P) > 1)"
  shows "\<exists>pkts. JoinPackets C R packets0
    = Inr (pkts, take (length (concat segs) - (ss - nat (L mod int ss))) (concat segs))"
proof -
  let ?sp = "sort_key pSeq ps" and ?msg = "take (length (concat segs) - (ss - nat (L mod int ss))) (concat segs)"
  have pl: "plan \<noteq> []" "contiguous 0 plan" "\<forall>s\<in>set plan. section_ok P (int ss) s"
    "Last (last plan) = L mod int ss" "\<forall>s\<in>set (butlast plan). Last s = int ss"
    using NewSegments_plan [of L "int ss" P "int ss" 0] L P ss plan trim by (auto simp: Let_def)
  have pend: "PEnd (last plan) = int (length shards)"
    using coded_length [OF cod(1) pl(2,1)] by simp
  note base = JoinPackets_base [OF ps plan pl(1) pend, of C R]
  have uni: "\<forall>x\<in>set shards. length x = ss" using coded_uniform [OF cod(1)] by blast
  have fold: "rfold step plan [] = Inr ?msg" if "\<forall>s\<in>set plan. joins_sections R ss shards step s" for step
    using rfold_joins [OF cod(1), of "[]" shards "[]" step P "[]"] that pl ss by (simp add: less_imp_le)
  have sl: "\<forall>s\<in>set plan. SLen s = int ss" using pl(3) by (simp add: section_ok_def)
  show ?thesis
  proof (cases "length ps = length shards")
    case True
    have "rfold (join_complete ?sp) plan [] = Inr ?msg"
      using join_all_arrived [OF ps(1) True] sl by (intro fold) simp
    then show ?thesis using base [OF uni] True by simp
  next
    case False
    obtain pkts where pk: "collate ?sp (replicate (length shards) None) = Inr pkts" "received shards pkts"
      "\<And>s. 0 \<le> DStart s \<Longrightarrow> PEnd s \<le> int (length shards) \<Longrightarrow>
         DEnd s - DStart s \<le> int (arrived ?sp s) \<Longrightarrow> enough pkts s"
      using collate_received [OF packets_for_sorted [OF ps(1)]] by metis
    have "arrived ?sp s = arrived ps s" for s by (simp add: arrived_def)
    then have "\<forall>s\<in>set plan. enough pkts s"
      using pk(3) arr(1) pl(3) coded_bounds [OF cod(1) pl(2)] by (simp add: section_ok_def)
    then have "rfold (join_section R pkts) plan [] = Inr ?msg"
      using pk(2) sl ss cod(2) by (intro fold ballI join_section_joins) (auto simp: plan_coder_def)
    then show ?thesis using base [OF uni] False arr(2) pk(1) by auto
  qed
qed

end
