(* ===== verification/Packet_Split.thy ===== *)
theory Packet_Split
  imports Packet_Props
begin

unbundle bit_operations_syntax

text \<open>
  Splitting a message into packets, receiving some of them and joining: the end-to-end
  correctness of the packet layer, and what happens at the sizes the segment plan gets wrong.
\<close>

section \<open>Receiving a packet\<close>

text \<open>What a receiver does with the bytes of a packet: read the keys of the frame, then decode.\<close>

definition receive :: "crypto_ops \<Rightarrow> int \<Rightarrow> prv \<Rightarrow> bytes \<Rightarrow> packet res" where
  "receive C now to d = rbind (GetKeysFromPacket C d) (\<lambda>(from, cloak, iv).
     rbind (DecodePacket C now d from to iv) (\<lambda>(p, _). Inr p))"

lemma receive_EncodePacket:
  assumes "crypto_laws C" and "length nonc = 16" and "params_ok ep" and "ppTo ep = prv_pub C to"
    and "valid_pub C (prv_pub C (ppFrom ep))"
  shows "\<exists>d. EncodePacket C nonc blind ep = Inr d \<and> receive C now to d = Inr (packet_of ep now)"
proof -
  let ?F = "frame_rest C nonc blind ep"
  have "EncodePacket C nonc blind ep = Inr (take 4 (Single C ?F) @ ?F)"
    using assms by (intro EncodePacket_eq) (auto simp: params_ok_def)
  moreover have "\<exists>d'. DecodePacket C now (take 4 (Single C ?F) @ ?F) (prv_pub C (ppFrom ep)) to (replicate 16 0)
      = Inr (packet_of ep now, d')"
    using assms by (intro DecodePacket_frame) simp_all
  ultimately show ?thesis
    using GetKeysFromPacket_frame [OF assms(1,2,5), of blind] by (auto simp: receive_def)
qed

definition shard_packet :: "packet_params \<Rightarrow> int \<Rightarrow> nat \<Rightarrow> bytes \<Rightarrow> packet" where
  "shard_packet pp now i d = \<lparr>pID = ppID pp, pSeq = word_of_nat i, pLength = word_of_int (ppLength pp),
     pParity = word_of_int (ppParity pp), pData = d, pTime = now\<rparr>"

lemma encode_loop_received:
  assumes "crypto_laws C" and "\<forall>i. length (nonc i) = 16" and "\<forall>k. valid_pub C (prv_pub C k)"
    and "ppTo pp = prv_pub C to" and "params_ok (pp\<lparr>ppSeq := 0\<rparr>)" and "i + length ds \<le> 2 ^ 16"
  shows "\<exists>wire ks'. encode_loop C nonc blind pp ks i ds = Inr (wire, ks') \<and>
     rmap (receive C now to) wire = Inr (map2 (shard_packet pp now) [i..<i + length ds] ds)"
  using assms(6)
proof (induction ds arbitrary: i ks)
  case (Cons d ds)
  obtain k ks1 where k: "Next C ks = (k, ks1)" by force
  let ?ep = "pp\<lparr>ppData := d, ppSeq := int i, ppFrom := k\<rparr>"
  have "params_ok ?ep" using assms(5) Cons.prems by (simp add: params_ok_def)
  then obtain w where w: "EncodePacket C (nonc i) (blind i) ?ep = Inr w"
    "receive C now to w = Inr (packet_of ?ep now)"
    using receive_EncodePacket [OF assms(1), of "nonc i" ?ep to "blind i" now] assms(2-4) by auto
  moreover obtain wire ks' where "encode_loop C nonc blind pp ks1 (Suc i) ds = Inr (wire, ks')"
    "rmap (receive C now to) wire = Inr (map2 (shard_packet pp now) [Suc i..<Suc i + length ds] ds)"
    using Cons.IH [of "Suc i" ks1] Cons.prems by auto
  moreover have "packet_of ?ep now = shard_packet pp now i d"
    by (simp add: packet_of_def shard_packet_def)
  ultimately show ?case
    using k by (auto simp: Let_def upt_conv_Cons simp del: upt_Suc)
qed simp

lemma length_encode_loop:
  "encode_loop C nonc blind pp ks i ds = Inr (wire, ks') \<Longrightarrow> length wire = length ds"
  by (induction ds arbitrary: i ks wire ks') (auto simp: Let_def rbind_eq_Inr split: prod.splits)

section \<open>Segments of a payload\<close>

lemma Segment_result:
  assumes "0 < ss"
  obtains out pad where "Segment C rand b (int ss) = Some (Inr out)" and "concat out = b @ pad"
    and "length pad < ss" and "\<forall>x\<in>set out. length x = ss"
  using segment_loop_result [OF assms, of 0 b C rand "[]"] that by (auto simp: Segment_def)

lemma Segment_count:
  assumes "concat out = b @ pad" and "length pad < ss" and "\<forall>x\<in>set out. length x = ss" and "0 < ss"
  shows "length out = seg_count (length b) ss"
    and "\<not> ss dvd length b \<Longrightarrow> int (length out) = seg_total (int (length b)) (int ss) \<and>
      length (concat out) - (ss - length b mod ss) = length b"
    and "ss dvd length b \<Longrightarrow> int (length out) < seg_total (int (length b)) (int ss)"
proof -
  have tot: "length out * ss = length b + length pad"
    using assms(1) concat_uniform_length [OF assms(3)] by (metis length_append)
  have "length b + ss - 1 = (ss - 1 - length pad) + length out * ss" using tot assms(2) by linarith
  then show "length out = seg_count (length b) ss"
    using assms(4) by (simp add: seg_count_def)
  have st: "seg_total (int (length b)) (int ss) = int (length b div ss + 1)"
    by (simp add: seg_total_def zdiv_int)
  define q r where "q = length b div ss" and "r = length b mod ss"
  have b: "length b = ss * q + r" "r < ss" using assms(4) by (simp_all add: q_def r_def)
  show "int (length out) = seg_total (int (length b)) (int ss) \<and>
      length (concat out) - (ss - length b mod ss) = length b" if "\<not> ss dvd length b"
  proof -
    have r: "0 < r" using that by (simp add: r_def mod_greater_zero_iff_not_dvd)
    have "length out * ss < (q + 2) * ss" "q * ss < length out * ss"
      using tot b r assms(2) by (simp_all add: algebra_simps)
    then have "length out < q + 2" "q < length out" by (simp_all only: mult_less_cancel2)
    then have lo: "length out = q + 1" by linarith
    then have pad: "length pad = ss - r" using tot b by (simp add: algebra_simps)
    have "length (concat out) = length b + (ss - r)" using assms(1) pad by simp
    then show ?thesis unfolding st lo by (simp add: q_def r_def)
  qed
  show "int (length out) < seg_total (int (length b)) (int ss)" if "ss dvd length b"
  proof -
    have "r = 0" using that by (simp add: r_def)
    then have "length out * ss < (q + 1) * ss" using tot b assms(2) by (simp add: algebra_simps)
    then have "length out < q + 1" by (simp only: mult_less_cancel2)
    then show ?thesis unfolding st q_def by linarith
  qed
qed

section \<open>Splitting\<close>

lemma parity_loop_short:
  assumes "\<forall>s\<in>set plan. section_ok P (int ss) s" and "plan_coder R plan" and "0 < ss"
    and "\<forall>x\<in>set segs. length x = ss"
    and "int (length segs) < sum_list (map (\<lambda>s. DEnd s - DStart s) plan)"
  shows "parity_loop R plan segs sh e = Inl bounds_panic"
  using assms
proof (induction plan arbitrary: segs sh e)
  case (Cons s plan)
  define d p where "d = nat (DEnd s - DStart s)" and "p = nat (PEnd s - DEnd s)"
  have s: "DEnd s - DStart s = int d" "PEnd s - DEnd s = int p" "SLen s = int ss"
    using Cons.prems(1) by (auto simp: section_ok_def d_def p_def)
  show ?case
  proof (cases "length segs < d")
    case True
    then show ?thesis by (simp add: Let_def s slice_expr_def)
  next
    case False
    define data rest where "data = take d segs" and "rest = drop d segs"
    have dr: "length data = d" "int (length rest) = int (length segs) - int d"
      and u: "\<forall>x\<in>set data. length x = ss" "\<forall>x\<in>set rest. length x = ss"
      using False Cons.prems(4) by (auto simp: data_def rest_def dest: in_set_takeD in_set_dropD)
    have sl: "slice_expr segs 0 (int d) = Inr data" "slice_expr segs (int d) (int (length segs)) = Inr rest"
      using False by (simp_all add: slice_expr_def data_def rest_def)
    have IH: "parity_loop R plan rest sh' e' = Inl bounds_panic" for sh' e'
      using Cons.prems(1-3,5) dr u s(1) by (intro Cons.IH) (simp_all add: plan_coder_def)
    show ?thesis
    proof (cases "p = 0")
      case False
      then have "DEnd s < PEnd s" using s(2) by linarith
      then have "rs_code R d p" using Cons.prems(2) unfolding plan_coder_def d_def p_def by simp
      from rs_code_encode [OF this dr(1) Cons.prems(3) u(1)] obtain par where
        "rs_new R (int d) (int p) = Inr ()"
        "rs_encode R (int d) (int p) (data @ replicate p (replicate ss 0)) = Inr (data @ par)" .
      then show ?thesis using False by (simp add: Let_def s sl IH)
    qed (simp add: Let_def s sl IH)
  qed
qed simp

text \<open>The part of \<^verbatim>\<open>SplitToPackets\<close> before the packets are encoded.\<close>

lemma SplitToPackets_base:
  assumes "ppData pp \<noteq> []" and "segSize = int ss + 76" and "0 < ss" and "0 \<le> ppParity pp" and "ppParity pp < 256"
    and "Segment C rand (ppData pp) (int ss) = Some (Inr segs)"
    and "NewSegments (int (length (ppData pp))) (int ss) 0 (ppParity pp) = Inr plan" and "plan \<noteq> []"
  shows "SplitToPackets C R rand nonc blind pp segSize ks =
    Some (rbind (AddParity R plan segs) (\<lambda>(p, e).
          case (p, e) of
            ([], Some err) \<Rightarrow> Inl err
          | _ \<Rightarrow> rbind (encode_loop C nonc blind (pp\<lparr>ppLength := int (length (ppData pp))\<rparr>) ks 0 p)
              (\<lambda>(packets, ks'). Inr (DEnd (last plan), packets, ks'))))"
proof -
  have "index_expr plan (int (length plan) - 1) = Inr (last plan)"
    using assms(8) by (simp add: index_expr_last)
  moreover have "NewSegments (int (length (ppData pp))) segSize (int (PacketParams_GetOverhead pp')) (ppParity pp) = Inr plan" for pp'
    using assms(2,7) by (simp add: NewSegments_def PacketParams_GetOverhead_def)
  moreover have "segSize - int (PacketParams_GetOverhead pp') = int ss" for pp'
    using assms(2) by (simp add: PacketParams_GetOverhead_def)
  ultimately show ?thesis
    using assms(1,6) by (simp add: SplitToPackets_def Let_def)
qed

text \<open>A payload the plan can handle: not a multiple of the segment size, and not a number of segments
  that fills two or more sections exactly.\<close>

definition plan_exact :: "nat \<Rightarrow> nat \<Rightarrow> int \<Rightarrow> bool" where
  "plan_exact len ss P \<longleftrightarrow> \<not> ss dvd len \<and>
     \<not> (seg_total (int len) (int ss) mod (256 - P) = 0 \<and> seg_total (int len) (int ss) div (256 - P) > 1)"

lemma SplitToPackets_received:
  assumes C: "crypto_laws C" "\<forall>i. length (nonc i) = 16" "\<forall>k. valid_pub C (prv_pub C k)" "ppTo pp = prv_pub C to"
    and pp: "ppData pp \<noteq> []" "params_ok (pp\<lparr>ppSeq := 0, ppLength := int (length (ppData pp))\<rparr>)"
    and ss: "segSize = int ss + 76" "0 < ss" "\<not> ss dvd length (ppData pp)"
    and plan: "NewSegments (int (length (ppData pp))) (int ss) 0 (ppParity pp) = Inr plan"
      "plan_coder R plan" "PEnd (last plan) \<le> 2 ^ 16"
  shows "\<exists>segs shards wire ks'. SplitToPackets C R rand nonc blind pp segSize ks = Some (Inr (DEnd (last plan), wire, ks')) \<and>
     coded R ss plan segs shards \<and> length wire = length shards \<and>
     take (length (concat segs) - (ss - nat (int (length (ppData pp)) mod int ss))) (concat segs) = ppData pp \<and>
     rmap (receive C now to) wire = Inr (map2 (shard_packet (pp\<lparr>ppLength := int (length (ppData pp))\<rparr>) now) [0..<length shards] shards) \<and>
     encode_loop C nonc blind (pp\<lparr>ppLength := int (length (ppData pp))\<rparr>) ks 0 shards = Inr (wire, ks')"
proof -
  let ?L = "length (ppData pp)" and ?pp = "pp\<lparr>ppLength := int (length (ppData pp))\<rparr>"
  have P: "0 \<le> ppParity pp" "ppParity pp < 256" using pp(2) by (auto simp: params_ok_def)
  obtain segs pad where sg: "Segment C rand (ppData pp) (int ss) = Some (Inr segs)" "concat segs = ppData pp @ pad"
    "length pad < ss" "\<forall>x\<in>set segs. length x = ss"
    using Segment_result [OF ss(2)] by metis
  note cnt = Segment_count(2) [OF sg(2-4) ss(2,3)]
  have pl: "plan \<noteq> []" "contiguous 0 plan" "\<forall>s\<in>set plan. section_ok (ppParity pp) (int ss) s"
    "sum_list (map (\<lambda>s. DEnd s - DStart s) plan) = seg_total (int ?L) (int ss)"
    using NewSegments_plan [of "int ?L" "int ss" "ppParity pp" "int ss" 0] P ss(2) plan(1) by auto
  obtain shards e' where sh: "AddParity R plan segs = Inr (shards, e')" "coded R ss plan segs shards"
    using parity_loop_coded [OF pl(3) plan(2) ss(2) sg(4), where sh = "[]" and e = None] cnt pl(4) by (auto simp: AddParity_def Let_def)
  have len: "int (length shards) = PEnd (last plan)" using coded_length [OF sh(2) pl(2,1)] by simp
  moreover have "section_ok (ppParity pp) (int ss) (last plan)" using pl(1,3) by simp
  ultimately have ne: "shards \<noteq> []" by (auto simp: section_ok_def)
  have "params_ok (?pp\<lparr>ppSeq := 0\<rparr>)" using pp(2) by (simp add: params_ok_def)
  then obtain wire ks' where w: "encode_loop C nonc blind ?pp ks 0 shards = Inr (wire, ks')"
    "rmap (receive C now to) wire = Inr (map2 (shard_packet ?pp now) [0..<0 + length shards] shards)"
    using encode_loop_received [OF C(1-3), where pp = ?pp and to = to and i = 0 and ds = shards and blind = blind and ks = ks and now = now] C(4) len plan(3) by auto
  have "SplitToPackets C R rand nonc blind pp segSize ks = Some (Inr (DEnd (last plan), wire, ks'))"
    using SplitToPackets_base [OF pp(1) ss(1,2) P sg(1) plan(1) pl(1)] sh(1) w(1) ne
    by (auto split: list.splits)
  moreover have "take (length (concat segs) - (ss - nat (int ?L mod int ss))) (concat segs) = ppData pp"
    using cnt sg(2) by (simp add: nat_mod_as_int)
  ultimately show ?thesis using sh(2) length_encode_loop [OF w(1)] w by auto
qed

text \<open>A selection of the received packets is a set of packets for the message.\<close>

lemma selected_packets:
  fixes now :: int and s :: segment
  assumes "ixs \<noteq> []" and "distinct ixs" and "set ixs \<subseteq> {0..<length shards}" and "length shards \<le> 2 ^ 16"
    and "params_ok (pp\<lparr>ppSeq := 0, ppLength := int (length (ppData pp))\<rparr>)"
  defines "pkts \<equiv> map2 (shard_packet (pp\<lparr>ppLength := int (length (ppData pp))\<rparr>) now) [0..<length shards] shards"
  shows "packets_for shards (int (length (ppData pp))) (ppParity pp) (map (\<lambda>i. pkts ! i) ixs)"
    and "arrived (map (\<lambda>i. pkts ! i) ixs) s = length (filter (\<lambda>i. i \<in> int ` set ixs) [DStart s..PEnd s - 1])"
proof -
  have small: "i < 2 ^ 16" "i < length shards" if "i \<in> set ixs" for i
    using that assms(3,4) by (auto simp: subset_iff dest!: bspec)
  have pk: "pkts ! i = shard_packet (pp\<lparr>ppLength := int (length (ppData pp))\<rparr>) now i (shards ! i)"
    if "i \<in> set ixs" for i
    using small(2) [OF that] by (simp add: pkts_def)
  have us: "unat (word_of_nat i :: u16) = i" if "i \<in> set ixs" for i
    using small(1) [OF that] by (simp add: unat_of_nat)
  have inj: "inj_on (\<lambda>i. word_of_nat i :: u16) (set ixs)"
    by (rule inj_onI) (metis us)
  have "map pSeq (map (\<lambda>i. pkts ! i) ixs) = map word_of_nat ixs"
    using pk by (simp add: shard_packet_def)
  then have "distinct (map pSeq (map (\<lambda>i. pkts ! i) ixs))"
    using assms(2) inj by (simp only: distinct_map)
  moreover have "uint (word_of_int (int (length (ppData pp))) :: u32) = int (length (ppData pp))"
    "uint (word_of_int (ppParity pp) :: byte) = ppParity pp"
    using assms(5) by (simp_all only: params_ok_def uint_word_of_int) simp_all
  ultimately show "packets_for shards (int (length (ppData pp))) (ppParity pp) (map (\<lambda>i. pkts ! i) ixs)"
    using assms(1) small us pk by (auto simp: packets_for_def shard_packet_def)
  have "(\<lambda>p. uint (pSeq p)) ` set (map (\<lambda>i. pkts ! i) ixs) = int ` set ixs"
    unfolding set_map image_image
    by (rule image_cong) (auto simp: pk shard_packet_def uint_nat us simp del: of_nat_unat)
  then show "arrived (map (\<lambda>i. pkts ! i) ixs) s = length (filter (\<lambda>i. i \<in> int ` set ixs) [DStart s..PEnd s - 1])"
    by (simp only: arrived_def)
qed

section \<open>Properties\<close>


text \<open>A coder with one parity shard, the exclusive or of the data shards, and the small message the
  witness sends: three bytes in two segments, of which the second is lost and restored.\<close>

fun xor_shards :: "bytes list \<Rightarrow> bytes" where
  "xor_shards [] = []"
| "xor_shards [x] = x"
| "xor_shards (x # xs) = map2 (XOR) x (xor_shards xs)"

definition demo_rs :: rs_ops where
  "demo_rs = \<lparr>
     rs_new = (\<lambda>d p. if p = 1 then Inr () else Inl (Error ''unsupported'')),
     rs_encode = (\<lambda>d p sh. Inr (take (nat d) sh @ [xor_shards (take (nat d) sh)])),
     rs_reconst = (\<lambda>d p vects got lost. Inr (map (\<lambda>i.
        if int i \<in> set lost \<and> int i \<notin> set got
        then xor_shards (map ((!) vects) (filter (\<lambda>j. j \<noteq> i) [0..<length vects]))
        else vects ! i) [0..<length vects]))\<rparr>"

definition xor_all :: "byte list \<Rightarrow> byte" where
  "xor_all bs = foldr (XOR) bs 0"

lemma xor_all_simps [simp]: "xor_all [] = 0" "xor_all (x # xs) = x XOR xor_all xs" "xor_all (xs @ ys) = xor_all xs XOR xor_all ys"
proof -
  show "xor_all (xs @ ys) = xor_all xs XOR xor_all ys"
    by (induction xs) (simp_all add: xor_all_def xor.assoc)
qed (simp_all add: xor_all_def)

lemma xor_move:
  assumes "(x :: byte) XOR y XOR z = 0" shows "x XOR z = y"
proof -
  have "y XOR (x XOR y XOR z) = x XOR z" by (simp add: xor.assoc xor.commute xor.left_commute)
  then show ?thesis using assms by simp
qed

lemma xor_shards_bytes:
  "xs \<noteq> [] \<Longrightarrow> \<forall>x\<in>set xs. length x = n \<Longrightarrow>
   length (xor_shards xs) = n \<and> (\<forall>k<n. xor_shards xs ! k = xor_all (map (\<lambda>x. x ! k) xs))"
  by (induction xs rule: xor_shards.induct) auto

text \<open>The exclusive or of all shards but one is that one.\<close>

lemma xor_shards_others:
  assumes "data \<noteq> []" and "\<forall>x\<in>set data. length x = n" and "i < Suc (length data)"
  defines "v \<equiv> data @ [xor_shards data]"
  shows "xor_shards (take i v @ drop (Suc i) v) = v ! i"
proof (rule nth_equalityI)
  note par = xor_shards_bytes [OF assms(1,2)]
  have v: "\<forall>x\<in>set v. length x = n" "length v = Suc (length data)" using assms(2) par by (simp_all add: v_def)
  have ne: "take i v @ drop (Suc i) v \<noteq> []" using assms(1,3) v(2) by (cases "i = 0") auto
  have u: "\<forall>x\<in>set (take i v @ drop (Suc i) v). length x = n" using v(1) by (auto dest: in_set_takeD in_set_dropD)
  note rest = xor_shards_bytes [OF ne u]
  have i: "v = take i v @ v ! i # drop (Suc i) v" using assms(3) v(2) by (intro id_take_nth_drop) simp
  show "length (xor_shards (take i v @ drop (Suc i) v)) = length (v ! i)" using rest v assms(3) by simp
  fix k assume "k < length (xor_shards (take i v @ drop (Suc i) v))"
  then have k: "k < n" using rest by simp
  have "xor_all (map (\<lambda>x. x ! k) v) = 0" using par k by (simp add: v_def)
  then have "xor_all (map (\<lambda>x. x ! k) (take i v)) XOR v ! i ! k XOR xor_all (map (\<lambda>x. x ! k) (drop (Suc i) v)) = 0"
    by (subst (asm) i) (simp add: xor.assoc)
  then have "xor_all (map (\<lambda>x. x ! k) (take i v)) XOR xor_all (map (\<lambda>x. x ! k) (drop (Suc i) v)) = v ! i ! k"
    by (rule xor_move)
  then show "xor_shards (take i v @ drop (Suc i) v) ! k = v ! i ! k" using rest k by simp
qed

lemma all_but_one:
  assumes "distinct got" and "set got \<subseteq> {0..<int (Suc d)}" and "d \<le> length got" and "i \<notin> set got" and "i \<in> {0..<int (Suc d)}"
  shows "set got = {0..<int (Suc d)} - {i}"
proof (rule card_subset_eq)
  show sub: "set got \<subseteq> {0..<int (Suc d)} - {i}" using assms by auto
  have "card ({0..<int (Suc d)} - {i}) = d" using assms(5) by (simp add: card_Diff_singleton)
  moreover have "card (set got) \<le> card ({0..<int (Suc d)} - {i})" using sub by (intro card_mono) auto
  ultimately show "card (set got) = card ({0..<int (Suc d)} - {i})" using assms(1,3) by (simp add: distinct_card)
qed simp

lemma rs_codeI:
  assumes "rs_new R (int d) (int p) = Inr ()"
    and enc: "\<And>data n. length data = d \<Longrightarrow> 0 < n \<Longrightarrow> \<forall>x\<in>set data. length x = n \<Longrightarrow>
      rs_encode R (int d) (int p) (data @ replicate p (replicate n 0)) = Inr (data @ par data) \<and>
      length (par data) = p \<and> (\<forall>x\<in>set (par data). length x = n)"
    and rec: "\<And>data n vects got lost. length data = d \<Longrightarrow> \<forall>x\<in>set data. length x = n \<Longrightarrow>
      length vects = d + p \<Longrightarrow> distinct got \<Longrightarrow> set got \<union> set lost \<subseteq> {0..<int (d + p)} \<Longrightarrow> d \<le> length got \<Longrightarrow>
      \<forall>i\<in>set got. vects ! nat i = (data @ par data) ! nat i \<Longrightarrow>
      \<exists>v. rs_reconst R (int d) (int p) vects got lost = Inr v \<and> length v = d + p \<and>
         (\<forall>i\<in>set got \<union> set lost. v ! nat i = (data @ par data) ! nat i)"
  shows "rs_code R d p"
  unfolding rs_code_def
proof (intro conjI allI impI)
  fix data :: "bytes list" and n
  assume a: "length data = d \<and> 0 < n \<and> (\<forall>x\<in>set data. length x = n)"
  show "\<exists>par. rs_encode R (int d) (int p) (data @ replicate p (replicate n 0)) = Inr (data @ par) \<and>
           length par = p \<and> (\<forall>x\<in>set par. length x = n) \<and>
           (\<forall>vects got lost. length vects = d + p \<and> (\<forall>x\<in>set vects. length x = n) \<and>
              distinct got \<and> set got \<union> set lost \<subseteq> {0..<int (d + p)} \<and> d \<le> length got \<and>
              (\<forall>i\<in>set got. vects ! nat i = (data @ par) ! nat i) \<longrightarrow>
              (\<exists>v. rs_reconst R (int d) (int p) vects got lost = Inr v \<and> length v = d + p \<and>
                 (\<forall>i\<in>set got \<union> set lost. v ! nat i = (data @ par) ! nat i)))"
    using enc [of data n] rec [of data n] a by (intro exI [of _ "par data"]) blast
qed (rule assms(1))

lemma demo_rs_code:
  assumes "0 < d" shows "rs_code demo_rs d 1"
proof (rule rs_codeI [where par = "\<lambda>data. [xor_shards data]"])
  fix data :: "bytes list" and n vects got lost
  assume data: "length data = d" "\<forall>x\<in>set data. length x = n"
    and g: "length vects = d + 1" "distinct got" "set got \<union> set lost \<subseteq> {0..<int (d + 1)}" "d \<le> length got"
    "\<forall>i\<in>set got. vects ! nat i = (data @ [xor_shards data]) ! nat i"
  let ?v = "data @ [xor_shards data]"
  let ?r = "\<lambda>i. if int i \<in> set lost \<and> int i \<notin> set got
      then xor_shards (map ((!) vects) (filter (\<lambda>j. j \<noteq> i) [0..<length vects])) else vects ! i"
  have r: "?r i = ?v ! i" if i: "i < Suc d" "int i \<in> set got \<union> set lost" for i
  proof (cases "int i \<in> set got")
    case False
    have s: "set got = {0..<int (Suc d)} - {int i}" using g(2-4) i False by (intro all_but_one) auto
    have "vects ! j = ?v ! j" if "j < Suc d" "j \<noteq> i" for j using g(5) that unfolding s by (auto dest!: bspec [of _ _ "int j"])
    then have "map ((!) vects) (filter (\<lambda>j. j \<noteq> i) [0..<length vects]) = map ((!) ?v) (filter (\<lambda>j. j \<noteq> i) [0..<Suc d])"
      using g(1) by (intro map_cong) (auto simp del: upt_Suc)
    also have "[0..<Suc d] = [0..<i] @ i # [Suc i..<Suc d]" using i(1) upt_add_eq_append [of 0 i "Suc d - i"] by (simp add: upt_conv_Cons del: upt_Suc)
    also have "filter (\<lambda>j. j \<noteq> i) \<dots> = [0..<i] @ [Suc i..<Suc d]" by (auto simp: filter_id_conv)
    also have "map ((!) ?v) \<dots> = take i ?v @ drop (Suc i) ?v"
      using i(1) data(1) by (auto intro!: nth_equalityI simp: nth_append)
    finally show ?thesis
      using False i xor_shards_others [of data n i] data assms by auto
  qed (use g(5) in force)
  show "\<exists>v. rs_reconst demo_rs (int d) (int 1) vects got lost = Inr v \<and> length v = d + 1 \<and>
      (\<forall>i\<in>set got \<union> set lost. v ! nat i = ?v ! nat i)"
  proof (intro exI conjI ballI)
    show "rs_reconst demo_rs (int d) (int 1) vects got lost = Inr (map ?r [0..<length vects])" by (simp add: demo_rs_def)
    fix i assume i: "i \<in> set got \<union> set lost"
    then have "0 \<le> i \<and> i < int (Suc d)" using g(3) by (force simp: subset_iff)
    then have i': "nat i < Suc d" "int (nat i) \<in> set got \<union> set lost" using i by auto
    have "map f [0..<length vects] ! nat i = f (nat i)" for f :: "nat \<Rightarrow> bytes" using i'(1) g(1) by (simp del: upt_Suc)
    then have "map ?r [0..<length vects] ! nat i = ?r (nat i)" .
    also note r [OF i']
    finally show "map ?r [0..<length vects] ! nat i = ?v ! nat i" .
  qed (use g(1) in simp)
qed (use assms xor_shards_bytes in \<open>auto simp: demo_rs_def\<close>)

definition demo_params :: packet_params where
  "demo_params = \<lparr>ppID = replicate 8 7, ppTo = prv_pub demo_ops (Prv 5), ppFrom = Prv 1, ppParity = 1,
     ppSeq = 0, ppLength = 0, ppData = [1, 2, 3]\<rparr>"

definition demo_plan :: "segment list" where
  "demo_plan = [\<lparr>DStart = 0, DEnd = 2, PEnd = 3, SLen = 2, Last = 1\<rparr>]"

lemma demo_valid_derived: "\<forall>k. valid_pub demo_ops (prv_pub demo_ops k)"
  by (simp add: valid_pub_def demo_ops_def)

lemma demo_plan_eq: "NewSegments 3 2 0 1 = Inr demo_plan"
  by (simp add: NewSegments_def demo_plan_def)


text \<open>C3: The packet frame. A packet encoded for a receiver is at least \<^verbatim>\<open>Overhead\<close> long, passes the
  checksum, names the sender's public key and carries a cloak that matches the receiver's key; the
  receiver's private key deciphers it to the fields it was made from.\<close>

theorem packet_frame_roundtrip:
  assumes "crypto_laws C" and "length nonc = 16" and "params_ok ep" and "ppTo ep = prv_pub C to"
    and "valid_pub C (prv_pub C (ppFrom ep))"
  shows "\<exists>d cloak iv d'. EncodePacket C nonc blind ep = Inr d \<and>
     length d = Overhead + IDLen + 7 + length (ppData ep) \<and>
     GetKeysFromPacket C d = Inr (prv_pub C (ppFrom ep), cloak, iv) \<and>
     Match C cloak (Pub_ToBytes C (ppTo ep)) \<and>
     DecodePacket C now d (prv_pub C (ppFrom ep)) to iv = Inr (packet_of ep now, d')"
proof -
  let ?F = "frame_rest C nonc blind ep"
  have "EncodePacket C nonc blind ep = Inr (take 4 (Single C ?F) @ ?F)"
    using assms by (intro EncodePacket_eq) (auto simp: params_ok_def)
  moreover have "length (take 4 (Single C ?F) @ ?F) = Overhead + IDLen + 7 + length (ppData ep)"
    using assms by (simp add: frame_rest_def params_ok_def)
  moreover have "\<exists>d'. DecodePacket C now (take 4 (Single C ?F) @ ?F) (prv_pub C (ppFrom ep)) to (replicate 16 0)
      = Inr (packet_of ep now, d')"
    using assms by (intro DecodePacket_frame) simp_all
  ultimately show ?thesis
    using GetKeysFromPacket_frame [OF assms(1,2,5)] Match_GetCloak [OF assms(1)] by blast
qed

theorem packet_frame_roundtrip_witness:
  "\<exists>d cloak iv d'. EncodePacket demo_ops (replicate 16 9) [1, 2, 3, 4] demo_params = Inr d \<and>
     length d = 79 \<and> GetKeysFromPacket demo_ops d = Inr (prv_pub demo_ops (Prv 1), cloak, iv) \<and>
     Match demo_ops cloak (Pub_ToBytes demo_ops (prv_pub demo_ops (Prv 5))) \<and>
     DecodePacket demo_ops 0 d (prv_pub demo_ops (Prv 1)) (Prv 5) iv = Inr (packet_of demo_params 0, d')"
  using packet_frame_roundtrip [of demo_ops "replicate 16 9" demo_params "Prv 5" "[1, 2, 3, 4]" 0] demo_valid_derived
  by (simp add: demo_params_def params_ok_def)

text \<open>C5: A payload whose length is a multiple of the segment size cannot be split: the plan asks for
  one more data segment than \<^verbatim>\<open>slice.Segment\<close> makes, and \<^verbatim>\<open>AddParity\<close>, which notices the difference
  but goes on, slices past the end. \<^verbatim>\<open>SplitToPackets\<close> panics.\<close>

theorem split_multiple_panics:
  assumes "ppData pp \<noteq> []" and "segSize = int ss + 76" and "0 < ss" and "ss dvd length (ppData pp)"
    and "0 \<le> ppParity pp" and "ppParity pp < 256"
    and "NewSegments (int (length (ppData pp))) (int ss) 0 (ppParity pp) = Inr plan" and "plan_coder R plan"
  shows "SplitToPackets C R rand nonc blind pp segSize ks = Some (Inl bounds_panic)"
proof -
  let ?L = "length (ppData pp)"
  obtain segs pad where sg: "Segment C rand (ppData pp) (int ss) = Some (Inr segs)" "concat segs = ppData pp @ pad"
    "length pad < ss" "\<forall>x\<in>set segs. length x = ss"
    using Segment_result [OF assms(3)] by metis
  have pl: "plan \<noteq> []" "\<forall>s\<in>set plan. section_ok (ppParity pp) (int ss) s"
    "sum_list (map (\<lambda>s. DEnd s - DStart s) plan) = seg_total (int ?L) (int ss)"
    using NewSegments_plan [of "int ?L" "int ss" "ppParity pp" "int ss" 0] assms by auto
  have "AddParity R plan segs = Inl bounds_panic"
    using parity_loop_short [OF pl(2) assms(8,3) sg(4)] Segment_count(3) [OF sg(2-4) assms(3,4)] pl(3)
    by (simp add: AddParity_def Let_def)
  then show ?thesis
    using SplitToPackets_base [OF assms(1-3,5,6) sg(1) assms(7) pl(1)] by simp
qed

theorem split_multiple_panics_witness:
  "SplitToPackets demo_ops demo_rs None (\<lambda>i. []) (\<lambda>i. []) (demo_params\<lparr>ppData := [1, 2], ppParity := 0\<rparr>) 78
     \<lparr>Base = Prv 1, Increment = Prv 1\<rparr> = Some (Inl bounds_panic)"
  by (rule split_multiple_panics [where ss = 2 and plan = "[\<lparr>DStart = 0, DEnd = 2, PEnd = 2, SLen = 2, Last = 0\<rparr>]"])
     (simp_all add: NewSegments_def plan_coder_def demo_params_def)

text \<open>C4: The segment plan. For any payload length, segment size and parity below 256 the plan is a
  non-empty sequence of adjacent sections, each with at least one data segment, at most 256 segments
  (what the coder accepts) and parity segments exactly when parity is asked for; together they hold
  one more data segment than full segments of payload.\<close>

theorem NewSegments_sections:
  assumes "0 \<le> payloadLen" and "overhead < segmentSize" and "0 \<le> parity" and "parity < 256"
  shows "\<exists>plan. NewSegments payloadLen segmentSize overhead parity = Inr plan \<and> plan \<noteq> [] \<and>
     contiguous 0 plan \<and>
     (\<forall>s\<in>set plan. DStart s < DEnd s \<and> DEnd s \<le> PEnd s \<and> PEnd s \<le> DStart s + 256 \<and>
        (0 < parity \<longleftrightarrow> DEnd s < PEnd s) \<and> SLen s = segmentSize - overhead) \<and>
     sum_list (map (\<lambda>s. DEnd s - DStart s) plan) = payloadLen div (segmentSize - overhead) + 1"
  using NewSegments_plan [of payloadLen "segmentSize - overhead" parity segmentSize overhead] assms
  by (auto simp: section_ok_def seg_total_def)

theorem NewSegments_sections_witness:
  "\<exists>plan. NewSegments 1000 100 61 128 = Inr plan \<and> plan \<noteq> [] \<and> contiguous 0 plan \<and>
     sum_list (map (\<lambda>s. DEnd s - DStart s) plan) = 26"
  using NewSegments_sections [of 1000 61 100 128] by auto

text \<open>C9: \<^verbatim>\<open>DecodePacket\<close> checks for \<^verbatim>\<open>Overhead\<close> bytes only, but reads fifteen more: a frame of 61 to
  75 bytes makes it panic instead of returning an error.\<close>

theorem DecodePacket_short_panics:
  assumes "61 \<le> length d" and "length d < 76"
  shows "panics (DecodePacket C now d from to iv)"
proof -
  obtain h t where d: "d = h @ t" "length h = 61" "length t < 15"
    using assms by (intro that [of "take 61 d" "drop 61 d"]) auto
  have "slice_expr d 45 61 = Inr (drop 45 h)" "slice_expr d 61 (int (length d)) = Inr t"
    using d by (simp_all add: slice_expr_def)
  then show ?thesis
    using assms d(3)
    by (auto simp: DecodePacket_def Let_def GetBlock_def Cut_def slice_expr_def DecodeUint16_def DecodeUint32_def
        index_expr_def bounds_panic_def index_panic_def)
qed

theorem DecodePacket_short_panics_witness:
  "panics (DecodePacket demo_ops 0 (replicate 70 0) (prv_pub demo_ops (Prv 1)) (Prv 5) (replicate 16 0))"
  by (rule DecodePacket_short_panics) simp_all

end
