(* ===== verification/Multi.thy ===== *)
theory Multi
  imports Slice_Util
begin

text \<open>
  Package \<^verbatim>\<open>pkg/util/multi\<close> and the network address types. A multiaddr is the list of its
  components, each a protocol code and the value bytes. What the external multiaddr library does
  with them (the binary form and its parser, the \<^verbatim>\<open>/tcp/port\<close> component) is the parameter
  \<open>maddr_ops\<close>. \<^verbatim>\<open>netip.AddrPort\<close> is of the standard library: address bytes and port.
\<close>

datatype ma_comp = MaComp (ma_code: nat) (ma_val: bytes)

type_synonym multiaddr = "ma_comp list"

record maddr_ops =
  ma_marshal :: "multiaddr \<Rightarrow> bytes res"
  ma_unmarshal :: "bytes \<Rightarrow> multiaddr res"
  ma_tcp :: "u16 \<Rightarrow> ma_comp"

definition P_IP4 :: nat where "P_IP4 = 4"
definition P_TCP :: nat where "P_TCP = 6"
definition P_IP6 :: nat where "P_IP6 = 41"
definition P_DNS :: nat where "P_DNS = 53"

lemmas proto_codes [simp] = P_IP4_def P_TCP_def P_IP6_def P_DNS_def

text \<open>The loop of \<^verbatim>\<open>AddrToBytes\<close> over the components: what was kept, whether the port and an
  address were found; it stops once both are.\<close>

fun addr_loop :: "multiaddr \<Rightarrow> multiaddr \<Rightarrow> bool \<Rightarrow> bool \<Rightarrow> multiaddr \<times> bool \<times> bool" where
  "addr_loop [] acc portFound firstAddr = (acc, portFound, firstAddr)"
| "addr_loop (v # vs) acc portFound firstAddr =
     (let (acc', pf, fa) =
        (if ma_code v = P_TCP then (acc @ [v], True, firstAddr)
         else if ma_code v = P_DNS \<or> ma_code v = P_IP4 \<or> ma_code v = P_IP6
              then (acc @ [v], portFound, True)
         else (acc, portFound, firstAddr))
      in if pf \<and> fa then (acc', pf, fa) else addr_loop vs acc' pf fa)"

definition AddrToBytes :: "maddr_ops \<Rightarrow> multiaddr \<Rightarrow> u16 \<Rightarrow> bytes res" where
  "AddrToBytes M ma defaultPort =
     (let (re, portFound, firstAddr) = addr_loop ma [] False False;
          re' = (if \<not> portFound then re @ [ma_tcp M defaultPort] else re)
      in if \<not> firstAddr then Inl (Error ''multiaddr does not have an address'')
         else rbind (index_expr re' 0) (\<lambda>a. rbind (index_expr re' 1) (\<lambda>b.
                ma_marshal M [a, b])))"

definition BytesToMultiaddr :: "maddr_ops \<Rightarrow> bytes \<Rightarrow> multiaddr res" where
  "BytesToMultiaddr M b = ma_unmarshal M b"

section \<open>netip.AddrPort\<close>

datatype addrport = AddrPort (ap_addr: bytes) (ap_port: u16)

definition AddrPort_Marshal :: "addrport \<Rightarrow> bytes" where
  "AddrPort_Marshal a = ap_addr a @ le_bytes 2 (ap_port a)"

definition AddrPort_Unmarshal :: "bytes \<Rightarrow> addrport res" where
  "AddrPort_Unmarshal b =
     (if length b < 2 then Inl (Error ''unexpected slice size'')
      else let n = length b - 2 in
        if n = 0 \<or> n = 4 \<or> n \<ge> 16 then Inr (AddrPort (take n b) (le_word (drop n b)))
        else Inl (Error ''unexpected slice size''))"

lemma AddrPort_roundtrip:
  "length (ap_addr a) \<in> {0, 4, 16} \<Longrightarrow> AddrPort_Unmarshal (AddrPort_Marshal a) = Inr a"
  by (cases a) (auto simp: AddrPort_Unmarshal_def AddrPort_Marshal_def le_word_le_bytes Let_def)

section \<open>Lemmas\<close>

text \<open>An address whose binary form is at most the 20 bytes of the fixed field, and which the
  library parses back: what \<^verbatim>\<open>ip4\<close> or \<^verbatim>\<open>ip6\<close> with a \<^verbatim>\<open>tcp\<close> port is.\<close>

definition fits_maddr :: "maddr_ops \<Rightarrow> u16 \<Rightarrow> multiaddr \<Rightarrow> bool" where
  "fits_maddr M dp a = (case AddrToBytes M a dp of
      Inl _ \<Rightarrow> False | Inr b \<Rightarrow> length b \<le> 20 \<and> ma_unmarshal M b = Inr a)"

definition maddr_image :: "maddr_ops \<Rightarrow> u16 \<Rightarrow> multiaddr \<Rightarrow> bytes" where
  "maddr_image M dp a = (case AddrToBytes M a dp of
      Inl _ \<Rightarrow> [] | Inr b \<Rightarrow> word_of_nat (length b) # b @ replicate (20 - length b) 0)"

lemma fits_maddrE:
  assumes "fits_maddr M dp a"
  obtains b where "AddrToBytes M a dp = Inr b" and "length b \<le> 20" and "ma_unmarshal M b = Inr a"
    and "maddr_image M dp a = word_of_nat (length b) # b @ replicate (20 - length b) 0"
  using assms by (auto simp: fits_maddr_def maddr_image_def split: sum.splits)

lemma length_maddr_image [len_simps]: "fits_maddr M dp a \<Longrightarrow> length (maddr_image M dp a) = 21"
  by (erule fits_maddrE) simp

lemma AddrToBytes_ip_tcp:
  assumes "ma_code a \<in> {P_IP4, P_IP6, P_DNS}" and "ma_code p = P_TCP"
  shows "AddrToBytes M (a # p # rest) dp = ma_marshal M [a, p]"
  using assms by (auto simp: AddrToBytes_def index_expr_def)

lemma AddrToBytes_default_port:
  assumes "ma_code a \<in> {P_IP4, P_IP6, P_DNS}"
  shows "AddrToBytes M [a] dp = ma_marshal M [a, ma_tcp M dp]"
  using assms by (auto simp: AddrToBytes_def index_expr_def)

text \<open>A concrete binary form for witnesses: one byte per code, fixed-size values.\<close>

definition demo_maddr :: maddr_ops where
  "demo_maddr = \<lparr>
     ma_marshal = (\<lambda>ma. Inr (concat (map (\<lambda>c. word_of_nat (ma_code c) # ma_val c) ma))),
     ma_unmarshal = (\<lambda>b. if length b = 8
        then Inr [MaComp (unat (b ! 0)) (take 4 (drop 1 b)), MaComp (unat (b ! 5)) (drop 6 b)]
        else Inl (Error ''bad multiaddr'')),
     ma_tcp = (\<lambda>p. MaComp 6 (rev (le_bytes 2 p)))\<rparr>"

end
