(* ===== verification/Splice.thy ===== *)
theory Splice
  imports Multi
begin

unbundle bit_operations_syntax

text \<open>
  Package \<^verbatim>\<open>pkg/util/splice\<close>: a byte buffer with a cursor through which every message of the
  network is written and read. The state is the record \<open>splice\<close> (buffer, cursor, the list of named
  offsets kept for printing, the error field); each method is a function from the state to a
  new state or a panic. The cursor operand of \<^verbatim>\<open>s.b[*s.c:s.c.Inc(n)]\<close> is read before it is
  incremented, as the compiled program does.

  The specification level are the predicates \<open>writes\<close> and \<open>reads\<close>: an operation that writes
  exactly the bytes of a wire image at the cursor, or panics when they do not fit, and one that
  reads a value from its image. The locale \<open>wire_field\<close> states the contract of a field and is
  interpreted for every field of the wire format.
\<close>

section \<open>State\<close>

datatype gotime = GoTime (t_unix: u64) (t_nsec: nat)

datatype segname = SegLit string | SegTime gotime | SegDuration u64 | SegAddr addrport

record splice =
  sb :: bytes
  sc :: int
  sSegs :: "(int \<times> segname) list"
  sE :: "go_error option"

definition AddrLen :: nat where "AddrLen = 18"
definition magic_Len :: nat where "magic_Len = 4"

lemmas splice_lens [simp] = AddrLen_def magic_Len_def

definition Load :: "bytes \<Rightarrow> int \<Rightarrow> splice" where
  "Load b c = \<lparr>sb = b, sc = c, sSegs = [], sE = None\<rparr>"

definition New :: "nat \<Rightarrow> splice" where
  "New l = \<lparr>sb = replicate l 0, sc = 0, sSegs = [], sE = None\<rparr>"

definition NewFrom :: "bytes \<Rightarrow> splice" where
  "NewFrom b = Load b 0"

text \<open>\<^verbatim>\<open>s.Segments = append(s.Segments, NameOffset{Offset: int( *s.c), Name: ...})\<close>\<close>

definition mark :: "segname \<Rightarrow> splice \<Rightarrow> splice" where
  "mark nm s = s\<lparr>sSegs := sSegs s @ [(sc s, nm)]\<rparr>"

text \<open>\<^verbatim>\<open>copy(s.b[*s.c:s.c.Inc(n)], v)\<close> and \<^verbatim>\<open>s.b[*s.c:s.c.Inc(n)]\<close>, the two idioms of the file.\<close>

definition put_field :: "nat \<Rightarrow> bytes \<Rightarrow> splice \<Rightarrow> splice res" where
  "put_field n v s = rbind (copy_range (sb s) (sc s) (sc s + int n) v) (\<lambda>b.
      Inr (s\<lparr>sb := b, sc := sc s + int n\<rparr>))"

definition get_field :: "nat \<Rightarrow> splice \<Rightarrow> (bytes \<times> splice) res" where
  "get_field n s = rbind (slice_expr (sb s) (sc s) (sc s + int n)) (\<lambda>v.
      Inr (v, s\<lparr>sc := sc s + int n\<rparr>))"

definition rmark :: "segname \<Rightarrow> splice res \<Rightarrow> splice res" where
  "rmark nm r = rbind r (\<lambda>s. Inr (mark nm s))"

section \<open>Cursor and ranges\<close>

definition Advance :: "int \<Rightarrow> string \<Rightarrow> splice \<Rightarrow> splice" where
  "Advance n name s = mark (SegLit name) (s\<lparr>sc := sc s + n\<rparr>)"

definition GetCursor :: "splice \<Rightarrow> int" where
  "GetCursor s = sc s"

definition SetCursor :: "int \<Rightarrow> splice \<Rightarrow> splice" where
  "SetCursor c s = s\<lparr>sc := c\<rparr>"

definition Splice_Len :: "splice \<Rightarrow> int" where
  "Splice_Len s = int (length (sb s))"

definition Remaining :: "splice \<Rightarrow> int" where
  "Remaining s = Splice_Len s - GetCursor s"

definition Rewind :: "int \<Rightarrow> splice \<Rightarrow> int \<times> splice" where
  "Rewind n s = (let newLoc = sc s - n; l = (if newLoc < 0 then 0 else newLoc)
                 in (l, s\<lparr>sc := l\<rparr>))"

definition GetFrom :: "int \<Rightarrow> splice \<Rightarrow> bytes res" where
  "GetFrom p s = slice_expr (sb s) p (int (length (sb s)))"

definition GetUntil :: "int \<Rightarrow> splice \<Rightarrow> bytes res" where
  "GetUntil p s = slice_expr (sb s) 0 p"

definition GetUntilCursor :: "splice \<Rightarrow> bytes res" where
  "GetUntilCursor s = GetUntil (GetCursor s) s"

definition GetRange :: "int \<Rightarrow> int \<Rightarrow> splice \<Rightarrow> bytes res" where
  "GetRange start en s =
     (if start = -1 \<and> en = -1 then Inr (sb s)
      else if start = -1 then slice_expr (sb s) 0 en
      else if en = -1 then slice_expr (sb s) start (int (length (sb s)))
      else slice_expr (sb s) start en)"

definition GetRest :: "splice \<Rightarrow> bytes res" where
  "GetRest s = slice_expr (sb s) (GetCursor s) (int (length (sb s)))"

definition CopyIntoRange :: "bytes \<Rightarrow> int \<Rightarrow> int \<Rightarrow> splice \<Rightarrow> splice res" where
  "CopyIntoRange b start en s =
     rbind (slice_expr b 0 (en - start)) (\<lambda>src.
     rbind (copy_range (sb s) start en src) (\<lambda>b'. Inr (s\<lparr>sb := b'\<rparr>)))"

definition CopyRanges :: "int \<Rightarrow> int \<Rightarrow> int \<Rightarrow> int \<Rightarrow> splice \<Rightarrow> splice res" where
  "CopyRanges start1 end1 start2 end2 s =
     rbind (GetRange start2 end2 s) (\<lambda>src.
     rbind (copy_range (sb s) start1 end1 src) (\<lambda>b'. Inr (s\<lparr>sb := b'\<rparr>)))"

definition TrailingBytes :: "bytes \<Rightarrow> splice \<Rightarrow> splice res" where
  "TrailingBytes b s =
     rbind (copy_range (sb s) (sc s) (int (length (sb s))) b) (\<lambda>b'. Inr (s\<lparr>sb := b'\<rparr>))"

text \<open>\<^verbatim>\<open>BudgeUp\<close> moves what follows the cursor to the start of the buffer and fills the end with noise.
  The source and destination of the first copy overlap; \<^verbatim>\<open>copy\<close> reads the source first.\<close>

definition BudgeUp :: "crypto_ops \<Rightarrow> bytes option \<Rightarrow> splice \<Rightarrow> splice res" where
  "BudgeUp C rand s =
     (let start = GetCursor s in
      rbind (GetFrom start s) (\<lambda>rest.
      let s1 = s\<lparr>sb := copy_to (sb s) rest\<rparr> in
      rbind (copy_range (sb s1) (Splice_Len s1 - start) (Splice_Len s1) (NoisePad C rand (nat start)))
        (\<lambda>b. Inr (s1\<lparr>sb := b\<rparr>))))"

section \<open>Writers\<close>

definition RawBytes :: "bytes \<Rightarrow> splice \<Rightarrow> splice res" where
  "RawBytes b s = rmark (SegLit ''raw bytes'') (put_field (length b) b s)"

definition wByte :: "byte \<Rightarrow> splice \<Rightarrow> splice res" where
  "wByte b s = rbind (set_index (sb s) (sc s) b) (\<lambda>buf.
      Inr (mark (SegLit ''byte'') (s\<lparr>sb := buf, sc := sc s + 1\<rparr>)))"

definition Check :: "bytes \<Rightarrow> splice \<Rightarrow> splice res" where
  "Check c s = rbind (slice_expr c 0 4) (\<lambda>c4. rmark (SegLit ''check'') (put_field 4 c4 s))"

definition wHash :: "bytes \<Rightarrow> splice \<Rightarrow> splice res" where
  "wHash h s = rmark (SegLit ''hash'') (put_field sha256_Len h s)"

fun wCiphers :: "bytes list \<Rightarrow> splice \<Rightarrow> splice res" where
  "wCiphers [] s = Inr s"
| "wCiphers (h # hs) s = rbind (wHash h s) (wCiphers hs)"

definition wCloak :: "crypto_ops \<Rightarrow> bytes \<Rightarrow> pub option \<Rightarrow> splice \<Rightarrow> splice res" where
  "wCloak C rand pk s =
     (case pk of
        None \<Rightarrow> Inr (Advance (int CloakLen) ''nil receiver pubkey'' s)
      | Some k \<Rightarrow> rmark (SegLit ''cloak'') (put_field CloakLen (GetCloak C rand k) s))"

definition wID :: "bytes \<Rightarrow> splice \<Rightarrow> splice res" where
  "wID i s = rmark (SegLit ''Keys'') (put_field IDLen i s)"

definition wIV :: "bytes \<Rightarrow> splice \<Rightarrow> splice res" where
  "wIV iv s = rmark (SegLit ''IV'') (put_field IVLen iv s)"

fun wNonces :: "bytes list \<Rightarrow> splice \<Rightarrow> splice res" where
  "wNonces [] s = Inr s"
| "wNonces (n # ns) s = rbind (wIV n s) (wNonces ns)"

definition wMagic :: "string \<Rightarrow> splice \<Rightarrow> splice res" where
  "wMagic m s = rmark (SegLit m) (put_field magic_Len (bytes_of_string m) s)"

definition wPrvkey :: "crypto_ops \<Rightarrow> prv \<Rightarrow> splice \<Rightarrow> splice res" where
  "wPrvkey C from s = rmark (SegLit ''prvkey'') (put_field PrvKeyLen (Prv_ToBytes C from) s)"

definition wPubkey :: "crypto_ops \<Rightarrow> pub option \<Rightarrow> splice \<Rightarrow> splice res" where
  "wPubkey C from s =
     (case from of
        None \<Rightarrow> Inr s
      | Some k \<Rightarrow> rmark (SegLit ''pubkey'') (put_field PubKeyLen (Pub_ToBytes C k) s))"

definition wSignature :: "bytes \<Rightarrow> splice \<Rightarrow> splice res" where
  "wSignature sg s = rmark (SegLit ''signature'') (put_field SigLen sg s)"

text \<open>The integer writers slice the destination first and encode into it.\<close>

definition wUint16 :: "u16 \<Rightarrow> splice \<Rightarrow> splice res" where
  "wUint16 v s = rmark (SegLit ''uint16'') (
     rbind (slice_expr (sb s) (sc s) (sc s + int Uint16Len)) (\<lambda>d.
     rbind (EncodeUint16 d (uint v)) (\<lambda>e. put_field Uint16Len e s)))"

definition wUint32 :: "u32 \<Rightarrow> splice \<Rightarrow> splice res" where
  "wUint32 v s = rmark (SegLit ''uint32'') (
     rbind (slice_expr (sb s) (sc s) (sc s + int Uint32Len)) (\<lambda>d.
     rbind (EncodeUint32 d (uint v)) (\<lambda>e. put_field Uint32Len e s)))"

definition put_u64 :: "u64 \<Rightarrow> splice \<Rightarrow> splice res" where
  "put_u64 v s =
     rbind (slice_expr (sb s) (sc s) (sc s + int Uint64Len)) (\<lambda>d.
     rbind (EncodeUint64 d v) (\<lambda>e. put_field Uint64Len e s))"

definition wUint64 :: "u64 \<Rightarrow> splice \<Rightarrow> splice res" where
  "wUint64 v s = rmark (SegLit ''uint64'') (put_u64 v s)"

definition wDuration :: "u64 \<Rightarrow> splice \<Rightarrow> splice res" where
  "wDuration v s = rmark (SegDuration v) (put_u64 v s)"

definition wTime :: "gotime \<Rightarrow> splice \<Rightarrow> splice res" where
  "wTime v s = rmark (SegTime v) (put_u64 (t_unix v) s)"

definition wBytes :: "bytes \<Rightarrow> splice \<Rightarrow> splice res" where
  "wBytes b s =
     rbind (EncodeUint32 (replicate Uint32Len 0) (int (length b))) (\<lambda>bytesLen.
     rbind (rmark (SegLit ''32 bit length'') (put_field Uint32Len bytesLen s)) (\<lambda>s1.
       rmark (SegLit ''bytes'') (put_field (length b) b s1)))"

definition MaxUint24 :: u32 where "MaxUint24 = push_bit 24 1 - 1"

definition wOffset :: "u32 \<Rightarrow> splice \<Rightarrow> splice res" where
  "wOffset v s =
     (if v > MaxUint24 then Inl (Panic ''payload cipher offset cannot be over 16777215'')
      else let ix = GetCursor s in
        rbind (set_index (sb s) ix (ucast v)) (\<lambda>b1.
        rbind (set_index b1 (ix + 1) (ucast (drop_bit 8 v))) (\<lambda>b2.
        rbind (set_index b2 (ix + 2) (ucast (drop_bit 16 v))) (\<lambda>b3.
          Inr (Advance 3 ''payload cipher offset'' (s\<lparr>sb := b3\<rparr>))))))"

definition wMultiaddr :: "maddr_ops \<Rightarrow> multiaddr \<Rightarrow> u16 \<Rightarrow> splice \<Rightarrow> splice res" where
  "wMultiaddr M a defaultPort s =
     (case AddrToBytes M a defaultPort of
        Inl (Panic p) \<Rightarrow> Inl (Panic p)
      | Inl (Error _) \<Rightarrow> Inr s
      | Inr b \<Rightarrow>
          rbind (wByte (word_of_nat (length b)) s) (\<lambda>s1.
          let pad = 20 - int (length b);
              b' = (if pad > 0 then copy_to (replicate 20 0) b else b)
          in RawBytes b' s1))"

definition wAddrPort :: "addrport option \<Rightarrow> splice \<Rightarrow> splice res" where
  "wAddrPort a s =
     (case a of
        None \<Rightarrow> Inr (Advance (int AddrLen) ''nil Addresses'' s)
      | Some ap \<Rightarrow>
          let bs = AddrPort_Marshal ap; s0 = s\<lparr>sE := None\<rparr> in
          rbind (set_index (sb s0) (sc s0) (word_of_nat (length bs))) (\<lambda>buf.
          rmark (SegAddr ap) (put_field AddrLen bs (s0\<lparr>sb := buf, sc := sc s0 + 1\<rparr>))))"

section \<open>Readers\<close>

text \<open>A reader returns the value it stores through its pointer argument beside the new state.\<close>

definition rd :: "segname \<Rightarrow> nat \<Rightarrow> splice \<Rightarrow> (bytes \<times> splice) res" where
  "rd nm n s = rbind (get_field n s) (\<lambda>(v, s1). Inr (v, mark nm s1))"

definition ReadByte :: "splice \<Rightarrow> (byte \<times> splice) res" where
  "ReadByte s = rbind (index_expr (sb s) (sc s)) (\<lambda>b.
      Inr (b, mark (SegLit ''byte'') (s\<lparr>sc := sc s + 1\<rparr>)))"

definition ReadHash :: "splice \<Rightarrow> (bytes \<times> splice) res" where
  "ReadHash s = rd (SegLit ''hash'') sha256_Len s"

definition ReadID :: "splice \<Rightarrow> (bytes \<times> splice) res" where
  "ReadID s = rd (SegLit ''Keys'') IDLen s"

definition ReadIV :: "splice \<Rightarrow> (bytes \<times> splice) res" where
  "ReadIV s = rd (SegLit ''IV'') IVLen s"

definition ReadCloak :: "splice \<Rightarrow> (bytes \<times> splice) res" where
  "ReadCloak s = rd (SegLit ''cloak'') CloakLen s"

definition ReadSignature :: "splice \<Rightarrow> (bytes \<times> splice) res" where
  "ReadSignature s = rd (SegLit ''signature'') SigLen s"

fun read_times :: "(splice \<Rightarrow> ('a \<times> splice) res) \<Rightarrow> nat \<Rightarrow> splice \<Rightarrow> ('a list \<times> splice) res" where
  "read_times f 0 s = Inr ([], s)"
| "read_times f (Suc n) s = rbind (f s) (\<lambda>(x, s1).
     rbind (read_times f n s1) (\<lambda>(xs, s2). Inr (x # xs, s2)))"

definition ReadCiphers :: "splice \<Rightarrow> (bytes list \<times> splice) res" where
  "ReadCiphers s = read_times ReadHash 3 s"

definition ReadNonces :: "splice \<Rightarrow> (bytes list \<times> splice) res" where
  "ReadNonces s = read_times ReadIV 3 s"

definition ReadMagic :: "splice \<Rightarrow> (string \<times> splice) res" where
  "ReadMagic s = rbind (get_field magic_Len s) (\<lambda>(v, s1).
      let m = string_of_bytes v in Inr (m, mark (SegLit m) s1))"

definition ReadCheck :: "bytes \<Rightarrow> splice \<Rightarrow> (bytes \<times> splice) res" where
  "ReadCheck c s = rbind (get_field 4 s) (\<lambda>(v, s1).
      rbind (copy_range c 0 4 v) (\<lambda>c'. Inr (c', s1)))"

definition ReadPrvkey :: "crypto_ops \<Rightarrow> splice \<Rightarrow> (prv \<times> splice) res" where
  "ReadPrvkey C s = rbind (get_field PrvKeyLen s) (\<lambda>(v, s1).
      Inr (PrvKeyFromBytes C v, mark (SegLit ''prvkey'') s1))"

text \<open>\<^verbatim>\<open>ReadPubkey\<close> sets the error field of the splice and keeps the old pointer (nil in a
  fresh message) when the bytes are no key.\<close>

definition ReadPubkey :: "crypto_ops \<Rightarrow> splice \<Rightarrow> (pub option \<times> splice) res" where
  "ReadPubkey C s = rbind (get_field PubKeyLen s) (\<lambda>(v, s1).
      case PubFromBytes C v of
        Inr f \<Rightarrow> Inr (Some f, mark (SegLit ''pubkey'') (s1\<lparr>sE := None\<rparr>))
      | Inl e \<Rightarrow> Inr (None, mark (SegLit ''pubkey'') (s1\<lparr>sE := Some e\<rparr>)))"

definition ReadUint16 :: "splice \<Rightarrow> (u16 \<times> splice) res" where
  "ReadUint16 s =
     (let s0 = mark (SegLit ''uint16'') s in
      rbind (get_field Uint16Len s0) (\<lambda>(v, s1).
      rbind (DecodeUint16 v) (\<lambda>n. Inr (word_of_int n, mark (SegLit ''uint16'') s1))))"

definition ReadUint32 :: "splice \<Rightarrow> (u32 \<times> splice) res" where
  "ReadUint32 s =
      rbind (get_field Uint32Len s) (\<lambda>(v, s1).
      rbind (DecodeUint32 v) (\<lambda>n. Inr (word_of_int n, mark (SegLit ''uint32'') s1)))"

definition get_u64 :: "splice \<Rightarrow> (u64 \<times> splice) res" where
  "get_u64 s = rbind (get_field Uint64Len s) (\<lambda>(v, s1).
      rbind (DecodeUint64 v) (\<lambda>n. Inr (n, s1)))"

definition ReadUint64 :: "splice \<Rightarrow> (u64 \<times> splice) res" where
  "ReadUint64 s = rbind (get_u64 s) (\<lambda>(n, s1). Inr (n, mark (SegLit ''uint64'') s1))"

definition ReadMilliSatoshi :: "splice \<Rightarrow> (u64 \<times> splice) res" where
  "ReadMilliSatoshi s = rbind (get_u64 s) (\<lambda>(n, s1). Inr (n, mark (SegLit ''mSAT'') s1))"

definition ReadDuration :: "splice \<Rightarrow> (u64 \<times> splice) res" where
  "ReadDuration s = rbind (get_u64 s) (\<lambda>(n, s1). Inr (n, mark (SegDuration n) s1))"

definition ReadTime :: "splice \<Rightarrow> (gotime \<times> splice) res" where
  "ReadTime s = rbind (get_u64 s) (\<lambda>(n, s1).
      let v = GoTime n 0 in Inr (v, mark (SegTime v) s1))"

definition ReadBytes :: "splice \<Rightarrow> (bytes \<times> splice) res" where
  "ReadBytes s =
      rbind (get_field Uint32Len s) (\<lambda>(v, s1).
      rbind (DecodeUint32 v) (\<lambda>n.
        rd (SegLit ''bytes'') (nat n) (mark (SegLit ''32 bit length'') s1)))"

definition ReadRawBytes :: "splice \<Rightarrow> (bytes \<times> splice) res" where
  "ReadRawBytes s =
      rbind (get_field Uint32Len s) (\<lambda>(v, s1).
      rbind (DecodeUint32 v) (\<lambda>n. rd (SegLit ''raw bytes'') (nat n) s1))"

definition ReadOffset :: "splice \<Rightarrow> (int \<times> splice) res" where
  "ReadOffset s =
     (let ix = GetCursor s in
      rbind (index_expr (sb s) ix) (\<lambda>b0.
      rbind (index_expr (sb s) (ix + 1)) (\<lambda>b1.
      rbind (index_expr (sb s) (ix + 2)) (\<lambda>b2.
        Inr (uint b0 + uint b1 * 2 ^ 8 + uint b2 * 2 ^ 16,
             Advance 3 ''payload cipher offset'' s)))))"

text \<open>The test \<^verbatim>\<open>20-b > 0\<close> is on unsigned bytes: it only fails for a length of exactly 20.\<close>

definition ReadMultiaddr :: "maddr_ops \<Rightarrow> splice \<Rightarrow> (multiaddr option \<times> splice) res" where
  "ReadMultiaddr M s =
     rbind (ReadByte s) (\<lambda>(b, s1).
     let start = GetCursor s1; s2 = Advance (uint b) ''multiaddr'' s1 in
     rbind (GetRange start (sc s2) s2) (\<lambda>bb.
     let s3 = (if 20 - b > 0 then Advance (20 - uint b) ''pad'' s2 else s2) in
     case BytesToMultiaddr M bb of
       Inl (Panic p) \<Rightarrow> Inl (Panic p)
     | Inl (Error _) \<Rightarrow> Inr (None, s3)
     | Inr a \<Rightarrow> Inr (Some a, s3)))"

definition ReadAddrPort :: "splice \<Rightarrow> (addrport option \<times> splice) res" where
  "ReadAddrPort s =
     rbind (index_expr (sb s) (sc s)) (\<lambda>apLen.
     rbind (get_field AddrLen (s\<lparr>sc := sc s + 1\<rparr>)) (\<lambda>(apBytes, s1).
     rbind (slice_expr apBytes 0 (uint apLen)) (\<lambda>x.
     case AddrPort_Unmarshal x of
       Inr ap \<Rightarrow> Inr (Some ap, mark (SegAddr ap) (s1\<lparr>sE := None\<rparr>))
     | Inl e \<Rightarrow> Inr (None, mark (SegAddr (AddrPort [] 0)) (s1\<lparr>sE := Some e\<rparr>)))))"

section \<open>Named offsets\<close>

text \<open>\<^verbatim>\<open>GetSegments\<close> collects the names in a map by offset (a later name replaces an earlier one)
  and sorts by offset; the map's iteration order does not survive the sort.\<close>

definition GetSegments :: "splice \<Rightarrow> (int \<times> segname) list \<times> splice" where
  "GetSegments s =
     (let m = map_of (rev (sSegs s));
          segs = map (\<lambda>off. (off, the (m off))) (sort (remdups (map fst (sSegs s))))
      in (segs, s\<lparr>sSegs := segs\<rparr>))"

fun slices_loop :: "bytes \<Rightarrow> int \<Rightarrow> (int \<times> segname) list \<Rightarrow> ((segname \<times> bytes) list \<times> int) res" where
  "slices_loop b prev [] = Inr ([], prev)"
| "slices_loop b prev ((cur, nm) # segs) =
     rbind (slice_expr b prev cur) (\<lambda>v.
     rbind (slices_loop b cur segs) (\<lambda>(vs, l). Inr ((nm, v) # vs, l)))"

definition GetSlicesFromSegments :: "splice \<Rightarrow> (segname \<times> bytes) list res" where
  "GetSlicesFromSegments s =
     (let (segs, s1) = GetSegments s in
      rbind (slices_loop (sb s1) 0 segs) (\<lambda>(vs, cur).
        if int (length (sb s1)) > cur
        then rbind (slice_expr (sb s1) cur (int (length (sb s1)))) (\<lambda>r.
               Inr (vs @ [(SegLit ''remainder'', r)]))
        else Inr vs))"

end
