(* ===== verification/Splice_Spec.thy ===== *)
theory Splice_Spec
  imports Splice
begin

unbundle bit_operations_syntax

text \<open>
  The contract of the splice: what an operation writes and reads, independent of the buffer it
  works on. \<open>writes f bs\<close> says that \<open>f\<close> puts exactly \<open>bs\<close> at the cursor, moves the cursor behind
  them and keeps every other byte, and that it panics when they do not fit; \<open>reads f bs v\<close> that \<open>f\<close>
  takes the value \<open>v\<close> from the bytes \<open>bs\<close> at the cursor. Both compose along a chain of calls.
\<close>

section \<open>Positions\<close>

definition splice_at :: "splice \<Rightarrow> bytes \<Rightarrow> bytes \<Rightarrow> bool" where
  "splice_at s pre rest \<longleftrightarrow> sb s = pre @ rest \<and> sc s = int (length pre)"

definition writes :: "(splice \<Rightarrow> splice res) \<Rightarrow> bytes \<Rightarrow> bool" where
  "writes f bs \<longleftrightarrow> (\<forall>s pre rest. splice_at s pre rest \<longrightarrow>
     (if length bs \<le> length rest
      then \<exists>s'. f s = Inr s' \<and> splice_at s' (pre @ bs) (drop (length bs) rest) \<and>
                (sE s = None \<longrightarrow> sE s' = None)
      else panics (f s)))"

definition reads :: "(splice \<Rightarrow> ('a \<times> splice) res) \<Rightarrow> bytes \<Rightarrow> 'a \<Rightarrow> bool" where
  "reads f bs v \<longleftrightarrow> (\<forall>s pre post. splice_at s pre (bs @ post) \<longrightarrow>
     (\<exists>s'. f s = Inr (v, s') \<and> splice_at s' (pre @ bs) post \<and> (sE s = None \<longrightarrow> sE s' = None)))"

named_theorems writes_intros "introduction rules for writes"
named_theorems reads_intros "introduction rules for reads"

lemma splice_at_New [simp]: "splice_at (New l) [] (replicate l 0)"
  by (simp add: splice_at_def New_def)

lemma splice_at_NewFrom [simp]: "splice_at (NewFrom b) [] b"
  by (simp add: splice_at_def NewFrom_def Load_def)

lemma splice_at_mark [simp]: "splice_at (mark nm s) pre rest = splice_at s pre rest"
  by (simp add: splice_at_def mark_def)

lemma mark_sel [simp]: "sE (mark nm s) = sE s" "sb (mark nm s) = sb s" "sc (mark nm s) = sc s"
  by (simp_all add: mark_def)

lemma splice_at_sE [simp]: "splice_at (s\<lparr>sE := e\<rparr>) pre rest = splice_at s pre rest"
  by (simp add: splice_at_def)

lemma splice_at_rewind:
  "splice_at s pre rest \<Longrightarrow> rest = bs @ post \<Longrightarrow> splice_at (SetCursor (int (length (pre @ bs))) s) (pre @ bs) post"
  by (simp add: splice_at_def SetCursor_def)

lemma Remaining_at: "splice_at s pre rest \<Longrightarrow> Remaining s = int (length rest)"
  by (simp add: splice_at_def Remaining_def Splice_Len_def GetCursor_def)

section \<open>Composition\<close>

lemma writesI:
  assumes "\<And>s pre old post. splice_at s pre (old @ post) \<Longrightarrow> length old = length bs \<Longrightarrow>
             \<exists>s'. f s = Inr s' \<and> splice_at s' (pre @ bs) post \<and> (sE s = None \<longrightarrow> sE s' = None)"
    and "\<And>s pre rest. splice_at s pre rest \<Longrightarrow> length rest < length bs \<Longrightarrow> panics (f s)"
  shows "writes f bs"
  unfolding writes_def
proof (intro allI impI)
  fix s pre rest assume at: "splice_at s pre rest"
  show "if length bs \<le> length rest
      then \<exists>s'. f s = Inr s' \<and> splice_at s' (pre @ bs) (drop (length bs) rest) \<and>
                (sE s = None \<longrightarrow> sE s' = None)
      else panics (f s)"
  proof (cases "length bs \<le> length rest")
    case True
    then show ?thesis
      using assms(1) [of s pre "take (length bs) rest" "drop (length bs) rest"] at by simp
  next
    case False
    then show ?thesis using assms(2) [OF at] by simp
  qed
qed

lemma writes_chain [writes_intros]:
  assumes f: "writes f a" and g: "writes g b"
  shows "writes (\<lambda>s. rbind (f s) g) (a @ b)"
  unfolding writes_def
proof (intro allI impI)
  fix s pre rest assume at: "splice_at s pre rest"
  show "if length (a @ b) \<le> length rest
      then \<exists>s'. rbind (f s) g = Inr s' \<and> splice_at s' (pre @ a @ b) (drop (length (a @ b)) rest) \<and>
                (sE s = None \<longrightarrow> sE s' = None)
      else panics (rbind (f s) g)"
  proof (cases "length a \<le> length rest")
    case False
    then have "panics (f s)" using f at by (auto simp: writes_def)
    then have "panics (rbind (f s) g)" by (cases "f s" rule: panics.cases) auto
    with False show ?thesis by simp
  next
    case True
    then obtain s1 where s1: "f s = Inr s1" "splice_at s1 (pre @ a) (drop (length a) rest)"
        "sE s = None \<longrightarrow> sE s1 = None"
      using f at unfolding writes_def by (metis (full_types))
    from g s1(2) have "if length b \<le> length rest - length a
      then \<exists>s'. g s1 = Inr s' \<and> splice_at s' ((pre @ a) @ b) (drop (length b) (drop (length a) rest)) \<and>
                (sE s1 = None \<longrightarrow> sE s' = None)
      else panics (g s1)"
      unfolding writes_def by (metis (full_types) length_drop)
    with s1 True show ?thesis
      by (auto simp: add.commute split: if_splits)
  qed
qed

lemma writes_Nil [writes_intros]: "writes Inr []"
  by (rule writesI) auto

lemma writes_at:
  assumes "writes f bs" and "splice_at s pre rest" and "length bs \<le> length rest"
  obtains s' where "f s = Inr s'" and "splice_at s' (pre @ bs) (drop (length bs) rest)"
    and "sE s = None \<longrightarrow> sE s' = None"
  using assms unfolding writes_def by (metis (full_types))

lemma readsI:
  assumes "\<And>s pre post. splice_at s pre (bs @ post) \<Longrightarrow>
     \<exists>s'. f s = Inr (v, s') \<and> splice_at s' (pre @ bs) post \<and> (sE s = None \<longrightarrow> sE s' = None)"
  shows "reads f bs v"
  using assms unfolding reads_def by blast

lemma reads_at:
  assumes "reads f bs v" and "splice_at s pre (bs @ post)"
  obtains s' where "f s = Inr (v, s')" and "splice_at s' (pre @ bs) post"
    and "sE s = None \<longrightarrow> sE s' = None"
  using assms unfolding reads_def by blast

lemma reads_chain:
  assumes f: "reads f a v" and g: "reads (g v) b w"
  shows "reads (\<lambda>s. rbind (f s) (\<lambda>(x, s1). g x s1)) (a @ b) w"
proof (rule readsI)
  fix s pre post assume "splice_at s pre ((a @ b) @ post)"
  then have "splice_at s pre (a @ b @ post)" by simp
  with f obtain s1 where 1: "f s = Inr (v, s1)" "splice_at s1 (pre @ a) (b @ post)"
    "sE s = None \<longrightarrow> sE s1 = None"
    by (rule reads_at)
  with g obtain s2 where "g v s1 = Inr (w, s2)" "splice_at s2 ((pre @ a) @ b) post"
    "sE s1 = None \<longrightarrow> sE s2 = None"
    by (blast elim: reads_at)
  with 1 show "\<exists>s'. rbind (f s) (\<lambda>(x, s1). g x s1) = Inr (w, s') \<and> splice_at s' (pre @ a @ b) post \<and>
      (sE s = None \<longrightarrow> sE s' = None)"
    by auto
qed

lemma reads_return: "reads (\<lambda>s. Inr (v, s)) [] v"
  by (rule readsI) auto

lemma reads_map:
  assumes "reads f a v"
  shows "reads (\<lambda>s. rbind (f s) (\<lambda>(x, s1). Inr (h x, s1))) a (h v)"
proof -
  have "reads (\<lambda>s1. Inr (h v, s1)) [] (h v)" by (rule reads_return)
  from reads_chain [where g = "\<lambda>x s1. Inr (h x, s1)", OF assms this] show ?thesis by simp
qed

lemma reads_times:
  assumes "\<And>x. x \<in> set xs \<Longrightarrow> reads f (img x) x"
  shows "reads (read_times f (length xs)) (concat (map img xs)) xs"
  using assms
proof (induction xs)
  case Nil
  then show ?case by (auto intro!: readsI)
next
  case (Cons x xs)
  have "reads (\<lambda>s. rbind (read_times f (length xs) s) (\<lambda>(ys, s2). Inr (x # ys, s2)))
          (concat (map img xs)) (x # xs)"
    using Cons by (intro reads_map) simp
  with Cons.prems show ?case
    using reads_chain [of f "img x" x "\<lambda>x s. rbind (read_times f (length xs) s) (\<lambda>(ys, s2). Inr (x # ys, s2))"]
    by (simp add: read_times.simps)
qed

section \<open>The two idioms\<close>

lemma writes_put_field: "length v = n \<Longrightarrow> writes (put_field n v) v"
proof (rule writesI)
  fix s pre old post
  assume n: "length v = n" and at: "splice_at s pre (old @ post)" and "length old = length v"
  then have "copy_range (sb s) (sc s) (sc s + int n) v = Inr (pre @ v @ post)"
    using copy_range_mid [of v old pre post] by (simp add: splice_at_def)
  then show "\<exists>s'. put_field n v s = Inr s' \<and> splice_at s' (pre @ v) post \<and> (sE s = None \<longrightarrow> sE s' = None)"
    using n at by (simp add: put_field_def splice_at_def)
next
  fix s pre rest
  assume "length v = n" "splice_at s pre rest" "length rest < length v"
  then show "panics (put_field n v s)"
    by (auto simp: put_field_def copy_range_def slice_expr_def splice_at_def bounds_panic_def)
qed

lemma writes_rmark [writes_intros]:
  assumes "writes f bs"
  shows "writes (\<lambda>s. rmark nm (f s)) bs"
  unfolding writes_def
proof (intro allI impI)
  fix s pre rest assume "splice_at s pre rest"
  with assms have "if length bs \<le> length rest
      then \<exists>s'. f s = Inr s' \<and> splice_at s' (pre @ bs) (drop (length bs) rest) \<and>
                (sE s = None \<longrightarrow> sE s' = None)
      else panics (f s)"
    unfolding writes_def by blast
  then show "if length bs \<le> length rest
      then \<exists>s'. rmark nm (f s) = Inr s' \<and> splice_at s' (pre @ bs) (drop (length bs) rest) \<and>
                (sE s = None \<longrightarrow> sE s' = None)
      else panics (rmark nm (f s))"
    by (cases "f s" rule: panics.cases) (auto simp: rmark_def split: if_splits)
qed

lemma reads_get_field: "length v = n \<Longrightarrow> reads (get_field n) v v"
  by (rule readsI) (auto simp: get_field_def splice_at_def)

lemma reads_rd: "length v = n \<Longrightarrow> reads (rd nm n) v v"
proof (rule readsI)
  fix s pre post assume "length v = n" and "splice_at s pre (v @ post)"
  then obtain s' where "get_field n s = Inr (v, s')" "splice_at s' (pre @ v) post"
    "sE s = None \<longrightarrow> sE s' = None"
    using reads_get_field by (metis reads_at)
  then show "\<exists>s'. rd nm n s = Inr (v, s') \<and> splice_at s' (pre @ v) post \<and> (sE s = None \<longrightarrow> sE s' = None)"
    by (auto simp: rd_def)
qed

section \<open>Fields\<close>

lemma writes_Byte [writes_intros]: "writes (wByte b) [b]"
proof (rule writesI)
  fix s pre old post
  assume "splice_at s pre (old @ post)" and "length old = length [b]"
  then show "\<exists>s'. wByte b s = Inr s' \<and> splice_at s' (pre @ [b]) post \<and> (sE s = None \<longrightarrow> sE s' = None)"
    by (cases old) (auto simp: wByte_def set_index_def splice_at_def)
next
  fix s pre rest assume "splice_at s pre rest" "length rest < length [b]"
  then show "panics (wByte b s)"
    by (auto simp: wByte_def set_index_def splice_at_def index_panic_def)
qed

lemma writes_fixed [writes_intros]:
  "length h = 32 \<Longrightarrow> writes (wHash h) h"
  "length i = 8 \<Longrightarrow> writes (wID i) i"
  "length iv = 16 \<Longrightarrow> writes (wIV iv) iv"
  "length sg = 64 \<Longrightarrow> writes (wSignature sg) sg"
  "length m = 4 \<Longrightarrow> writes (wMagic m) (bytes_of_string m)"
  "writes (RawBytes r) r"
  "writes (wPrvkey C k) (Prv_ToBytes C k)"
  "writes (wPubkey C (Some p)) (Pub_ToBytes C p)"
  "writes (wCloak C rand (Some p)) (GetCloak C rand p)"
  unfolding wHash_def [abs_def] wID_def [abs_def] wIV_def [abs_def] wSignature_def [abs_def]
    wMagic_def [abs_def] RawBytes_def [abs_def] wPrvkey_def [abs_def] wPubkey_def [abs_def]
    wCloak_def [abs_def] option.case
  by (intro writes_rmark writes_put_field; simp)+

lemma writes_int_field:
  assumes enc: "\<And>d. length d = n \<Longrightarrow> Enc d = Inr e" and "length e = n"
  shows "writes (\<lambda>s. rbind (slice_expr (sb s) (sc s) (sc s + int n)) (\<lambda>d.
            rbind (Enc d) (\<lambda>e. put_field n e s))) e"
proof (rule writesI)
  fix s pre old post
  assume at: "splice_at s pre (old @ post)" and old: "length old = length e"
  then have "slice_expr (sb s) (sc s) (sc s + int n) = Inr old"
    using assms(2) slice_expr_mid [of pre old post] by (simp add: splice_at_def)
  moreover have "\<exists>s'. put_field n e s = Inr s' \<and> splice_at s' (pre @ e) (drop (length e) (old @ post)) \<and>
      (sE s = None \<longrightarrow> sE s' = None)"
    using writes_at [OF writes_put_field [OF assms(2)] at] old by (metis le_add1 length_append)
  ultimately show "\<exists>s'. rbind (slice_expr (sb s) (sc s) (sc s + int n)) (\<lambda>d.
            rbind (Enc d) (\<lambda>e. put_field n e s)) = Inr s' \<and> splice_at s' (pre @ e) post \<and>
            (sE s = None \<longrightarrow> sE s' = None)"
    using enc [of old] old assms(2) by simp
next
  fix s pre rest assume "splice_at s pre rest" "length rest < length e"
  then show "panics (rbind (slice_expr (sb s) (sc s) (sc s + int n)) (\<lambda>d.
            rbind (Enc d) (\<lambda>e. put_field n e s)))"
    using assms(2) by (auto simp: slice_expr_def splice_at_def bounds_panic_def)
qed

lemma writes_ints [writes_intros]:
  "writes (wUint16 v16) (le_bytes 2 v16)"
  "writes (wUint32 v32) (le_bytes 4 v32)"
  "writes (put_u64 v64) (le_bytes 8 v64)"
  unfolding wUint16_def [abs_def] wUint32_def [abs_def] put_u64_def [abs_def]
  by (intro writes_rmark writes_int_field; simp add: EncodeUint16_def EncodeUint32_def EncodeUint64_def)+

lemma writes_u64s [writes_intros]:
  "writes (wUint64 v) (le_bytes 8 v)"
  "writes (wDuration v) (le_bytes 8 v)"
  "writes (wTime t) (le_bytes 8 (t_unix t))"
  unfolding wUint64_def [abs_def] wDuration_def [abs_def] wTime_def [abs_def]
  by (intro writes_intros)+

definition bytes_image :: "bytes \<Rightarrow> bytes" where
  "bytes_image b = le_bytes 4 (word_of_nat (length b) :: u32) @ b"

lemma length_bytes_image [len_simps]: "length (bytes_image b) = 4 + length b"
  by (simp add: bytes_image_def)

lemma writes_Bytes [writes_intros]: "writes (wBytes b) (bytes_image b)"
proof -
  have "wBytes b = (\<lambda>s. rbind (rmark (SegLit ''32 bit length'')
          (put_field 4 (le_bytes 4 (word_of_nat (length b) :: u32)) s))
        (\<lambda>s1. rmark (SegLit ''bytes'') (put_field (length b) b s1)))"
    by (rule ext) (simp add: wBytes_def EncodeUint32_def)
  then show ?thesis
    unfolding bytes_image_def by (auto intro!: writes_intros writes_put_field)
qed

lemma writes_list [writes_intros]:
  "\<forall>h\<in>set hs. length h = 32 \<Longrightarrow> writes (wCiphers hs) (concat hs)"
  "\<forall>n\<in>set ns. length n = 16 \<Longrightarrow> writes (wNonces ns) (concat ns)"
proof -
  assume "\<forall>h\<in>set hs. length h = 32"
  then show "writes (wCiphers hs) (concat hs)"
  proof (induction hs)
    case Nil
    have "wCiphers [] = Inr" by (rule ext) simp
    then show ?case by (simp add: writes_Nil)
  next
    case (Cons h hs)
    have "wCiphers (h # hs) = (\<lambda>s. rbind (wHash h s) (wCiphers hs))" by (rule ext) simp
    with Cons show ?case by (auto intro!: writes_intros)
  qed
next
  assume "\<forall>n\<in>set ns. length n = 16"
  then show "writes (wNonces ns) (concat ns)"
  proof (induction ns)
    case Nil
    have "wNonces [] = Inr" by (rule ext) simp
    then show ?case by (simp add: writes_Nil)
  next
    case (Cons n ns)
    have "wNonces (n # ns) = (\<lambda>s. rbind (wIV n s) (wNonces ns))" by (rule ext) simp
    with Cons show ?case by (auto intro!: writes_intros)
  qed
qed

lemma writes_Multiaddr [writes_intros]:
  assumes "fits_maddr M dp a"
  shows "writes (wMultiaddr M a dp) (maddr_image M dp a)"
proof -
  from assms obtain b where b: "AddrToBytes M a dp = Inr b" "length b \<le> 20"
    "maddr_image M dp a = word_of_nat (length b) # b @ replicate (20 - length b) 0"
    by (rule fits_maddrE)
  let ?b = "b @ replicate (20 - length b) 0"
  have "(if 20 - int (length b) > 0 then copy_to (replicate 20 0) b else b) = ?b"
    using b(2) by (auto simp: copy_to_def)
  then have "wMultiaddr M a dp = (\<lambda>s. rbind (wByte (word_of_nat (length b)) s) (RawBytes ?b))"
    by (intro ext) (simp add: wMultiaddr_def b(1) Let_def)
  moreover have "writes (\<lambda>s. rbind (wByte (word_of_nat (length b)) s) (RawBytes ?b))
      ([word_of_nat (length b)] @ ?b)"
    by (intro writes_intros)
  ultimately show ?thesis by (simp add: b(3))
qed

section \<open>Reading the fields back\<close>

lemma reads_Byte [reads_intros]: "reads ReadByte [b] b"
  by (rule readsI) (auto simp: ReadByte_def index_expr_def splice_at_def)

lemma reads_fixed [reads_intros]:
  "length h = 32 \<Longrightarrow> reads ReadHash h h"
  "length i = 8 \<Longrightarrow> reads ReadID i i"
  "length iv = 16 \<Longrightarrow> reads ReadIV iv iv"
  "length c = 8 \<Longrightarrow> reads ReadCloak c c"
  "length sg = 64 \<Longrightarrow> reads ReadSignature sg sg"
  unfolding ReadHash_def [abs_def] ReadID_def [abs_def] ReadIV_def [abs_def]
    ReadCloak_def [abs_def] ReadSignature_def [abs_def]
  by (auto intro: reads_rd)

lemma reads_get_map:
  assumes "length v = n" and "\<And>s. \<exists>s'. K v s = Inr (w, s') \<and> sb s' = sb s \<and> sc s' = sc s \<and>
     (sE s = None \<longrightarrow> sE s' = None)"
  shows "reads (\<lambda>s. rbind (get_field n s) (\<lambda>(x, s1). K x s1)) v w"
proof -
  have "reads (K v) [] w"
  proof (rule readsI)
    fix s pre post assume "splice_at s pre ([] @ post)"
    then show "\<exists>s'. K v s = Inr (w, s') \<and> splice_at s' (pre @ []) post \<and> (sE s = None \<longrightarrow> sE s' = None)"
      using assms(2) [of s] by (auto simp: splice_at_def)
  qed
  from reads_chain [where g = K, OF reads_get_field [OF assms(1)] this] show ?thesis by simp
qed

lemma reads_Magic [reads_intros]: "length m = 4 \<Longrightarrow> reads ReadMagic (bytes_of_string m) m"
  unfolding ReadMagic_def [abs_def] Let_def by (rule reads_get_map) auto

lemma reads_Prvkey [reads_intros]:
  "crypto_laws C \<Longrightarrow> valid_prv C k \<Longrightarrow> reads (ReadPrvkey C) (Prv_ToBytes C k) k"
  unfolding ReadPrvkey_def [abs_def] by (rule reads_get_map) auto

lemma reads_Pubkey [reads_intros]:
  "crypto_laws C \<Longrightarrow> valid_pub C p \<Longrightarrow> reads (ReadPubkey C) (Pub_ToBytes C p) (Some p)"
  unfolding ReadPubkey_def [abs_def] by (rule reads_get_map) auto

lemma reads_u64 [reads_intros]:
  "reads ReadUint64 (le_bytes 8 v) v"
  "reads ReadMilliSatoshi (le_bytes 8 v) v"
  "reads ReadDuration (le_bytes 8 v) v"
  "reads ReadTime (le_bytes 8 v) (GoTime v 0)"
  unfolding ReadUint64_def [abs_def] ReadMilliSatoshi_def [abs_def] ReadDuration_def [abs_def]
    ReadTime_def [abs_def] get_u64_def rbind_assoc case_prod_unfold Let_def
  by (intro reads_get_map [unfolded case_prod_unfold]; simp)+

lemma reads_Uint32 [reads_intros]: "reads ReadUint32 (le_bytes 4 v) v"
  unfolding ReadUint32_def [abs_def] by (rule reads_get_map) auto

lemma reads_Uint16 [reads_intros]: "reads ReadUint16 (le_bytes 2 v) v"
proof (rule readsI)
  fix s pre post assume "splice_at s pre (le_bytes 2 v @ post)"
  then have "splice_at (mark (SegLit ''uint16'') s) pre (le_bytes 2 v @ post)" by simp
  then obtain s1 where "get_field 2 (mark (SegLit ''uint16'') s) = Inr (le_bytes 2 v, s1)"
    "splice_at s1 (pre @ le_bytes 2 v) post" "sE s = None \<longrightarrow> sE s1 = None"
    using reads_get_field [of "le_bytes 2 v" 2] by (metis reads_at length_le_bytes mark_sel(1))
  then show "\<exists>s'. ReadUint16 s = Inr (v, s') \<and> splice_at s' (pre @ le_bytes 2 v) post \<and>
      (sE s = None \<longrightarrow> sE s' = None)"
    by (auto simp: ReadUint16_def Let_def)
qed

lemma reads_Bytes [reads_intros]:
  assumes "length b < 2 ^ 32"
  shows "reads ReadBytes (bytes_image b) b"
proof -
  have len: "unat (word_of_nat (length b) :: u32) = length b"
    using assms by (simp add: unsigned_of_nat take_bit_nat_eq_self)
  have "reads (\<lambda>s1. rd (SegLit ''bytes'') (length b) (mark (SegLit ''32 bit length'') s1)) b b"
    using reads_rd [of b "length b" "SegLit ''bytes''"] unfolding reads_def
    by (metis mark_sel(1) splice_at_mark)
  then have "reads ((\<lambda>v s1. rbind (DecodeUint32 v) (\<lambda>n.
        rd (SegLit ''bytes'') (nat n) (mark (SegLit ''32 bit length'') s1)))
        (le_bytes 4 (word_of_nat (length b) :: u32))) b b"
    by (simp only: DecodeUint32_le rbind_Inr len flip: unat_eq_nat_uint)
  from reads_chain [where g = "\<lambda>v s1. rbind (DecodeUint32 v) (\<lambda>n.
        rd (SegLit ''bytes'') (nat n) (mark (SegLit ''32 bit length'') s1))",
      OF reads_get_field [of _ 4] this] show ?thesis
    by (simp add: ReadBytes_def [abs_def] bytes_image_def)
qed

lemma reads_lists [reads_intros]:
  "length hs = 3 \<Longrightarrow> \<forall>h\<in>set hs. length h = 32 \<Longrightarrow> reads ReadCiphers (concat hs) hs"
  "length ns = 3 \<Longrightarrow> \<forall>n\<in>set ns. length n = 16 \<Longrightarrow> reads ReadNonces (concat ns) ns"
  unfolding ReadCiphers_def [abs_def] ReadNonces_def [abs_def]
  using reads_times [of hs ReadHash "\<lambda>x. x"] reads_times [of ns ReadIV "\<lambda>x. x"]
  by (auto simp: reads_fixed)

lemma reads_Multiaddr [reads_intros]:
  assumes "fits_maddr M dp a"
  shows "reads (ReadMultiaddr M) (maddr_image M dp a) (Some a)"
proof -
  from assms obtain b where b: "length b \<le> 20" "ma_unmarshal M b = Inr a"
    "maddr_image M dp a = word_of_nat (length b) # b @ replicate (20 - length b) 0"
    by (rule fits_maddrE)
  let ?n = "word_of_nat (length b) :: byte" and ?pad = "replicate (20 - length b) (0 :: byte)"
  have n: "uint ?n = int (length b)" and n20: "20 - ?n > 0 \<longleftrightarrow> length b \<noteq> 20"
  proof -
    have "length b < 256" using b(1) by simp
    then show u: "uint ?n = int (length b)" by (simp add: unsigned_of_nat take_bit_nat_eq_self)
    have "20 - ?n > 0 \<longleftrightarrow> ?n \<noteq> 20" by (simp add: word_neq_0_conv [symmetric])
    also have "\<dots> \<longleftrightarrow> uint ?n \<noteq> uint (20 :: byte)" by (simp only: word_uint_eq_iff)
    finally show "20 - ?n > 0 \<longleftrightarrow> length b \<noteq> 20" by (simp add: u)
  qed
  show ?thesis
  proof (rule readsI)
    fix s pre post assume "splice_at s pre (maddr_image M dp a @ post)"
    then have sb: "sb s = pre @ ?n # b @ ?pad @ post" and sc: "sc s = int (length pre)"
      by (auto simp: splice_at_def b(3))
    have rng: "slice_expr (sb s) (1 + int (length pre)) (1 + int (length pre) + int (length b)) = Inr b"
      using slice_expr_mid [of "pre @ [?n]" b "?pad @ post"] by (simp add: sb add.commute)
    show "\<exists>s'. ReadMultiaddr M s = Inr (Some a, s') \<and> splice_at s' (pre @ maddr_image M dp a) post \<and>
       (sE s = None \<longrightarrow> sE s' = None)"
      using b rng n n20
      by (auto simp: ReadMultiaddr_def ReadByte_def index_expr_def sc sb Let_def Advance_def GetCursor_def
          GetRange_def BytesToMultiaddr_def splice_at_def nth_append add.commute)
  qed
qed

section \<open>The contract of a field\<close>

locale wire_field =
  fixes put :: "'a \<Rightarrow> splice \<Rightarrow> splice res"
    and get :: "splice \<Rightarrow> ('a \<times> splice) res"
    and img :: "'a \<Rightarrow> bytes"
    and ok :: "'a \<Rightarrow> bool"
  assumes put_writes: "ok x \<Longrightarrow> writes (put x) (img x)"
    and get_reads: "ok x \<Longrightarrow> reads get (img x) x"
begin

lemma field_roundtrip:
  assumes "ok x" and "splice_at s pre rest" and "length (img x) \<le> length rest"
  shows "\<exists>s1 s2. put x s = Inr s1 \<and> get (SetCursor (sc s) s1) = Inr (x, s2) \<and>
           sc s2 = sc s1 \<and> sb s2 = sb s1 \<and> length (sb s1) = length (sb s)"
proof -
  obtain s1 where s1: "put x s = Inr s1" "splice_at s1 (pre @ img x) (drop (length (img x)) rest)"
    using put_writes [OF assms(1)] assms(2,3) by (rule writes_at)
  have "splice_at (SetCursor (sc s) s1) pre (img x @ drop (length (img x)) rest)"
    using s1(2) assms(2) by (simp add: splice_at_def SetCursor_def)
  with get_reads [OF assms(1)] obtain s2 where
    "get (SetCursor (sc s) s1) = Inr (x, s2)" "splice_at s2 (pre @ img x) (drop (length (img x)) rest)"
    by (rule reads_at)
  with s1 assms(2,3) show ?thesis by (auto simp: splice_at_def)
qed

lemma field_overflow:
  assumes "ok x" and "splice_at s pre rest" and "length rest < length (img x)"
  shows "panics (put x s)"
  using put_writes [OF assms(1)] assms(2,3) unfolding writes_def by fastforce

lemma fields_read_back:
  assumes "\<forall>x\<in>set xs. ok x"
  shows "reads (read_times get (length xs)) (concat (map img xs)) xs"
  using assms by (intro reads_times) (auto intro: get_reads)

end

interpretation id_field: wire_field wID ReadID "\<lambda>x. x" "\<lambda>i. length i = 8"
  by unfold_locales (auto intro: writes_intros reads_intros)

interpretation iv_field: wire_field wIV ReadIV "\<lambda>x. x" "\<lambda>i. length i = 16"
  by unfold_locales (auto intro: writes_intros reads_intros)

interpretation hash_field: wire_field wHash ReadHash "\<lambda>x. x" "\<lambda>i. length i = 32"
  by unfold_locales (auto intro: writes_intros reads_intros)

interpretation sig_field: wire_field wSignature ReadSignature "\<lambda>x. x" "\<lambda>i. length i = 64"
  by unfold_locales (auto intro: writes_intros reads_intros)

interpretation byte_field: wire_field wByte ReadByte "\<lambda>b. [b]" "\<lambda>_. True"
  by unfold_locales (auto intro: writes_intros reads_intros)

interpretation u16_field: wire_field wUint16 ReadUint16 "le_bytes 2" "\<lambda>_. True"
  by unfold_locales (auto intro: writes_intros reads_intros)

interpretation u32_field: wire_field wUint32 ReadUint32 "le_bytes 4" "\<lambda>_. True"
  by unfold_locales (auto intro: writes_intros reads_intros)

interpretation u64_field: wire_field wUint64 ReadUint64 "le_bytes 8" "\<lambda>_. True"
  by unfold_locales (auto intro: writes_intros reads_intros)

interpretation duration_field: wire_field wDuration ReadDuration "le_bytes 8" "\<lambda>_. True"
  by unfold_locales (auto intro: writes_intros reads_intros)

interpretation time_field: wire_field wTime ReadTime "\<lambda>t. le_bytes 8 (t_unix t)" "\<lambda>t. t_nsec t = 0"
proof
  fix x :: gotime
  assume "t_nsec x = 0"
  then have "x = GoTime (t_unix x) 0" by (cases x) simp
  then show "reads ReadTime (le_bytes 8 (t_unix x)) x" by (metis reads_u64(4))
qed (auto intro: writes_intros)

interpretation bytes_field: wire_field wBytes ReadBytes bytes_image "\<lambda>b. length b < 2 ^ 32"
  by unfold_locales (auto intro: writes_intros reads_intros)

interpretation ciphers_field: wire_field wCiphers ReadCiphers concat
    "\<lambda>hs. length hs = 3 \<and> (\<forall>h\<in>set hs. length h = 32)"
  by unfold_locales (auto intro: writes_intros reads_intros)

interpretation nonces_field: wire_field wNonces ReadNonces concat
    "\<lambda>ns. length ns = 3 \<and> (\<forall>n\<in>set ns. length n = 16)"
  by unfold_locales (auto intro: writes_intros reads_intros)

interpretation prv_field: wire_field "wPrvkey C" "ReadPrvkey C" "Prv_ToBytes C"
    "\<lambda>k. crypto_laws C \<and> valid_prv C k" for C
  by unfold_locales (auto intro: writes_intros reads_intros)

interpretation pub_field: wire_field "wPubkey C" "ReadPubkey C" "\<lambda>p. Pub_ToBytes C (the p)"
    "\<lambda>p. crypto_laws C \<and> p \<noteq> None \<and> valid_pub C (the p)" for C
  by unfold_locales (auto intro: writes_intros reads_intros)

interpretation maddr_field: wire_field "\<lambda>a. wMultiaddr M (the a) dp" "ReadMultiaddr M"
    "\<lambda>a. maddr_image M dp (the a)" "\<lambda>a. a \<noteq> None \<and> fits_maddr M dp (the a)" for M dp
  by unfold_locales (auto intro: writes_intros reads_intros)

section \<open>Moving the message up, named offsets\<close>

lemma BudgeUp_at:
  assumes "splice_at s pre rest"
  shows "BudgeUp C rand s = Inr (s\<lparr>sb := rest @ NoisePad C rand (length pre)\<rparr>)"
proof -
  have sb: "sb s = pre @ rest" and sc: "sc s = int (length pre)"
    using assms by (auto simp: splice_at_def)
  have frm: "GetFrom (int (length pre)) s = Inr rest"
    by (simp add: GetFrom_def sb slice_expr_def)
  have "copy_to (pre @ rest) rest = rest @ drop (length rest) (pre @ rest)"
    by (simp add: copy_to_def)
  moreover have "copy_range (rest @ drop (length rest) (pre @ rest)) (int (length rest))
      (int (length rest) + int (length pre)) (NoisePad C rand (length pre))
      = Inr (rest @ NoisePad C rand (length pre))"
    using copy_range_mid [of "NoisePad C rand (length pre)" "drop (length rest) (pre @ rest)" rest "[]"]
    by simp
  ultimately show ?thesis
    by (simp add: BudgeUp_def GetCursor_def sc frm sb Splice_Len_def add.commute)
qed

lemma GetSegments_sorted: "sorted_wrt (<) (map fst (fst (GetSegments s)))"
  by (simp add: GetSegments_def Let_def strict_sorted_iff o_def)

lemma GetSegments_lookup:
  "(off, nm) \<in> set (fst (GetSegments s)) \<longleftrightarrow> map_of (rev (sSegs s)) off = Some nm"
proof -
  have "off \<in> set (map fst (sSegs s)) \<longleftrightarrow> map_of (rev (sSegs s)) off \<noteq> None"
    by (simp add: map_of_eq_None_iff)
  then show ?thesis by (auto simp: GetSegments_def Let_def)
qed

lemma MaxUint24_val: "uint MaxUint24 = 16777215"
  by (simp add: MaxUint24_def push_bit_eq_mult)

lemma base256_digits:
  fixes n :: int
  shows "n mod 256 + n div 256 mod 256 * 256 + n div 65536 * 65536 = n"
proof -
  have d: "n div 65536 = n div 256 div 256" using zdiv_zmult2_eq [of 256 n 256] by simp
  then show ?thesis
    using div_mult_mod_eq [of n 256] div_mult_mod_eq [of "n div 256" 256] by linarith
qed

lemma offset_bytes:
  fixes v :: u32
  assumes "v \<le> MaxUint24"
  shows "uint (ucast v :: byte) + uint (ucast (drop_bit 8 v) :: byte) * 2 ^ 8
           + uint (ucast (drop_bit 16 v) :: byte) * 2 ^ 16 = uint v"
proof -
  let ?n = "uint v"
  have "0 \<le> ?n" "?n < 2 ^ 24" using assms MaxUint24_val by (auto simp: word_le_def)
  moreover have "uint (ucast v :: byte) = ?n mod 2 ^ 8"
    by (simp add: unsigned_ucast_eq take_bit_eq_mod)
  moreover have "uint (ucast (drop_bit 8 v) :: byte) = ?n div 2 ^ 8 mod 2 ^ 8"
    by (simp add: unsigned_ucast_eq take_bit_eq_mod unsigned_drop_bit_eq drop_bit_eq_div uint_div)
  moreover have "uint (ucast (drop_bit 16 v) :: byte) = ?n div 2 ^ 16 mod 2 ^ 8"
    by (simp add: unsigned_ucast_eq take_bit_eq_mod unsigned_drop_bit_eq drop_bit_eq_div uint_div)
  moreover have "?n div 2 ^ 16 mod 2 ^ 8 = ?n div 2 ^ 16"
    using \<open>0 \<le> ?n\<close> \<open>?n < 2 ^ 24\<close> by (intro mod_pos_pos_trivial) (auto simp: pos_imp_zdiv_nonneg_iff)
  ultimately show ?thesis using base256_digits [of ?n] by simp
qed

end
