(* ===== verification/Codec.thy ===== *)
theory Codec
  imports Splice_Spec
begin

text \<open>
  The message framework: \<^verbatim>\<open>pkg/codec\<close>, \<^verbatim>\<open>pkg/codec/reg\<close> and \<^verbatim>\<open>pkg/engine/magic\<close>. A message is
  written behind a four-byte magic, which a registry of factories maps back to the message type.
  The locale \<open>message_codec\<close> is the contract of the interface \<^verbatim>\<open>codec.Codec\<close>; the theories of the
  concrete messages interpret it.
\<close>

section \<open>Chained calls\<close>

text \<open>\<^verbatim>\<open>s.Magic(m).ID(id)...\<close>: each method returns the splice the next one is called on.\<close>

fun chain :: "(splice \<Rightarrow> splice res) list \<Rightarrow> splice \<Rightarrow> splice res" where
  "chain [] s = Inr s"
| "chain (f # fs) s = rbind (f s) (chain fs)"

lemma writes_chain_single [writes_intros]: "writes f a \<Longrightarrow> writes (chain [f]) a"
proof -
  assume "writes f a"
  moreover have "chain [f] = f"
  proof
    fix s show "chain [f] s = f s" by (cases "f s") (simp_all add: rbind_def)
  qed
  ultimately show ?thesis by simp
qed

lemma writes_chain_Cons [writes_intros]:
  "writes f a \<Longrightarrow> writes (chain (g # fs)) b \<Longrightarrow> writes (chain (f # g # fs)) (a @ b)"
proof -
  assume "writes f a" and "writes (chain (g # fs)) b"
  then have "writes (\<lambda>s. rbind (f s) (chain (g # fs))) (a @ b)" by (rule writes_chain)
  moreover have "chain (f # g # fs) = (\<lambda>s. rbind (f s) (chain (g # fs)))" by (rule ext) simp
  ultimately show ?thesis by simp
qed

section \<open>Errors for short messages\<close>

definition TooShort :: "int \<Rightarrow> int \<Rightarrow> string \<Rightarrow> unit res" where
  "TooShort got found magic =
     (if got \<ge> found then Inr () else Inl (Error (magic @ '' message too short'')))"

section \<open>Registry\<close>

datatype msg_kind = KAddressesAd | KIntroAd | KLoadAd | KPeerAd | KServicesAd | KCrypt | KForward
  | KReverse | KExit | KSession | KDelay | KGetBalance | KBalance | KConfirmation | KEnd
  | KResponse | KIntroQuery | KReady | KRoute | KHiddenService | KMessage | KNewKey
  | KAcknowledge | KOnion

type_synonym registry = "string \<rightharpoonup> msg_kind"

definition newRegistry :: registry where
  "newRegistry = Map.empty"

definition Register :: "string \<Rightarrow> msg_kind \<Rightarrow> registry \<Rightarrow> registry" where
  "Register magicString cdc reg = reg(magicString \<mapsto> cdc)"

definition MakeCodec :: "registry \<Rightarrow> string \<Rightarrow> msg_kind option" where
  "MakeCodec reg magic = reg magic"

definition Recognise :: "registry \<Rightarrow> splice \<Rightarrow> (msg_kind option \<times> splice) res" where
  "Recognise reg s = rbind (ReadMagic s) (\<lambda>(magic, s1). Inr (MakeCodec reg magic, s1))"

definition magic_of :: "msg_kind \<Rightarrow> string" where
  "magic_of k = (case k of
      KAddressesAd \<Rightarrow> ''adad'' | KIntroAd \<Rightarrow> ''inad'' | KLoadAd \<Rightarrow> ''load'' | KPeerAd \<Rightarrow> ''pead''
    | KServicesAd \<Rightarrow> ''svad'' | KCrypt \<Rightarrow> ''cryp'' | KForward \<Rightarrow> ''forw'' | KReverse \<Rightarrow> ''rvrs''
    | KExit \<Rightarrow> ''exit'' | KSession \<Rightarrow> ''sess'' | KDelay \<Rightarrow> ''dely'' | KGetBalance \<Rightarrow> ''getb''
    | KBalance \<Rightarrow> ''bala'' | KConfirmation \<Rightarrow> ''conf'' | KEnd \<Rightarrow> ''!!!!'' | KResponse \<Rightarrow> ''resp''
    | KIntroQuery \<Rightarrow> ''intq'' | KReady \<Rightarrow> ''redy'' | KRoute \<Rightarrow> ''rout'' | KHiddenService \<Rightarrow> ''hids''
    | KMessage \<Rightarrow> ''whis'' | KNewKey \<Rightarrow> ''newK'' | KAcknowledge \<Rightarrow> ''ackn'' | KOnion \<Rightarrow> ''onio'')"

definition all_kinds :: "msg_kind list" where
  "all_kinds = [KAddressesAd, KIntroAd, KLoadAd, KPeerAd, KServicesAd, KCrypt, KForward,
     KReverse, KExit, KSession, KDelay, KGetBalance, KBalance, KConfirmation, KEnd,
     KResponse, KIntroQuery, KReady, KRoute, KHiddenService, KMessage, KNewKey,
     KAcknowledge, KOnion]"

text \<open>The registry after the package initialisers ran, in some order.\<close>

definition registry_of :: "msg_kind list \<Rightarrow> registry" where
  "registry_of ks = foldl (\<lambda>reg k. Register (magic_of k) k reg) newRegistry ks"

lemma length_magic_of [simp]: "length (magic_of k) = 4"
  by (cases k) (simp_all add: magic_of_def)

lemma magic_of_inj: "magic_of a = magic_of b \<Longrightarrow> a = b"
  by (cases a; cases b) (simp_all add: magic_of_def)

lemma registry_of_snoc: "registry_of (ks @ [k]) = (registry_of ks)(magic_of k \<mapsto> k)"
  by (simp add: registry_of_def Register_def)

lemma registry_of_lookup:
  "registry_of ks m = Some k \<longleftrightarrow> k \<in> set ks \<and> m = magic_of k"
proof (induction ks rule: rev_induct)
  case Nil
  then show ?case by (simp add: registry_of_def newRegistry_def)
next
  case (snoc x ks)
  then show ?case by (auto simp: registry_of_snoc dest: magic_of_inj)
qed

lemma Recognise_reads:
  "k \<in> set ks \<Longrightarrow> reads (Recognise (registry_of ks)) (bytes_of_string (magic_of k)) (Some k)"
  unfolding Recognise_def [abs_def]
  using reads_map [OF reads_Magic [of "magic_of k"], where h = "MakeCodec (registry_of ks)"]
  by (simp add: MakeCodec_def registry_of_lookup [THEN iffD2])

section \<open>The interface of a message\<close>

text \<open>\<^verbatim>\<open>codec.Encode\<close>: a splice of the message's own length, encoded into; an error of the encoder is
  only logged, so that the splice comes back as far as it was written (\<open>s0\<close> in the model).\<close>

definition Codec_Encode :: "nat \<Rightarrow> (splice \<Rightarrow> splice res) \<Rightarrow> splice res" where
  "Codec_Encode l enc =
     (let s0 = New l in
      case enc s0 of Inr s \<Rightarrow> Inr s | Inl (Panic p) \<Rightarrow> Inl (Panic p) | Inl (Error _) \<Rightarrow> Inr s0)"

locale message_codec =
  fixes magic :: string
    and enc :: "'m \<Rightarrow> splice \<Rightarrow> splice res"
    and dec :: "splice \<Rightarrow> ('m \<times> splice) res"
    and body :: "'m \<Rightarrow> bytes"
    and ok :: "'m \<Rightarrow> bool"
    and mlen :: "'m \<Rightarrow> nat"
  assumes magic4: "length magic = 4"
    and enc_writes: "ok m \<Longrightarrow> writes (enc m) (bytes_of_string magic @ body m)"
    and dec_reads: "ok m \<Longrightarrow> reads dec (body m) m"
    and len_enough: "ok m \<Longrightarrow> 4 + length (body m) \<le> mlen m"
begin

lemma encode_total:
  assumes "ok m"
  shows "\<exists>s. Codec_Encode (mlen m) (enc m) = Inr s \<and>
     sb s = bytes_of_string magic @ body m @ replicate (mlen m - (4 + length (body m))) 0 \<and>
     sc s = int (4 + length (body m)) \<and> sE s = None"
proof -
  obtain s where "enc m (New (mlen m)) = Inr s"
    "splice_at s ([] @ bytes_of_string magic @ body m)
       (drop (length (bytes_of_string magic @ body m)) (replicate (mlen m) 0))"
    "sE (New (mlen m)) = None \<longrightarrow> sE s = None"
    using writes_at [OF enc_writes [OF assms] splice_at_New [of "mlen m"]] len_enough [OF assms] magic4
    by (auto simp: length_bytes_of_string)
  then show ?thesis
    by (auto simp: Codec_Encode_def splice_at_def magic4 New_def)
qed

text \<open>What a receiver does with the bytes: recognise the magic, decode the rest.\<close>

lemma codec_roundtrip:
  assumes "ok m" and "magic = magic_of k" and "k \<in> set ks"
  shows "\<exists>s s1 s2. Codec_Encode (mlen m) (enc m) = Inr s \<and> length (sb s) = mlen m \<and>
     Recognise (registry_of ks) (NewFrom (sb s)) = Inr (Some k, s1) \<and>
     dec s1 = Inr (m, s2) \<and> sE s2 = None"
proof -
  obtain s where s: "Codec_Encode (mlen m) (enc m) = Inr s"
    "sb s = bytes_of_string magic @ body m @ replicate (mlen m - (4 + length (body m))) 0"
    using encode_total [OF assms(1)] by blast
  have "splice_at (NewFrom (sb s)) [] (bytes_of_string magic @ body m @
      replicate (mlen m - (4 + length (body m))) 0)"
    by (simp add: s(2))
  with Recognise_reads [OF assms(3)] obtain s1 where
    s1: "Recognise (registry_of ks) (NewFrom (sb s)) = Inr (Some k, s1)"
      "splice_at s1 ([] @ bytes_of_string magic) (body m @ replicate (mlen m - (4 + length (body m))) 0)"
      "sE (NewFrom (sb s)) = None \<longrightarrow> sE s1 = None"
    unfolding assms(2) by (rule reads_at)
  from dec_reads [OF assms(1)] s1(2) obtain s2 where "dec s1 = Inr (m, s2)"
    "sE s1 = None \<longrightarrow> sE s2 = None"
    by (rule reads_at)
  with s s1 len_enough [OF assms(1)] magic4 show ?thesis
    by (auto simp: NewFrom_def Load_def)
qed

text \<open>Two messages with the same bytes are the same message.\<close>

lemma body_inj:
  assumes "ok m" and "ok m'" and "body m = body m'"
  shows "m = m'"
proof -
  have at: "splice_at (NewFrom (body m)) [] (body m @ [])" by simp
  obtain s1 where "dec (NewFrom (body m)) = Inr (m, s1)"
    using dec_reads [OF assms(1)] at by (rule reads_at)
  moreover obtain s2 where "dec (NewFrom (body m)) = Inr (m', s2)"
    using dec_reads [OF assms(2)] at unfolding assms(3) [symmetric] by (rule reads_at)
  ultimately show ?thesis by simp
qed

end

text \<open>A length guard in front of a decoder that reads at least that much.\<close>

lemma reads_guarded:
  assumes "reads f bs v" and "n \<le> int (length bs)"
  shows "reads (\<lambda>s. rbind (TooShort (Remaining s) n m) (\<lambda>_. f s)) bs v"
proof (rule readsI)
  fix s pre post assume at: "splice_at s pre (bs @ post)"
  then have "TooShort (Remaining s) n m = Inr ()"
    using assms(2) by (simp add: TooShort_def Remaining_at)
  with assms(1) at show "\<exists>s'. rbind (TooShort (Remaining s) n m) (\<lambda>_. f s) = Inr (v, s') \<and>
      splice_at s' (pre @ bs) post \<and> (sE s = None \<longrightarrow> sE s' = None)"
    by (auto elim: reads_at)
qed

end
