(* ===== verification/Ads.thy ===== *)
theory Ads
  imports Codec
begin

text \<open>
  The peer advertisements of \<^verbatim>\<open>pkg/codec/ad\<close>: peer, load, intro, services and addresses. Each has
  the common fields of \<^verbatim>\<open>ad.Ad\<close>, is serialised up to the signature by \<^verbatim>\<open>Splice\<close>, signed over those
  bytes and checked by \<^verbatim>\<open>Validate\<close>. The default port of the network and the current time are
  arguments. The locale \<open>message_codec\<close> is interpreted for all five.
\<close>

record ad =
  aID :: bytes
  aKey :: "pub option"
  aExpiry :: gotime
  aSig :: bytes

definition ad_Len :: nat where
  "ad_Len = magic_Len + IDLen + PubKeyLen + Uint64Len + SigLen"

lemma ad_Len_val [simp]: "ad_Len = 117"
  by (simp add: ad_Len_def)

definition time_after :: "gotime \<Rightarrow> gotime \<Rightarrow> bool" where
  "time_after a b \<longleftrightarrow> sint (t_unix a) > sint (t_unix b) \<or>
     (sint (t_unix a) = sint (t_unix b) \<and> t_nsec a > t_nsec b)"

definition time_before :: "gotime \<Rightarrow> gotime \<Rightarrow> bool" where
  "time_before a b = time_after b a"

text \<open>\<^verbatim>\<open>Sign\<close> and \<^verbatim>\<open>Validate\<close> have the same body in the five packages, on that package's \<^verbatim>\<open>Len\<close> and
  \<^verbatim>\<open>SpliceNoSig\<close>.\<close>

definition signed_bytes :: "nat \<Rightarrow> (splice \<Rightarrow> splice res) \<Rightarrow> bytes res" where
  "signed_bytes l spliceNoSig = rbind (spliceNoSig (New l)) GetUntilCursor"

definition ad_sign :: "crypto_ops \<Rightarrow> nat \<Rightarrow> (splice \<Rightarrow> splice res) \<Rightarrow> prv \<Rightarrow> bytes \<Rightarrow> bytes res" where
  "ad_sign C l spliceNoSig prv sg =
     rbind (signed_bytes l spliceNoSig) (\<lambda>m. rbind (Prv_Sign C prv m) (\<lambda>b. Inr (copy_to sg b)))"

definition ad_validate ::
  "crypto_ops \<Rightarrow> gotime \<Rightarrow> nat \<Rightarrow> (splice \<Rightarrow> splice res) \<Rightarrow> bytes \<Rightarrow> pub option \<Rightarrow> gotime \<Rightarrow> bool res" where
  "ad_validate C now l spliceNoSig sg key expiry =
     rbind (signed_bytes l spliceNoSig) (\<lambda>m. rbind (MatchesPubkey C sg m key) (\<lambda>ok.
       Inr (ok \<and> time_after expiry now)))"

definition ad_expired :: "gotime \<Rightarrow> gotime \<Rightarrow> bool" where
  "ad_expired now expiry = time_before expiry now"

section \<open>peer\<close>

record peer_ad = ad +
  pRelayRate :: u32

definition peer_Len :: nat where "peer_Len = ad_Len + Uint32Len"

definition peer_Splice :: "crypto_ops \<Rightarrow> bytes \<Rightarrow> pub option \<Rightarrow> u32 \<Rightarrow> gotime \<Rightarrow> splice \<Rightarrow> splice res" where
  "peer_Splice C i key relayRate expiry s =
     chain [wMagic ''pead'', wID i, wPubkey C key, wUint32 relayRate, wTime expiry] s"

definition peer_SpliceNoSig :: "crypto_ops \<Rightarrow> peer_ad \<Rightarrow> splice \<Rightarrow> splice res" where
  "peer_SpliceNoSig C x s = peer_Splice C (aID x) (aKey x) (pRelayRate x) (aExpiry x) s"

definition peer_Encode :: "crypto_ops \<Rightarrow> peer_ad \<Rightarrow> splice \<Rightarrow> splice res" where
  "peer_Encode C x s = rbind (peer_SpliceNoSig C x s) (wSignature (aSig x))"

definition peer_Decode :: "crypto_ops \<Rightarrow> splice \<Rightarrow> (peer_ad \<times> splice) res" where
  "peer_Decode C s =
     rbind (ReadID s) (\<lambda>(i, s). rbind (ReadPubkey C s) (\<lambda>(k, s). rbind (ReadUint32 s) (\<lambda>(r, s).
     rbind (ReadTime s) (\<lambda>(t, s). rbind (ReadSignature s) (\<lambda>(g, s).
       Inr (\<lparr>aID = i, aKey = k, aExpiry = t, aSig = g, pRelayRate = r\<rparr>, s))))))"

definition peer_Sign :: "crypto_ops \<Rightarrow> prv \<Rightarrow> peer_ad \<Rightarrow> peer_ad res" where
  "peer_Sign C prv x = rbind (ad_sign C peer_Len (peer_SpliceNoSig C x) prv (aSig x)) (\<lambda>g.
     Inr (x\<lparr>aSig := g\<rparr>))"

definition peer_Validate :: "crypto_ops \<Rightarrow> gotime \<Rightarrow> peer_ad \<Rightarrow> bool res" where
  "peer_Validate C now x =
     ad_validate C now peer_Len (peer_SpliceNoSig C x) (aSig x) (aKey x) (aExpiry x)"

definition hours3 :: u64 where "hours3 = 10800"

text \<open>\<^verbatim>\<open>peer.New\<close> signs a serialisation with the given expiry, then builds the ad with an expiry of three
  hours from now and signs that.\<close>

definition intro_Len :: nat where "intro_Len = ad_Len + PubKeyLen + Uint16Len + Uint32Len"

definition peer_New :: "crypto_ops \<Rightarrow> gotime \<Rightarrow> bytes \<Rightarrow> prv \<Rightarrow> u32 \<Rightarrow> gotime \<Rightarrow> peer_ad res" where
  "peer_New C now i key relayRate expiry =
     (let k = DerivePub C (Some key) in
      rbind (peer_Splice C i k relayRate expiry (New intro_Len)) (\<lambda>s.
      rbind (GetUntil (GetCursor s) s) (\<lambda>m.
      let sg = crypto_Sign C key (Single C m) in
      peer_Sign C key \<lparr>aID = i, aKey = k, aExpiry = GoTime (t_unix now + hours3) (t_nsec now),
                       aSig = sg, pRelayRate = relayRate\<rparr>)))"

section \<open>load\<close>

record load_ad = ad +
  lLoad :: byte

definition load_Len :: nat where "load_Len = ad_Len + 1"

definition load_Splice :: "crypto_ops \<Rightarrow> bytes \<Rightarrow> pub option \<Rightarrow> byte \<Rightarrow> gotime \<Rightarrow> splice \<Rightarrow> splice res" where
  "load_Splice C i key load expiry s =
     chain [wMagic ''load'', wID i, wPubkey C key, wByte load, wTime expiry] s"

definition load_SpliceNoSig :: "crypto_ops \<Rightarrow> load_ad \<Rightarrow> splice \<Rightarrow> splice res" where
  "load_SpliceNoSig C x s = load_Splice C (aID x) (aKey x) (lLoad x) (aExpiry x) s"

definition load_Encode :: "crypto_ops \<Rightarrow> load_ad \<Rightarrow> splice \<Rightarrow> splice res" where
  "load_Encode C x s = rbind (load_SpliceNoSig C x s) (wSignature (aSig x))"

definition load_Decode :: "crypto_ops \<Rightarrow> splice \<Rightarrow> (load_ad \<times> splice) res" where
  "load_Decode C s =
     rbind (ReadID s) (\<lambda>(i, s). rbind (ReadPubkey C s) (\<lambda>(k, s). rbind (ReadByte s) (\<lambda>(l, s).
     rbind (ReadTime s) (\<lambda>(t, s). rbind (ReadSignature s) (\<lambda>(g, s).
       Inr (\<lparr>aID = i, aKey = k, aExpiry = t, aSig = g, lLoad = l\<rparr>, s))))))"

definition load_Sign :: "crypto_ops \<Rightarrow> prv \<Rightarrow> load_ad \<Rightarrow> load_ad res" where
  "load_Sign C prv x = rbind (ad_sign C load_Len (load_SpliceNoSig C x) prv (aSig x)) (\<lambda>g.
     Inr (x\<lparr>aSig := g\<rparr>))"

definition load_Validate :: "crypto_ops \<Rightarrow> gotime \<Rightarrow> load_ad \<Rightarrow> bool res" where
  "load_Validate C now x =
     ad_validate C now load_Len (load_SpliceNoSig C x) (aSig x) (aKey x) (aExpiry x)"

definition load_New :: "crypto_ops \<Rightarrow> bytes \<Rightarrow> prv \<Rightarrow> byte \<Rightarrow> gotime \<Rightarrow> load_ad res" where
  "load_New C i key load expiry =
     load_Sign C key \<lparr>aID = i, aKey = DerivePub C (Some key), aExpiry = expiry,
                      aSig = replicate SigLen 0, lLoad = load\<rparr>"

section \<open>intro\<close>

record intro_ad = ad +
  iIntroducer :: "pub option"
  iPort :: u16
  iRelayRate :: u32

definition intro_Splice ::
  "crypto_ops \<Rightarrow> bytes \<Rightarrow> pub option \<Rightarrow> pub option \<Rightarrow> u32 \<Rightarrow> u16 \<Rightarrow> gotime \<Rightarrow> splice \<Rightarrow> splice res" where
  "intro_Splice C i key introducer relayRate port expires s =
     chain [wMagic ''inad'', wID i, wPubkey C key, wPubkey C introducer, wUint32 relayRate,
            wUint16 port, wTime expires] s"

definition intro_SpliceNoSig :: "crypto_ops \<Rightarrow> intro_ad \<Rightarrow> splice \<Rightarrow> splice res" where
  "intro_SpliceNoSig C x s =
     intro_Splice C (aID x) (aKey x) (iIntroducer x) (iRelayRate x) (iPort x) (aExpiry x) s"

definition intro_Encode :: "crypto_ops \<Rightarrow> intro_ad \<Rightarrow> splice \<Rightarrow> splice res" where
  "intro_Encode C x s = rbind (intro_SpliceNoSig C x s) (wSignature (aSig x))"

definition intro_Decode :: "crypto_ops \<Rightarrow> splice \<Rightarrow> (intro_ad \<times> splice) res" where
  "intro_Decode C s =
     rbind (TooShort (Remaining s) (int intro_Len - int magic_Len) ''inad'') (\<lambda>_.
     rbind (ReadID s) (\<lambda>(i, s). rbind (ReadPubkey C s) (\<lambda>(k, s). rbind (ReadPubkey C s) (\<lambda>(n, s).
     rbind (ReadUint32 s) (\<lambda>(r, s). rbind (ReadUint16 s) (\<lambda>(p, s).
     rbind (ReadTime s) (\<lambda>(t, s). rbind (ReadSignature s) (\<lambda>(g, s).
       Inr (\<lparr>aID = i, aKey = k, aExpiry = t, aSig = g, iIntroducer = n, iPort = p,
             iRelayRate = r\<rparr>, s)))))))))"

definition intro_Sign :: "crypto_ops \<Rightarrow> prv \<Rightarrow> intro_ad \<Rightarrow> intro_ad res" where
  "intro_Sign C prv x = rbind (ad_sign C intro_Len (intro_SpliceNoSig C x) prv (aSig x)) (\<lambda>g.
     Inr (x\<lparr>aSig := g\<rparr>))"

definition intro_Validate :: "crypto_ops \<Rightarrow> gotime \<Rightarrow> intro_ad \<Rightarrow> bool res" where
  "intro_Validate C now x =
     ad_validate C now intro_Len (intro_SpliceNoSig C x) (aSig x) (aKey x) (aExpiry x)"

definition intro_New ::
  "crypto_ops \<Rightarrow> bytes \<Rightarrow> prv \<Rightarrow> pub option \<Rightarrow> u32 \<Rightarrow> u16 \<Rightarrow> gotime \<Rightarrow> intro_ad res" where
  "intro_New C i key introducer relayRate port expires =
     intro_Sign C key \<lparr>aID = i, aKey = DerivePub C (Some key), aExpiry = expires,
        aSig = replicate SigLen 0, iIntroducer = introducer, iPort = port, iRelayRate = relayRate\<rparr>"

section \<open>services\<close>

record ad_service =
  svPort :: u16
  svRelayRate :: u32

record services_ad = ad +
  vServices :: "ad_service list"

definition services_Len :: "services_ad \<Rightarrow> nat" where
  "services_Len x = ad_Len + length (vServices x) * (ad_Len + Uint16Len + Uint32Len) + Uint32Len"

definition wService :: "ad_service \<Rightarrow> splice \<Rightarrow> splice res" where
  "wService v s = chain [wUint16 (svPort v), wUint32 (svRelayRate v)] s"

fun wServices :: "ad_service list \<Rightarrow> splice \<Rightarrow> splice res" where
  "wServices [] s = Inr s"
| "wServices (v # vs) s = rbind (wService v s) (wServices vs)"

definition services_Splice ::
  "crypto_ops \<Rightarrow> bytes \<Rightarrow> pub option \<Rightarrow> ad_service list \<Rightarrow> gotime \<Rightarrow> splice \<Rightarrow> splice res" where
  "services_Splice C i key svcs expiry s =
     chain [wMagic ''svad'', wID i, wPubkey C key, wUint16 (word_of_nat (length svcs)),
            wServices svcs, wTime expiry] s"

definition services_SpliceNoSig :: "crypto_ops \<Rightarrow> services_ad \<Rightarrow> splice \<Rightarrow> splice res" where
  "services_SpliceNoSig C x s = services_Splice C (aID x) (aKey x) (vServices x) (aExpiry x) s"

definition services_Encode :: "crypto_ops \<Rightarrow> services_ad \<Rightarrow> splice \<Rightarrow> splice res" where
  "services_Encode C x s = rbind (services_SpliceNoSig C x s) (wSignature (aSig x))"

definition ReadService :: "splice \<Rightarrow> (ad_service \<times> splice) res" where
  "ReadService s = rbind (ReadUint16 s) (\<lambda>(p, s). rbind (ReadUint32 s) (\<lambda>(r, s).
     Inr (\<lparr>svPort = p, svRelayRate = r\<rparr>, s)))"

definition services_Decode :: "crypto_ops \<Rightarrow> splice \<Rightarrow> (services_ad \<times> splice) res" where
  "services_Decode C s =
     rbind (ReadID s) (\<lambda>(i, s). rbind (ReadPubkey C s) (\<lambda>(k, s). rbind (ReadUint16 s) (\<lambda>(n, s).
     rbind (read_times ReadService (unat n) s) (\<lambda>(vs, s).
     rbind (ReadTime s) (\<lambda>(t, s). rbind (ReadSignature s) (\<lambda>(g, s).
       Inr (\<lparr>aID = i, aKey = k, aExpiry = t, aSig = g, vServices = vs\<rparr>, s)))))))"

definition services_Sign :: "crypto_ops \<Rightarrow> prv \<Rightarrow> services_ad \<Rightarrow> services_ad res" where
  "services_Sign C prv x =
     rbind (ad_sign C (services_Len x) (services_SpliceNoSig C x) prv (aSig x)) (\<lambda>g.
     Inr (x\<lparr>aSig := g\<rparr>))"

definition services_Validate :: "crypto_ops \<Rightarrow> gotime \<Rightarrow> services_ad \<Rightarrow> bool res" where
  "services_Validate C now x =
     ad_validate C now (services_Len x) (services_SpliceNoSig C x) (aSig x) (aKey x) (aExpiry x)"

definition services_New :: "crypto_ops \<Rightarrow> bytes \<Rightarrow> prv \<Rightarrow> ad_service list \<Rightarrow> gotime \<Rightarrow> services_ad res" where
  "services_New C i key svcs expiry =
     services_Sign C key \<lparr>aID = i, aKey = DerivePub C (Some key), aExpiry = expiry,
                          aSig = replicate SigLen 0, vServices = svcs\<rparr>"

section \<open>addresses\<close>

record addresses_ad = ad +
  dAddresses :: "multiaddr option list"

definition addresses_Len :: "addresses_ad \<Rightarrow> nat" where
  "addresses_Len x = ad_Len + Uint16Len + 21 * length (dAddresses x)"

fun wAddresses :: "maddr_ops \<Rightarrow> u16 \<Rightarrow> multiaddr option list \<Rightarrow> splice \<Rightarrow> splice res" where
  "wAddresses M dp [] s = Inr s"
| "wAddresses M dp (None # as) s = Inl (Panic ''nil pointer dereference'')"
| "wAddresses M dp (Some a # as) s = rbind (wMultiaddr M a dp s) (wAddresses M dp as)"

definition addresses_Splice ::
  "crypto_ops \<Rightarrow> maddr_ops \<Rightarrow> u16 \<Rightarrow> bytes \<Rightarrow> pub option \<Rightarrow> multiaddr option list \<Rightarrow> gotime \<Rightarrow>
   splice \<Rightarrow> splice res" where
  "addresses_Splice C M dp i key addrs expiry s =
     chain [wMagic ''adad'', wID i, wPubkey C key, wUint16 (word_of_nat (length addrs)),
            wAddresses M dp addrs, wTime expiry] s"

definition addresses_SpliceNoSig ::
  "crypto_ops \<Rightarrow> maddr_ops \<Rightarrow> u16 \<Rightarrow> addresses_ad \<Rightarrow> splice \<Rightarrow> splice res" where
  "addresses_SpliceNoSig C M dp x s =
     addresses_Splice C M dp (aID x) (aKey x) (dAddresses x) (aExpiry x) s"

definition addresses_Encode ::
  "crypto_ops \<Rightarrow> maddr_ops \<Rightarrow> u16 \<Rightarrow> addresses_ad \<Rightarrow> splice \<Rightarrow> splice res" where
  "addresses_Encode C M dp x s = rbind (addresses_SpliceNoSig C M dp x s) (wSignature (aSig x))"

definition addresses_Decode ::
  "crypto_ops \<Rightarrow> maddr_ops \<Rightarrow> splice \<Rightarrow> (addresses_ad \<times> splice) res" where
  "addresses_Decode C M s =
     rbind (ReadID s) (\<lambda>(i, s). rbind (ReadPubkey C s) (\<lambda>(k, s). rbind (ReadUint16 s) (\<lambda>(n, s).
     rbind (read_times (ReadMultiaddr M) (unat n) s) (\<lambda>(as, s).
     rbind (ReadTime s) (\<lambda>(t, s). rbind (ReadSignature s) (\<lambda>(g, s).
       Inr (\<lparr>aID = i, aKey = k, aExpiry = t, aSig = g, dAddresses = as\<rparr>, s)))))))"

definition addresses_Sign ::
  "crypto_ops \<Rightarrow> maddr_ops \<Rightarrow> u16 \<Rightarrow> prv \<Rightarrow> addresses_ad \<Rightarrow> addresses_ad res" where
  "addresses_Sign C M dp prv x =
     rbind (ad_sign C (addresses_Len x) (addresses_SpliceNoSig C M dp x) prv (aSig x)) (\<lambda>g.
     Inr (x\<lparr>aSig := g\<rparr>))"

definition addresses_Validate ::
  "crypto_ops \<Rightarrow> maddr_ops \<Rightarrow> u16 \<Rightarrow> gotime \<Rightarrow> addresses_ad \<Rightarrow> bool res" where
  "addresses_Validate C M dp now x =
     ad_validate C now (addresses_Len x) (addresses_SpliceNoSig C M dp x) (aSig x) (aKey x) (aExpiry x)"

definition addresses_New ::
  "crypto_ops \<Rightarrow> maddr_ops \<Rightarrow> u16 \<Rightarrow> bytes \<Rightarrow> prv \<Rightarrow> multiaddr option list \<Rightarrow> gotime \<Rightarrow>
   addresses_ad res" where
  "addresses_New C M dp i key addrs expiry =
     addresses_Sign C M dp key \<lparr>aID = i, aKey = DerivePub C (Some key), aExpiry = expiry,
                                aSig = replicate SigLen 0, dAddresses = addrs\<rparr>"

end
