(* ===== verification/Onion.thy ===== *)
theory Onion
  imports Ads
begin

text \<open>
  The messages of \<^verbatim>\<open>pkg/codec/onion\<close>: layers that wrap another message (crypt, forward,
  reverse, delay, exit, getbalance, session, introquery, route, hiddenservice) and cores (balance,
  confirmation, end, response, ready, whisper), with \<^verbatim>\<open>Encode\<close>, \<^verbatim>\<open>Decode\<close>, \<^verbatim>\<open>Len\<close>, \<^verbatim>\<open>Wrap\<close> and the
  constructors. A message is a value of the datatype \<open>onion\<close>; the embedded interface \<^verbatim>\<open>ont.Onion\<close> is the
  last argument of a layer, \<open>ONil\<close> where it is nil. From \<^verbatim>\<open>pkg/hidden\<close> come the routing header
  and the reply format. Values the code prints to its log are not modelled, but the nil
  dereferences in the arguments of the log calls are.
\<close>

section \<open>Constants\<close>

definition CryptLen :: nat where "CryptLen = magic_Len + IVLen + CloakLen + PubKeyLen"
definition ReverseLen :: nat where "ReverseLen = magic_Len + 1 + AddrLen"
definition ReverseCryptLen :: nat where "ReverseCryptLen = ReverseLen + CryptLen"
definition RoutingHeaderLen :: nat where "RoutingHeaderLen = 3 * ReverseCryptLen"

lemma onion_lens [simp]:
  "CryptLen = 61" "ReverseLen = 23" "ReverseCryptLen = 84" "RoutingHeaderLen = 252"
  by (simp_all add: CryptLen_def ReverseLen_def ReverseCryptLen_def RoutingHeaderLen_def)

section \<open>Messages\<close>

record crypt =
  cDepth :: int
  cToHeaderPub :: "pub option"
  cToPayloadPub :: "pub option"
  cFrom :: "prv option"
  cIV :: bytes
  cCloak :: bytes
  cToPriv :: "prv option"
  cFromPub :: "pub option"

record getbalance =
  gID :: bytes
  gCiphers :: "bytes list"
  gNonces :: "bytes list"

record exit_msg =
  xID :: bytes
  xCiphers :: "bytes list"
  xNonces :: "bytes list"
  xPort :: u16
  xBytes :: bytes

record session_msg =
  sID :: bytes
  sHop :: byte
  sHeader :: "keys option"
  sPayload :: "keys option"

record introquery =
  qID :: bytes
  qCiphers :: "bytes list"
  qNonces :: "bytes list"
  qKey :: "pub option"

record reply_header =
  rhBytes :: bytes
  rhCiphers :: "bytes list"
  rhNonces :: "bytes list"

record route_msg =
  rHiddenService :: "pub option"
  rHiddenCloaked :: bytes
  rSender :: "prv option"
  rSenderPub :: "pub option"
  rIV :: bytes
  rID :: bytes
  rCiphers :: "bytes list"
  rNonces :: "bytes list"
  rHeader :: bytes

record hidden_service =
  hIntro :: intro_ad
  hCiphers :: "bytes list"
  hNonces :: "bytes list"
  hHeader :: bytes

record balance_msg =
  bID :: bytes
  bMilliSatoshi :: u64

record response_msg =
  pID' :: bytes
  pPort :: u16
  pLoad :: byte
  pBytes :: bytes

record ready_msg =
  yID :: bytes
  yAddress :: "pub option"
  yForward :: "reply_header option"
  yReturn :: "reply_header option"

record whisper =
  wAddress :: "pub option"
  wMsgID :: bytes
  wRe :: bytes
  wForward :: "reply_header option"
  wReturn :: "reply_header option"
  wPayload :: bytes

datatype onion =
    ONil
  | OEnd
  | OCrypt crypt onion
  | OForward "multiaddr option" onion
  | OReverse "multiaddr option" onion
  | ODelay u64 onion
  | OGetBalance getbalance onion
  | OExit exit_msg onion
  | OSession session_msg onion
  | OIntroQuery introquery onion
  | ORoute route_msg onion
  | OHiddenService hidden_service onion
  | OBalance balance_msg
  | OConfirmation bytes
  | OResponse response_msg
  | OReady ready_msg
  | OMessage whisper

section \<open>Routing headers\<close>

text \<open>\<^verbatim>\<open>Advance\<close> returns the cursor after the advance; the calls in a slice expression run from left
  to right.\<close>

definition GetRoutingHeaderFromCursor :: "splice \<Rightarrow> (bytes \<times> splice) res" where
  "GetRoutingHeaderFromCursor s =
     (let start = GetCursor s; s1 = Advance (int RoutingHeaderLen) ''routing header'' s in
      rbind (GetRange start (GetCursor s1) s1) (\<lambda>rh.
        Inr (copy_to (replicate RoutingHeaderLen 0) rh, s1)))"

definition ReadRoutingHeader :: "splice \<Rightarrow> (bytes \<times> splice) res" where
  "ReadRoutingHeader s = rbind (GetRoutingHeaderFromCursor s) (\<lambda>(b, s1).
     Inr (b, mark (SegLit ''routingheader'') s1))"

definition WriteRoutingHeader :: "bytes \<Rightarrow> splice \<Rightarrow> splice res" where
  "WriteRoutingHeader b s =
     (let start = GetCursor s; s1 = Advance (int RoutingHeaderLen) ''routing header'' s in
      rbind (copy_range (sb s1) start (GetCursor s1) b) (\<lambda>buf.
        Inr (mark (SegLit ''routingheader'') (s1\<lparr>sb := buf\<rparr>))))"

text \<open>\<^verbatim>\<open>ciph.Encipher(blk, iv, s.GetRange(lo, hi))\<close>: the range is enciphered in place.\<close>

definition encipher_range :: "(bytes \<Rightarrow> bytes) option \<Rightarrow> bytes \<Rightarrow> int \<Rightarrow> int \<Rightarrow> splice \<Rightarrow> splice res" where
  "encipher_range blk iv lo hi s =
     rbind (slice_expr (sb s) lo hi) (\<lambda>v.
     rbind (Encipher blk iv v) (\<lambda>v'.
     rbind (copy_range (sb s) lo hi v') (\<lambda>b. Inr (s\<lparr>sb := b\<rparr>))))"

definition encipher_from :: "(bytes \<Rightarrow> bytes) option \<Rightarrow> bytes \<Rightarrow> int \<Rightarrow> splice \<Rightarrow> splice res" where
  "encipher_from blk iv lo s = encipher_range blk iv lo (Splice_Len s) s"

text \<open>\<^verbatim>\<open>for i := range ciphers\<close>: one pass of each cipher with its nonce.\<close>

fun encipher_all :: "crypto_ops \<Rightarrow> (bytes \<times> bytes) list \<Rightarrow> int \<Rightarrow> splice \<Rightarrow> splice res" where
  "encipher_all C [] start s = Inr s"
| "encipher_all C ((c, n) # cns) start s =
     rbind (encipher_from (BlockFromHash C c) n start s) (encipher_all C cns start)"

definition FormatReply :: "crypto_ops \<Rightarrow> bytes \<Rightarrow> bytes list \<Rightarrow> bytes list \<Rightarrow> bytes \<Rightarrow> splice res" where
  "FormatReply C header ciphers nonces res =
     (let rl = RoutingHeaderLen; rb = New (rl + length res) in
      rbind (slice_expr header 0 (int rl)) (\<lambda>h.
      rbind (copy_range (sb rb) 0 (int rl) h) (\<lambda>b1.
      rbind (copy_range b1 (int rl) (int (length b1)) res) (\<lambda>b2.
        encipher_all C (zip ciphers nonces) (int rl) (rb\<lparr>sb := b2\<rparr>)))))"

section \<open>Encode\<close>

definition reply_parts :: "reply_header \<Rightarrow> splice \<Rightarrow> splice res" where
  "reply_parts r = chain [WriteRoutingHeader (rhBytes r), wCiphers (rhCiphers r), wNonces (rhNonces r)]"

definition crypt_end :: "crypt \<Rightarrow> int \<Rightarrow> splice \<Rightarrow> int res" where
  "crypt_end x start s =
     (if cDepth x = 0 then Inr (Splice_Len s)
      else if cDepth x > 0 then Inr (start + (cDepth x - 1) * int ReverseCryptLen)
      else Inl (Panic ''incorrect value for crypt sequence''))"

text \<open>One definition per message. A layer gets the encoder of the message it wraps as \<open>enc\<close>, which is
  the nil panic where the wrapped message is nil; the layers that test for nil get \<open>None\<close> then.
  \<open>blind\<close> are the random bytes of the cloak.\<close>

type_synonym encoder = "splice \<Rightarrow> splice res"

definition encode_some :: "encoder option \<Rightarrow> encoder" where
  "encode_some e = (case e of None \<Rightarrow> Inr | Some enc \<Rightarrow> enc)"

definition crypt_Encode :: "crypto_ops \<Rightarrow> bytes \<Rightarrow> crypt \<Rightarrow> encoder option \<Rightarrow> encoder" where
  "crypt_Encode C blind x enc s =
     (case (cFrom x, cToHeaderPub x) of
        (None, _) \<Rightarrow> Inl nil_panic
      | (Some from, None) \<Rightarrow> Inr (Advance (int CryptLen) ''crypt'' s)
      | (Some from, Some to) \<Rightarrow>
          rbind (chain [wMagic ''cryp'', wIV (cIV x), wCloak C blind (Some to),
                        wPubkey C (DerivePub C (Some from))] s) (\<lambda>s1.
          let blk = GetBlock C from to; start = GetCursor s1 in
          rbind (crypt_end x start s1) (\<lambda>en.
          rbind (encode_some enc s1) (\<lambda>s2.
          rbind (encipher_range blk (cIV x) start en s2) (\<lambda>s3.
          if en \<noteq> Splice_Len s3 then
            (case cToPayloadPub x of
               None \<Rightarrow> Inl nil_panic
             | Some pld \<Rightarrow> encipher_from (GetBlock C from pld) (cIV x) en s3)
          else Inr s3)))))"

definition forward_Encode :: "maddr_ops \<Rightarrow> u16 \<Rightarrow> multiaddr option \<Rightarrow> encoder \<Rightarrow> encoder" where
  "forward_Encode M dp a enc s =
     (case a of
        None \<Rightarrow> Inl nil_panic
      | Some ma \<Rightarrow> rbind (chain [wMagic ''forw'', wMultiaddr M ma dp] s) enc)"

definition reverse_Encode :: "maddr_ops \<Rightarrow> u16 \<Rightarrow> multiaddr option \<Rightarrow> encoder option \<Rightarrow> encoder" where
  "reverse_Encode M dp a enc s =
     rbind (case a of
              None \<Rightarrow> Inr (Advance (int ReverseLen) ''reverse'' s)
            | Some ma \<Rightarrow> chain [wMagic ''rvrs'', wMultiaddr M ma dp] s) (encode_some enc)"

definition delay_Encode :: "u64 \<Rightarrow> encoder option \<Rightarrow> encoder" where
  "delay_Encode d enc s = rbind (chain [wMagic ''dely'', wUint64 d] s) (encode_some enc)"

definition getbalance_Encode :: "getbalance \<Rightarrow> encoder \<Rightarrow> encoder" where
  "getbalance_Encode x enc s =
     rbind (chain [wMagic ''getb'', wID (gID x), wCiphers (gCiphers x), wNonces (gNonces x)] s) enc"

definition exit_Encode :: "exit_msg \<Rightarrow> encoder \<Rightarrow> encoder" where
  "exit_Encode x enc s =
     rbind (chain [wMagic ''exit'', wID (xID x), wCiphers (xCiphers x), wNonces (xNonces x),
                   wUint16 (xPort x), wBytes (xBytes x)] s) enc"

definition session_Encode :: "crypto_ops \<Rightarrow> session_msg \<Rightarrow> encoder \<Rightarrow> encoder" where
  "session_Encode C x enc s =
     (case (sHeader x, sPayload x) of
        (Some h, Some p) \<Rightarrow>
          rbind (chain [wMagic ''sess'', wID (sID x), wPrvkey C (kPrv h), wPrvkey C (kPrv p)] s) enc
      | _ \<Rightarrow> Inl nil_panic)"

definition introquery_Encode :: "crypto_ops \<Rightarrow> introquery \<Rightarrow> encoder \<Rightarrow> encoder" where
  "introquery_Encode C x enc s =
     rbind (chain [wMagic ''intq'', wID (qID x), wCiphers (qCiphers x), wNonces (qNonces x),
                   wPubkey C (qKey x)] s) enc"

definition route_Encode :: "crypto_ops \<Rightarrow> bytes \<Rightarrow> route_msg \<Rightarrow> encoder \<Rightarrow> encoder" where
  "route_Encode C blind x enc s =
     rbind (chain [wMagic ''rout'', wCloak C blind (rHiddenService x),
                   wPubkey C (DerivePub C (rSender x)), wIV (rIV x)] s) (\<lambda>s1.
     let start = GetCursor s1 in
     rbind (chain [wID (rID x), wCiphers (rCiphers x), wNonces (rNonces x)] s1) (\<lambda>s2.
     rbind (enc s2) (\<lambda>s3.
     case (rSender x, rHiddenService x) of
       (Some sk, Some hs) \<Rightarrow> encipher_from (GetBlock C sk hs) (rIV x) start s3
     | _ \<Rightarrow> Inl nil_panic)))"

definition hiddenservice_Encode :: "crypto_ops \<Rightarrow> hidden_service \<Rightarrow> encoder \<Rightarrow> encoder" where
  "hiddenservice_Encode C x enc s =
     rbind (wMagic ''hids'' s) (\<lambda>s1.
     rbind (intro_Encode C (hIntro x) s1) (\<lambda>s2.
     rbind (chain [wCiphers (hCiphers x), wNonces (hNonces x)] s2) enc))"

definition balance_Encode :: "balance_msg \<Rightarrow> encoder" where
  "balance_Encode x s = chain [wMagic ''bala'', wID (bID x), wUint64 (bMilliSatoshi x)] s"

definition confirmation_Encode :: "bytes \<Rightarrow> encoder" where
  "confirmation_Encode i s = chain [wMagic ''conf'', wID i] s"

definition response_Encode :: "response_msg \<Rightarrow> encoder" where
  "response_Encode x s =
     chain [wMagic ''resp'', wID (pID' x), wUint16 (pPort x), wByte (pLoad x), wBytes (pBytes x)] s"

definition ready_Encode :: "crypto_ops \<Rightarrow> ready_msg \<Rightarrow> encoder" where
  "ready_Encode C x s =
     (case (yForward x, yReturn x) of
        (Some fw, Some rv) \<Rightarrow>
          rbind (WriteRoutingHeader (rhBytes fw) s) (\<lambda>s1.
          let start = GetCursor s1 in
          rbind (chain [wMagic ''redy'', wID (yID x), wPubkey C (yAddress x), reply_parts rv] s1) (\<lambda>s2.
            encipher_all C (zip (rhCiphers fw) (rhNonces fw)) start s2))
      | _ \<Rightarrow> Inl nil_panic)"

definition message_Encode :: "crypto_ops \<Rightarrow> whisper \<Rightarrow> encoder" where
  "message_Encode C x s =
     (case (wForward x, wReturn x) of
        (Some fw, Some rv) \<Rightarrow>
          rbind (WriteRoutingHeader (rhBytes fw) s) (\<lambda>s1.
          let start = GetCursor s1 in
          rbind (chain [wMagic ''whis'', wPubkey C (wAddress x), wID (wMsgID x), wID (wRe x), reply_parts rv,
                        wBytes (wPayload x)] s1) (\<lambda>s2.
            encipher_all C (zip (rhCiphers fw) (rhNonces fw)) start s2))
      | _ \<Rightarrow> Inl nil_panic)"

text \<open>The dynamic dispatch on the message; \<open>blind k\<close> are the random bytes of the \<open>k\<close>-th layer.\<close>

fun onion_Encode ::
  "crypto_ops \<Rightarrow> maddr_ops \<Rightarrow> u16 \<Rightarrow> (nat \<Rightarrow> bytes) \<Rightarrow> nat \<Rightarrow> onion \<Rightarrow> splice \<Rightarrow> splice res" where
  "onion_Encode C M dp blind k ONil s = Inl nil_panic"
| "onion_Encode C M dp blind k OEnd s = Inr s"
| "onion_Encode C M dp blind k (OCrypt x inner) s =
     crypt_Encode C (blind k) x (if inner = ONil then None else Some (onion_Encode C M dp blind (Suc k) inner)) s"
| "onion_Encode C M dp blind k (OForward a inner) s =
     forward_Encode M dp a (onion_Encode C M dp blind (Suc k) inner) s"
| "onion_Encode C M dp blind k (OReverse a inner) s =
     reverse_Encode M dp a (if inner = ONil then None else Some (onion_Encode C M dp blind (Suc k) inner)) s"
| "onion_Encode C M dp blind k (ODelay d inner) s =
     delay_Encode d (if inner = ONil then None else Some (onion_Encode C M dp blind (Suc k) inner)) s"
| "onion_Encode C M dp blind k (OGetBalance x inner) s =
     getbalance_Encode x (onion_Encode C M dp blind (Suc k) inner) s"
| "onion_Encode C M dp blind k (OExit x inner) s =
     exit_Encode x (onion_Encode C M dp blind (Suc k) inner) s"
| "onion_Encode C M dp blind k (OSession x inner) s =
     session_Encode C x (onion_Encode C M dp blind (Suc k) inner) s"
| "onion_Encode C M dp blind k (OIntroQuery x inner) s =
     introquery_Encode C x (onion_Encode C M dp blind (Suc k) inner) s"
| "onion_Encode C M dp blind k (ORoute x inner) s =
     route_Encode C (blind k) x (onion_Encode C M dp blind (Suc k) inner) s"
| "onion_Encode C M dp blind k (OHiddenService x inner) s =
     hiddenservice_Encode C x (onion_Encode C M dp blind (Suc k) inner) s"
| "onion_Encode C M dp blind k (OBalance x) s = balance_Encode x s"
| "onion_Encode C M dp blind k (OConfirmation i) s = confirmation_Encode i s"
| "onion_Encode C M dp blind k (OResponse x) s = response_Encode x s"
| "onion_Encode C M dp blind k (OReady x) s = ready_Encode C x s"
| "onion_Encode C M dp blind k (OMessage x) s = message_Encode C x s"

lemmas onion_Encode_unfold [simp] =
  encode_some_def crypt_Encode_def forward_Encode_def reverse_Encode_def delay_Encode_def getbalance_Encode_def
  exit_Encode_def session_Encode_def introquery_Encode_def route_Encode_def hiddenservice_Encode_def
  balance_Encode_def confirmation_Encode_def response_Encode_def ready_Encode_def message_Encode_def

section \<open>Decode\<close>

text \<open>The receiver of \<^verbatim>\<open>Decode\<close> is the zero value that the registered generator makes; the wrapped
  message stays nil.\<close>

definition crypt_Decode :: "crypto_ops \<Rightarrow> splice \<Rightarrow> (crypt \<times> splice) res" where
  "crypt_Decode C s = rbind (TooShort (Remaining s) (int (CryptLen - magic_Len)) ''cryp'') (\<lambda>_.
     rbind (ReadIV s) (\<lambda>(iv, s1). rbind (ReadCloak s1) (\<lambda>(cl, s2). rbind (ReadPubkey C s2) (\<lambda>(fp, s3).
       Inr (\<lparr>cDepth = 0, cToHeaderPub = None, cToPayloadPub = None, cFrom = None, cIV = iv, cCloak = cl,
             cToPriv = None, cFromPub = fp\<rparr>, s3)))))"

definition crypt_Decrypt :: "crypto_ops \<Rightarrow> prv \<Rightarrow> crypt \<Rightarrow> splice \<Rightarrow> splice res" where
  "crypt_Decrypt C prk x s =
     (case cFromPub x of
        None \<Rightarrow> Inl nil_panic
      | Some fp \<Rightarrow> encipher_from (GetBlock C prk fp) (cIV x) (GetCursor s) s)"

definition forward_Decode :: "maddr_ops \<Rightarrow> splice \<Rightarrow> (multiaddr option \<times> splice) res" where
  "forward_Decode M s = rbind (TooShort (Remaining s) (int magic_Len) ''forw'') (\<lambda>_. ReadMultiaddr M s)"

definition reverse_Decode :: "maddr_ops \<Rightarrow> splice \<Rightarrow> (multiaddr option \<times> splice) res" where
  "reverse_Decode M s = rbind (TooShort (Remaining s) (int (ReverseLen - magic_Len)) ''rvrs'') (\<lambda>_.
     ReadMultiaddr M s)"

definition delay_Len :: nat where "delay_Len = magic_Len + Uint64Len"

definition delay_Decode :: "splice \<Rightarrow> (u64 \<times> splice) res" where
  "delay_Decode s = rbind (TooShort (Remaining s) (int (delay_Len - magic_Len)) ''dely'') (\<lambda>_. ReadDuration s)"

definition GetBalanceLen :: nat where
  "GetBalanceLen = magic_Len + IDLen + 3 * sha256_Len + IVLen * 3"

definition getbalance_Decode :: "splice \<Rightarrow> (getbalance \<times> splice) res" where
  "getbalance_Decode s = rbind (TooShort (Remaining s) (int (GetBalanceLen - magic_Len)) ''getb'') (\<lambda>_.
     rbind (ReadID s) (\<lambda>(i, s1). rbind (ReadCiphers s1) (\<lambda>(c, s2). rbind (ReadNonces s2) (\<lambda>(n, s3).
       Inr (\<lparr>gID = i, gCiphers = c, gNonces = n\<rparr>, s3)))))"

definition exit_Len :: nat where
  "exit_Len = magic_Len + Uint16Len + 3 * sha256_Len + Uint32Len + IVLen * 3 + IDLen"

definition exit_Decode :: "splice \<Rightarrow> (exit_msg \<times> splice) res" where
  "exit_Decode s = rbind (TooShort (Remaining s) (int (exit_Len - magic_Len)) ''exit'') (\<lambda>_.
     rbind (ReadID s) (\<lambda>(i, s1). rbind (ReadCiphers s1) (\<lambda>(c, s2). rbind (ReadNonces s2) (\<lambda>(n, s3).
     rbind (ReadUint16 s3) (\<lambda>(p, s4). rbind (ReadBytes s4) (\<lambda>(b, s5).
       Inr (\<lparr>xID = i, xCiphers = c, xNonces = n, xPort = p, xBytes = b\<rparr>, s5)))))))"

definition session_Len :: nat where "session_Len = magic_Len + IDLen + PrvKeyLen * 2"

definition session_Decode :: "crypto_ops \<Rightarrow> splice \<Rightarrow> (session_msg \<times> splice) res" where
  "session_Decode C s = rbind (TooShort (Remaining s) (int (session_Len - magic_Len)) ''sess'') (\<lambda>_.
     rbind (ReadID s) (\<lambda>(i, s1). rbind (ReadPrvkey C s1) (\<lambda>(h, s2). rbind (ReadPrvkey C s2) (\<lambda>(p, s3).
       Inr (\<lparr>sID = i, sHop = 0, sHeader = Some (MakeKeys C h), sPayload = Some (MakeKeys C p)\<rparr>, s3)))))"

definition PreimageHash :: "crypto_ops \<Rightarrow> session_msg \<Rightarrow> bytes res" where
  "PreimageHash C x =
     (case (sHeader x, sPayload x) of
        (Some h, Some p) \<Rightarrow> Inr (Single C (Prv_ToBytes C (kPrv h) @ Prv_ToBytes C (kPrv p)))
      | _ \<Rightarrow> Inl nil_panic)"

definition introquery_Len :: nat where
  "introquery_Len = magic_Len + IDLen + PubKeyLen + 3 * sha256_Len + IVLen * 3"

definition introquery_Decode :: "crypto_ops \<Rightarrow> splice \<Rightarrow> (introquery \<times> splice) res" where
  "introquery_Decode C s = rbind (TooShort (Remaining s) (int (introquery_Len - magic_Len)) ''intq'') (\<lambda>_.
     rbind (ReadID s) (\<lambda>(i, s1). rbind (ReadCiphers s1) (\<lambda>(c, s2). rbind (ReadNonces s2) (\<lambda>(n, s3).
     rbind (ReadPubkey C s3) (\<lambda>(k, s4).
       Inr (\<lparr>qID = i, qCiphers = c, qNonces = n, qKey = k\<rparr>, s4))))))"

definition RouteLen :: nat where
  "RouteLen = magic_Len + CloakLen + PubKeyLen + IVLen + IDLen + 3 * sha256_Len + 3 * IVLen"

definition zero_ciphers :: "bytes list" where
  "zero_ciphers = replicate 3 (replicate sha256_Len 0)"
definition zero_nonces :: "bytes list" where
  "zero_nonces = replicate 3 (replicate IVLen 0)"

definition route_Decode :: "crypto_ops \<Rightarrow> splice \<Rightarrow> (route_msg \<times> splice) res" where
  "route_Decode C s = rbind (TooShort (Remaining s) (int (RouteLen - magic_Len)) ''rout'') (\<lambda>_.
     rbind (ReadCloak s) (\<lambda>(hc, s1). rbind (ReadPubkey C s1) (\<lambda>(sp, s2). rbind (ReadIV s2) (\<lambda>(iv, s3).
       Inr (\<lparr>rHiddenService = None, rHiddenCloaked = hc, rSender = None, rSenderPub = sp, rIV = iv,
             rID = replicate IDLen 0, rCiphers = zero_ciphers, rNonces = zero_nonces,
             rHeader = replicate RoutingHeaderLen 0\<rparr>, s3)))))"

definition route_Decrypt :: "crypto_ops \<Rightarrow> prv \<Rightarrow> route_msg \<Rightarrow> splice \<Rightarrow> (route_msg \<times> splice) res" where
  "route_Decrypt C prk x s =
     (case rSenderPub x of
        None \<Rightarrow> Inl nil_panic
      | Some sp \<Rightarrow>
          rbind (encipher_from (GetBlock C prk sp) (rIV x) (GetCursor s) s) (\<lambda>s0.
          rbind (ReadID s0) (\<lambda>(i, s1). rbind (ReadCiphers s1) (\<lambda>(c, s2). rbind (ReadNonces s2) (\<lambda>(n, s3).
          rbind (ReadRoutingHeader s3) (\<lambda>(rh, s4).
            Inr (x\<lparr>rID := i, rCiphers := c, rNonces := n, rHeader := rh\<rparr>, s4)))))))"

definition hiddenservice_Len :: nat where
  "hiddenservice_Len = magic_Len + intro_Len + 3 * sha256_Len + IVLen * 3 + RoutingHeaderLen"

text \<open>The routing header that \<^verbatim>\<open>HiddenService.Decode\<close> reads, twice, goes to a local variable.\<close>

definition hiddenservice_Decode :: "crypto_ops \<Rightarrow> splice \<Rightarrow> (hidden_service \<times> splice) res" where
  "hiddenservice_Decode C s = rbind (TooShort (Remaining s) (int (hiddenservice_Len - magic_Len)) ''hids'') (\<lambda>_.
     rbind (intro_Decode C s) (\<lambda>(ad, s1). rbind (ReadCiphers s1) (\<lambda>(c, s2). rbind (ReadNonces s2) (\<lambda>(n, s3).
     rbind (GetRoutingHeaderFromCursor s3) (\<lambda>(_, s4). rbind (ReadRoutingHeader s4) (\<lambda>(_, s5).
       Inr (\<lparr>hIntro = ad, hCiphers = c, hNonces = n, hHeader = replicate RoutingHeaderLen 0\<rparr>, s5)))))))"

definition balance_Len :: nat where "balance_Len = magic_Len + IDLen + Uint64Len"

definition balance_Decode :: "splice \<Rightarrow> (balance_msg \<times> splice) res" where
  "balance_Decode s = rbind (TooShort (Remaining s) (int (balance_Len - magic_Len)) ''bala'') (\<lambda>_.
     rbind (ReadID s) (\<lambda>(i, s1). rbind (ReadMilliSatoshi s1) (\<lambda>(m, s2).
       Inr (\<lparr>bID = i, bMilliSatoshi = m\<rparr>, s2))))"

definition confirmation_Len :: nat where "confirmation_Len = magic_Len + IDLen"

definition confirmation_Decode :: "splice \<Rightarrow> (bytes \<times> splice) res" where
  "confirmation_Decode s = rbind (TooShort (Remaining s) (int (confirmation_Len - magic_Len)) ''conf'') (\<lambda>_.
     ReadID s)"

definition response_Len :: nat where
  "response_Len = magic_Len + Uint32Len + Uint16Len + IDLen + 1"

definition response_Decode :: "splice \<Rightarrow> (response_msg \<times> splice) res" where
  "response_Decode s = rbind (TooShort (Remaining s) (int (response_Len - magic_Len)) ''resp'') (\<lambda>_.
     rbind (ReadID s) (\<lambda>(i, s1). rbind (ReadUint16 s1) (\<lambda>(p, s2). rbind (ReadByte s2) (\<lambda>(l, s3).
     rbind (ReadBytes s3) (\<lambda>(b, s4).
       Inr (\<lparr>pID' = i, pPort = p, pLoad = l, pBytes = b\<rparr>, s4))))))"

definition ready_Len :: nat where
  "ready_Len = magic_Len + IDLen + PubKeyLen + 2 * RoutingHeaderLen + 3 * sha256_Len + 3 * IVLen"

definition read_reply :: "splice \<Rightarrow> (reply_header \<times> splice) res" where
  "read_reply s = rbind (ReadRoutingHeader s) (\<lambda>(h, s1). rbind (ReadCiphers s1) (\<lambda>(c, s2).
     rbind (ReadNonces s2) (\<lambda>(n, s3). Inr (\<lparr>rhBytes = h, rhCiphers = c, rhNonces = n\<rparr>, s3))))"

definition ready_Decode :: "crypto_ops \<Rightarrow> splice \<Rightarrow> (ready_msg \<times> splice) res" where
  "ready_Decode C s = rbind (TooShort (Remaining s) (int (ready_Len - magic_Len)) ''redy'') (\<lambda>_.
     rbind (ReadID s) (\<lambda>(i, s1). rbind (ReadPubkey C s1) (\<lambda>(a, s2). rbind (read_reply s2) (\<lambda>(r, s3).
       Inr (\<lparr>yID = i, yAddress = a, yForward = None, yReturn = Some r\<rparr>, s3)))))"

definition ReplyCiphersLen :: nat where
  "ReplyCiphersLen = 2 * RoutingHeaderLen + 6 * sha256_Len + 6 * IVLen"
definition MessageLen :: nat where
  "MessageLen = magic_Len + 2 * IDLen + 2 * RoutingHeaderLen + ReplyCiphersLen"

definition message_Decode :: "crypto_ops \<Rightarrow> splice \<Rightarrow> (whisper \<times> splice) res" where
  "message_Decode C s = rbind (TooShort (Remaining s) (int (MessageLen - magic_Len)) ''whis'') (\<lambda>_.
     rbind (ReadPubkey C s) (\<lambda>(a, s1). rbind (ReadID s1) (\<lambda>(i, s2). rbind (ReadID s2) (\<lambda>(re, s3).
     rbind (read_reply s3) (\<lambda>(r, s4). rbind (ReadBytes s4) (\<lambda>(p, s5).
       Inr (\<lparr>wAddress = a, wMsgID = i, wRe = re, wForward = None, wReturn = Some r, wPayload = p\<rparr>, s5)))))))"

section \<open>Len, Wrap and the constructors\<close>

fun onion_Len :: "onion \<Rightarrow> nat res" where
  "onion_Len ONil = Inl nil_panic"
| "onion_Len OEnd = Inr 0"
| "onion_Len (OCrypt x o1) = rbind (onion_Len o1) (\<lambda>n. Inr (CryptLen + n))"
| "onion_Len (OForward a o1) = rbind (onion_Len o1) (\<lambda>n. Inr (magic_Len + 21 + n))"
| "onion_Len (OReverse a o1) = rbind (onion_Len o1) (\<lambda>n. Inr (magic_Len + 21 + n))"
| "onion_Len (ODelay d o1) = rbind (onion_Len o1) (\<lambda>n. Inr (delay_Len + n))"
| "onion_Len (OGetBalance x o1) = rbind (onion_Len o1) (\<lambda>n. Inr (GetBalanceLen + n))"
| "onion_Len (OExit x o1) = rbind (onion_Len o1) (\<lambda>n. Inr (exit_Len + length (xBytes x) + n))"
| "onion_Len (OSession x o1) = rbind (onion_Len o1) (\<lambda>n. Inr (session_Len + n))"
| "onion_Len (OIntroQuery x o1) = rbind (onion_Len o1) (\<lambda>n. Inr (introquery_Len + n))"
| "onion_Len (ORoute x o1) = rbind (onion_Len o1) (\<lambda>n. Inr (RouteLen + n))"
| "onion_Len (OHiddenService x o1) = rbind (onion_Len o1) (\<lambda>n. Inr (hiddenservice_Len + n))"
| "onion_Len (OBalance x) = Inr balance_Len"
| "onion_Len (OConfirmation i) = Inr confirmation_Len"
| "onion_Len (OResponse x) = Inr (response_Len + length (pBytes x))"
| "onion_Len (OReady x) = Inr ready_Len"
| "onion_Len (OMessage x) = Inr (MessageLen + length (wPayload x))"

fun onion_Wrap :: "onion \<Rightarrow> onion \<Rightarrow> onion" where
  "onion_Wrap inner (OCrypt x _) = OCrypt x inner"
| "onion_Wrap inner (OForward a _) = OForward a inner"
| "onion_Wrap inner (OReverse a _) = OReverse a inner"
| "onion_Wrap inner (ODelay d _) = ODelay d inner"
| "onion_Wrap inner (OGetBalance x _) = OGetBalance x inner"
| "onion_Wrap inner (OExit x _) = OExit x inner"
| "onion_Wrap inner (OSession x _) = OSession x inner"
| "onion_Wrap inner (OIntroQuery x _) = OIntroQuery x inner"
| "onion_Wrap inner (ORoute x _) = ORoute x inner"
| "onion_Wrap inner (OHiddenService x _) = OHiddenService x inner"
| "onion_Wrap inner o1 = o1"

text \<open>\<^verbatim>\<open>Assemble\<close> lets each message wrap the next one, through the pointers of the slice, and returns the
  first.\<close>

fun wrap_all :: "onion \<Rightarrow> onion list \<Rightarrow> onion" where
  "wrap_all o1 [] = o1"
| "wrap_all o1 (oc # os) = onion_Wrap (wrap_all oc os) o1"

definition Assemble :: "onion list \<Rightarrow> onion res" where
  "Assemble os = (case os of [] \<Rightarrow> Inl index_panic | o1 # rest \<Rightarrow> Inr (wrap_all o1 rest))"

record 's exit_point =
  epSessions :: "'s list"
  epKeys :: "prv list"
  epNonces :: "bytes list"
  epReturnPubs :: "pub list"

definition crypt_New :: "pub option \<Rightarrow> pub option \<Rightarrow> prv option \<Rightarrow> bytes \<Rightarrow> int \<Rightarrow> onion" where
  "crypt_New toHdr toPld from iv depth =
     OCrypt \<lparr>cDepth = depth, cToHeaderPub = toHdr, cToPayloadPub = toPld, cFrom = from, cIV = iv,
             cCloak = replicate CloakLen 0, cToPriv = None, cFromPub = None\<rparr> OEnd"

definition forward_New :: "multiaddr option \<Rightarrow> onion" where "forward_New a = OForward a OEnd"
definition reverse_New :: "multiaddr option \<Rightarrow> onion" where "reverse_New a = OReverse a OEnd"
definition delay_New :: "u64 \<Rightarrow> onion" where "delay_New d = ODelay d OEnd"

definition NewGetBalance :: "crypto_ops \<Rightarrow> bytes \<Rightarrow> 's exit_point \<Rightarrow> onion" where
  "NewGetBalance C i ep = OGetBalance \<lparr>gID = i, gCiphers = GenCiphers C (epKeys ep) (epReturnPubs ep),
     gNonces = epNonces ep\<rparr> OEnd"

definition exit_New :: "crypto_ops \<Rightarrow> bytes \<Rightarrow> u16 \<Rightarrow> bytes \<Rightarrow> 's exit_point \<Rightarrow> onion" where
  "exit_New C i port payload ep = OExit \<lparr>xID = i, xCiphers = GenCiphers C (epKeys ep) (epReturnPubs ep),
     xNonces = epNonces ep, xPort = port, xBytes = payload\<rparr> OEnd"

definition session_New :: "crypto_ops \<Rightarrow> prv res \<Rightarrow> prv res \<Rightarrow> bytes \<Rightarrow> byte \<Rightarrow> onion" where
  "session_New C gen1 gen2 newid hop =
     (case Generate2Keys C gen1 gen2 of
        Inl _ \<Rightarrow> ONil
      | Inr (hdr, pld) \<Rightarrow> OSession \<lparr>sID = newid, sHop = hop, sHeader = Some hdr, sPayload = Some pld\<rparr> OEnd)"

definition introquery_New :: "crypto_ops \<Rightarrow> bytes \<Rightarrow> pub option \<Rightarrow> 's exit_point \<Rightarrow> onion" where
  "introquery_New C i hsk ep = OIntroQuery \<lparr>qID = i, qCiphers = GenCiphers C (epKeys ep) (epReturnPubs ep),
     qNonces = epNonces ep, qKey = hsk\<rparr> OEnd"

definition route_New ::
  "crypto_ops \<Rightarrow> bytes \<Rightarrow> bytes \<Rightarrow> bytes \<Rightarrow> pub \<Rightarrow> keyset \<Rightarrow> 's exit_point \<Rightarrow> onion \<times> keyset" where
  "route_New C iv blind i k ks ep =
     (let (sender, ks') = Next C ks in
      (ORoute \<lparr>rHiddenService = Some k, rHiddenCloaked = GetCloak C blind k, rSender = Some sender,
               rSenderPub = DerivePub C (Some sender), rIV = iv, rID = i,
               rCiphers = GenCiphers C (epKeys ep) (epReturnPubs ep), rNonces = epNonces ep,
               rHeader = replicate RoutingHeaderLen 0\<rparr> OEnd, ks'))"

definition hiddenservice_New :: "crypto_ops \<Rightarrow> intro_ad \<Rightarrow> 's exit_point \<Rightarrow> onion" where
  "hiddenservice_New C ad ep = OHiddenService \<lparr>hIntro = ad,
     hCiphers = GenCiphers C (epKeys ep) (epReturnPubs ep), hNonces = epNonces ep,
     hHeader = replicate RoutingHeaderLen 0\<rparr> OEnd"

definition balance_New :: "bytes \<Rightarrow> u64 \<Rightarrow> onion" where
  "balance_New i amt = OBalance \<lparr>bID = i, bMilliSatoshi = amt\<rparr>"

definition confirmation_New :: "bytes \<Rightarrow> onion" where
  "confirmation_New i = OConfirmation i"

definition response_New :: "bytes \<Rightarrow> u16 \<Rightarrow> bytes \<Rightarrow> byte \<Rightarrow> onion" where
  "response_New i port res load = OResponse \<lparr>pID' = i, pPort = port, pLoad = load, pBytes = res\<rparr>"

definition ready_New ::
  "bytes \<Rightarrow> pub option \<Rightarrow> bytes \<Rightarrow> bytes \<Rightarrow> bytes list \<Rightarrow> bytes list \<Rightarrow> bytes list \<Rightarrow> bytes list \<Rightarrow> onion" where
  "ready_New i addr fwHeader rvHeader fc rc fn rn =
     OReady \<lparr>yID = i, yAddress = addr,
             yForward = Some \<lparr>rhBytes = fwHeader, rhCiphers = fc, rhNonces = fn\<rparr>,
             yReturn = Some \<lparr>rhBytes = rvHeader, rhCiphers = rc, rhNonces = rn\<rparr>\<rparr>"

end
