(* ===== verification/Accounts.thy ===== *)
theory Accounts
  imports Ads
begin

text \<open>
  The books an engine keeps: services (\<^verbatim>\<open>pkg/engine/services\<close>), pending payments
  (\<^verbatim>\<open>pkg/engine/payments\<close>), pending responses (\<^verbatim>\<open>pkg/engine/responses\<close>), session balances
  (\<^verbatim>\<open>pkg/engine/sessions\<close>) and nodes (\<^verbatim>\<open>pkg/engine/node\<close>). A transport, a channel and a callback
  are opaque handles; what an operation sends or calls is part of its result. The locale \<open>keyed_book\<close>
  is the contract that the three books searched by a key share.
\<close>

section \<open>A slice of records searched by a key\<close>

text \<open>\<open>entry\<close> makes the record from what is added, \<open>ok\<close> is what a record needs to be removable.\<close>

locale keyed_book =
  fixes key :: "'a \<Rightarrow> 'k"
    and items :: "'s \<Rightarrow> 'a list"
    and entry :: "'x \<Rightarrow> 'a"
    and ok :: "'a \<Rightarrow> bool"
    and add :: "'x \<Rightarrow> 's \<Rightarrow> 's res"
    and lookup :: "'k \<Rightarrow> 's \<Rightarrow> 'a option"
    and remove :: "'k \<Rightarrow> 's \<Rightarrow> 's res"
  assumes lookup_is: "lookup k s = find (\<lambda>x. key x = k) (items s)"
    and add_is: "lookup (key (entry x)) s = None \<Longrightarrow> \<exists>s'. add x s = Inr s' \<and> items s' = items s @ [entry x]"
    and remove_is: "distinct (map key (items s)) \<Longrightarrow> list_all ok (items s) \<Longrightarrow>
      \<exists>s'. remove k s = Inr s' \<and> items s' = filter (\<lambda>x. key x \<noteq> k) (items s)"
begin

definition book :: "'s \<Rightarrow> bool" where
  "book s \<longleftrightarrow> distinct (map key (items s)) \<and> list_all ok (items s)"

lemma lookup_None: "lookup k s = None \<longleftrightarrow> k \<notin> key ` set (items s)"
  by (auto simp: lookup_is find_None_iff_all)

lemma lookup_Some: "lookup k s = Some x \<Longrightarrow> x \<in> set (items s) \<and> key x = k"
  by (auto simp: lookup_is dest: find_Some_in_set)

lemma lookup_in:
  assumes "x \<in> set (items s)" and "book s"
  shows "lookup (key x) s = Some x"
proof (cases "lookup (key x) s")
  case None
  then show ?thesis using assms(1) by (auto simp: lookup_None)
next
  case (Some y)
  then show ?thesis using assms lookup_Some [OF Some] by (auto simp: book_def distinct_map inj_on_def)
qed

lemma add_book:
  assumes "lookup (key (entry x)) s = None" and "book s" and "ok (entry x)"
  shows "\<exists>s'. add x s = Inr s' \<and> book s' \<and>
    (\<forall>k. lookup k s' = (if k = key (entry x) then Some (entry x) else lookup k s))"
proof -
  obtain s' where s': "add x s = Inr s'" "items s' = items s @ [entry x]" using add_is [OF assms(1)] by blast
  have b: "book s'" using assms s'(2) by (auto simp: book_def lookup_None)
  have "lookup k s' = (if k = key (entry x) then Some (entry x) else lookup k s)" for k
  proof (cases "k = key (entry x)")
    case True
    then show ?thesis using lookup_in [OF _ b, of "entry x"] s'(2) by simp
  next
    case False
    have "find (\<lambda>x. key x = k) (xs @ [entry x]) = find (\<lambda>x. key x = k) xs" for xs
      using False by (induction xs) auto
    then show ?thesis using False s'(2) by (simp add: lookup_is)
  qed
  then show ?thesis using s'(1) b by blast
qed

lemma remove_book:
  assumes "book s"
  shows "\<exists>s'. remove c s = Inr s' \<and> book s' \<and> (\<forall>k. lookup k s' = (if k = c then None else lookup k s))"
proof -
  obtain s' where s': "remove c s = Inr s'" "items s' = filter (\<lambda>x. key x \<noteq> c) (items s)"
    using remove_is assms by (auto simp: book_def)
  have "book s'" using assms s'(2) by (auto simp: book_def distinct_map list_all_iff intro: inj_on_subset)
  moreover have "find (\<lambda>x. key x = k) (filter (\<lambda>x. key x \<noteq> c) xs) =
      (if k = c then None else find (\<lambda>x. key x = k) xs)" for k xs
    by (induction xs) auto
  ultimately show ?thesis using s' by (auto simp: lookup_is)
qed

text \<open>What is added and removed again leaves the book as it was.\<close>

lemma add_remove:
  assumes "lookup (key (entry x)) s = None" and "book s" and "ok (entry x)"
  shows "\<exists>s' s''. add x s = Inr s' \<and> remove (key (entry x)) s' = Inr s'' \<and> items s'' = items s"
proof -
  obtain s' where s': "add x s = Inr s'" "items s' = items s @ [entry x]" using add_is [OF assms(1)] by blast
  moreover have "book s'" using add_book [OF assms] s'(1) by auto
  then obtain s'' where "remove (key (entry x)) s' = Inr s''"
    "items s'' = filter (\<lambda>y. key y \<noteq> key (entry x)) (items s @ [entry x])"
    using remove_is [of s' "key (entry x)"] s'(2) by (auto simp: book_def)
  moreover have "filter (\<lambda>y. key y \<noteq> key (entry x)) (items s) = items s"
    using assms(1) by (auto simp: lookup_None image_iff intro!: filter_True)
  ultimately show ?thesis by auto
qed

end

section \<open>Services\<close>

record service =
  svcPort :: u16
  svcRelayRate :: u32
  svcTransport :: nat

section \<open>Payments\<close>

record payment =
  pyID :: bytes
  pyPreimage :: bytes
  pyAmount :: u64
  pyConfirmChan :: nat

definition PendingPayments_Add :: "payment \<Rightarrow> payment list \<Rightarrow> payment list" where
  "PendingPayments_Add np p = p @ [np]"

text \<open>One round of the loop of \<^verbatim>\<open>Delete\<close>. The slice that is returned shares its array with the one
  that is searched: the state is the array and the length of the result.\<close>

definition pp_delete_step :: "bytes \<Rightarrow> nat \<Rightarrow> payment list \<times> nat \<Rightarrow> payment list \<times> nat" where
  "pp_delete_step preimage i st =
     (let arr = fst st; n = length arr in
      if pyPreimage (arr ! i) = preimage then
        (if i = n - 1 then (arr, i) else (del_at i arr @ [arr ! (n - 1)], n - 1))
      else st)"

definition pp_delete_loop :: "bytes \<Rightarrow> payment list \<Rightarrow> payment list \<times> nat" where
  "pp_delete_loop preimage p = fold (pp_delete_step preimage) [0..<length p] (p, length p)"

definition PendingPayments_Delete :: "bytes \<Rightarrow> payment list \<Rightarrow> payment list" where
  "PendingPayments_Delete preimage p = (let (arr, n) = pp_delete_loop preimage p in take n arr)"

definition PendingPayments_Find :: "bytes \<Rightarrow> payment list \<Rightarrow> payment option" where
  "PendingPayments_Find i p = find (\<lambda>x. pyID x = i) p"

definition PendingPayments_FindPreimage :: "bytes \<Rightarrow> payment list \<Rightarrow> payment option" where
  "PendingPayments_FindPreimage h p = find (\<lambda>x. pyPreimage x = h) p"

text \<open>\<^verbatim>\<open>PayChan.Send\<close>: the payment that goes into the channel, with a new confirmation channel.\<close>

definition PayChan_Send :: "u64 \<Rightarrow> bytes \<Rightarrow> bytes \<Rightarrow> nat \<Rightarrow> payment" where
  "PayChan_Send amount i preimage confirm =
     \<lparr>pyID = i, pyPreimage = preimage, pyAmount = amount, pyConfirmChan = confirm\<rparr>"

section \<open>Pending responses\<close>

text \<open>\<open>'a\<close> stands for the accounting hooks, \<open>'c\<close> for the callback.\<close>

record ('a, 'c) response =
  rsID :: bytes
  rsSentSize :: int
  rsPort :: u16
  rsBillable :: "bytes list"
  rsReturn :: bytes
  rsPostAcct :: "'a list"
  rsSessions :: "nat list"
  rsCallback :: "'c option"
  rsTime :: gotime

record ('a, 'c) response_params =
  rpID :: bytes
  rpSentSize :: int
  rpS :: "nat list"
  rpBillable :: "bytes list"
  rpRet :: bytes
  rpPort :: u16
  rpCallback :: "'c option"
  rpPostAcct :: "'a list"

text \<open>The sessions of the parameters are not stored.\<close>

definition new_response :: "gotime \<Rightarrow> ('a, 'c) response_params \<Rightarrow> ('a, 'c) response" where
  "new_response now pr =
     \<lparr>rsID = rpID pr, rsSentSize = rpSentSize pr, rsPort = rpPort pr, rsBillable = rpBillable pr,
      rsReturn = rpRet pr, rsPostAcct = rpPostAcct pr, rsSessions = [], rsCallback = rpCallback pr,
      rsTime = now\<rparr>"

definition Pending_Add ::
  "gotime \<Rightarrow> ('a, 'c) response_params \<Rightarrow> ('a, 'c) response list \<Rightarrow> ('a, 'c) response list" where
  "Pending_Add now pr p = p @ [new_response now pr]"

definition Pending_Find :: "bytes \<Rightarrow> ('a, 'c) response list \<Rightarrow> ('a, 'c) response option" where
  "Pending_Find i p = find (\<lambda>x. rsID x = i) p"

definition FindOlder :: "gotime \<Rightarrow> ('a, 'c) response list \<Rightarrow> ('a, 'c) response list" where
  "FindOlder t p = filter (\<lambda>x. time_before (rsTime x) t) p"

definition GetOldestPending :: "('a, 'c) response list \<Rightarrow> ('a, 'c) response option" where
  "GetOldestPending p = (case p of [] \<Rightarrow> None | x # _ \<Rightarrow> Some x)"

text \<open>\<^verbatim>\<open>ProcessAndDelete\<close>: what was run (the accounting hooks in order, then the callback, with the
  error it returned) and the responses left. A nil callback panics after the hooks have run.\<close>

definition ProcessAndDelete ::
  "('c \<Rightarrow> go_error option) \<Rightarrow> bytes \<Rightarrow> ('a, 'c) response list \<Rightarrow>
   ((('a list \<times> 'c \<times> go_error option) option) \<times> ('a, 'c) response list) res" where
  "ProcessAndDelete run i p =
     (case find_index (\<lambda>x. rsID x = i) p of
        None \<Rightarrow> Inr (None, p)
      | Some k \<Rightarrow>
          (case rsCallback (p ! k) of
             None \<Rightarrow> Inl nil_panic
           | Some cb \<Rightarrow> Inr (Some (rsPostAcct (p ! k), cb, run cb),
                             if k < 1 then drop 1 p else del_at k p)))"

section \<open>Nodes\<close>

type_synonym protocols = byte

definition IP4 :: protocols where "IP4 = 1"
definition IP6 :: protocols where "IP6 = 2"

record node =
  ndID :: bytes
  ndAddresses :: "multiaddr option list"
  ndIdentity :: "keys option"
  ndRelayRate :: u32
  ndServices :: "service list"
  ndLoad :: byte
  ndPayChan :: nat
  ndTransport :: nat

definition NewNode ::
  "bytes \<Rightarrow> nat \<Rightarrow> multiaddr option list \<Rightarrow> keys option \<Rightarrow> nat \<Rightarrow> u32 \<Rightarrow> node \<times> bytes" where
  "NewNode newid paychan addr ks tpt relayRate =
     (\<lparr>ndID = newid, ndAddresses = addr, ndIdentity = ks, ndRelayRate = relayRate, ndServices = [],
       ndLoad = 0, ndPayChan = paychan, ndTransport = tpt\<rparr>, newid)"

text \<open>The addresses that \<^verbatim>\<open>PickAddress\<close> gathers; the key is added by the multiaddr and libp2p
  libraries, the parameter \<open>addkey\<close>. The slice is not used: the named result stays nil.\<close>

definition has_proto :: "nat \<Rightarrow> multiaddr \<Rightarrow> bool" where
  "has_proto c ma = (\<exists>x\<in>set ma. ma_code x = c)"

definition with_key ::
  "(multiaddr \<Rightarrow> pub \<Rightarrow> multiaddr option) \<Rightarrow> node \<Rightarrow> protocols \<Rightarrow> protocols \<Rightarrow> nat \<Rightarrow>
   multiaddr option \<Rightarrow> multiaddr option list res" where
  "with_key addkey n p b code a =
     (if p AND b = 0 then Inr []
      else rbind (deref a) (\<lambda>ma.
        if has_proto code ma then rbind (deref (ndIdentity n)) (\<lambda>ks. Inr [addkey ma (kPub ks)])
        else Inr []))"

definition gather_addresses ::
  "(multiaddr \<Rightarrow> pub \<Rightarrow> multiaddr option) \<Rightarrow> node \<Rightarrow> protocols \<Rightarrow> multiaddr option list res" where
  "gather_addresses addkey n p =
     rfold (\<lambda>a tmp. rbind (with_key addkey n p IP4 P_IP4 a) (\<lambda>t4.
                    rbind (with_key addkey n p IP6 P_IP6 a) (\<lambda>t6. Inr (tmp @ t4 @ t6))))
       (ndAddresses n) []"

definition PickAddress ::
  "(multiaddr \<Rightarrow> pub \<Rightarrow> multiaddr option) \<Rightarrow> node \<Rightarrow> protocols \<Rightarrow> multiaddr option res" where
  "PickAddress addkey n p = rbind (gather_addresses addkey n p) (\<lambda>tmp. Inr None)"

definition AddService :: "service \<Rightarrow> node \<Rightarrow> node res" where
  "AddService s n =
     (if \<exists>x\<in>set (ndServices n). svcPort x = svcPort s then Inl (Error ''service already exists for port'')
      else Inr (n\<lparr>ndServices := ndServices n @ [s]\<rparr>))"

definition DeleteService :: "u16 \<Rightarrow> node \<Rightarrow> node" where
  "DeleteService port n =
     (case find_index (\<lambda>x. svcPort x = port) (ndServices n) of
        None \<Rightarrow> n
      | Some i \<Rightarrow> n\<lparr>ndServices := (if i < 1 then drop 1 (ndServices n) else del_at i (ndServices n))\<rparr>)"

definition FindService :: "u16 \<Rightarrow> node \<Rightarrow> service option" where
  "FindService port n = find (\<lambda>x. svcPort x = port) (ndServices n)"

text \<open>The channel is the handle of the service's transport.\<close>

definition ReceiveFrom :: "u16 \<Rightarrow> node \<Rightarrow> nat option" where
  "ReceiveFrom port n = map_option svcTransport (FindService port n)"

definition SendTo :: "u16 \<Rightarrow> bytes \<Rightarrow> node \<Rightarrow> (nat \<times> bytes) res" where
  "SendTo port b n =
     (case FindService port n of
        None \<Rightarrow> Inl (Error ''port not registered'')
      | Some s \<Rightarrow> Inr (svcTransport s, b))"

section \<open>Sessions\<close>

record session_data =
  sdID :: bytes
  sdNode :: "nat option"
  sdRemaining :: u64
  sdHeader :: "keys option"
  sdPayload :: "keys option"
  sdPreimage :: bytes
  sdHop :: byte

text \<open>\<^verbatim>\<open>DecSats\<close> needs the first address of the node and the header key for its log line; \<open>nd\<close> is the node
  the session points to.\<close>

definition DecSats :: "node option \<Rightarrow> u64 \<Rightarrow> session_data \<Rightarrow> (session_data \<times> bool) res" where
  "DecSats nd sats s =
     (if sdRemaining s < sats then Inr (s, False)
      else rbind (deref nd) (\<lambda>n. rbind (index_expr (ndAddresses n) 0) (\<lambda>a. rbind (deref a) (\<lambda>_.
           rbind (deref (sdHeader s)) (\<lambda>_.
             Inr (s\<lparr>sdRemaining := sdRemaining s - sats\<rparr>, True))))))"

definition IncSats :: "u64 \<Rightarrow> session_data \<Rightarrow> session_data res" where
  "IncSats sats s = rbind (deref (sdHeader s)) (\<lambda>_. Inr (s\<lparr>sdRemaining := sdRemaining s + sats\<rparr>))"

definition NewSessionData ::
  "crypto_ops \<Rightarrow> prv res \<Rightarrow> prv res \<Rightarrow> bytes \<Rightarrow> nat option \<Rightarrow> u64 \<Rightarrow> keys option \<Rightarrow> keys option \<Rightarrow> byte \<Rightarrow>
   session_data res" where
  "NewSessionData C gen1 gen2 i nd rm hdr pld hop =
     rbind (case (hdr, pld) of
              (Some h, Some p) \<Rightarrow> Inr (h, p)
            | _ \<Rightarrow> (case Generate2Keys C gen1 gen2 of
                      Inl _ \<Rightarrow> Inl nil_panic
                    | Inr hp \<Rightarrow> Inr hp)) (\<lambda>(h, p).
       Inr \<lparr>sdID = i, sdNode = nd, sdRemaining = rm, sdHeader = Some h, sdPayload = Some p,
            sdPreimage = Single C (Prv_ToBytes C (kPrv h) @ Prv_ToBytes C (kPrv p)), sdHop = hop\<rparr>)"

end
