(* ===== verification/Shuffle.thy ===== *)
theory Shuffle
  imports Go_Prelude "HOL-Library.Multiset"
begin

text \<open>
  \<^verbatim>\<open>cryptorand.Shuffle\<close>: the exchange shuffle of \<^verbatim>\<open>math/rand\<close>, from the last position down, with the random
  draws as an argument. \<open>d i\<close> is the draw for position \<open>i\<close>.
\<close>

definition swap_at :: "nat \<Rightarrow> nat \<Rightarrow> 'a list \<Rightarrow> 'a list" where
  "swap_at i j xs = xs[i := xs ! j, j := xs ! i]"

definition shuffled :: "(nat \<Rightarrow> nat) \<Rightarrow> 'a list \<Rightarrow> 'a list" where
  "shuffled d xs = fold (\<lambda>i ys. swap_at i (d i mod Suc i) ys) (rev [1..<length xs]) xs"

lemma length_swap_at [simp]: "length (swap_at i j xs) = length xs"
  by (simp add: swap_at_def)

lemma mset_swap_at: "i < length xs \<Longrightarrow> j < length xs \<Longrightarrow> mset (swap_at i j xs) = mset xs"
  unfolding swap_at_def by (rule mset_swap)

lemma fold_swaps:
  "\<forall>i\<in>set is. i < length xs \<Longrightarrow>
   mset (fold (\<lambda>i ys. swap_at i (d i mod Suc i) ys) is xs) = mset xs"
proof (induction "is" arbitrary: xs)
  case (Cons i "is")
  have "i < length xs" using Cons.prems by simp
  moreover have "d i mod Suc i < Suc i" by (rule mod_less_divisor) simp
  ultimately have "d i mod Suc i < length xs" by linarith
  then show ?case using Cons by (simp add: mset_swap_at)
qed simp

lemma mset_shuffled [simp]: "mset (shuffled d xs) = mset xs"
  unfolding shuffled_def by (rule fold_swaps) simp

lemma set_shuffled [simp]: "set (shuffled d xs) = set xs"
  using mset_shuffled [of d xs] by (rule mset_eq_setD)

lemma length_shuffled [simp]: "length (shuffled d xs) = length xs"
  using mset_shuffled [of d xs] by (rule mset_eq_length)

lemma distinct_shuffled [simp]: "distinct (shuffled d xs) = distinct xs"
  using mset_shuffled [of d xs] by (rule mset_eq_imp_distinct_iff)

lemma shuffled_Nil [simp]: "shuffled d [] = []"
  by (simp add: shuffled_def)

end
