(* ===== verification/Manager.thy ===== *)
theory Manager
  imports Accounts Shuffle
begin

text \<open>
  The session manager, \<^verbatim>\<open>pkg/engine/sess\<close>. The code shares sessions and nodes through pointers: a session is in
  the \<^verbatim>\<open>Sessions\<close> slice and in a circuit of the \<^verbatim>\<open>CircuitCache\<close>, its node is in the \<^verbatim>\<open>nodes\<close> slice, and an
  update is seen from every side. The state therefore has a store of session data and one of nodes;
  slices and circuits hold addresses into them. Every method holds the mutex for its whole body, so
  an operation is one step. A method that returns an error returns the new state with it.
\<close>

record mgr =
  mgS :: "nat \<rightharpoonup> session_data"
  mgN :: "nat \<rightharpoonup> node"
  mgNodes :: "nat list"
  mgPending :: "payment list"
  mgSessions :: "nat list"
  mgCache :: "bytes \<rightharpoonup> nat option list"
  mgProtocols :: protocols

section \<open>Dereferencing\<close>

definition sess_at :: "mgr \<Rightarrow> nat \<Rightarrow> session_data res" where
  "sess_at m r = deref (mgS m r)"

definition node_at :: "mgr \<Rightarrow> nat \<Rightarrow> node res" where
  "node_at m r = deref (mgN m r)"

definition node_of :: "mgr \<Rightarrow> session_data \<Rightarrow> node res" where
  "node_of m s = rbind (deref (sdNode s)) (node_at m)"

definition header_bytes :: "session_data \<Rightarrow> bytes res" where
  "header_bytes s = rbind (deref (sdHeader s)) (\<lambda>h. Inr (kBytes h))"

definition set_sess :: "nat \<Rightarrow> session_data \<Rightarrow> mgr \<Rightarrow> mgr" where
  "set_sess r s m = m\<lparr>mgS := (mgS m)(r \<mapsto> s)\<rparr>"

definition set_node :: "nat \<Rightarrow> node \<Rightarrow> mgr \<Rightarrow> mgr" where
  "set_node r n m = m\<lparr>mgN := (mgN m)(r \<mapsto> n)\<rparr>"

text \<open>A loop over a slice that stops at the first element that passes a test which may panic.\<close>

fun find_res :: "('a \<Rightarrow> bool res) \<Rightarrow> 'a list \<Rightarrow> 'a option res" where
  "find_res P [] = Inr None"
| "find_res P (x # xs) = rbind (P x) (\<lambda>b. if b then Inr (Some x) else find_res P xs)"

definition sess_test :: "mgr \<Rightarrow> (session_data \<Rightarrow> bool res) \<Rightarrow> nat \<Rightarrow> bool res" where
  "sess_test m P r = rbind (sess_at m r) P"

definition node_test :: "mgr \<Rightarrow> (node \<Rightarrow> bool res) \<Rightarrow> nat \<Rightarrow> bool res" where
  "node_test m P r = rbind (node_at m r) P"

section \<open>The circuit cache\<close>

definition empty_circuit :: "nat option list" where
  "empty_circuit = replicate 5 None"

definition CircuitCache_Add :: "nat \<Rightarrow> mgr \<Rightarrow> mgr res" where
  "CircuitCache_Add r m =
     rbind (sess_at m r) (\<lambda>s. rbind (node_of m s) (\<lambda>n.
       let c = (case mgCache m (ndID n) of None \<Rightarrow> empty_circuit | Some c \<Rightarrow> c) in
       rbind (set_index c (int (unat (sdHop s))) (Some r)) (\<lambda>c'.
         Inr (m\<lparr>mgCache := (mgCache m)(ndID n \<mapsto> c')\<rparr>))))"

section \<open>Nodes, payments and sessions\<close>

definition NewSessionManager :: "protocols \<Rightarrow> nat \<Rightarrow> mgr \<Rightarrow> mgr" where
  "NewSessionManager ps n store =
     \<lparr>mgS = mgS store, mgN = mgN store, mgNodes = [n], mgPending = [], mgSessions = [],
      mgCache = Map.empty, mgProtocols = ps\<rparr>"

definition GetLocalNode :: "mgr \<Rightarrow> nat res" where
  "GetLocalNode m = index_expr (mgNodes m) 0"

definition local_node :: "mgr \<Rightarrow> node res" where
  "local_node m = rbind (GetLocalNode m) (node_at m)"

definition AddNodes :: "nat list \<Rightarrow> mgr \<Rightarrow> mgr" where
  "AddNodes nn m = m\<lparr>mgNodes := mgNodes m @ nn\<rparr>"

definition AddPendingPayment :: "payment \<Rightarrow> mgr \<Rightarrow> mgr res" where
  "AddPendingPayment np m = rbind (local_node m) (\<lambda>_.
     Inr (m\<lparr>mgPending := PendingPayments_Add np (mgPending m)\<rparr>))"

definition AddServiceToLocalNode :: "service \<Rightarrow> mgr \<Rightarrow> (mgr \<times> go_error option) res" where
  "AddServiceToLocalNode s m = rbind (GetLocalNode m) (\<lambda>r. rbind (node_at m r) (\<lambda>n.
     case AddService s n of
       Inl e \<Rightarrow> Inr (m, Some e)
     | Inr n' \<Rightarrow> Inr (set_node r n' m, None)))"

definition same_header :: "session_data \<Rightarrow> session_data \<Rightarrow> bool res" where
  "same_header s x = rbind (header_bytes x) (\<lambda>hx. rbind (header_bytes s) (\<lambda>hs. Inr (hx = hs)))"

definition AddSession :: "nat \<Rightarrow> mgr \<Rightarrow> mgr res" where
  "AddSession r m = rbind (find_res (sess_test m (\<lambda>x. rbind (sess_at m r) (\<lambda>s. same_header s x))) (mgSessions m)) (\<lambda>dup.
     case dup of
       Some _ \<Rightarrow> Inr m
     | None \<Rightarrow> rbind (sess_at m r) (\<lambda>s.
         let m1 = m\<lparr>mgSessions := mgSessions m @ [r]\<rparr> in
         if sdHop s < 5 then CircuitCache_Add r m1 else Inr m1))"

definition ClearPendingPayments :: "mgr \<Rightarrow> mgr" where
  "ClearPendingPayments m = m\<lparr>mgPending := []\<rparr>"

definition ClearSessions :: "mgr \<Rightarrow> mgr res" where
  "ClearSessions m = rbind (slice_expr (mgSessions m) 0 1) (\<lambda>ss. Inr (m\<lparr>mgSessions := ss\<rparr>))"

definition FindSessionByPubkey :: "bytes \<Rightarrow> mgr \<Rightarrow> nat option res" where
  "FindSessionByPubkey k m =
     find_res (sess_test m (\<lambda>s. rbind (header_bytes s) (\<lambda>h. Inr (h = k)))) (mgSessions m)"

text \<open>The price is divided by 1024 twice before it is taken off the balance.\<close>

definition DecSession :: "bytes \<Rightarrow> int \<Rightarrow> mgr \<Rightarrow> (mgr \<times> bool) res" where
  "DecSession k msats m = rbind (FindSessionByPubkey k m) (\<lambda>f.
     case f of
       None \<Rightarrow> Inr (m, False)
     | Some r \<Rightarrow> rbind (sess_at m r) (\<lambda>s.
         rbind (go_div msats 1024) (\<lambda>q1. rbind (go_div q1 1024) (\<lambda>q2.
         rbind (DecSats (case node_of m s of Inr n \<Rightarrow> Some n | Inl _ \<Rightarrow> None) (word_of_int q2) s) (\<lambda>(s', ok).
           Inr (set_sess r s' m, ok))))))"

definition IncSession :: "bytes \<Rightarrow> u64 \<Rightarrow> mgr \<Rightarrow> mgr res" where
  "IncSession k msats m = rbind (FindSessionByPubkey k m) (\<lambda>f.
     case f of
       None \<Rightarrow> Inr m
     | Some r \<Rightarrow> rbind (sess_at m r) (\<lambda>s. rbind (IncSats msats s) (\<lambda>s'. Inr (set_sess r s' m))))"

section \<open>Deletion\<close>

text \<open>\<open>delete_node\<close>: the loop over the nodes, with the slice deletion at the first match.\<close>

fun delete_node :: "(nat \<Rightarrow> bool res) \<Rightarrow> nat list \<Rightarrow> nat list \<Rightarrow> (nat list \<times> bool) res" where
  "delete_node P pre [] = Inr (pre, False)"
| "delete_node P pre (r # rs) = rbind (P r) (\<lambda>b.
     if b then Inr (pre @ rs, True) else delete_node P (pre @ [r]) rs)"

definition has_id :: "mgr \<Rightarrow> bytes \<Rightarrow> nat \<Rightarrow> bool res" where
  "has_id m i = node_test m (\<lambda>n. Inr (ndID n = i))"

definition found_sessions :: "mgr \<Rightarrow> bytes \<Rightarrow> nat list res" where
  "found_sessions m i = rfold (\<lambda>k found.
     rbind (index_expr (mgSessions m) (int k)) (\<lambda>r. rbind (sess_at m r) (\<lambda>s. rbind (node_of m s) (\<lambda>n.
       Inr (if ndID n = i then found @ [k] else found)))))
     [0..<length (mgSessions m)] []"

text \<open>The sessions that are kept: those for which some entry of the found list is another index.\<close>

definition kept_sessions :: "nat list \<Rightarrow> nat list \<Rightarrow> nat list" where
  "kept_sessions found ss = map (nth ss) (filter (\<lambda>i. \<exists>j\<in>set found. i \<noteq> j) [0..<length ss])"

definition DeleteNodeAndSessions :: "bytes \<Rightarrow> mgr \<Rightarrow> mgr res" where
  "DeleteNodeAndSessions i m =
     (case mgCache m i of
        None \<Rightarrow> Inr m
      | Some _ \<Rightarrow>
          let m1 = m\<lparr>mgCache := (mgCache m)(i := None)\<rparr> in
          rbind (delete_node (has_id m1 i) [] (mgNodes m1)) (\<lambda>(ns, _).
          let m2 = m1\<lparr>mgNodes := ns\<rparr> in
          rbind (found_sessions m2 i) (\<lambda>found.
            Inr (m2\<lparr>mgSessions := kept_sessions found (mgSessions m2)\<rparr>))))"

text \<open>\<open>mstr\<close> is the string form of a multiaddr, \<open>ip\<close> the one of the \<^verbatim>\<open>netip.AddrPort\<close>.\<close>

definition has_address :: "(multiaddr \<Rightarrow> string) \<Rightarrow> string \<Rightarrow> node \<Rightarrow> bool res" where
  "has_address mstr ip n =
     rbind (find_res (\<lambda>a. rbind (deref a) (\<lambda>ma. Inr (mstr ma = ip))) (ndAddresses n)) (\<lambda>f. Inr (f \<noteq> None))"

definition DeleteNodeByAddrPort :: "(multiaddr \<Rightarrow> string) \<Rightarrow> string \<Rightarrow> mgr \<Rightarrow> (mgr \<times> go_error option) res" where
  "DeleteNodeByAddrPort mstr ip m =
     rbind (delete_node (node_test m (has_address mstr ip)) [] (mgNodes m)) (\<lambda>(ns, found).
       Inr (m\<lparr>mgNodes := ns\<rparr>, if found then None else Some (Error ''node with ip not found'')))"

text \<open>The error is set before the loop and not cleared on success.\<close>

definition DeleteNodeByID :: "bytes \<Rightarrow> mgr \<Rightarrow> (mgr \<times> go_error option) res" where
  "DeleteNodeByID i m =
     rbind (delete_node (has_id m i) [] (mgNodes m)) (\<lambda>(ns, _).
       Inr (m\<lparr>mgNodes := ns\<rparr>, Some (Error ''id not found'')))"

definition DeletePendingPayment :: "bytes \<Rightarrow> mgr \<Rightarrow> mgr" where
  "DeletePendingPayment preimage m = m\<lparr>mgPending := PendingPayments_Delete preimage (mgPending m)\<rparr>"

text \<open>The loop ranges over the indices of the slice as it was before; the slice shrinks under it.\<close>

definition delete_session_step :: "bytes \<Rightarrow> nat \<Rightarrow> mgr \<Rightarrow> mgr res" where
  "delete_session_step k i m =
     rbind (index_expr (mgSessions m) (int i)) (\<lambda>r. rbind (sess_at m r) (\<lambda>s. rbind (header_bytes s) (\<lambda>h.
       if h = k then
         rbind (node_of m s) (\<lambda>n. rbind (deref (mgCache m (ndID n))) (\<lambda>c.
         rbind (set_index c (int (unat (sdHop s))) None) (\<lambda>c'.
           Inr (m\<lparr>mgCache := (mgCache m)(ndID n \<mapsto> c'), mgSessions := del_at i (mgSessions m)\<rparr>))))
       else Inr m)))"

definition DeleteSession :: "bytes \<Rightarrow> mgr \<Rightarrow> mgr res" where
  "DeleteSession k m = rfold (delete_session_step k) [0..<length (mgSessions m)] m"

section \<open>Searches\<close>

text \<open>The identity key first, then the session header keys: header key, payload key, session and whether it was
  the identity.\<close>

definition FindCloaked ::
  "crypto_ops \<Rightarrow> bytes \<Rightarrow> mgr \<Rightarrow> (prv option \<times> prv option \<times> nat option \<times> bool) res" where
  "FindCloaked C clk m =
     (let b = take BlindLen clk in
      rbind (local_node m) (\<lambda>n. rbind (deref (ndIdentity n)) (\<lambda>ident.
        if Cloak C b (kBytes ident) = clk then Inr (Some (kPrv ident), None, None, True)
        else rbind (find_res (sess_test m (\<lambda>s. rbind (header_bytes s) (\<lambda>h. Inr (Cloak C b h = clk)))) (mgSessions m)) (\<lambda>f.
          case f of
            None \<Rightarrow> Inr (None, None, None, False)
          | Some r \<Rightarrow> rbind (sess_at m r) (\<lambda>s. rbind (deref (sdHeader s)) (\<lambda>h. rbind (deref (sdPayload s)) (\<lambda>p.
              Inr (Some (kPrv h), Some (kPrv p), Some r, False))))))))"

definition FindNodeByAddrPort :: "(multiaddr \<Rightarrow> string) \<Rightarrow> string \<Rightarrow> mgr \<Rightarrow> nat option res" where
  "FindNodeByAddrPort mstr ip m = find_res (node_test m (has_address mstr ip)) (mgNodes m)"

definition FindNodeByID :: "bytes \<Rightarrow> mgr \<Rightarrow> nat option res" where
  "FindNodeByID i m = find_res (has_id m i) (mgNodes m)"

definition FindNodeByIdentity :: "crypto_ops \<Rightarrow> pub \<Rightarrow> mgr \<Rightarrow> nat option res" where
  "FindNodeByIdentity C k m =
     find_res (node_test m (\<lambda>n. rbind (deref (ndIdentity n)) (\<lambda>i. Inr (Pub_Equals C (kPub i) k)))) (mgNodes m)"

definition FindNodeByIndex :: "int \<Rightarrow> mgr \<Rightarrow> nat res" where
  "FindNodeByIndex i m = index_expr (mgNodes m) i"

definition FindPendingPayment :: "bytes \<Rightarrow> mgr \<Rightarrow> payment option" where
  "FindPendingPayment i m = PendingPayments_Find i (mgPending m)"

definition FindPendingPreimage :: "bytes \<Rightarrow> mgr \<Rightarrow> payment option" where
  "FindPendingPreimage h m = PendingPayments_FindPreimage h (mgPending m)"

definition FindSessionByHeader :: "prv \<Rightarrow> mgr \<Rightarrow> nat option res" where
  "FindSessionByHeader k m =
     find_res (sess_test m (\<lambda>s. rbind (deref (sdHeader s)) (\<lambda>h. Inr (kPrv h = k)))) (mgSessions m)"

definition FindSessionByHeaderPub :: "crypto_ops \<Rightarrow> pub \<Rightarrow> mgr \<Rightarrow> nat option res" where
  "FindSessionByHeaderPub C k m =
     find_res (sess_test m (\<lambda>s. rbind (deref (sdHeader s)) (\<lambda>h. Inr (Pub_Equals C (kPub h) k)))) (mgSessions m)"

definition FindSessionPreimage :: "bytes \<Rightarrow> mgr \<Rightarrow> nat option res" where
  "FindSessionPreimage pr m = find_res (sess_test m (\<lambda>s. Inr (sdPreimage s = pr))) (mgSessions m)"

section \<open>Iteration\<close>

text \<open>A callback that changes a state of its own and asks to stop.\<close>

fun iterate :: "('a \<Rightarrow> 's \<Rightarrow> (bool \<times> 's) res) \<Rightarrow> 'a list \<Rightarrow> 's \<Rightarrow> 's res" where
  "iterate fn [] st = Inr st"
| "iterate fn (x # xs) st = rbind (fn x st) (\<lambda>(stop, st'). if stop then Inr st' else iterate fn xs st')"

definition ForEachNode :: "(nat \<Rightarrow> 's \<Rightarrow> (bool \<times> 's) res) \<Rightarrow> mgr \<Rightarrow> 's \<Rightarrow> 's res" where
  "ForEachNode fn m st = iterate fn (drop 1 (mgNodes m)) st"

definition IterateSessions :: "(nat \<Rightarrow> 's \<Rightarrow> (bool \<times> 's) res) \<Rightarrow> mgr \<Rightarrow> 's \<Rightarrow> 's res" where
  "IterateSessions fn m st = iterate fn (mgSessions m) st"

text \<open>\<open>ord\<close> is the order in which the map is ranged over.\<close>

definition IterateSessionCache ::
  "bytes list \<Rightarrow> (nat \<Rightarrow> nat option list \<Rightarrow> 's \<Rightarrow> (bool \<times> 's) res) \<Rightarrow> mgr \<Rightarrow> 's \<Rightarrow> 's res" where
  "IterateSessionCache ord fn m st =
     iterate (\<lambda>i st. rbind (find_res (has_id m i) (mgNodes m)) (\<lambda>f.
       case f of
         None \<Rightarrow> Inr (False, st)
       | Some n \<Rightarrow> rbind (deref (mgCache m i)) (\<lambda>c. fn n c st))) ord st"

section \<open>The local node\<close>

definition GetLocalNodeAddress :: "(nat \<Rightarrow> nat) \<Rightarrow> mgr \<Rightarrow> multiaddr option res" where
  "GetLocalNodeAddress d m = rbind (local_node m) (\<lambda>n. index_expr (shuffled d (ndAddresses n)) 0)"

definition GetLocalNodeAddresses :: "mgr \<Rightarrow> multiaddr option list res" where
  "GetLocalNodeAddresses m = rbind (local_node m) (\<lambda>n. Inr (ndAddresses n))"

definition MatchesLocalNodeAddress :: "multiaddr \<Rightarrow> mgr \<Rightarrow> bool res" where
  "MatchesLocalNodeAddress ap m = rbind (local_node m) (\<lambda>n.
     rbind (find_res (\<lambda>v. rbind (deref v) (\<lambda>x. Inr (ap = x))) (ndAddresses n)) (\<lambda>f. Inr (f \<noteq> None)))"

definition GetLocalNodeAddressString :: "(multiaddr option \<Rightarrow> string) \<Rightarrow> (nat \<Rightarrow> nat) \<Rightarrow> mgr \<Rightarrow> string res" where
  "GetLocalNodeAddressString yellow d m = rbind (GetLocalNodeAddress d m) (\<lambda>a. Inr (yellow a))"

definition GetLocalNodeIdentityBytes :: "mgr \<Rightarrow> bytes res" where
  "GetLocalNodeIdentityBytes m = rbind (local_node m) (\<lambda>n. rbind (deref (ndIdentity n)) (\<lambda>i. Inr (kBytes i)))"

definition GetLocalNodeIdentityPrv :: "mgr \<Rightarrow> prv res" where
  "GetLocalNodeIdentityPrv m = rbind (local_node m) (\<lambda>n. rbind (deref (ndIdentity n)) (\<lambda>i. Inr (kPrv i)))"

definition GetLocalNodePaymentChan :: "mgr \<Rightarrow> nat res" where
  "GetLocalNodePaymentChan m = rbind (local_node m) (\<lambda>n. Inr (ndPayChan n))"

definition GetLocalNodeRelayRate :: "mgr \<Rightarrow> u32 res" where
  "GetLocalNodeRelayRate m = rbind (local_node m) (\<lambda>n. Inr (ndRelayRate n))"

definition ReceiveToLocalNode :: "mgr \<Rightarrow> nat res" where
  "ReceiveToLocalNode m = rbind (local_node m) (\<lambda>n. Inr (ndTransport n))"

definition SendFromLocalNode :: "u16 \<Rightarrow> bytes \<Rightarrow> mgr \<Rightarrow> (nat \<times> bytes) res" where
  "SendFromLocalNode port b m = rbind (local_node m) (SendTo port b)"

definition SetLocalNode :: "nat \<Rightarrow> mgr \<Rightarrow> mgr res" where
  "SetLocalNode n m = rbind (set_index (mgNodes m) 0 n) (\<lambda>ns. Inr (m\<lparr>mgNodes := ns\<rparr>))"

definition AddLocalNodeAddresses :: "multiaddr option list \<Rightarrow> mgr \<Rightarrow> mgr res" where
  "AddLocalNodeAddresses as m = rfold (\<lambda>a m. rbind (GetLocalNode m) (\<lambda>r. rbind (node_at m r) (\<lambda>n.
     Inr (set_node r (n\<lparr>ndAddresses := ndAddresses n @ [a]\<rparr>) m)))) as m"

definition AddLocalNodeAddress :: "multiaddr option \<Rightarrow> mgr \<Rightarrow> mgr res" where
  "AddLocalNodeAddress a m = rbind (GetLocalNode m) (\<lambda>r. rbind (node_at m r) (\<lambda>n.
     Inr (set_node r (n\<lparr>ndAddresses := ndAddresses n @ [a]\<rparr>) m)))"

text \<open>The new slice is made with the old length, so it starts with nil addresses, and what is appended are
  the addresses equal to the one to be removed.\<close>

definition RemoveLocalNodeAddress :: "multiaddr \<Rightarrow> mgr \<Rightarrow> mgr res" where
  "RemoveLocalNodeAddress addr m = rbind (GetLocalNode m) (\<lambda>r. rbind (node_at m r) (\<lambda>n.
     rbind (rfold (\<lambda>v tmp. rbind (deref v) (\<lambda>x. Inr (if x = addr then tmp @ [v] else tmp)))
              (ndAddresses n) (replicate (length (ndAddresses n)) None)) (\<lambda>tmp.
       Inr (set_node r (n\<lparr>ndAddresses := tmp\<rparr>) m))))"

section \<open>Circuits and indices\<close>

definition GetNodeCircuit :: "bytes \<Rightarrow> mgr \<Rightarrow> nat option list option" where
  "GetNodeCircuit i m = mgCache m i"

definition GetSessionByIndex :: "int \<Rightarrow> mgr \<Rightarrow> nat option res" where
  "GetSessionByIndex i m =
     (if i < int (length (mgSessions m)) then rbind (index_expr (mgSessions m) i) (\<lambda>r. Inr (Some r)) else Inr None)"

definition GetSessionsAtHop :: "byte \<Rightarrow> mgr \<Rightarrow> nat list res" where
  "GetSessionsAtHop hop m = rfold (\<lambda>r s. rbind (sess_at m r) (\<lambda>x. Inr (if sdHop x = hop then s @ [r] else s)))
     (mgSessions m) []"

definition NodesLen :: "mgr \<Rightarrow> nat" where
  "NodesLen m = length (mgNodes m)"

definition add_cache_entry :: "nat \<Rightarrow> mgr \<Rightarrow> mgr res" where
  "add_cache_entry r m = rbind (node_at m r) (\<lambda>n.
     Inr (if mgCache m (ndID n) = None then m\<lparr>mgCache := (mgCache m)(ndID n \<mapsto> empty_circuit)\<rparr> else m))"

definition place_session :: "nat \<Rightarrow> mgr \<Rightarrow> mgr res" where
  "place_session r m = rbind (sess_at m r) (\<lambda>s. rbind (node_of m s) (\<lambda>n.
     rbind (deref (mgCache m (ndID n))) (\<lambda>c.
     rbind (set_index c (int (unat (sdHop s))) (Some r)) (\<lambda>c'.
       Inr (m\<lparr>mgCache := (mgCache m)(ndID n \<mapsto> c')\<rparr>)))))"

definition UpdateSessionCache :: "mgr \<Rightarrow> mgr res" where
  "UpdateSessionCache m = rbind (rfold add_cache_entry (mgNodes m) m) (\<lambda>m1. rfold place_session (mgSessions m1) m1)"

end
