(* ===== verification/Hidden.thy ===== *)
theory Hidden
  imports Onion Manager
begin

text \<open>
  The manager of hidden services, \<^verbatim>\<open>pkg/hidden\<close>: the introductions a relay hosts (\<^verbatim>\<open>MyIntros\<close>), the ones it has
  heard of (\<^verbatim>\<open>KnownIntros\<close>) and the services it serves itself (\<^verbatim>\<open>Services\<close>), each a map keyed by public key
  bytes. Go ranges over a map in an unspecified order: the operations that do so get the order, a list
  of the keys, as an argument, and the lemmas hold for every order. The functions of the package on routing headers
  are in the theory \<open>Onion\<close>.
\<close>

section \<open>State\<close>

record introduction =
  inIntro :: intro_ad
  inReply :: reply_header

record local_hidden_service =
  lhPrv :: prv
  lhIntros :: "intro_ad list"
  lhService :: service

record hidden =
  hdMyIntros :: "bytes \<rightharpoonup> introduction"
  hdKnown :: "bytes \<rightharpoonup> intro_ad"
  hdServices :: "bytes \<rightharpoonup> local_hidden_service"

definition NewHiddenRouting :: hidden where
  "NewHiddenRouting = \<lparr>hdMyIntros = Map.empty, hdKnown = Map.empty, hdServices = Map.empty\<rparr>"

section \<open>Additions\<close>

definition AddHiddenService :: "crypto_ops \<Rightarrow> service \<Rightarrow> prv \<Rightarrow> intro_ad \<Rightarrow> hidden \<Rightarrow> hidden" where
  "AddHiddenService C svc key ad h =
     (let pk = Pub_ToBytes C (prv_pub C key);
          hs = \<lparr>lhPrv = key, lhIntros = [], lhService = svc\<rparr> in
      h\<lparr>hdServices := (hdServices h)(pk \<mapsto> hs\<lparr>lhIntros := lhIntros hs @ [ad]\<rparr>)\<rparr>)"

definition AddIntro :: "crypto_ops \<Rightarrow> pub option \<Rightarrow> introduction \<Rightarrow> hidden \<Rightarrow> hidden res" where
  "AddIntro C pk i h = rbind (deref pk) (\<lambda>p.
     let key = Pub_ToBytes C p in
     Inr (if hdMyIntros h key = None then h\<lparr>hdMyIntros := (hdMyIntros h)(key \<mapsto> i)\<rparr> else h))"

definition AddIntroToHiddenService :: "bytes \<Rightarrow> intro_ad \<Rightarrow> hidden \<Rightarrow> hidden res" where
  "AddIntroToHiddenService key ad h = rbind (deref (hdServices h key)) (\<lambda>hs.
     Inr (h\<lparr>hdServices := (hdServices h)(key \<mapsto> hs\<lparr>lhIntros := lhIntros hs @ [ad]\<rparr>)\<rparr>))"

section \<open>Deletions\<close>

definition hidden_Delete :: "bytes \<Rightarrow> hidden \<Rightarrow> introduction option \<times> hidden" where
  "hidden_Delete key h =
     (case hdMyIntros h key of
        None \<Rightarrow> (None, h)
      | Some i \<Rightarrow> (Some i, h\<lparr>hdMyIntros := (hdMyIntros h)(key := None)\<rparr>))"

text \<open>The two loops over the services: the first introduction with the id, in the first service that
  has one, is taken out and both loops end.\<close>

fun delete_service_intro :: "bytes \<Rightarrow> bytes list \<Rightarrow> hidden \<Rightarrow> hidden res" where
  "delete_service_intro i [] h = Inr h"
| "delete_service_intro i (k # ks) h = rbind (deref (hdServices h k)) (\<lambda>hs.
     case find_index (\<lambda>ad. aID ad = i) (lhIntros hs) of
       None \<Rightarrow> delete_service_intro i ks h
     | Some j \<Rightarrow> Inr (h\<lparr>hdServices := (hdServices h)(k \<mapsto> hs\<lparr>lhIntros := del_at j (lhIntros hs)\<rparr>)\<rparr>))"

fun delete_known_intro :: "bytes \<Rightarrow> bytes list \<Rightarrow> hidden \<Rightarrow> hidden res" where
  "delete_known_intro i [] h = Inr h"
| "delete_known_intro i (k # ks) h = rbind (deref (hdKnown h k)) (\<lambda>ad.
     if aID ad = i then Inr (h\<lparr>hdKnown := (hdKnown h)(k := None)\<rparr>) else delete_known_intro i ks h)"

definition DeleteIntroByID :: "bytes list \<Rightarrow> bytes list \<Rightarrow> bytes \<Rightarrow> hidden \<Rightarrow> hidden res" where
  "DeleteIntroByID svcs known i h =
     rbind (delete_service_intro i svcs h) (delete_known_intro i known)"

text \<open>The named result is never assigned.\<close>

definition DeleteKnownIntro :: "bytes \<Rightarrow> hidden \<Rightarrow> introduction option \<times> hidden" where
  "DeleteKnownIntro key h =
     (None, if hdKnown h key = None then h else h\<lparr>hdKnown := (hdKnown h)(key := None)\<rparr>)"

section \<open>Searches\<close>

text \<open>The keys of the hosted introductions come from the introductions, not from the map.\<close>

fun match_my_intros :: "crypto_ops \<Rightarrow> bytes \<Rightarrow> hidden \<Rightarrow> bytes list \<Rightarrow> bytes option res" where
  "match_my_intros C clk h [] = Inr None"
| "match_my_intros C clk h (k # ks) = rbind (deref (hdMyIntros h k)) (\<lambda>i.
     rbind (deref (aKey (inIntro i))) (\<lambda>p.
       let pubKey1 = Pub_ToBytes C p in
       if Match C clk pubKey1 then Inr (Some pubKey1) else match_my_intros C clk h ks))"

definition FindCloakedHiddenService ::
  "crypto_ops \<Rightarrow> bytes list \<Rightarrow> bytes list \<Rightarrow> bytes list \<Rightarrow> bytes \<Rightarrow> hidden \<Rightarrow> bytes option res" where
  "FindCloakedHiddenService C mine svcs known clk h =
     rbind (match_my_intros C clk h mine) (\<lambda>f.
       case f of
         Some k \<Rightarrow> Inr (Some k)
       | None \<Rightarrow> (case find (Match C clk) svcs of
                   Some k \<Rightarrow> Inr (Some k)
                 | None \<Rightarrow> Inr (find (Match C clk) known)))"

definition FindHiddenService :: "bytes \<Rightarrow> hidden \<Rightarrow> local_hidden_service option" where
  "FindHiddenService key h = hdServices h key"

definition FindIntroductionUnsafe :: "bytes \<Rightarrow> hidden \<Rightarrow> introduction option" where
  "FindIntroductionUnsafe key h = hdMyIntros h key"

definition FindIntroduction :: "bytes \<Rightarrow> hidden \<Rightarrow> introduction option" where
  "FindIntroduction key h = FindIntroductionUnsafe key h"

definition FindKnownIntroUnsafe :: "bytes \<Rightarrow> hidden \<Rightarrow> intro_ad option" where
  "FindKnownIntroUnsafe key h = hdKnown h key"

definition FindKnownIntro :: "bytes \<Rightarrow> hidden \<Rightarrow> intro_ad option" where
  "FindKnownIntro key h = FindKnownIntroUnsafe key h"

end
