(* ===== verification/Select.thy ===== *)
theory Select
  imports Manager
begin

text \<open>
  Choosing circuits and sending: \<^verbatim>\<open>sess/select.go\<close> and \<^verbatim>\<open>sess/send.go\<close>. Both selections loop until they find what they
  need and hold the mutex meanwhile; the model gives them fuel, and not returning is the value \<open>None\<close>. Random
  draws, the order of a map range and the string forms of addresses are arguments.
\<close>

definition StandardCircuit :: "byte list" where
  "StandardCircuit = [0, 1, 2, 3, 4, 5]"

section \<open>SelectHops\<close>

definition in_have :: "mgr \<Rightarrow> nat option list \<Rightarrow> session_data \<Rightarrow> bool res" where
  "in_have m have_ss s =
     rbind (find_res (\<lambda>h. case h of None \<Rightarrow> Inr False
                          | Some r \<Rightarrow> sess_test m (\<lambda>x. same_header x s) r) have_ss) (\<lambda>f. Inr (f \<noteq> None))"

definition candidates :: "mgr \<Rightarrow> nat option list \<Rightarrow> nat list res" where
  "candidates m have_ss = rfold (\<lambda>r ws. rbind (sess_at m r) (\<lambda>s. rbind (in_have m have_ss s) (\<lambda>b.
     Inr (if b then ws else ws @ [r])))) (mgSessions m) []"

text \<open>The comparison of addresses inside the pick: its \<^verbatim>\<open>continue\<close> continues the innermost loop, so it has no
  effect but the panics it may raise.\<close>

definition compare_address ::
  "(multiaddr \<Rightarrow> string) \<Rightarrow> string res \<Rightarrow> node \<Rightarrow> node res \<Rightarrow> nat \<Rightarrow> unit res" where
  "compare_address mstr local v w a =
     rbind (index_expr (ndAddresses v) (int a)) (\<lambda>x. rbind (deref x) (\<lambda>vx.
     rbind local (\<lambda>l.
       if mstr vx = l then Inr ()
       else rbind w (\<lambda>wn. rbind (index_expr (ndAddresses wn) (int a)) (\<lambda>y. rbind (deref y) (\<lambda>_. Inr ()))))))"

definition compare_addresses ::
  "(multiaddr \<Rightarrow> string) \<Rightarrow> (multiaddr option \<Rightarrow> string) \<Rightarrow> (nat \<Rightarrow> nat \<Rightarrow> nat \<Rightarrow> nat) \<Rightarrow> mgr \<Rightarrow>
   nat option list \<Rightarrow> session_data \<Rightarrow> unit res" where
  "compare_addresses mstr yellow ds m prev w =
     rfold (\<lambda>(k, p) u. rbind (deref p) (\<lambda>r. rbind (sess_at m r) (\<lambda>s. rbind (node_of m s) (\<lambda>v.
       rfold (\<lambda>a u. compare_address mstr (GetLocalNodeAddressString yellow (ds k a) m) v (node_of m w) a)
         [0..<length (ndAddresses v)] ()))))
       (zip [0..<length prev] prev) ()"

text \<open>The inner loop for position \<open>i\<close>: \<open>cur\<close> advances past picked sessions without wrapping around, and past
  sessions of another hop with wrapping around.\<close>

fun pick_hop ::
  "(nat option list \<Rightarrow> session_data \<Rightarrow> unit res) \<Rightarrow> mgr \<Rightarrow> nat \<Rightarrow> nat \<Rightarrow> byte \<Rightarrow> nat \<Rightarrow>
   nat option list \<Rightarrow> nat option list \<Rightarrow> ((nat option list \<times> nat option list) res) option" where
  "pick_hop cmp m 0 i hop cur ws so = None"
| "pick_hop cmp m (Suc fuel) i hop cur ws so =
     (case index_expr ws (int cur) of
        Inl e \<Rightarrow> Some (Inl e)
      | Inr None \<Rightarrow> pick_hop cmp m fuel i hop (Suc cur) ws so
      | Inr (Some r) \<Rightarrow>
          (case index_expr so (int i) of
             Inl e \<Rightarrow> Some (Inl e)
           | Inr (Some _) \<Rightarrow> Some (Inr (ws, so))
           | Inr None \<Rightarrow>
               (case sess_at m r of
                  Inl e \<Rightarrow> Some (Inl e)
                | Inr s \<Rightarrow>
                    if sdHop s = hop then
                      Some (rbind (cmp (take i so) s) (\<lambda>_. Inr (ws[cur := None], so[i := Some r])))
                    else pick_hop cmp m fuel i hop (if Suc cur = length ws then 0 else Suc cur) ws so)))"

fun pick_hops ::
  "(nat option list \<Rightarrow> session_data \<Rightarrow> unit res) \<Rightarrow> mgr \<Rightarrow> nat \<Rightarrow> nat \<Rightarrow> byte list \<Rightarrow>
   nat option list \<Rightarrow> nat option list \<Rightarrow> (nat option list res) option" where
  "pick_hops cmp m fuel i [] ws so = Some (Inr so)"
| "pick_hops cmp m fuel i (h # hs) ws so =
     (case pick_hop cmp m fuel i h 0 ws so of
        None \<Rightarrow> None
      | Some (Inl e) \<Rightarrow> Some (Inl e)
      | Some (Inr (ws', so')) \<Rightarrow> pick_hops cmp m fuel (Suc i) hs ws' so')"

definition print_circuit :: "mgr \<Rightarrow> nat option list \<Rightarrow> unit res" where
  "print_circuit m so = rfold (\<lambda>p u. rbind (deref p) (\<lambda>r. rbind (sess_at m r) (\<lambda>s. rbind (node_of m s) (\<lambda>n.
     rfold (\<lambda>a u. rbind (deref a) (\<lambda>_. Inr ())) (ndAddresses n) ())))) so ()"

definition SelectHops ::
  "(multiaddr \<Rightarrow> string) \<Rightarrow> (multiaddr option \<Rightarrow> string) \<Rightarrow> (nat \<Rightarrow> nat \<Rightarrow> nat \<Rightarrow> nat) \<Rightarrow> (nat \<Rightarrow> nat) \<Rightarrow> nat \<Rightarrow>
   byte list \<Rightarrow> nat option list \<Rightarrow> mgr \<Rightarrow> (nat option list res) option" where
  "SelectHops mstr yellow ds d fuel hops have_ss m =
     (case rbind (GetLocalNodeAddressString yellow d m) (\<lambda>_. candidates m have_ss) of
        Inl e \<Rightarrow> Some (Inl e)
      | Inr cs \<Rightarrow>
          if length have_ss \<noteq> length hops then Some (Inr [])
          else
            (case pick_hops (compare_addresses mstr yellow ds m) m fuel 0 hops (map Some (shuffled d cs)) have_ss of
               None \<Rightarrow> None
             | Some (Inl e) \<Rightarrow> Some (Inl e)
             | Some (Inr so) \<Rightarrow> Some (rbind (print_circuit m so) (\<lambda>_. Inr so))))"

section \<open>SelectUnusedCircuit\<close>

text \<open>One pass over the circuit cache, in the order \<open>ids\<close>. The state is the counter and the circuit chosen so far.\<close>

fun unused_pass :: "mgr \<Rightarrow> nat list \<Rightarrow> bytes list \<Rightarrow> nat \<times> nat option list \<Rightarrow> (nat \<times> nat option list) res" where
  "unused_pass m nodeList [] st = Inr st"
| "unused_pass m nodeList (i # ids) (cnt, c) =
     (if cnt = 5 then Inr (cnt, c)
      else rbind (deref (mgCache m i)) (\<lambda>circ. rbind (index_expr circ (int cnt)) (\<lambda>slot.
        if slot = None then
          rbind (find_res (has_id m i) nodeList) (\<lambda>f.
            case f of
              None \<Rightarrow> unused_pass m nodeList ids (cnt, c)
            | Some r \<Rightarrow> unused_pass m nodeList ids (Suc cnt, c[cnt := Some r]))
        else unused_pass m nodeList ids (cnt, c))))"

fun unused_loop :: "mgr \<Rightarrow> nat list \<Rightarrow> (nat \<Rightarrow> bytes list) \<Rightarrow> nat \<Rightarrow> nat \<times> nat option list \<Rightarrow> (nat option list res) option" where
  "unused_loop m nodeList ord 0 (cnt, c) = (if cnt < 5 then None else Some (Inr c))"
| "unused_loop m nodeList ord (Suc fuel) (cnt, c) =
     (if cnt < 5 then
        (case unused_pass m nodeList (ord fuel) (cnt, c) of
           Inl e \<Rightarrow> Some (Inl e)
         | Inr st \<Rightarrow> unused_loop m nodeList ord fuel st)
      else Some (Inr c))"

definition SelectUnusedCircuit ::
  "(nat \<Rightarrow> bytes list) \<Rightarrow> nat \<Rightarrow> mgr \<Rightarrow> ((mgr \<times> nat option list) res) option" where
  "SelectUnusedCircuit ord fuel m =
     (if mgNodes m = [] then Some (Inl (Panic ''makeslice: len out of range''))
      else let nodeList = tl (mgNodes m) in
        (case rfold add_cache_entry nodeList m of
           Inl e \<Rightarrow> Some (Inl e)
         | Inr m1 \<Rightarrow>
             (case unused_loop m1 nodeList ord fuel (0, empty_circuit) of
                None \<Rightarrow> None
              | Some (Inl e) \<Rightarrow> Some (Inl e)
              | Some (Inr c) \<Rightarrow> Some (Inr (m1, c)))))"

section \<open>Sending\<close>

record 'a sess_send_data =
  seB :: bytes
  seSessions :: "nat list"
  seBillable :: "bytes list"
  seRet :: bytes
  seID :: bytes
  sePort :: u16
  sePostAcct :: "'a list"

text \<open>\<^verbatim>\<open>Manager.Send\<close>: the transport and the bytes that are sent, to the first node whose randomly chosen address
  is the one asked for. \<open>ds k\<close> are the draws for the \<open>k\<close>-th node.\<close>

definition send_to_node ::
  "(multiaddr \<Rightarrow> string) \<Rightarrow> (multiaddr option \<Rightarrow> string) \<Rightarrow> (nat \<Rightarrow> nat \<Rightarrow> nat) \<Rightarrow> (nat \<Rightarrow> nat) \<Rightarrow> string \<Rightarrow> bytes \<Rightarrow> mgr \<Rightarrow>
   nat \<Rightarrow> (nat \<times> bytes) option \<Rightarrow> (bool \<times> (nat \<times> bytes) option) res" where
  "send_to_node mstr yellow ds d as b m r st =
     rbind (node_at m r) (\<lambda>n.
       if length (ndAddresses n) < 1 then rbind (deref (ndIdentity n)) (\<lambda>_. Inr (False, st))
       else rbind (rmap (\<lambda>a. rbind (deref a) (\<lambda>x. Inr (mstr x))) (ndAddresses n)) (\<lambda>shuf.
            rbind (index_expr (shuffled (ds r) shuf) 0) (\<lambda>addy.
              if as = addy then rbind (GetLocalNodeAddressString yellow d m) (\<lambda>_. Inr (True, Some (ndTransport n, b)))
              else Inr (False, st))))"

definition mgr_Send ::
  "(multiaddr \<Rightarrow> string) \<Rightarrow> (multiaddr option \<Rightarrow> string) \<Rightarrow> (nat \<Rightarrow> nat \<Rightarrow> nat) \<Rightarrow> (nat \<Rightarrow> nat) \<Rightarrow> multiaddr option \<Rightarrow> bytes \<Rightarrow>
   mgr \<Rightarrow> (nat \<times> bytes) option res" where
  "mgr_Send mstr yellow ds d addr b m = rbind (deref addr) (\<lambda>ma.
     ForEachNode (send_to_node mstr yellow ds d (mstr ma) b m) m None)"

definition SendWithOneHook ::
  "(multiaddr \<Rightarrow> pub \<Rightarrow> multiaddr option) \<Rightarrow> (multiaddr \<Rightarrow> string) \<Rightarrow> (multiaddr option \<Rightarrow> string) \<Rightarrow>
   (nat \<Rightarrow> nat \<Rightarrow> nat) \<Rightarrow> (nat \<Rightarrow> nat) \<Rightarrow> gotime \<Rightarrow> 'c \<Rightarrow> 'a sess_send_data \<Rightarrow> 'c option \<Rightarrow> mgr \<Rightarrow>
   ('a, 'c) response list \<Rightarrow> (('a, 'c) response list \<times> (nat \<times> bytes) option) res" where
  "SendWithOneHook addkey mstr yellow ds d now nilhook r hook m p =
     rbind (local_node m) (\<lambda>n. rbind (PickAddress addkey n (mgProtocols m)) (\<lambda>addr.
     let p' = Pending_Add now
           \<lparr>rpID = seID r, rpSentSize = int (length (seB r)), rpS = seSessions r, rpBillable = seBillable r,
            rpRet = seRet r, rpPort = sePort r, rpCallback = Some (case hook of None \<Rightarrow> nilhook | Some h \<Rightarrow> h),
            rpPostAcct = sePostAcct r\<rparr> p in
     rbind (GetLocalNodeAddressString yellow d m) (\<lambda>_. rbind (deref addr) (\<lambda>_.
     rbind (mgr_Send mstr yellow ds d addr (seB r) m) (\<lambda>sent. Inr (p', sent))))))"

end
