(* ===== verification/Ads_Props.thy ===== *)
theory Ads_Props
  imports Ads
begin

text \<open>
  Correctness of the advertisements: each is a \<open>message_codec\<close> (what is encoded is recognised and
  decoded to the same ad, its \<^verbatim>\<open>Len\<close> is enough), and an ad built and signed by its constructor
  validates under the signer's key until it expires.
\<close>

lemma reads_return_eq: "v = w \<Longrightarrow> reads (\<lambda>s. Inr (v, s)) [] w"
  by (simp add: reads_return)

section \<open>Wire images\<close>

definition ad_ok :: "crypto_ops \<Rightarrow> 'a ad_scheme \<Rightarrow> bool" where
  "ad_ok C x \<longleftrightarrow> crypto_laws C \<and> length (aID x) = 8 \<and> length (aSig x) = 64 \<and>
     aKey x \<noteq> None \<and> valid_pub C (the (aKey x)) \<and> t_nsec (aExpiry x) = 0"

definition key_bytes :: "crypto_ops \<Rightarrow> 'a ad_scheme \<Rightarrow> bytes" where
  "key_bytes C x = Pub_ToBytes C (the (aKey x))"

definition peer_body :: "crypto_ops \<Rightarrow> peer_ad \<Rightarrow> bytes" where
  "peer_body C x = aID x @ key_bytes C x @ le_bytes 4 (pRelayRate x) @ le_bytes 8 (t_unix (aExpiry x)) @ aSig x"

definition load_body :: "crypto_ops \<Rightarrow> load_ad \<Rightarrow> bytes" where
  "load_body C x = aID x @ key_bytes C x @ [lLoad x] @ le_bytes 8 (t_unix (aExpiry x)) @ aSig x"

definition intro_body :: "crypto_ops \<Rightarrow> intro_ad \<Rightarrow> bytes" where
  "intro_body C x = aID x @ key_bytes C x @ Pub_ToBytes C (the (iIntroducer x)) @
     le_bytes 4 (iRelayRate x) @ le_bytes 2 (iPort x) @ le_bytes 8 (t_unix (aExpiry x)) @ aSig x"

definition service_image :: "ad_service \<Rightarrow> bytes" where
  "service_image v = le_bytes 2 (svPort v) @ le_bytes 4 (svRelayRate v)"

definition services_body :: "crypto_ops \<Rightarrow> services_ad \<Rightarrow> bytes" where
  "services_body C x = aID x @ key_bytes C x @ le_bytes 2 (word_of_nat (length (vServices x)) :: u16) @
     concat (map service_image (vServices x)) @ le_bytes 8 (t_unix (aExpiry x)) @ aSig x"

definition addresses_body :: "crypto_ops \<Rightarrow> maddr_ops \<Rightarrow> u16 \<Rightarrow> addresses_ad \<Rightarrow> bytes" where
  "addresses_body C M dp x = aID x @ key_bytes C x @ le_bytes 2 (word_of_nat (length (dAddresses x)) :: u16) @
     concat (map (\<lambda>a. maddr_image M dp (the a)) (dAddresses x)) @ le_bytes 8 (t_unix (aExpiry x)) @ aSig x"

lemma ad_okD:
  assumes "ad_ok C x"
  shows "crypto_laws C" "length (aID x) = 8" "length (aSig x) = 64" "valid_pub C (the (aKey x))"
    "aKey x = Some (the (aKey x))" "GoTime (t_unix (aExpiry x)) 0 = aExpiry x"
  using assms by (auto simp: ad_ok_def gotime.expand)

lemma writes_key: "ad_ok C x \<Longrightarrow> writes (wPubkey C (aKey x)) (key_bytes C x)"
  unfolding key_bytes_def by (metis ad_okD(5) writes_fixed(8))

lemma reads_key: "ad_ok C x \<Longrightarrow> reads (ReadPubkey C) (key_bytes C x) (aKey x)"
  unfolding key_bytes_def using ad_okD(1,4,5) [of C x] by (metis reads_Pubkey)

lemma reads_expiry: "ad_ok C x \<Longrightarrow> reads ReadTime (le_bytes 8 (t_unix (aExpiry x))) (aExpiry x)"
  using reads_u64(4) [of "t_unix (aExpiry x)"] by (simp add: ad_okD(6))

lemma length_key_bytes [simp]: "length (key_bytes C x) = 33"
  by (simp add: key_bytes_def)

lemmas ad_reads = reads_key reads_expiry reads_fixed reads_Byte reads_Uint16 reads_Uint32

lemma body_lengths [len_simps]:
  "ad_ok C p \<Longrightarrow> length (peer_body C p) = 117"
  "ad_ok C l \<Longrightarrow> length (load_body C l) = 114"
  "ad_ok C i \<Longrightarrow> length (intro_body C i) = 152"
  by (simp_all add: peer_body_def load_body_def intro_body_def ad_okD(1-4))

section \<open>The codecs\<close>

lemma peer_encode_writes: "ad_ok C x \<Longrightarrow> writes (peer_Encode C x) (bytes_of_string ''pead'' @ peer_body C x)"
proof -
  assume ok: "ad_ok C x"
  have "writes (peer_Encode C x) ((bytes_of_string ''pead'' @ aID x @ key_bytes C x @
      le_bytes 4 (pRelayRate x) @ le_bytes 8 (t_unix (aExpiry x))) @ aSig x)"
    unfolding peer_Encode_def [abs_def] peer_SpliceNoSig_def [abs_def] peer_Splice_def [abs_def]
    using ok by (intro writes_intros writes_key) (auto dest: ad_okD)
  then show ?thesis by (simp add: peer_body_def)
qed

lemma peer_decode_reads: "ad_ok C x \<Longrightarrow> reads (peer_Decode C) (peer_body C x) x"
proof -
  assume ok: "ad_ok C x"
  have "reads (peer_Decode C) (aID x @ key_bytes C x @ le_bytes 4 (pRelayRate x) @
      le_bytes 8 (t_unix (aExpiry x)) @ aSig x @ []) x"
    unfolding peer_Decode_def [abs_def]
    by (rule ok reads_chain ad_reads reads_return_eq | simp add: ad_okD(1-4) [OF ok])+
  then show ?thesis by (simp add: peer_body_def)
qed

interpretation peer: message_codec "''pead''" "peer_Encode C" "peer_Decode C" "peer_body C"
    "ad_ok C" "\<lambda>_. peer_Len" for C
  by unfold_locales (simp_all add: peer_encode_writes peer_decode_reads peer_Len_def len_simps)

lemma load_encode_writes: "ad_ok C x \<Longrightarrow> writes (load_Encode C x) (bytes_of_string ''load'' @ load_body C x)"
proof -
  assume ok: "ad_ok C x"
  have "writes (load_Encode C x) ((bytes_of_string ''load'' @ aID x @ key_bytes C x @
      [lLoad x] @ le_bytes 8 (t_unix (aExpiry x))) @ aSig x)"
    unfolding load_Encode_def [abs_def] load_SpliceNoSig_def [abs_def] load_Splice_def [abs_def]
    using ok by (intro writes_intros writes_key) (auto dest: ad_okD)
  then show ?thesis by (simp add: load_body_def)
qed

lemma load_decode_reads: "ad_ok C x \<Longrightarrow> reads (load_Decode C) (load_body C x) x"
proof -
  assume ok: "ad_ok C x"
  have "reads (load_Decode C) (aID x @ key_bytes C x @ [lLoad x] @
      le_bytes 8 (t_unix (aExpiry x)) @ aSig x @ []) x"
    unfolding load_Decode_def [abs_def]
    by (rule ok reads_chain ad_reads reads_return_eq | simp add: ad_okD(1-4) [OF ok])+
  then show ?thesis by (simp add: load_body_def)
qed

interpretation load: message_codec "''load''" "load_Encode C" "load_Decode C" "load_body C"
    "ad_ok C" "\<lambda>_. load_Len" for C
  by unfold_locales (simp_all add: load_encode_writes load_decode_reads load_Len_def len_simps)

definition intro_ok :: "crypto_ops \<Rightarrow> intro_ad \<Rightarrow> bool" where
  "intro_ok C x \<longleftrightarrow> ad_ok C x \<and> iIntroducer x \<noteq> None \<and> valid_pub C (the (iIntroducer x))"

lemma intro_okD:
  assumes "intro_ok C x"
  shows "ad_ok C x" "valid_pub C (the (iIntroducer x))" "iIntroducer x = Some (the (iIntroducer x))"
  using assms by (auto simp: intro_ok_def)

lemma intro_nosig_writes:
  assumes "ad_ok C x" and "iIntroducer x = Some n"
  shows "writes (intro_SpliceNoSig C x) (bytes_of_string ''inad'' @ aID x @ key_bytes C x @
      Pub_ToBytes C n @ le_bytes 4 (iRelayRate x) @ le_bytes 2 (iPort x) @
      le_bytes 8 (t_unix (aExpiry x)))"
  unfolding intro_SpliceNoSig_def [abs_def] intro_Splice_def [abs_def] assms(2)
  using assms(1) by (intro writes_intros writes_key) (auto dest: ad_okD)

lemma intro_encode_writes:
  "intro_ok C x \<Longrightarrow> writes (intro_Encode C x) (bytes_of_string ''inad'' @ intro_body C x)"
proof -
  assume ok: "intro_ok C x"
  have "writes (intro_Encode C x) ((bytes_of_string ''inad'' @ aID x @ key_bytes C x @
      Pub_ToBytes C (the (iIntroducer x)) @ le_bytes 4 (iRelayRate x) @ le_bytes 2 (iPort x) @
      le_bytes 8 (t_unix (aExpiry x))) @ aSig x)"
    unfolding intro_Encode_def [abs_def]
    using intro_okD [OF ok] by (intro writes_chain intro_nosig_writes writes_fixed(4)) (auto dest: ad_okD)
  then show ?thesis by (simp add: intro_body_def)
qed

lemma intro_decode_reads: "intro_ok C x \<Longrightarrow> reads (intro_Decode C) (intro_body C x) x"
proof -
  assume ok: "intro_ok C x"
  have k: "reads (ReadPubkey C) (Pub_ToBytes C (the (iIntroducer x))) (iIntroducer x)"
    using intro_okD [OF ok] ad_okD(1) by (metis reads_Pubkey)
  have "reads (intro_Decode C) (aID x @ key_bytes C x @ Pub_ToBytes C (the (iIntroducer x)) @
      le_bytes 4 (iRelayRate x) @ le_bytes 2 (iPort x) @ le_bytes 8 (t_unix (aExpiry x)) @ aSig x @ []) x"
    unfolding intro_Decode_def [abs_def]
    by (rule k intro_okD(1) [OF ok] reads_guarded reads_chain ad_reads reads_return_eq
        | simp add: ad_okD(1-4) [OF intro_okD(1) [OF ok]] intro_Len_def)+
  then show ?thesis by (simp add: intro_body_def)
qed

interpretation intro: message_codec "''inad''" "intro_Encode C" "intro_Decode C" "intro_body C"
    "intro_ok C" "\<lambda>_. intro_Len" for C
  by unfold_locales (simp_all add: intro_encode_writes intro_decode_reads intro_Len_def len_simps intro_okD(1))

lemma writes_Service: "writes (wService v) (service_image v)"
  unfolding wService_def [abs_def] service_image_def by (intro writes_intros)

lemma reads_Service: "reads ReadService (service_image v) v"
proof -
  have "reads ReadService (le_bytes 2 (svPort v) @ le_bytes 4 (svRelayRate v) @ []) v"
    unfolding ReadService_def [abs_def] by (rule reads_chain ad_reads reads_return_eq | simp)+
  then show ?thesis by (simp add: service_image_def)
qed

interpretation service_field: wire_field wService ReadService service_image "\<lambda>_. True"
  by unfold_locales (simp_all add: writes_Service reads_Service)

lemma writes_Services: "writes (wServices vs) (concat (map service_image vs))"
proof (induction vs)
  case Nil
  have "wServices [] = Inr" by (rule ext) simp
  then show ?case by (simp add: writes_Nil)
next
  case (Cons v vs)
  have "wServices (v # vs) = (\<lambda>s. rbind (wService v s) (wServices vs))" by (rule ext) simp
  with Cons show ?case by (auto intro: writes_chain writes_Service)
qed

lemma length_service_images [len_simps]: "length (concat (map service_image vs)) = 6 * length vs"
  by (induction vs) (auto simp: service_image_def)

definition services_ok :: "crypto_ops \<Rightarrow> services_ad \<Rightarrow> bool" where
  "services_ok C x \<longleftrightarrow> ad_ok C x \<and> length (vServices x) < 2 ^ 16"

definition services_nosig_body :: "crypto_ops \<Rightarrow> services_ad \<Rightarrow> bytes" where
  "services_nosig_body C x = bytes_of_string ''svad'' @ aID x @ key_bytes C x @
     le_bytes 2 (word_of_nat (length (vServices x)) :: u16) @
     concat (map service_image (vServices x)) @ le_bytes 8 (t_unix (aExpiry x))"

lemma services_nosig_writes:
  "ad_ok C x \<Longrightarrow> writes (services_SpliceNoSig C x) (services_nosig_body C x)"
  unfolding services_SpliceNoSig_def [abs_def] services_Splice_def [abs_def] services_nosig_body_def
  by (intro writes_intros writes_key writes_Services) (auto dest: ad_okD)

lemma services_encode_writes:
  "ad_ok C x \<Longrightarrow> writes (services_Encode C x) (bytes_of_string ''svad'' @ services_body C x)"
proof -
  assume ok: "ad_ok C x"
  have "writes (services_Encode C x) (services_nosig_body C x @ aSig x)"
    unfolding services_Encode_def [abs_def]
    by (intro writes_chain services_nosig_writes writes_fixed(4) ok ad_okD(3) [OF ok])
  then show ?thesis by (simp add: services_body_def services_nosig_body_def)
qed

lemma services_decode_reads: "services_ok C x \<Longrightarrow> reads (services_Decode C) (services_body C x) x"
proof -
  assume "services_ok C x"
  then have ok: "ad_ok C x" and n: "length (vServices x) < 65536" by (auto simp: services_ok_def)
  have vs: "reads (read_times ReadService (unat (word_of_nat (length (vServices x)) :: u16)))
      (concat (map service_image (vServices x))) (vServices x)"
    using service_field.fields_read_back [of "vServices x"] n
    by (simp add: unsigned_of_nat take_bit_nat_eq_self)
  have "reads (services_Decode C) (aID x @ key_bytes C x @
      le_bytes 2 (word_of_nat (length (vServices x)) :: u16) @
      concat (map service_image (vServices x)) @ le_bytes 8 (t_unix (aExpiry x)) @ aSig x @ []) x"
    unfolding services_Decode_def [abs_def]
    by (rule vs ok reads_chain ad_reads reads_return_eq | simp add: ad_okD(1-4) [OF ok])+
  then show ?thesis by (simp add: services_body_def)
qed

interpretation services: message_codec "''svad''" "services_Encode C" "services_Decode C"
    "services_body C" "services_ok C" services_Len for C
proof
  fix m assume "services_ok C m"
  then have ok: "ad_ok C m" by (simp add: services_ok_def)
  show "4 + length (services_body C m) \<le> services_Len m"
    using ad_okD(1-3) [OF ok] by (simp add: services_body_def services_Len_def len_simps)
qed (simp_all add: services_encode_writes services_decode_reads services_ok_def)

definition addresses_ok :: "crypto_ops \<Rightarrow> maddr_ops \<Rightarrow> u16 \<Rightarrow> addresses_ad \<Rightarrow> bool" where
  "addresses_ok C M dp x \<longleftrightarrow> ad_ok C x \<and> length (dAddresses x) < 2 ^ 16 \<and>
     (\<forall>a\<in>set (dAddresses x). a \<noteq> None \<and> fits_maddr M dp (the a))"

lemma writes_Addresses:
  "\<forall>a\<in>set as. a \<noteq> None \<and> fits_maddr M dp (the a) \<Longrightarrow>
   writes (wAddresses M dp as) (concat (map (\<lambda>a. maddr_image M dp (the a)) as))"
proof (induction as)
  case Nil
  have "wAddresses M dp [] = Inr" by (rule ext) simp
  then show ?case by (simp add: writes_Nil)
next
  case (Cons a as)
  then obtain m where m: "a = Some m" "fits_maddr M dp m" by auto
  have "wAddresses M dp (Some m # as) = (\<lambda>s. rbind (wMultiaddr M m dp s) (wAddresses M dp as))"
    by (rule ext) simp
  with Cons m show ?case by (auto intro: writes_chain writes_Multiaddr)
qed

lemma length_maddr_images [len_simps]:
  "\<forall>a\<in>set as. a \<noteq> None \<and> fits_maddr M dp (the a) \<Longrightarrow>
   length (concat (map (\<lambda>a. maddr_image M dp (the a)) as)) = 21 * length as"
  by (induction as) (auto simp: len_simps)

definition addresses_nosig_body :: "crypto_ops \<Rightarrow> maddr_ops \<Rightarrow> u16 \<Rightarrow> addresses_ad \<Rightarrow> bytes" where
  "addresses_nosig_body C M dp x = bytes_of_string ''adad'' @ aID x @ key_bytes C x @
     le_bytes 2 (word_of_nat (length (dAddresses x)) :: u16) @
     concat (map (\<lambda>a. maddr_image M dp (the a)) (dAddresses x)) @ le_bytes 8 (t_unix (aExpiry x))"

lemma addresses_nosig_writes:
  assumes "addresses_ok C M dp x"
  shows "writes (addresses_SpliceNoSig C M dp x) (addresses_nosig_body C M dp x)"
proof -
  have "ad_ok C x" and "\<forall>a\<in>set (dAddresses x). a \<noteq> None \<and> fits_maddr M dp (the a)"
    using assms by (auto simp: addresses_ok_def)
  then show ?thesis
    unfolding addresses_SpliceNoSig_def [abs_def] addresses_Splice_def [abs_def] addresses_nosig_body_def
    by (intro writes_intros writes_key writes_Addresses) (auto dest: ad_okD)
qed

lemma addresses_encode_writes:
  assumes "addresses_ok C M dp x"
  shows "writes (addresses_Encode C M dp x) (bytes_of_string ''adad'' @ addresses_body C M dp x)"
proof -
  have ok: "ad_ok C x" using assms by (simp add: addresses_ok_def)
  have "writes (addresses_Encode C M dp x) (addresses_nosig_body C M dp x @ aSig x)"
    unfolding addresses_Encode_def [abs_def]
    by (intro writes_chain addresses_nosig_writes writes_fixed(4) assms ad_okD(3) [OF ok])
  then show ?thesis by (simp add: addresses_body_def addresses_nosig_body_def)
qed

lemma addresses_decode_reads:
  assumes "addresses_ok C M dp x"
  shows "reads (addresses_Decode C M) (addresses_body C M dp x) x"
proof -
  have ok: "ad_ok C x" and n: "length (dAddresses x) < 65536"
    and as: "\<forall>a\<in>set (dAddresses x). a \<noteq> None \<and> fits_maddr M dp (the a)"
    using assms by (auto simp: addresses_ok_def)
  have vs: "reads (read_times (ReadMultiaddr M) (unat (word_of_nat (length (dAddresses x)) :: u16)))
      (concat (map (\<lambda>a. maddr_image M dp (the a)) (dAddresses x))) (dAddresses x)"
    using maddr_field.fields_read_back [of "dAddresses x" M dp] n as
    by (simp add: unsigned_of_nat take_bit_nat_eq_self)
  have "reads (addresses_Decode C M) (aID x @ key_bytes C x @
      le_bytes 2 (word_of_nat (length (dAddresses x)) :: u16) @
      concat (map (\<lambda>a. maddr_image M dp (the a)) (dAddresses x)) @
      le_bytes 8 (t_unix (aExpiry x)) @ aSig x @ []) x"
    unfolding addresses_Decode_def [abs_def]
    by (rule vs ok reads_chain ad_reads reads_return_eq | simp add: ad_okD(1-4) [OF ok])+
  then show ?thesis by (simp add: addresses_body_def)
qed

interpretation addresses: message_codec "''adad''" "addresses_Encode C M dp" "addresses_Decode C M"
    "addresses_body C M dp" "addresses_ok C M dp" addresses_Len for C M dp
proof
  fix m assume "addresses_ok C M dp m"
  then have ok: "ad_ok C m" and as: "\<forall>a\<in>set (dAddresses m). a \<noteq> None \<and> fits_maddr M dp (the a)"
    by (auto simp: addresses_ok_def)
  show "4 + length (addresses_body C M dp m) \<le> addresses_Len m"
    using ad_okD(1-3) [OF ok] length_maddr_images [OF as]
    by (simp add: addresses_body_def addresses_Len_def)
qed (simp_all add: addresses_encode_writes addresses_decode_reads)

section \<open>Signatures\<close>

lemma signed_bytes_writes:
  assumes "writes f bs" and "length bs \<le> l"
  shows "signed_bytes l f = Inr bs"
proof -
  obtain s where "f (New l) = Inr s" "splice_at s ([] @ bs) (drop (length bs) (replicate l 0))"
    using writes_at [OF assms(1) splice_at_New [of l]] assms(2) by auto
  then show ?thesis
    by (auto simp: signed_bytes_def GetUntilCursor_def GetUntil_def GetCursor_def splice_at_def slice_expr_def)
qed

lemma ad_sign_validates:
  assumes "crypto_laws C" and "writes f bs" and "length bs \<le> l" and "length sg = 64"
    and "isOk (schnorr_sign C k (Single C bs))"
  shows "\<exists>g. ad_sign C l f k sg = Inr g \<and> length g = 64 \<and>
    (\<forall>now expiry. ad_validate C now l f g (Some (prv_pub C k)) expiry = Inr (time_after expiry now))"
proof -
  obtain g where g: "Prv_Sign C k bs = Inr g"
    using assms(5) by (auto simp: isOk_iff Prv_Sign_def)
  have "length g = 64" "MatchesPubkey C g bs (Some (prv_pub C k)) = Inr True"
    using Prv_Sign_verifies [OF assms(1) g] by auto
  with g assms(4) show ?thesis
    by (intro exI [of _ g]) (simp add: ad_sign_def ad_validate_def signed_bytes_writes [OF assms(2,3)])
qed

section \<open>Properties\<close>

definition demo_pub :: pub where "demo_pub = Pub (ucast (7 :: byte)) 0"
definition demo_prv :: prv where "demo_prv = Prv (ucast (9 :: byte))"

lemma demo_pub_valid [simp]: "valid_pub demo_ops demo_pub"
  unfolding demo_pub_def by (rule demo_valid_pub)

lemma demo_prv_valid [simp]: "valid_prv demo_ops demo_prv"
  unfolding demo_prv_def by (rule demo_valid_prv)

definition demo_intro :: intro_ad where
  "demo_intro = \<lparr>aID = replicate 8 5, aKey = Some demo_pub, aExpiry = GoTime 1000 0,
     aSig = replicate 64 3, iIntroducer = Some demo_pub, iPort = 80, iRelayRate = 50000\<rparr>"

lemma demo_intro_ok: "intro_ok demo_ops demo_intro"
  by (simp add: intro_ok_def ad_ok_def demo_intro_def)

definition demo_services :: services_ad where
  "demo_services = \<lparr>aID = replicate 8 5, aKey = Some demo_pub, aExpiry = GoTime 1000 0,
     aSig = replicate 64 3, vServices = [\<lparr>svPort = 80, svRelayRate = 10\<rparr>, \<lparr>svPort = 53, svRelayRate = 4\<rparr>]\<rparr>"

lemma demo_services_ok: "services_ok demo_ops demo_services"
  by (simp add: services_ok_def ad_ok_def demo_services_def)

definition demo_addr :: multiaddr where
  "demo_addr = [MaComp 4 [127, 0, 0, 1], MaComp 6 [31, 144]]"

lemma demo_addr_fits: "fits_maddr demo_maddr 26969 demo_addr"
  by (simp add: fits_maddr_def demo_addr_def AddrToBytes_ip_tcp demo_maddr_def)

definition demo_addresses :: addresses_ad where
  "demo_addresses = \<lparr>aID = replicate 8 5, aKey = Some demo_pub, aExpiry = GoTime 1000 0,
     aSig = replicate 64 3, dAddresses = [Some demo_addr]\<rparr>"

lemma demo_addresses_ok: "addresses_ok demo_ops demo_maddr 26969 demo_addresses"
  by (simp add: addresses_ok_def ad_ok_def demo_addresses_def demo_addr_fits)

definition demo_peer :: peer_ad where
  "demo_peer = \<lparr>aID = replicate 8 5, aKey = Some demo_pub, aExpiry = GoTime 1000 0,
     aSig = replicate 64 3, pRelayRate = 50000\<rparr>"

lemma demo_peer_ok: "ad_ok demo_ops demo_peer"
  by (simp add: ad_ok_def demo_peer_def)

text \<open>C1: an intro ad that is encoded with \<^verbatim>\<open>codec.Encode\<close> fills exactly its \<^verbatim>\<open>Len\<close>, is recognised by its
  magic and decodes to the same ad, with no error left in the splice.\<close>

theorem intro_roundtrip:
  assumes "intro_ok C x"
  shows "\<exists>s s1 s2. Codec_Encode intro_Len (intro_Encode C x) = Inr s \<and> length (sb s) = intro_Len \<and>
     Recognise (registry_of all_kinds) (NewFrom (sb s)) = Inr (Some KIntroAd, s1) \<and>
     intro_Decode C s1 = Inr (x, s2) \<and> sE s2 = None"
  using assms by (rule intro.codec_roundtrip) (simp_all add: magic_of_def all_kinds_def)

theorem intro_roundtrip_witness:
  "intro_ok demo_ops demo_intro \<and>
   (\<exists>s s1 s2. Codec_Encode intro_Len (intro_Encode demo_ops demo_intro) = Inr s \<and> length (sb s) = intro_Len \<and>
     Recognise (registry_of all_kinds) (NewFrom (sb s)) = Inr (Some KIntroAd, s1) \<and>
     intro_Decode demo_ops s1 = Inr (demo_intro, s2) \<and> sE s2 = None)"
  using demo_intro_ok intro_roundtrip [OF demo_intro_ok] by blast

text \<open>C2: a services ad with fewer than 65536 services is written within its \<^verbatim>\<open>Len\<close>, recognised and
  decoded to the same ad, whatever the number of services.\<close>

theorem services_roundtrip:
  assumes "services_ok C x"
  shows "\<exists>s s1 s2. Codec_Encode (services_Len x) (services_Encode C x) = Inr s \<and>
     length (sb s) = services_Len x \<and>
     Recognise (registry_of all_kinds) (NewFrom (sb s)) = Inr (Some KServicesAd, s1) \<and>
     services_Decode C s1 = Inr (x, s2) \<and> sE s2 = None"
  using assms by (rule services.codec_roundtrip) (simp_all add: magic_of_def all_kinds_def)

theorem services_roundtrip_witness:
  "services_ok demo_ops demo_services \<and>
   (\<exists>s s1 s2. Codec_Encode (services_Len demo_services) (services_Encode demo_ops demo_services) = Inr s \<and>
     length (sb s) = services_Len demo_services \<and>
     Recognise (registry_of all_kinds) (NewFrom (sb s)) = Inr (Some KServicesAd, s1) \<and>
     services_Decode demo_ops s1 = Inr (demo_services, s2) \<and> sE s2 = None)"
  using demo_services_ok services_roundtrip [OF demo_services_ok] by blast

text \<open>C3: an addresses ad whose addresses fit the 20-byte field is written within its \<^verbatim>\<open>Len\<close>,
  recognised and decoded to the same list of addresses.\<close>

theorem addresses_roundtrip:
  assumes "addresses_ok C M dp x"
  shows "\<exists>s s1 s2. Codec_Encode (addresses_Len x) (addresses_Encode C M dp x) = Inr s \<and>
     length (sb s) = addresses_Len x \<and>
     Recognise (registry_of all_kinds) (NewFrom (sb s)) = Inr (Some KAddressesAd, s1) \<and>
     addresses_Decode C M s1 = Inr (x, s2) \<and> sE s2 = None"
  using assms by (rule addresses.codec_roundtrip) (simp_all add: magic_of_def all_kinds_def)

theorem addresses_roundtrip_witness:
  "addresses_ok demo_ops demo_maddr 26969 demo_addresses \<and>
   (\<exists>s s1 s2. Codec_Encode (addresses_Len demo_addresses)
        (addresses_Encode demo_ops demo_maddr 26969 demo_addresses) = Inr s \<and>
     length (sb s) = addresses_Len demo_addresses \<and>
     Recognise (registry_of all_kinds) (NewFrom (sb s)) = Inr (Some KAddressesAd, s1) \<and>
     addresses_Decode demo_ops demo_maddr s1 = Inr (demo_addresses, s2) \<and> sE s2 = None)"
  using demo_addresses_ok addresses_roundtrip [OF demo_addresses_ok] by blast

text \<open>a peer ad is recognised and decoded to the same ad.\<close>

theorem peer_roundtrip:
  assumes "ad_ok C x"
  shows "\<exists>s s1 s2. Codec_Encode peer_Len (peer_Encode C x) = Inr s \<and> length (sb s) = peer_Len \<and>
     Recognise (registry_of all_kinds) (NewFrom (sb s)) = Inr (Some KPeerAd, s1) \<and>
     peer_Decode C s1 = Inr (x, s2) \<and> sE s2 = None"
  using assms by (rule peer.codec_roundtrip) (simp_all add: magic_of_def all_kinds_def)

theorem peer_roundtrip_witness:
  "ad_ok demo_ops demo_peer \<and>
   (\<exists>s s1 s2. Codec_Encode peer_Len (peer_Encode demo_ops demo_peer) = Inr s \<and> length (sb s) = peer_Len \<and>
     Recognise (registry_of all_kinds) (NewFrom (sb s)) = Inr (Some KPeerAd, s1) \<and>
     peer_Decode demo_ops s1 = Inr (demo_peer, s2) \<and> sE s2 = None)"
  using demo_peer_ok peer_roundtrip [OF demo_peer_ok] by blast

text \<open>C2: an intro ad made by \<^verbatim>\<open>intro.New\<close> carries the signer's public key and validates at exactly
  the times before its expiry.\<close>

theorem intro_New_validates:
  assumes "crypto_laws C" and "length i = 8" and "\<forall>h. isOk (schnorr_sign C key h)"
  shows "\<exists>x. intro_New C i key (Some introducer) relayRate port expires = Inr x \<and>
     aKey x = Some (prv_pub C key) \<and> aExpiry x = expires \<and>
     (\<forall>now. intro_Validate C now x = Inr (time_after expires now))"
proof -
  let ?x = "\<lparr>aID = i, aKey = Some (prv_pub C key), aExpiry = expires, aSig = replicate 64 0,
     iIntroducer = Some introducer, iPort = port, iRelayRate = relayRate\<rparr> :: intro_ad"
  let ?bs = "bytes_of_string ''inad'' @ i @ Pub_ToBytes C (prv_pub C key) @ Pub_ToBytes C introducer @
     le_bytes 4 relayRate @ le_bytes 2 port @ le_bytes 8 (t_unix expires)"
  have w: "writes (intro_SpliceNoSig C (?x\<lparr>aSig := g\<rparr>)) ?bs" for g
    unfolding intro_SpliceNoSig_def [abs_def] intro_Splice_def [abs_def]
    using assms(2) by (auto intro!: writes_intros)
  have "length ?bs \<le> intro_Len" using assms(2) by (simp add: intro_Len_def)
  moreover have "writes (intro_SpliceNoSig C ?x) ?bs" using w [of "replicate 64 0"] by simp
  moreover have "isOk (schnorr_sign C key (Single C ?bs))" using assms(3) by blast
  ultimately obtain g where "ad_sign C intro_Len (intro_SpliceNoSig C ?x) key (replicate 64 0) = Inr g"
    "\<forall>now expiry. ad_validate C now intro_Len (intro_SpliceNoSig C ?x) g (Some (prv_pub C key)) expiry
       = Inr (time_after expiry now)"
    using ad_sign_validates [OF assms(1), of "intro_SpliceNoSig C ?x" ?bs intro_Len "replicate 64 0" key]
    by auto
  then show ?thesis
    by (simp add: intro_New_def intro_Sign_def DerivePub_def intro_Validate_def intro_SpliceNoSig_def [abs_def])
qed

theorem intro_New_validates_witness:
  "crypto_laws demo_ops \<and> (\<forall>h. isOk (schnorr_sign demo_ops demo_prv h)) \<and>
   (\<exists>x. intro_New demo_ops (replicate 8 5) demo_prv (Some demo_pub) 1 80 (GoTime 9 0) = Inr x \<and>
     aKey x = Some (prv_pub demo_ops demo_prv) \<and> aExpiry x = GoTime 9 0 \<and>
     (\<forall>now. intro_Validate demo_ops now x = Inr (time_after (GoTime 9 0) now)))"
proof -
  have "\<forall>h. isOk (schnorr_sign demo_ops demo_prv h)" by (simp add: demo_ops_def)
  with intro_New_validates [of demo_ops "replicate 8 5" demo_prv demo_pub 1 80 "GoTime 9 0"]
  show ?thesis by simp
qed

text \<open>C4: \<^verbatim>\<open>peer.New\<close> does not use the expiry it is given: whatever it is, the ad expires three hours
  after the time of the call and validates until then.\<close>

theorem peer_New_expiry:
  assumes "crypto_laws C" and "length i = 8" and "\<forall>h. isOk (schnorr_sign C key h)"
  shows "\<exists>x. peer_New C now i key relayRate expiry = Inr x \<and>
     aExpiry x = GoTime (t_unix now + hours3) (t_nsec now) \<and> aKey x = Some (prv_pub C key) \<and>
     (\<forall>t. peer_Validate C t x = Inr (time_after (GoTime (t_unix now + hours3) (t_nsec now)) t))"
proof -
  let ?e = "GoTime (t_unix now + hours3) (t_nsec now)"
  let ?bs = "\<lambda>e. bytes_of_string ''pead'' @ i @ Pub_ToBytes C (prv_pub C key) @
     le_bytes 4 relayRate @ le_bytes 8 (t_unix e)"
  have w: "writes (peer_Splice C i (Some (prv_pub C key)) relayRate e) (?bs e)" for e
    unfolding peer_Splice_def [abs_def] using assms(2) by (auto intro!: writes_intros)
  have "signed_bytes intro_Len (peer_Splice C i (Some (prv_pub C key)) relayRate expiry) = Inr (?bs expiry)"
    by (rule signed_bytes_writes [OF w]) (simp add: intro_Len_def assms(2))
  then obtain s where s: "peer_Splice C i (Some (prv_pub C key)) relayRate expiry (New intro_Len) = Inr s"
    "GetUntil (GetCursor s) s = Inr (?bs expiry)"
    by (auto simp: signed_bytes_def GetUntilCursor_def rbind_eq_Inr)
  let ?sg = "crypto_Sign C key (Single C (?bs expiry))"
  let ?x = "\<lparr>aID = i, aKey = Some (prv_pub C key), aExpiry = ?e, aSig = ?sg, pRelayRate = relayRate\<rparr>"
  have f: "peer_SpliceNoSig C (?x\<lparr>aSig := g\<rparr>) = peer_Splice C i (Some (prv_pub C key)) relayRate ?e" for g
    by (rule ext) (simp add: peer_SpliceNoSig_def)
  have "length ?sg = 64" by (simp add: crypto_Sign_def)
  moreover have "length (?bs ?e) \<le> peer_Len" using assms(2) by (simp add: peer_Len_def)
  moreover have "isOk (schnorr_sign C key (Single C (?bs ?e)))" using assms(3) by blast
  ultimately obtain g where "ad_sign C peer_Len (peer_Splice C i (Some (prv_pub C key)) relayRate ?e) key ?sg = Inr g"
    "\<forall>t expiry. ad_validate C t peer_Len (peer_Splice C i (Some (prv_pub C key)) relayRate ?e) g
        (Some (prv_pub C key)) expiry = Inr (time_after expiry t)"
    using ad_sign_validates [OF assms(1) w [of ?e], of peer_Len ?sg key] by blast
  with s f show ?thesis
    by (simp add: peer_New_def DerivePub_def Let_def peer_Sign_def peer_Validate_def peer_SpliceNoSig_def [abs_def])
qed

theorem peer_New_expiry_witness:
  "(\<forall>h. isOk (schnorr_sign demo_ops demo_prv h)) \<and>
   (\<exists>x. peer_New demo_ops (GoTime 5 0) (replicate 8 5) demo_prv 1 (GoTime 999999 0) = Inr x \<and>
     aExpiry x = GoTime 10805 0 \<and> peer_Validate demo_ops (GoTime 20000 0) x = Inr False)"
proof -
  have "\<forall>h. isOk (schnorr_sign demo_ops demo_prv h)" by (simp add: demo_ops_def)
  with peer_New_expiry [of demo_ops "replicate 8 5" demo_prv "GoTime 5 0" 1 "GoTime 999999 0"]
  show ?thesis by (auto simp: hours3_def time_after_def)
qed

end
