(* ===== verification/Onion_Props.thy ===== *)
theory Onion_Props
  imports Onion Ads_Props
begin

text \<open>
  The wire format of the onion messages: each one interprets the contract \<open>message_codec\<close>, for its own
  fields with nothing wrapped inside.
\<close>

section \<open>Well-formed fields\<close>

definition hashes_ok :: "bytes list \<Rightarrow> bool" where
  "hashes_ok cs \<longleftrightarrow> length cs = 3 \<and> (\<forall>c\<in>set cs. length c = 32)"

definition ivs_ok :: "bytes list \<Rightarrow> bool" where
  "ivs_ok ns \<longleftrightarrow> length ns = 3 \<and> (\<forall>n\<in>set ns. length n = 16)"

lemma length_concat_three:
  "hashes_ok cs \<Longrightarrow> length (concat cs) = 96"
  "ivs_ok ns \<Longrightarrow> length (concat ns) = 48"
  using concat_uniform_length [of cs 32] concat_uniform_length [of ns 16]
  by (simp_all add: hashes_ok_def ivs_ok_def)

lemma writes_three [writes_intros]:
  "hashes_ok cs \<Longrightarrow> writes (wCiphers cs) (concat cs)"
  "ivs_ok ns \<Longrightarrow> writes (wNonces ns) (concat ns)"
  by (simp_all add: hashes_ok_def ivs_ok_def writes_list)

lemma reads_three [reads_intros]:
  "hashes_ok cs \<Longrightarrow> reads ReadCiphers (concat cs) cs"
  "ivs_ok ns \<Longrightarrow> reads ReadNonces (concat ns) ns"
  by (simp_all add: hashes_ok_def ivs_ok_def reads_lists)

lemma rbind_Inr_right [simp]: "rbind m Inr = m"
  by (cases m) simp_all

lemma encode_End [simp]: "onion_Encode C M dp blind k OEnd = Inr"
  by (rule ext) simp

lemma reads_map_eq:
  "reads f bs v \<Longrightarrow> h v = w \<Longrightarrow> reads (\<lambda>s. rbind (f s) (\<lambda>(x, s1). Inr (h x, s1))) bs w"
  using reads_map [of f bs v h] by simp

text \<open>A message that wraps only the end marker writes its own fields.\<close>

lemma encode_layer [simp]:
  "onion_Encode C M dp blind k (OForward (Some a) OEnd) = chain [wMagic ''forw'', wMultiaddr M a dp]"
  "onion_Encode C M dp blind k (OReverse (Some a) OEnd) = chain [wMagic ''rvrs'', wMultiaddr M a dp]"
  "onion_Encode C M dp blind k (ODelay d OEnd) = chain [wMagic ''dely'', wUint64 d]"
  "onion_Encode C M dp blind k (OBalance b) = chain [wMagic ''bala'', wID (bID b), wUint64 (bMilliSatoshi b)]"
  "onion_Encode C M dp blind k (OConfirmation i) = chain [wMagic ''conf'', wID i]"
  by (rule ext, simp)+

lemmas onion_reads = reads_three reads_fixed reads_Byte reads_u64 reads_Uint16 reads_Uint32
  reads_Bytes reads_Prvkey reads_Pubkey reads_Multiaddr

section \<open>Cores\<close>

definition balance_body :: "balance_msg \<Rightarrow> bytes" where
  "balance_body x = bID x @ le_bytes 8 (bMilliSatoshi x)"

lemma balance_reads: "length (bID x) = 8 \<Longrightarrow> reads balance_Decode (balance_body x) x"
  unfolding balance_Decode_def [abs_def] balance_body_def
  by (rule reads_guarded reads_map_eq reads_chain onion_reads | simp add: balance_Len_def)+

interpretation balance: message_codec "''bala''" "\<lambda>x. onion_Encode C M dp blind k (OBalance x)" balance_Decode
    balance_body "\<lambda>x. length (bID x) = 8" "\<lambda>_. balance_Len" for C M dp blind k
  by unfold_locales
    (simp_all add: balance_reads [unfolded balance_body_def] balance_body_def balance_Len_def writes_intros)

interpretation confirmation: message_codec "''conf''" "\<lambda>i. onion_Encode C M dp blind k (OConfirmation i)"
    confirmation_Decode "\<lambda>i. i" "\<lambda>i. length i = 8" "\<lambda>_. confirmation_Len" for C M dp blind k
proof unfold_locales
  fix i :: bytes assume "length i = 8"
  then show "reads confirmation_Decode i i"
    unfolding confirmation_Decode_def [abs_def]
    by (intro reads_guarded) (simp_all add: onion_reads confirmation_Len_def)
qed (simp_all add: confirmation_Len_def writes_intros)

definition response_body :: "response_msg \<Rightarrow> bytes" where
  "response_body x = pID' x @ le_bytes 2 (pPort x) @ [pLoad x] @ bytes_image (pBytes x)"

definition response_ok :: "response_msg \<Rightarrow> bool" where
  "response_ok x \<longleftrightarrow> length (pID' x) = 8 \<and> length (pBytes x) < 2 ^ 32"

lemma response_writes:
  assumes "response_ok x"
  shows "writes (onion_Encode C M dp blind k (OResponse x)) (bytes_of_string ''resp'' @ response_body x)"
proof -
  have "onion_Encode C M dp blind k (OResponse x)
      = chain [wMagic ''resp'', wID (pID' x), wUint16 (pPort x), wByte (pLoad x), wBytes (pBytes x)]"
    by (rule ext) simp
  then show ?thesis
    using assms unfolding response_body_def by (auto simp only: response_ok_def intro!: writes_intros) simp
qed

lemma response_reads: "response_ok x \<Longrightarrow> reads response_Decode (response_body x) x"
  unfolding response_Decode_def [abs_def] response_body_def response_ok_def
  by (rule reads_guarded reads_map_eq reads_chain onion_reads | simp add: response_Len_def len_simps)+

interpretation response: message_codec "''resp''" "\<lambda>x. onion_Encode C M dp blind k (OResponse x)" response_Decode
    response_body response_ok "\<lambda>x. response_Len + length (pBytes x)" for C M dp blind k
  by unfold_locales
    (simp_all del: onion_Encode.simps encode_layer
      add: response_writes response_reads response_Len_def len_simps, simp add: response_body_def response_ok_def len_simps)

section \<open>Layers\<close>

lemma delay_reads: "reads delay_Decode (le_bytes 8 d) d"
  unfolding delay_Decode_def [abs_def]
  by (rule reads_guarded onion_reads | simp add: delay_Len_def)+

interpretation delay: message_codec "''dely''" "\<lambda>d. onion_Encode C M dp blind k (ODelay d OEnd)" delay_Decode
    "le_bytes 8" "\<lambda>_. True" "\<lambda>_. delay_Len" for C M dp blind k
  by unfold_locales (simp_all add: delay_reads delay_Len_def writes_intros)

interpretation forward: message_codec "''forw''" "\<lambda>a. onion_Encode C M dp blind k (OForward (Some (the a)) OEnd)"
    "forward_Decode M" "\<lambda>a. maddr_image M dp (the a)" "\<lambda>a. a \<noteq> None \<and> fits_maddr M dp (the a)"
    "\<lambda>_. magic_Len + 21" for C M dp blind k
proof unfold_locales
  fix a :: "multiaddr option" assume "a \<noteq> None \<and> fits_maddr M dp (the a)"
  then show "reads (forward_Decode M) (maddr_image M dp (the a)) a"
    unfolding forward_Decode_def [abs_def]
    using reads_Multiaddr [of M dp "the a"] by (intro reads_guarded) (auto simp: len_simps)
qed (auto simp: len_simps writes_intros)

interpretation reverse: message_codec "''rvrs''" "\<lambda>a. onion_Encode C M dp blind k (OReverse (Some (the a)) OEnd)"
    "reverse_Decode M" "\<lambda>a. maddr_image M dp (the a)" "\<lambda>a. a \<noteq> None \<and> fits_maddr M dp (the a)"
    "\<lambda>_. magic_Len + 21" for C M dp blind k
proof unfold_locales
  fix a :: "multiaddr option" assume "a \<noteq> None \<and> fits_maddr M dp (the a)"
  then show "reads (reverse_Decode M) (maddr_image M dp (the a)) a"
    unfolding reverse_Decode_def [abs_def]
    using reads_Multiaddr [of M dp "the a"] by (intro reads_guarded) (auto simp: len_simps)
qed (auto simp: len_simps writes_intros)

definition getbalance_body :: "getbalance \<Rightarrow> bytes" where
  "getbalance_body x = gID x @ concat (gCiphers x) @ concat (gNonces x)"

definition getbalance_ok :: "getbalance \<Rightarrow> bool" where
  "getbalance_ok x \<longleftrightarrow> length (gID x) = 8 \<and> hashes_ok (gCiphers x) \<and> ivs_ok (gNonces x)"

definition getbalance_fields :: "getbalance \<Rightarrow> splice \<Rightarrow> splice res" where
  "getbalance_fields x = chain [wMagic ''getb'', wID (gID x), wCiphers (gCiphers x), wNonces (gNonces x)]"

lemma getbalance_writes:
  "getbalance_ok x \<Longrightarrow> writes (getbalance_fields x) (bytes_of_string ''getb'' @ getbalance_body x)"
  unfolding getbalance_body_def getbalance_fields_def getbalance_ok_def
  by (intro writes_intros) (elim conjE, simp)+

lemma getbalance_reads: "getbalance_ok x \<Longrightarrow> reads getbalance_Decode (getbalance_body x) x"
  unfolding getbalance_Decode_def [abs_def] getbalance_body_def getbalance_ok_def
  by (rule reads_guarded reads_map_eq reads_chain onion_reads
      | simp add: GetBalanceLen_def length_concat_three)+

lemma length_getbalance_body [len_simps]: "getbalance_ok x \<Longrightarrow> length (getbalance_body x) = 152"
  by (auto simp: getbalance_body_def getbalance_ok_def length_concat_three)

interpretation getbalance: message_codec "''getb''" getbalance_fields getbalance_Decode
    getbalance_body getbalance_ok "\<lambda>_. GetBalanceLen"
  by unfold_locales
    (simp_all add: getbalance_writes getbalance_reads GetBalanceLen_def len_simps)

definition exit_body :: "exit_msg \<Rightarrow> bytes" where
  "exit_body x = xID x @ concat (xCiphers x) @ concat (xNonces x) @ le_bytes 2 (xPort x) @ bytes_image (xBytes x)"

definition exit_ok :: "exit_msg \<Rightarrow> bool" where
  "exit_ok x \<longleftrightarrow> length (xID x) = 8 \<and> hashes_ok (xCiphers x) \<and> ivs_ok (xNonces x) \<and> length (xBytes x) < 2 ^ 32"

definition exit_fields :: "exit_msg \<Rightarrow> splice \<Rightarrow> splice res" where
  "exit_fields x = chain [wMagic ''exit'', wID (xID x), wCiphers (xCiphers x), wNonces (xNonces x),
     wUint16 (xPort x), wBytes (xBytes x)]"

lemma exit_writes: "exit_ok x \<Longrightarrow> writes (exit_fields x) (bytes_of_string ''exit'' @ exit_body x)"
  unfolding exit_body_def exit_fields_def exit_ok_def
  by (intro writes_intros) (elim conjE, simp)+

lemma exit_reads: "exit_ok x \<Longrightarrow> reads exit_Decode (exit_body x) x"
  unfolding exit_Decode_def [abs_def] exit_body_def exit_ok_def
  by (rule reads_guarded reads_map_eq reads_chain onion_reads
      | simp add: exit_Len_def length_concat_three len_simps)+

lemma length_exit_body [len_simps]: "exit_ok x \<Longrightarrow> length (exit_body x) = 158 + length (xBytes x)"
  by (auto simp: exit_body_def exit_ok_def length_concat_three len_simps)

interpretation exit: message_codec "''exit''" exit_fields exit_Decode exit_body exit_ok
    "\<lambda>x. exit_Len + length (xBytes x)"
  by unfold_locales
    (simp_all add: exit_writes exit_reads exit_Len_def len_simps)

text \<open>The hop of a session message is not on the wire: it comes back as zero.\<close>

definition session_body :: "crypto_ops \<Rightarrow> session_msg \<Rightarrow> bytes" where
  "session_body C x = sID x @ Prv_ToBytes C (kPrv (the (sHeader x))) @ Prv_ToBytes C (kPrv (the (sPayload x)))"

definition session_ok :: "crypto_ops \<Rightarrow> session_msg \<Rightarrow> bool" where
  "session_ok C x \<longleftrightarrow> crypto_laws C \<and> length (sID x) = 8 \<and> sHop x = 0 \<and>
     (\<exists>h p. sHeader x = Some (MakeKeys C h) \<and> sPayload x = Some (MakeKeys C p) \<and> valid_prv C h \<and> valid_prv C p)"

definition session_fields :: "crypto_ops \<Rightarrow> session_msg \<Rightarrow> splice \<Rightarrow> splice res" where
  "session_fields C x = chain [wMagic ''sess'', wID (sID x), wPrvkey C (kPrv (the (sHeader x))),
     wPrvkey C (kPrv (the (sPayload x)))]"

lemma kPrv_MakeKeys [simp]: "kPrv (MakeKeys C h) = h" "kPub (MakeKeys C h) = prv_pub C h"
  by (simp_all add: MakeKeys_def Let_def)

lemma session_writes:
  "session_ok C x \<Longrightarrow> writes (session_fields C x) (bytes_of_string ''sess'' @ session_body C x)"
  unfolding session_body_def session_fields_def session_ok_def
  by (intro writes_intros) (elim conjE, simp)+

lemma session_reads: "session_ok C x \<Longrightarrow> reads (session_Decode C) (session_body C x) x"
proof -
  assume "session_ok C x"
  then obtain i h p where x: "x = \<lparr>sID = i, sHop = 0, sHeader = Some (MakeKeys C h), sPayload = Some (MakeKeys C p)\<rparr>"
    and ok: "length i = 8" "crypto_laws C" "valid_prv C h" "valid_prv C p"
    unfolding session_ok_def by (metis session_msg.surjective old.unit.exhaust)
  show ?thesis
    unfolding session_Decode_def [abs_def] session_body_def
    by (rule ok reads_guarded reads_map_eq reads_chain onion_reads | simp add: session_Len_def x ok)+
qed

lemma length_session_body [len_simps]: "session_ok C x \<Longrightarrow> length (session_body C x) = 72"
  by (auto simp: session_body_def session_ok_def length_concat_three)

interpretation session: message_codec "''sess''" "session_fields C" "session_Decode C" "session_body C"
    "session_ok C" "\<lambda>_. session_Len" for C
  by unfold_locales
    (simp_all add: session_writes session_reads session_Len_def len_simps)

definition introquery_body :: "crypto_ops \<Rightarrow> introquery \<Rightarrow> bytes" where
  "introquery_body C x = qID x @ concat (qCiphers x) @ concat (qNonces x) @ Pub_ToBytes C (the (qKey x))"

definition introquery_ok :: "crypto_ops \<Rightarrow> introquery \<Rightarrow> bool" where
  "introquery_ok C x \<longleftrightarrow> crypto_laws C \<and> length (qID x) = 8 \<and> hashes_ok (qCiphers x) \<and> ivs_ok (qNonces x) \<and>
     (\<exists>p. qKey x = Some p \<and> valid_pub C p)"

definition introquery_fields :: "crypto_ops \<Rightarrow> introquery \<Rightarrow> splice \<Rightarrow> splice res" where
  "introquery_fields C x = chain [wMagic ''intq'', wID (qID x), wCiphers (qCiphers x), wNonces (qNonces x),
     wPubkey C (qKey x)]"

lemma writes_Some_Pubkey: "k = Some p \<Longrightarrow> writes (wPubkey C k) (Pub_ToBytes C (the k))"
  using writes_intros by simp

lemma introquery_writes:
  "introquery_ok C x \<Longrightarrow> writes (introquery_fields C x) (bytes_of_string ''intq'' @ introquery_body C x)"
  unfolding introquery_body_def introquery_fields_def introquery_ok_def
  by (intro writes_chain_Cons writes_chain_single writes_fixed writes_three) (auto intro: writes_Some_Pubkey)

lemma introquery_reads: "introquery_ok C x \<Longrightarrow> reads (introquery_Decode C) (introquery_body C x) x"
proof -
  assume "introquery_ok C x"
  then obtain i cs ns p where x: "x = \<lparr>qID = i, qCiphers = cs, qNonces = ns, qKey = Some p\<rparr>"
    and ok: "length i = 8" "hashes_ok cs" "ivs_ok ns" "crypto_laws C" "valid_pub C p"
    unfolding introquery_ok_def by (metis introquery.surjective old.unit.exhaust)
  show ?thesis
    unfolding introquery_Decode_def [abs_def] introquery_body_def
    by (rule ok reads_guarded reads_map_eq reads_chain onion_reads
        | simp add: introquery_Len_def x ok length_concat_three)+
qed

lemma length_introquery_body [len_simps]: "introquery_ok C x \<Longrightarrow> length (introquery_body C x) = 185"
  by (auto simp: introquery_body_def introquery_ok_def length_concat_three)

interpretation introquery: message_codec "''intq''" "introquery_fields C" "introquery_Decode C" "introquery_body C"
    "introquery_ok C" "\<lambda>_. introquery_Len" for C
  by unfold_locales
    (simp_all add: introquery_writes introquery_reads introquery_Len_def len_simps)

end
