(* ===== verification/Dispatch.thy ===== *)
theory Dispatch
  imports Onion_Props
begin

text \<open>
  The messages two dispatchers exchange, \<^verbatim>\<open>pkg/engine/dispatcher/dispatcher_messages.go\<close>: a new public key, an
  acknowledgement of what was received, and a packed onion.
\<close>

section \<open>Messages\<close>

record rx_record =
  rxID :: bytes
  rxHash :: bytes
  rxFirst :: gotime
  rxLast :: gotime
  rxSize :: u64
  rxReceived :: u64
  rxPing :: u64

section \<open>Acknowledge\<close>

definition acknowledge_Len :: nat where
  "acknowledge_Len = 4 + IDLen + sha256_Len + 5 * Uint64Len"

text \<open>The guard compares with the length of the whole splice.\<close>

definition acknowledge_Decode :: "splice \<Rightarrow> (rx_record \<times> splice) res" where
  "acknowledge_Decode s =
     (if Splice_Len s < int acknowledge_Len then Inl (Error ''message too short'')
      else rbind (ReadID s) (\<lambda>(i, s). rbind (ReadHash s) (\<lambda>(h, s). rbind (ReadTime s) (\<lambda>(f, s).
           rbind (ReadTime s) (\<lambda>(l, s). rbind (ReadUint64 s) (\<lambda>(z, s). rbind (ReadUint64 s) (\<lambda>(r, s).
           rbind (ReadDuration s) (\<lambda>(p, s).
             Inr (\<lparr>rxID = i, rxHash = h, rxFirst = f, rxLast = l, rxSize = z, rxReceived = r, rxPing = p\<rparr>, s)))))))))"

definition acknowledge_Encode :: "rx_record \<Rightarrow> splice \<Rightarrow> splice res" where
  "acknowledge_Encode a s = chain [wMagic ''ackn'', wID (rxID a), wHash (rxHash a), wTime (rxFirst a), wTime (rxLast a),
     wUint64 (rxSize a), wUint64 (rxReceived a), wDuration (rxPing a)] s"

section \<open>NewKey\<close>

definition newkey_Len :: nat where
  "newkey_Len = 4 + PubKeyLen"

definition newkey_Decode :: "crypto_ops \<Rightarrow> splice \<Rightarrow> (pub option \<times> splice) res" where
  "newkey_Decode C s =
     (if Splice_Len s < int newkey_Len then Inl (Error ''message too short'')
      else rbind (ReadPubkey C s) (\<lambda>(k, s1). if k = None then Inl (Error ''invalid public key'') else Inr (k, s1)))"

definition newkey_Encode :: "crypto_ops \<Rightarrow> pub option \<Rightarrow> splice \<Rightarrow> splice res" where
  "newkey_Encode C k s = chain [wMagic ''newK'', wPubkey C k] s"

section \<open>Packed onions\<close>

definition packed_Len :: "bytes \<Rightarrow> nat" where
  "packed_Len b = 4 + length b + 4"

definition packed_Decode :: "splice \<Rightarrow> (bytes \<times> splice) res" where
  "packed_Decode s =
     (if Splice_Len s < int (packed_Len []) then Inl (Error ''message too short'') else ReadBytes s)"

definition packed_Encode :: "bytes \<Rightarrow> splice \<Rightarrow> splice res" where
  "packed_Encode b s = chain [wMagic ''onio'', wBytes b] s"

text \<open>The zero value a registered generator makes, for the kinds that are onions; \<^verbatim>\<open>Unpack\<close> recognises the magic
  of the packed message and returns this value without decoding the rest.\<close>

definition zero_id :: bytes where
  "zero_id = replicate IDLen 0"

definition zero_header :: bytes where
  "zero_header = replicate RoutingHeaderLen 0"

definition zero_onion :: "msg_kind \<Rightarrow> onion option" where
  "zero_onion k = (case k of
      KCrypt \<Rightarrow> Some (OCrypt \<lparr>cDepth = 0, cToHeaderPub = None, cToPayloadPub = None, cFrom = None, cIV = replicate IVLen 0,
                   cCloak = replicate CloakLen 0, cToPriv = None, cFromPub = None\<rparr> ONil)
    | KForward \<Rightarrow> Some (OForward None ONil)
    | KReverse \<Rightarrow> Some (OReverse None ONil)
    | KExit \<Rightarrow> Some (OExit \<lparr>xID = zero_id, xCiphers = zero_ciphers, xNonces = zero_nonces, xPort = 0, xBytes = []\<rparr> ONil)
    | KSession \<Rightarrow> Some (OSession \<lparr>sID = zero_id, sHop = 0, sHeader = None, sPayload = None\<rparr> ONil)
    | KDelay \<Rightarrow> Some (ODelay 0 ONil)
    | KGetBalance \<Rightarrow> Some (OGetBalance \<lparr>gID = zero_id, gCiphers = zero_ciphers, gNonces = zero_nonces\<rparr> ONil)
    | KBalance \<Rightarrow> Some (OBalance \<lparr>bID = zero_id, bMilliSatoshi = 0\<rparr>)
    | KConfirmation \<Rightarrow> Some (OConfirmation zero_id)
    | KEnd \<Rightarrow> Some OEnd
    | KResponse \<Rightarrow> Some (OResponse \<lparr>pID' = zero_id, pPort = 0, pLoad = 0, pBytes = []\<rparr>)
    | KIntroQuery \<Rightarrow> Some (OIntroQuery \<lparr>qID = zero_id, qCiphers = zero_ciphers, qNonces = zero_nonces, qKey = None\<rparr> ONil)
    | KReady \<Rightarrow> Some (OReady \<lparr>yID = zero_id, yAddress = None, yForward = None, yReturn = None\<rparr>)
    | KRoute \<Rightarrow> Some (ORoute \<lparr>rHiddenService = None, rHiddenCloaked = replicate CloakLen 0, rSender = None, rSenderPub = None,
                   rIV = replicate IVLen 0, rID = zero_id, rCiphers = zero_ciphers, rNonces = zero_nonces,
                   rHeader = zero_header\<rparr> ONil)
    | KHiddenService \<Rightarrow> Some (OHiddenService \<lparr>hIntro = \<lparr>aID = zero_id, aKey = None, aExpiry = GoTime (- 62135596800) 0, aSig = replicate SigLen 0,
                   iIntroducer = None, iPort = 0, iRelayRate = 0\<rparr>, hCiphers = zero_ciphers, hNonces = zero_nonces,
                   hHeader = zero_header\<rparr> ONil)
    | KMessage \<Rightarrow> Some (OMessage \<lparr>wAddress = None, wMsgID = zero_id, wRe = zero_id, wForward = None, wReturn = None,
                   wPayload = []\<rparr>)
    | _ \<Rightarrow> None)"

definition Unpack :: "registry \<Rightarrow> bytes \<Rightarrow> onion option res" where
  "Unpack reg b = rbind (Recognise reg (NewFrom b)) (\<lambda>(k, _). Inr (Option.bind k zero_onion))"

section \<open>Round trips\<close>

text \<open>The guards of these decoders count the magic, so they pass only behind one; the receiver has read it.\<close>

lemma guarded_roundtrip:
  assumes enc: "writes enc (bytes_of_string (magic_of k) @ body)" and dec: "reads dec body v"
    and k: "k \<in> set ks" and l: "l = 4 + length body" and n: "n \<le> l"
  shows "\<exists>s s1 s2. Codec_Encode l enc = Inr s \<and> length (sb s) = l \<and>
     Recognise (registry_of ks) (NewFrom (sb s)) = Inr (Some k, s1) \<and>
     (if Splice_Len s1 < int n then Inl (Error m) else dec s1) = Inr (v, s2)"
proof -
  have "length (bytes_of_string (magic_of k) @ body) \<le> length (replicate l (0 :: byte))" using l by simp
  then obtain s where s: "enc (New l) = Inr s"
      "splice_at s ([] @ bytes_of_string (magic_of k) @ body) (drop (length (bytes_of_string (magic_of k) @ body)) (replicate l 0))"
    using writes_at [OF enc splice_at_New [of l]] by blast
  then have b: "sb s = bytes_of_string (magic_of k) @ body" using l by (simp add: splice_at_def)
  have "splice_at (NewFrom (sb s)) [] (bytes_of_string (magic_of k) @ body @ [])" by (simp add: b)
  with Recognise_reads [OF k] obtain s1 where s1: "Recognise (registry_of ks) (NewFrom (sb s)) = Inr (Some k, s1)"
      "splice_at s1 ([] @ bytes_of_string (magic_of k)) (body @ [])"
    by (rule reads_at)
  from dec s1(2) obtain s2 where "dec s1 = Inr (v, s2)" by (rule reads_at)
  moreover have "\<not> Splice_Len s1 < int n" using s1(2) l n by (simp add: splice_at_def Splice_Len_def)
  ultimately show ?thesis using s(1) s1(1) b l by (simp add: Codec_Encode_def)
qed

text \<open>Times travel in whole seconds.\<close>

definition rx_ok :: "rx_record \<Rightarrow> bool" where
  "rx_ok a \<longleftrightarrow> length (rxID a) = 8 \<and> length (rxHash a) = 32 \<and> t_nsec (rxFirst a) = 0 \<and> t_nsec (rxLast a) = 0"

definition rx_body :: "rx_record \<Rightarrow> bytes" where
  "rx_body a = rxID a @ rxHash a @ le_bytes 8 (t_unix (rxFirst a)) @ le_bytes 8 (t_unix (rxLast a)) @
     le_bytes 8 (rxSize a) @ le_bytes 8 (rxReceived a) @ le_bytes 8 (rxPing a)"

lemma reads_whole_time: "t_nsec t = 0 \<Longrightarrow> reads ReadTime (le_bytes 8 (t_unix t)) t"
  using reads_u64 by (cases t) simp

text \<open>An acknowledgement round trips: what the receiver recognises and decodes is the record that was sent, with
  times cut to seconds.\<close>

theorem acknowledge_roundtrip:
  assumes "rx_ok a" and "KAcknowledge \<in> set ks"
  shows "\<exists>s s1 s2. Codec_Encode acknowledge_Len (acknowledge_Encode a) = Inr s \<and> length (sb s) = acknowledge_Len \<and>
     Recognise (registry_of ks) (NewFrom (sb s)) = Inr (Some KAcknowledge, s1) \<and> acknowledge_Decode s1 = Inr (a, s2)"
proof -
  have ok: "length (rxID a) = 8" "length (rxHash a) = 32" "t_nsec (rxFirst a) = 0" "t_nsec (rxLast a) = 0"
    using assms(1) by (simp_all add: rx_ok_def)
  have w: "writes (acknowledge_Encode a) (bytes_of_string (magic_of KAcknowledge) @ rx_body a)"
    using assms(1) unfolding acknowledge_Encode_def [abs_def] rx_body_def
    by (auto simp: rx_ok_def magic_of_def intro!: writes_intros)
  have r: "reads (\<lambda>s. rbind (ReadID s) (\<lambda>(i, s). rbind (ReadHash s) (\<lambda>(h, s). rbind (ReadTime s) (\<lambda>(f, s).
           rbind (ReadTime s) (\<lambda>(l, s). rbind (ReadUint64 s) (\<lambda>(z, s). rbind (ReadUint64 s) (\<lambda>(r, s).
           rbind (ReadDuration s) (\<lambda>(p, s).
             Inr (\<lparr>rxID = i, rxHash = h, rxFirst = f, rxLast = l, rxSize = z, rxReceived = r, rxPing = p\<rparr>, s)))))))))
      (rx_body a) a"
    unfolding rx_body_def
    by (rule reads_map_eq reads_chain reads_whole_time onion_reads | simp add: ok)+
  have "length (rx_body a) = 80" using assms(1) by (simp add: rx_body_def rx_ok_def)
  then show ?thesis
    using guarded_roundtrip [OF w r assms(2), of acknowledge_Len acknowledge_Len]
    unfolding acknowledge_Decode_def by (simp add: acknowledge_Len_def)
qed

theorem acknowledge_roundtrip_witness:
  "\<exists>s s1 s2. Codec_Encode acknowledge_Len (acknowledge_Encode
      \<lparr>rxID = replicate 8 1, rxHash = replicate 32 2, rxFirst = GoTime 100 0, rxLast = GoTime 101 0, rxSize = 4000,
       rxReceived = 4600, rxPing = 20\<rparr>) = Inr s \<and> length (sb s) = acknowledge_Len \<and>
     Recognise (registry_of all_kinds) (NewFrom (sb s)) = Inr (Some KAcknowledge, s1) \<and>
     acknowledge_Decode s1 = Inr (\<lparr>rxID = replicate 8 1, rxHash = replicate 32 2, rxFirst = GoTime 100 0,
       rxLast = GoTime 101 0, rxSize = 4000, rxReceived = 4600, rxPing = 20\<rparr>, s2)"
  by (rule acknowledge_roundtrip) (simp_all add: rx_ok_def all_kinds_def)

end
