(* ===== verification/Engine.thy ===== *)
theory Engine
  imports Hidden Select Dispatch
begin

text \<open>
  The engine: its state (\<^verbatim>\<open>pkg/engine/engine.go\<close>), what the \<^verbatim>\<open>Handle\<close> method of each message does to it
  (\<^verbatim>\<open>pkg/codec/onion\<close>), \<^verbatim>\<open>HandleMessage\<close> and the event loop \<^verbatim>\<open>Handler\<close>. A handler calls \<^verbatim>\<open>HandleMessage\<close> only as the last
  thing it does, so a handler returns the splice and the message for that call, and \<^verbatim>\<open>HandleMessage\<close> is a loop with
  fuel. An error a handler returns is only logged; the handlers return errors before they change anything.
  What goes to a transport, which callbacks ran and which payments were confirmed is recorded in the state. A node's
  mutex that is left locked stays in \<open>enLocked\<close>; locking it again blocks forever, the value \<open>None\<close>.
\<close>

section \<open>Computations that may not return\<close>

type_synonym 'a run = "'a res option"

definition obind :: "'a run \<Rightarrow> ('a \<Rightarrow> 'b run) \<Rightarrow> 'b run" where
  "obind m f = (case m of None \<Rightarrow> None | Some (Inl e) \<Rightarrow> Some (Inl e) | Some (Inr x) \<Rightarrow> f x)"

fun ofold :: "('a \<Rightarrow> 's \<Rightarrow> 's run) \<Rightarrow> 'a list \<Rightarrow> 's \<Rightarrow> 's run" where
  "ofold f [] s = Some (Inr s)"
| "ofold f (x # xs) s = obind (f x s) (ofold f xs)"

lemma obind_simps [simp]:
  "obind None f = None" "obind (Some (Inl e)) f = Some (Inl e)" "obind (Some (Inr x)) f = f x"
  by (simp_all add: obind_def)

lemma obind_InrE:
  assumes "obind m f = Some (Inr y)"
  obtains x where "m = Some (Inr x)" and "f x = Some (Inr y)"
  using assms by (auto simp: obind_def split: option.splits sum.splits)

section \<open>State\<close>

text \<open>The accounting hooks of a sent message: charge a session for relaying a message of a length, or for
  the exit to the \<open>j\<close>-th service of its node.\<close>

datatype acct = AcctRelay nat nat | AcctExit nat nat nat

record engine =
  enMgr :: mgr
  enHidden :: hidden
  enPending :: "(acct, nat) response list"
  enKeys :: keyset
  enLoad :: u32
  enPaused :: bool
  enLocked :: "nat list"
  enSent :: "(nat \<times> bytes) list"
  enCalls :: "(nat \<times> bytes \<times> bytes) list"
  enConfirmed :: "nat list"

text \<open>What the surroundings supply to one round: the primitives, string forms of addresses, random draws, the
  orders of map ranges, what a local service answers (\<open>None\<close> when the timer fires first), what a callback returns, the
  address of a newly allocated session, and fuel for the search of a circuit.\<close>

record engine_env =
  evC :: crypto_ops
  evM :: maddr_ops
  evPort :: u16
  evReg :: registry
  evStr :: "multiaddr \<Rightarrow> string"
  evYellow :: "multiaddr option \<Rightarrow> string"
  evAddKey :: "multiaddr \<Rightarrow> pub \<Rightarrow> multiaddr option"
  evSendDraw :: "nat \<Rightarrow> nat \<Rightarrow> nat"
  evHopDraw :: "nat \<Rightarrow> nat \<Rightarrow> nat \<Rightarrow> nat"
  evDraw :: "nat \<Rightarrow> nat"
  evRand :: "bytes option"
  evNonces :: "bytes list"
  evBlind :: "nat \<Rightarrow> bytes"
  evService :: "u16 \<Rightarrow> bytes option"
  evRun :: "nat \<Rightarrow> go_error option"
  evNew :: nat
  evMine :: "hidden \<Rightarrow> bytes list"
  evServices :: "hidden \<Rightarrow> bytes list"
  evKnown :: "hidden \<Rightarrow> bytes list"
  evFuel :: nat

definition GetLoad :: "engine \<Rightarrow> byte" where
  "GetLoad e = ucast (enLoad e)"

definition SetLoad :: "byte \<Rightarrow> engine \<Rightarrow> engine" where
  "SetLoad l e = e\<lparr>enLoad := ucast l\<rparr>"

definition local_address :: "engine_env \<Rightarrow> engine \<Rightarrow> string res" where
  "local_address ev e = GetLocalNodeAddressString (evYellow ev) (evDraw ev) (enMgr e)"

section \<open>Shared steps of the handlers\<close>

definition charge :: "bytes \<Rightarrow> int \<Rightarrow> engine \<Rightarrow> engine res" where
  "charge k msats e = rbind (DecSession k msats (enMgr e)) (\<lambda>(m, _). Inr (e\<lparr>enMgr := m\<rparr>))"

definition lock_node :: "nat \<Rightarrow> engine \<Rightarrow> engine run" where
  "lock_node r e = (if r \<in> set (enLocked e) then None else Some (Inr (e\<lparr>enLocked := r # enLocked e\<rparr>)))"

definition unlock_node :: "nat \<Rightarrow> engine \<Rightarrow> engine run" where
  "unlock_node r e =
     (if r \<in> set (enLocked e) then Some (Inr (e\<lparr>enLocked := filter (\<lambda>x. x \<noteq> r) (enLocked e)\<rparr>))
      else Some (Inl (Panic ''sync: unlock of unlocked mutex'')))"

definition matches_local :: "multiaddr option \<Rightarrow> mgr \<Rightarrow> bool res" where
  "matches_local a m =
     (case a of
        Some ma \<Rightarrow> MatchesLocalNodeAddress ma m
      | None \<Rightarrow> rbind (local_node m) (\<lambda>n. if ndAddresses n = [] then Inr False else Inl nil_panic))"

text \<open>\<^verbatim>\<open>FindSessionByHeader(on.ToPriv)\<close> when the previous message was a crypt.\<close>

definition session_of_prev :: "onion \<Rightarrow> mgr \<Rightarrow> nat option res" where
  "session_of_prev prev m =
     (case prev of
        OCrypt on _ \<Rightarrow> (case cToPriv on of
            Some k \<Rightarrow> FindSessionByHeader k m
          | None \<Rightarrow> if mgSessions m = [] then Inr None else Inl nil_panic)
      | _ \<Rightarrow> Inr None)"

definition session_header :: "nat \<Rightarrow> mgr \<Rightarrow> bytes res" where
  "session_header r m = rbind (sess_at m r) header_bytes"

definition session_node :: "nat \<Rightarrow> mgr \<Rightarrow> node res" where
  "session_node r m = rbind (sess_at m r) (node_of m)"

text \<open>The charge for a request and its reply, half the relay rate for each.\<close>

definition charge_both :: "onion \<Rightarrow> int \<Rightarrow> int \<Rightarrow> engine \<Rightarrow> engine res" where
  "charge_both prev inlen outlen e = rbind (session_of_prev prev (enMgr e)) (\<lambda>f.
     case f of
       None \<Rightarrow> Inr e
     | Some r \<Rightarrow> rbind (session_node r (enMgr e)) (\<lambda>n. rbind (session_header r (enMgr e)) (\<lambda>h.
         rbind (go_div (int (unat (ndRelayRate n)) * inlen) 2) (\<lambda>i.
         rbind (go_div (int (unat (ndRelayRate n)) * outlen) 2) (\<lambda>out. charge h (i + out) e)))))"

definition run_acct :: "acct \<Rightarrow> mgr \<Rightarrow> mgr res" where
  "run_acct a m =
     (case a of
        AcctRelay r len \<Rightarrow> rbind (session_header r m) (\<lambda>h. rbind (session_node r m) (\<lambda>n.
          rbind (DecSession h (int (unat (ndRelayRate n)) * int len) m) (\<lambda>(m', _). Inr m')))
      | AcctExit r j len \<Rightarrow> rbind (session_header r m) (\<lambda>h. rbind (session_node r m) (\<lambda>n.
          rbind (index_expr (ndServices n) (int j)) (\<lambda>sv.
          rbind (go_div (int (unat (svcRelayRate sv)) * int len) 2) (\<lambda>a.
          rbind (DecSession h a m) (\<lambda>(m', _). Inr m'))))))"

text \<open>\<^verbatim>\<open>Pending().ProcessAndDelete\<close>: the accounting hooks, then the callback with the payload.\<close>

definition finish_pending :: "engine_env \<Rightarrow> bytes \<Rightarrow> bytes \<Rightarrow> engine \<Rightarrow> engine res" where
  "finish_pending ev i payload e = rbind (ProcessAndDelete (evRun ev) i (enPending e)) (\<lambda>(ran, p).
     case ran of
       None \<Rightarrow> Inr e
     | Some (hooks, cb, _) \<Rightarrow> rbind (rfold run_acct hooks (enMgr e)) (\<lambda>m.
         Inr (e\<lparr>enMgr := m, enPending := p, enCalls := enCalls e @ [(cb, i, payload)]\<rparr>)))"

definition find_session_id :: "bytes \<Rightarrow> mgr \<Rightarrow> nat option res" where
  "find_session_id i m = IterateSessions (\<lambda>r st. rbind (sess_at m r) (\<lambda>sd.
     Inr (if sdID sd = i then (True, Some r) else (False, st)))) m None"

text \<open>The result of a handler: the engine and, where it calls \<^verbatim>\<open>HandleMessage\<close>, the splice and the message for it.\<close>

type_synonym outcome = "engine \<times> (splice \<times> onion) option"

definition handle_next :: "engine_env \<Rightarrow> splice \<Rightarrow> onion \<Rightarrow> engine \<Rightarrow> outcome res" where
  "handle_next ev s prev e = rbind (BudgeUp (evC ev) (evRand ev) s) (\<lambda>s'. Inr (e, Some (s', prev)))"

section \<open>Handlers of the layers\<close>

definition crypt_Handle :: "engine_env \<Rightarrow> crypt \<Rightarrow> onion \<Rightarrow> splice \<Rightarrow> engine \<Rightarrow> outcome res" where
  "crypt_Handle ev x inner s e = rbind (FindCloaked (evC ev) (cCloak x) (enMgr e)) (\<lambda>(hdr, _, _, ident).
     case hdr of
       None \<Rightarrow> Inr (e, None)
     | Some k \<Rightarrow>
         let x' = x\<lparr>cToPriv := Some k\<rparr> in
         rbind (crypt_Decrypt (evC ev) k x' s) (\<lambda>s1.
         rbind (if ident then rbind (GetRest s1) (\<lambda>rest. slice_expr rest 0 (int magic_Len))
                else Inr (bytes_of_string ''sess'')) (\<lambda>mg.
           if mg \<noteq> bytes_of_string ''sess'' then Inr (e, None)
           else handle_next ev s1 (OCrypt x' inner) e)))"

definition forward_Handle :: "engine_env \<Rightarrow> multiaddr option \<Rightarrow> onion \<Rightarrow> splice \<Rightarrow> onion \<Rightarrow> engine \<Rightarrow> outcome res" where
  "forward_Handle ev a inner s prev e = rbind (matches_local a (enMgr e)) (\<lambda>mine.
     if mine then handle_next ev s (OForward a inner) e
     else
       rbind (rbind (session_of_prev prev (enMgr e)) (\<lambda>f.
           case f of
             None \<Rightarrow> Inr e
           | Some r \<Rightarrow> rbind (session_header r (enMgr e)) (\<lambda>h. rbind (GetLocalNodeRelayRate (enMgr e)) (\<lambda>rate.
               charge h (int (unat rate) * Splice_Len s) e)))) (\<lambda>e1.
       rbind (BudgeUp (evC ev) (evRand ev) s) (\<lambda>s1.
       rbind (mgr_Send (evStr ev) (evYellow ev) (evSendDraw ev) (evDraw ev) a (sb s1) (enMgr e1)) (\<lambda>sent.
         Inr (e1\<lparr>enSent := enSent e1 @ (case sent of None \<Rightarrow> [] | Some x \<Rightarrow> [x])\<rparr>, None)))))"

text \<open>The part of \<^verbatim>\<open>Reverse.Handle\<close> behind the search for the keys: the header is shifted up by one layer and padded,
  the payload is deciphered. The result is the position the next message starts at, if any.\<close>

definition shift_header :: "engine_env \<Rightarrow> prv \<Rightarrow> prv \<Rightarrow> crypt \<Rightarrow> splice \<Rightarrow> splice res" where
  "shift_header ev hdr pld on s =
     (let first = GetCursor s; start = first - int ReverseCryptLen; scnd = first + int ReverseCryptLen;
          last = scnd + int ReverseCryptLen in
      rbind (deref (cFromPub on)) (\<lambda>fp.
      rbind (encipher_range (GetBlock (evC ev) hdr fp) (cIV on) first (first + 2 * int ReverseCryptLen) s) (\<lambda>s1.
      rbind (CopyRanges start first first scnd s1) (\<lambda>s2.
      rbind (CopyRanges first scnd scnd last s2) (\<lambda>s3.
      rbind (CopyIntoRange (NoisePad (evC ev) (evRand ev) ReverseCryptLen) scnd last s3) (\<lambda>s4.
        if last \<noteq> Splice_Len s4 then encipher_from (GetBlock (evC ev) pld fp) (cIV on) last s4 else Inr s4))))))"

definition reverse_local :: "engine_env \<Rightarrow> splice \<Rightarrow> engine \<Rightarrow> outcome res" where
  "reverse_local ev s e =
     rbind (crypt_Decode (evC ev) s) (\<lambda>(on, s1).
     let first = GetCursor s1; start = first - int ReverseCryptLen; last = first + 2 * int ReverseCryptLen in
     rbind (FindCloaked (evC ev) (cCloak on) (enMgr e)) (\<lambda>(hdr, pld, _, _).
       case (hdr, pld) of
         (Some h, Some p) \<Rightarrow>
           let on' = on\<lparr>cToPriv := Some h\<rparr> in
           rbind (shift_header ev h p on' s1) (\<lambda>s2.
           rbind (GetRange start (start + int magic_Len) s2) (\<lambda>mg.
             if mg \<noteq> bytes_of_string ''rvrs'' then handle_next ev (SetCursor last s2) (OCrypt on' ONil) e
             else rbind (FindSessionByHeader h (enMgr e)) (\<lambda>f.
               case f of
                 None \<Rightarrow> Inr (e, None)
               | Some r \<Rightarrow> rbind (session_header r (enMgr e)) (\<lambda>hb. rbind (GetLocalNodeRelayRate (enMgr e)) (\<lambda>rate.
                   rbind (charge hb (int (unat rate) * Splice_Len s2) e) (\<lambda>e1.
                     handle_next ev (SetCursor start s2) (OCrypt on' ONil) e1))))))
       | _ \<Rightarrow> rbind (local_address ev e) (\<lambda>_. Inr (e, None))))"

section \<open>Decoding any registered message\<close>

datatype message =
    MOnion onion
  | MAddresses addresses_ad | MIntro intro_ad | MLoad load_ad | MPeer peer_ad | MServices services_ad
  | MNewKey "pub option" | MAcknowledge rx_record | MPacked bytes

definition rmap_fst :: "('a \<Rightarrow> 'b) \<Rightarrow> ('a \<times> splice) res \<Rightarrow> ('b \<times> splice) res" where
  "rmap_fst f m = rbind m (\<lambda>(x, s). Inr (f x, s))"

text \<open>The dynamic dispatch of \<^verbatim>\<open>Decode\<close> on the value the registered generator made.\<close>

definition codec_Decode :: "engine_env \<Rightarrow> msg_kind \<Rightarrow> splice \<Rightarrow> (message \<times> splice) res" where
  "codec_Decode ev k s = (let C = evC ev; M = evM ev in case k of
      KAddressesAd \<Rightarrow> rmap_fst MAddresses (addresses_Decode C M s)
    | KIntroAd \<Rightarrow> rmap_fst MIntro (intro_Decode C s)
    | KLoadAd \<Rightarrow> rmap_fst MLoad (load_Decode C s)
    | KPeerAd \<Rightarrow> rmap_fst MPeer (peer_Decode C s)
    | KServicesAd \<Rightarrow> rmap_fst MServices (services_Decode C s)
    | KCrypt \<Rightarrow> rmap_fst (\<lambda>x. MOnion (OCrypt x ONil)) (crypt_Decode C s)
    | KForward \<Rightarrow> rmap_fst (\<lambda>a. MOnion (OForward a ONil)) (forward_Decode M s)
    | KReverse \<Rightarrow> rmap_fst (\<lambda>a. MOnion (OReverse a ONil)) (reverse_Decode M s)
    | KExit \<Rightarrow> rmap_fst (\<lambda>x. MOnion (OExit x ONil)) (exit_Decode s)
    | KSession \<Rightarrow> rmap_fst (\<lambda>x. MOnion (OSession x ONil)) (session_Decode C s)
    | KDelay \<Rightarrow> rmap_fst (\<lambda>d. MOnion (ODelay d ONil)) (delay_Decode s)
    | KGetBalance \<Rightarrow> rmap_fst (\<lambda>x. MOnion (OGetBalance x ONil)) (getbalance_Decode s)
    | KBalance \<Rightarrow> rmap_fst (\<lambda>x. MOnion (OBalance x)) (balance_Decode s)
    | KConfirmation \<Rightarrow> rmap_fst (\<lambda>x. MOnion (OConfirmation x)) (confirmation_Decode s)
    | KEnd \<Rightarrow> Inr (MOnion OEnd, s)
    | KResponse \<Rightarrow> rmap_fst (\<lambda>x. MOnion (OResponse x)) (response_Decode s)
    | KIntroQuery \<Rightarrow> rmap_fst (\<lambda>x. MOnion (OIntroQuery x ONil)) (introquery_Decode C s)
    | KReady \<Rightarrow> rmap_fst (\<lambda>x. MOnion (OReady x)) (ready_Decode C s)
    | KRoute \<Rightarrow> rmap_fst (\<lambda>x. MOnion (ORoute x ONil)) (route_Decode C s)
    | KHiddenService \<Rightarrow> rmap_fst (\<lambda>x. MOnion (OHiddenService x ONil)) (hiddenservice_Decode C s)
    | KMessage \<Rightarrow> rmap_fst (\<lambda>x. MOnion (OMessage x)) (message_Decode C s)
    | KNewKey \<Rightarrow> rmap_fst MNewKey (newkey_Decode C s)
    | KAcknowledge \<Rightarrow> rmap_fst MAcknowledge (acknowledge_Decode s)
    | KOnion \<Rightarrow> rmap_fst MPacked (packed_Decode s))"

text \<open>\<^verbatim>\<open>Unwrap\<close>: the message that is handled. The layers that return what they wrap return nil here, since \<^verbatim>\<open>Decode\<close>
  leaves it nil; \<^verbatim>\<open>Delay\<close> has no such method of its own and calls the one of the nil message it wraps.\<close>

definition onion_Unwrap :: "onion \<Rightarrow> onion res" where
  "onion_Unwrap x = (case x of
      OForward a inner \<Rightarrow> Inr inner
    | OReverse a inner \<Rightarrow> Inr inner
    | OExit m inner \<Rightarrow> Inr inner
    | OSession m inner \<Rightarrow> Inr inner
    | OIntroQuery m inner \<Rightarrow> Inr inner
    | ODelay d inner \<Rightarrow> Inl nil_panic
    | OBalance m \<Rightarrow> Inr ONil
    | OConfirmation i \<Rightarrow> Inr ONil
    | OReady m \<Rightarrow> Inr ONil
    | ORoute m inner \<Rightarrow> Inr ONil
    | OMessage m \<Rightarrow> Inr ONil
    | _ \<Rightarrow> Inr x)"

definition codec_Unwrap :: "registry \<Rightarrow> message \<Rightarrow> onion res" where
  "codec_Unwrap reg x = (case x of
      MOnion x \<Rightarrow> onion_Unwrap x
    | MPacked b \<Rightarrow> rbind (Unpack reg b) (\<lambda>u. Inr (case u of None \<Rightarrow> ONil | Some y \<Rightarrow> y))
    | _ \<Rightarrow> Inr ONil)"

definition reverse_Handle :: "engine_env \<Rightarrow> multiaddr option \<Rightarrow> splice \<Rightarrow> onion \<Rightarrow> engine \<Rightarrow> outcome res" where
  "reverse_Handle ev a s prev e = rbind (matches_local a (enMgr e)) (\<lambda>mine.
     if mine then
       rbind (Recognise (evReg ev) s) (\<lambda>(k, s0).
         case k of
           None \<Rightarrow> Inl nil_panic
         | Some kind \<Rightarrow> if kind = KCrypt then reverse_local ev s0 e
                        else rbind (codec_Decode ev kind s0) (\<lambda>_. Inr (e, None)))
     else if prev \<noteq> ONil then
       rbind (local_address ev e) (\<lambda>_.
       rbind (mgr_Send (evStr ev) (evYellow ev) (evSendDraw ev) (evDraw ev) a (sb s) (enMgr e)) (\<lambda>sent.
         Inr (e\<lparr>enSent := enSent e @ (case sent of None \<Rightarrow> [] | Some x \<Rightarrow> [x])\<rparr>, None)))
     else Inr (e, None))"

section \<open>Handlers of requests\<close>

text \<open>The loop over the services of the session's node in \<^verbatim>\<open>Exit.Handle\<close>, with the mutex of the node locked before it. It
  is unlocked in every pass that does not match.\<close>

fun exit_charge :: "u16 \<Rightarrow> bytes \<Rightarrow> int \<Rightarrow> int \<Rightarrow> nat \<Rightarrow> service list \<Rightarrow> engine \<Rightarrow> engine run" where
  "exit_charge port h inlen outlen r [] e = Some (Inr e)"
| "exit_charge port h inlen outlen r (sv # svs) e =
     (if port \<noteq> svcPort sv then obind (unlock_node r e) (exit_charge port h inlen outlen r svs)
      else obind (unlock_node r e) (\<lambda>e1.
        Some (rbind (go_div (int (unat (svcRelayRate sv)) * inlen) 2) (\<lambda>i.
              rbind (go_div (int (unat (svcRelayRate sv)) * outlen) 2) (\<lambda>out. charge h (i + out) e1)))))"

text \<open>\<^verbatim>\<open>SendTo\<close> and \<^verbatim>\<open>ReceiveFrom\<close> lock the node; the mutex is free again when they return.\<close>

definition exit_Handle :: "engine_env \<Rightarrow> exit_msg \<Rightarrow> onion \<Rightarrow> splice \<Rightarrow> onion \<Rightarrow> engine \<Rightarrow> outcome run" where
  "exit_Handle ev x inner s prev e =
     obind (Some (rbind (local_address ev e) (\<lambda>_. GetLocalNode (enMgr e)))) (\<lambda>lr.
     obind (lock_node lr e) (\<lambda>_.
     obind (Some (SendFromLocalNode (xPort x) (xBytes x) (enMgr e))) (\<lambda>sent.
     let e0 = e\<lparr>enSent := enSent e @ [sent]\<rparr>;
         answer = (case evService ev (xPort x) of None \<Rightarrow> [] | Some b \<Rightarrow> b);
         rsp = \<lparr>pID' = xID x, pPort = xPort x, pLoad = GetLoad e0, pBytes = answer\<rparr> in
     obind (Some (rbind (Codec_Encode (response_Len + length answer) (response_Encode rsp)) (\<lambda>res.
                  rbind (GetRoutingHeaderFromCursor s) (\<lambda>(hdr, s1).
                  rbind (FormatReply (evC ev) hdr (xCiphers x) (xNonces x) (sb res)) (\<lambda>rb. Inr (rb, s1)))))) (\<lambda>(rb, s1).
     case prev of
       OCrypt on _ \<Rightarrow>
         obind (Some (session_of_prev prev (enMgr e0))) (\<lambda>f.
         case f of
           None \<Rightarrow> Some (Inr (e0, None))
         | Some r \<Rightarrow>
             obind (Some (rbind (sess_at (enMgr e0) r) (\<lambda>sd. rbind (deref (sdNode sd)) (\<lambda>nr.
                    rbind (node_at (enMgr e0) nr) (\<lambda>n. rbind (header_bytes sd) (\<lambda>h. Inr (nr, n, h))))))) (\<lambda>(nr, n, h).
             obind (lock_node nr e0) (\<lambda>e1.
             obind (exit_charge (xPort x) h (Splice_Len s1) (Splice_Len rb) nr (ndServices n) e1) (\<lambda>e2.
               Some (Inr (e2, Some (rb, OExit x inner)))))))
     | _ \<Rightarrow> Some (Inr (e0, Some (rb, OExit x inner)))))))"

text \<open>The reply to a balance request; the second padding is computed from the length of the first reply, which
  was padded already.\<close>

definition balance_reply :: "engine_env \<Rightarrow> getbalance \<Rightarrow> bytes \<Rightarrow> u64 \<Rightarrow> nat \<Rightarrow> bytes res" where
  "balance_reply ev x hdr amount pad =
     rbind (Codec_Encode balance_Len (balance_Encode \<lparr>bID = gID x, bMilliSatoshi = amount\<rparr>)) (\<lambda>b.
     rbind (FormatReply (evC ev) hdr (gCiphers x) (gNonces x) (sb b)) (\<lambda>rbb.
       Inr (sb rbb @ NoisePad (evC ev) (evRand ev) pad)))"

definition getbalance_Handle :: "engine_env \<Rightarrow> getbalance \<Rightarrow> onion \<Rightarrow> splice \<Rightarrow> onion \<Rightarrow> engine \<Rightarrow> outcome res" where
  "getbalance_Handle ev x inner s prev e = rbind (find_session_id (gID x) (enMgr e)) (\<lambda>f.
     case f of
       None \<Rightarrow> Inr (e, None)
     | Some r \<Rightarrow>
         rbind (sess_at (enMgr e) r) (\<lambda>sd.
         rbind (GetRoutingHeaderFromCursor s) (\<lambda>(hdr, s1).
         rbind (balance_reply ev x hdr (sdRemaining sd) (714 - (RoutingHeaderLen + balance_Len))) (\<lambda>rb.
         rbind (charge_both prev (Splice_Len s1) (int (length rb)) e) (\<lambda>e1.
         rbind (find_session_id (gID x) (enMgr e1)) (\<lambda>f1.
         rbind (case f1 of None \<Rightarrow> Inr sd | Some r1 \<Rightarrow> sess_at (enMgr e1) r1) (\<lambda>sd1.
         rbind (balance_reply ev x hdr (sdRemaining sd1) (714 - length rb)) (\<lambda>rb1.
           Inr (e1, Some (Load rb1 0, OGetBalance x inner))))))))))"

definition introquery_Handle :: "engine_env \<Rightarrow> introquery \<Rightarrow> onion \<Rightarrow> splice \<Rightarrow> onion \<Rightarrow> engine \<Rightarrow> outcome res" where
  "introquery_Handle ev x inner s prev e =
     rbind (local_address ev e) (\<lambda>_. rbind (deref (qKey x)) (\<lambda>key.
       case hdKnown (enHidden e) (Pub_ToBytes (evC ev) key) of
         None \<Rightarrow> Inr (e, None)
       | Some il \<Rightarrow>
           rbind (intro_Encode (evC ev) il s) (\<lambda>s1.
           rbind (GetRoutingHeaderFromCursor s1) (\<lambda>(hdr, s2).
           rbind (FormatReply (evC ev) hdr (qCiphers x) (qNonces x) (sb s2)) (\<lambda>rb.
           rbind (charge_both prev (Splice_Len s2) (Splice_Len rb) e) (\<lambda>e1.
             Inr (e1, Some (rb, OIntroQuery x inner))))))))"

text \<open>A session message is accepted when its preimage was paid for: the payment is taken off the list and the session
  is added with the amount of the payment.\<close>

definition session_Handle :: "engine_env \<Rightarrow> session_msg \<Rightarrow> splice \<Rightarrow> engine \<Rightarrow> outcome res" where
  "session_Handle ev x s e = rbind (PreimageHash (evC ev) x) (\<lambda>h.
     case FindPendingPreimage h (enMgr e) of
       None \<Rightarrow> Inr (e, None)
     | Some pi \<Rightarrow>
         let m1 = DeletePendingPayment (pyPreimage pi) (enMgr e) in
         rbind (local_address ev (e\<lparr>enMgr := m1\<rparr>)) (\<lambda>_.
         rbind (GetLocalNode m1) (\<lambda>lr.
         rbind (NewSessionData (evC ev) (Inl nil_panic) (Inl nil_panic) (pyID pi) (Some lr) (pyAmount pi) (sHeader x)
                  (sPayload x) (sHop x)) (\<lambda>sd.
         rbind (AddSession (evNew ev) (set_sess (evNew ev) sd m1)) (\<lambda>m2.
           handle_next ev s ONil (e\<lparr>enMgr := m2\<rparr>))))))"

definition hiddenservice_Handle :: "engine_env \<Rightarrow> hidden_service \<Rightarrow> engine \<Rightarrow> outcome res" where
  "hiddenservice_Handle ev x e = rbind (local_address ev e) (\<lambda>_.
     rbind (AddIntro (evC ev) (aKey (hIntro x)) \<lparr>inIntro = hIntro x,
        inReply = \<lparr>rhBytes = hHeader x, rhCiphers = hCiphers x, rhNonces = hNonces x\<rparr>\<rparr> (enHidden e)) (\<lambda>h.
       Inr (e\<lparr>enHidden := h\<rparr>, None)))"

section \<open>Handlers of answers\<close>

text \<open>A response is accounted for session by session: the first two relays carried the request, the third is the
  exit, the others carried the response.\<close>

definition response_rate :: "u16 \<Rightarrow> node \<Rightarrow> u32" where
  "response_rate port n =
     (case find (\<lambda>sv. svcPort sv = port) (ndServices n) of
        None \<Rightarrow> ndRelayRate n
      | Some sv \<Rightarrow> svcRelayRate sv div 2)"

definition response_charge :: "response_msg \<Rightarrow> int \<Rightarrow> int \<Rightarrow> nat \<times> bytes \<Rightarrow> engine \<Rightarrow> engine run" where
  "response_charge x slen sent ik e =
     (let (i, key) = ik in
      obind (Some (FindSessionByPubkey key (enMgr e))) (\<lambda>f.
      case f of
        None \<Rightarrow> Some (Inr e)
      | Some r \<Rightarrow>
          obind (Some (rbind (sess_at (enMgr e) r) (\<lambda>sd. rbind (deref (sdNode sd)) (\<lambda>nr.
                 rbind (node_at (enMgr e) nr) (\<lambda>n. rbind (header_bytes sd) (\<lambda>h. Inr (nr, n, h))))))) (\<lambda>(nr, n, h).
          obind (if i = 2 then obind (lock_node nr e) (unlock_node nr) else Some (Inr e)) (\<lambda>e1.
            Some (charge h
              (int (unat (if i = 2 then response_rate (pPort x) n else ndRelayRate n)) * (if i < 2 then sent else slen))
              e1)))))"

definition response_Handle :: "engine_env \<Rightarrow> response_msg \<Rightarrow> splice \<Rightarrow> engine \<Rightarrow> outcome run" where
  "response_Handle ev x s e =
     (case Pending_Find (pID' x) (enPending e) of
        None \<Rightarrow> Some (Inr (e, None))
      | Some p \<Rightarrow>
          obind (ofold (response_charge x (Splice_Len s) (rsSentSize p))
                   (zip [0..<length (rsBillable p)] (rsBillable p)) e) (\<lambda>e1.
            Some (rbind (finish_pending ev (pID' x) (pBytes x) e1) (\<lambda>e2. Inr (e2, None)))))"

text \<open>The session is used before it is tested for nil.\<close>

definition balance_charge :: "int \<Rightarrow> int \<Rightarrow> nat \<times> bytes \<Rightarrow> engine \<Rightarrow> engine res" where
  "balance_charge slen sent ik e =
     (let (i, key) = ik in
      rbind (FindSessionByPubkey key (enMgr e)) (\<lambda>f. rbind (deref f) (\<lambda>r.
      rbind (session_node r (enMgr e)) (\<lambda>n. rbind (session_header r (enMgr e)) (\<lambda>h.
        let rate = int (unat (ndRelayRate n)); out = rate * slen; inn = rate * sent in
        if i < 2 then charge h inn e
        else if i = 2 then rbind (go_div (inn + out) 2) (\<lambda>a. charge h a e)
        else charge h out e)))))"

definition balance_Handle :: "engine_env \<Rightarrow> balance_msg \<Rightarrow> splice \<Rightarrow> engine \<Rightarrow> outcome res" where
  "balance_Handle ev x s e =
     (case Pending_Find (bID x) (enPending e) of
        None \<Rightarrow> Inr (e, None)
      | Some p \<Rightarrow>
          rbind (rfold (balance_charge (Splice_Len s) (rsSentSize p))
                   (zip [0..<length (rsBillable p)] (rsBillable p)) e) (\<lambda>e1.
          rbind (find_session_id (bID x) (enMgr e1)) (\<lambda>f.
          rbind (case f of
                   None \<Rightarrow> Inr e1
                 | Some r \<Rightarrow> rbind (sess_at (enMgr e1) r) (\<lambda>sd.
                     Inr (e1\<lparr>enMgr := set_sess r (sd\<lparr>sdRemaining := bMilliSatoshi x\<rparr>) (enMgr e1)\<rparr>))) (\<lambda>e2.
          rbind (finish_pending ev (rsID p) (sb s) e2) (\<lambda>e3. Inr (e3, None))))))"

definition confirmation_Handle :: "engine_env \<Rightarrow> bytes \<Rightarrow> splice \<Rightarrow> engine \<Rightarrow> outcome res" where
  "confirmation_Handle ev i s e = rbind (finish_pending ev i (sb s) e) (\<lambda>e1. Inr (e1, None))"

definition ready_Handle :: "engine_env \<Rightarrow> ready_msg \<Rightarrow> splice \<Rightarrow> engine \<Rightarrow> outcome res" where
  "ready_Handle ev x s e = rbind (finish_pending ev (yID x) (sb s) e) (\<lambda>e1. Inr (e1, None))"

definition message_Handle :: "engine_env \<Rightarrow> whisper \<Rightarrow> splice \<Rightarrow> engine \<Rightarrow> outcome res" where
  "message_Handle ev x s e = rbind (finish_pending ev (wMsgID x) (sb s) e) (\<lambda>e1. Inr (e1, None))"

section \<open>Routes to hidden services\<close>

definition session_keys :: "mgr \<Rightarrow> nat option \<Rightarrow> (keys \<times> keys) res" where
  "session_keys m p = rbind (deref p) (\<lambda>r. rbind (sess_at m r) (\<lambda>sd.
     rbind (deref (sdHeader sd)) (\<lambda>h. rbind (deref (sdPayload sd)) (\<lambda>pl. Inr (h, pl)))))"

definition session_address :: "engine_env \<Rightarrow> mgr \<Rightarrow> nat option \<Rightarrow> multiaddr option res" where
  "session_address ev m p = rbind (deref p) (\<lambda>r. rbind (session_node r m) (\<lambda>n. PickAddress (evAddKey ev) n (mgProtocols m)))"

text \<open>The addresses of five sessions out of an array of three.\<close>

definition route_addresses :: "engine_env \<Rightarrow> nat option list \<Rightarrow> mgr \<Rightarrow> multiaddr option list res" where
  "route_addresses ev rt m = rmap (\<lambda>i. rbind (index_expr rt (int i)) (session_address ev m)) [0..<5]"

definition to_session :: "keys \<times> keys \<Rightarrow> prv \<Rightarrow> bytes \<Rightarrow> int \<Rightarrow> onion" where
  "to_session k from iv depth = crypt_New (Some (kPub (fst k))) (Some (kPub (snd k))) (Some from) iv depth"

definition encode_all :: "engine_env \<Rightarrow> onion list \<Rightarrow> splice res" where
  "encode_all ev os = rbind (Assemble os) (\<lambda>o1. rbind (onion_Len o1) (\<lambda>l.
     Codec_Encode l (onion_Encode (evC ev) (evM ev) (evPort ev) (evBlind ev) 0 o1)))"

definition route_reply ::
  "engine_env \<Rightarrow> route_msg \<Rightarrow> nat option list \<Rightarrow> prv list \<Rightarrow> multiaddr option list \<Rightarrow> engine \<Rightarrow> outcome res" where
  "route_reply ev x ss rv addrs e =
     rbind (rmap (session_keys (enMgr e)) ss) (\<lambda>sk.
     let n = evNonces ev in
     rbind (encode_all ev
         [reverse_New (addrs ! 0), to_session (sk ! 0) (rv ! 0) (n ! 0) 3,
          reverse_New (addrs ! 1), to_session (sk ! 1) (rv ! 1) (n ! 1) 2,
          reverse_New (addrs ! 2), to_session (sk ! 2) (rv ! 2) (n ! 2) 1]) (\<lambda>rHdr.
     let (k3, ks1) = Next (evC ev) (enKeys e); (k4, ks2) = Next (evC ev) ks1 in
     rbind (GetRoutingHeaderFromCursor (SetCursor 0 rHdr)) (\<lambda>(hdr, _).
     rbind (encode_all ev
         [forward_New (addrs ! 3), to_session (sk ! 3) k3 (n ! 3) 0,
          forward_New (addrs ! 4), to_session (sk ! 4) k4 (n ! 4) 0,
          ready_New (rID x) (rHiddenService x) (rHeader x) hdr (rCiphers x)
            (GenCiphers (evC ev) rv (map (\<lambda>k. prv_pub (evC ev) (kPrv (snd k))) (take 3 sk))) (rNonces x) (take 3 n)]) (\<lambda>reply.
       Inr (e\<lparr>enKeys := ks2\<rparr>, Some (reply, ORoute x ONil))))))"

definition route_Handle :: "engine_env \<Rightarrow> route_msg \<Rightarrow> splice \<Rightarrow> engine \<Rightarrow> outcome run" where
  "route_Handle ev x s e =
     (let C = evC ev; h = enHidden e in
      obind (Some (rbind (local_address ev e) (\<lambda>_.
               FindCloakedHiddenService C (evMine ev h) (evServices ev h) (evKnown ev h) (rHiddenCloaked x) h))) (\<lambda>hc.
      case hc of
        None \<Rightarrow> Some (Inr (e, None))
      | Some hcl \<Rightarrow> obind (Some (PubFromBytes C hcl)) (\<lambda>hs.
          case hdServices h hcl of
            None \<Rightarrow> Some (Inr (e, None))
          | Some hh \<Rightarrow>
              obind (Some (rbind (index_expr (lhIntros hh) 0) (\<lambda>ad. rbind (deref (aKey ad)) (\<lambda>_.
                       route_Decrypt C (lhPrv hh) (x\<lparr>rHiddenService := Some hs\<rparr>) s)))) (\<lambda>(x1, s1).
              let (rv, ks1) = Next3 C (enKeys e); e1 = e\<lparr>enKeys := ks1\<rparr> in
              obind (SelectHops (evStr ev) (evYellow ev) (evHopDraw ev) (evDraw ev) (evFuel ev) [3, 4, 5, 0, 1]
                       (replicate 5 None) (enMgr e1)) (\<lambda>ss.
              obind (Some (route_addresses ev (take 3 ss) (enMgr e1))) (\<lambda>addrs.
                Some (route_reply ev x1 ss rv addrs e1)))))))"

section \<open>HandleMessage\<close>

text \<open>The dynamic dispatch of \<^verbatim>\<open>Handle\<close>. \<^verbatim>\<open>Delay\<close> waits for the duration before it goes on.\<close>

definition onion_Handle :: "engine_env \<Rightarrow> onion \<Rightarrow> splice \<Rightarrow> onion \<Rightarrow> engine \<Rightarrow> outcome run" where
  "onion_Handle ev x s prev e = (case x of
      ONil \<Rightarrow> Some (Inl nil_panic)
    | OEnd \<Rightarrow> Some (Inr (e, None))
    | OCrypt c inner \<Rightarrow> Some (crypt_Handle ev c inner s e)
    | OForward a inner \<Rightarrow> Some (forward_Handle ev a inner s prev e)
    | OReverse a inner \<Rightarrow> Some (reverse_Handle ev a s prev e)
    | ODelay d inner \<Rightarrow> Some (handle_next ev s (ODelay d inner) e)
    | OGetBalance g inner \<Rightarrow> Some (getbalance_Handle ev g inner s prev e)
    | OExit m inner \<Rightarrow> exit_Handle ev m inner s prev e
    | OSession m inner \<Rightarrow> Some (session_Handle ev m s e)
    | OIntroQuery q inner \<Rightarrow> Some (introquery_Handle ev q inner s prev e)
    | ORoute r inner \<Rightarrow> route_Handle ev r s e
    | OHiddenService h inner \<Rightarrow> Some (hiddenservice_Handle ev h e)
    | OBalance b \<Rightarrow> Some (balance_Handle ev b s e)
    | OConfirmation i \<Rightarrow> Some (confirmation_Handle ev i s e)
    | OResponse r \<Rightarrow> response_Handle ev r s e
    | OReady r \<Rightarrow> Some (ready_Handle ev r s e)
    | OMessage w \<Rightarrow> Some (message_Handle ev w s e))"

text \<open>One call of \<^verbatim>\<open>HandleMessage\<close>, up to the next call that its handler makes. Errors end in the log.\<close>

definition handle_once :: "engine_env \<Rightarrow> splice \<Rightarrow> onion \<Rightarrow> engine \<Rightarrow> outcome run" where
  "handle_once ev s prev e =
     obind (Some (local_address ev e)) (\<lambda>_.
     obind (Some (Recognise (evReg ev) ((SetCursor 0 s)\<lparr>sSegs := []\<rparr>))) (\<lambda>(k, s1).
     case k of
       None \<Rightarrow> Some (Inr (e, None))
     | Some kind \<Rightarrow>
         (case codec_Decode ev kind s1 of
            Inl (Panic p) \<Rightarrow> Some (Inl (Panic p))
          | Inl (Error _) \<Rightarrow> Some (Inr (e, None))
          | Inr (x, s2) \<Rightarrow>
              obind (Some (codec_Unwrap (evReg ev) x)) (\<lambda>m.
                if m = ONil then Some (Inr (e, None))
                else (case onion_Handle ev m s2 prev e of
                        Some (Inl (Error _)) \<Rightarrow> Some (Inr (e, None))
                      | r \<Rightarrow> r)))))"

fun HandleMessage :: "(nat \<Rightarrow> engine_env) \<Rightarrow> nat \<Rightarrow> splice \<Rightarrow> onion \<Rightarrow> engine \<Rightarrow> engine run" where
  "HandleMessage env 0 s prev e = None"
| "HandleMessage env (Suc fuel) s prev e = obind (handle_once (env fuel) s prev e) (\<lambda>(e1, nxt).
     case nxt of
       None \<Rightarrow> Some (Inr e1)
     | Some (s1, p1) \<Rightarrow> HandleMessage env fuel s1 p1 e1)"

section \<open>Events\<close>

datatype event = EvMessage bytes | EvPayment payment | EvPause | EvConnection

text \<open>A payment tops up the session with its preimage, or waits for the session message.\<close>

definition top_up :: "payment \<Rightarrow> mgr \<Rightarrow> (mgr \<times> bool) res" where
  "top_up p m = IterateSessions (\<lambda>r st. rbind (sess_at m r) (\<lambda>s.
     if sdPreimage s = pyPreimage p then
       rbind (IncSats (pyAmount p) s) (\<lambda>s'. Inr (True, (set_sess r s' m, True)))
     else Inr (False, st))) m (m, False)"

definition handle_payment :: "payment \<Rightarrow> engine \<Rightarrow> engine res" where
  "handle_payment p e = rbind (top_up p (enMgr e)) (\<lambda>(m, topped).
     rbind (if topped then Inr m else AddPendingPayment p m) (\<lambda>m1.
       Inr (e\<lparr>enMgr := m1, enConfirmed := enConfirmed e @ [pyConfirmChan p]\<rparr>)))"

text \<open>One round of \<^verbatim>\<open>Handler\<close>. A paused engine takes payments and messages from their channels and drops them; an
  inbound connection is only logged.\<close>

definition Handler :: "(nat \<Rightarrow> engine_env) \<Rightarrow> nat \<Rightarrow> event \<Rightarrow> engine \<Rightarrow> engine run" where
  "Handler env fuel ev e =
     (case ev of
        EvPause \<Rightarrow> Some (rbind (local_address (env fuel) e) (\<lambda>_. Inr (e\<lparr>enPaused := \<not> enPaused e\<rparr>)))
      | EvConnection \<Rightarrow> Some (Inr e)
      | EvMessage b \<Rightarrow> if enPaused e then Some (Inr e) else HandleMessage env fuel (Load b 0) ONil e
      | EvPayment p \<Rightarrow> if enPaused e then Some (Inr e) else Some (handle_payment p e))"

end
