(* ===== verification/Skins.thy ===== *)
theory Skins
  imports Engine
begin

text \<open>
  Building and sending messages: \<^verbatim>\<open>onion_skins.go\<close>, \<^verbatim>\<open>reply.go\<close>, \<^verbatim>\<open>acct.go\<close>, \<^verbatim>\<open>eng_senders.go\<close> and
  \<^verbatim>\<open>eng_sessions.go\<close> of \<^verbatim>\<open>pkg/engine\<close>, \<^verbatim>\<open>pkg/headers\<close>, and the \<^verbatim>\<open>Account\<close> method of each message. \<open>Skins\<close> is a list of
  messages; a session argument is an address into the store of the manager, \<open>None\<close> where it is nil. Nonces come
  from a list of random draws, new keys from the key set that is passed along.
\<close>

section \<open>Layers\<close>

type_synonym skins = "onion list"

definition Skins_Confirmation :: "bytes \<Rightarrow> byte \<Rightarrow> skins \<Rightarrow> skins" where
  "Skins_Confirmation i load sk = sk @ [confirmation_New i]"

definition Skins_End :: "skins \<Rightarrow> skins" where
  "Skins_End sk = sk @ [OEnd]"

definition Skins_Exit :: "crypto_ops \<Rightarrow> bytes \<Rightarrow> u16 \<Rightarrow> bytes \<Rightarrow> nat option exit_point \<Rightarrow> skins \<Rightarrow> skins" where
  "Skins_Exit C i port payload ep sk = sk @ [exit_New C i port payload ep]"

definition Skins_Forward :: "multiaddr option \<Rightarrow> skins \<Rightarrow> skins" where
  "Skins_Forward addr sk = sk @ [forward_New addr]"

definition Skins_Reverse :: "multiaddr option \<Rightarrow> skins \<Rightarrow> skins" where
  "Skins_Reverse ip sk = sk @ [reverse_New ip]"

definition Skins_Crypt :: "pub option \<Rightarrow> pub option \<Rightarrow> prv option \<Rightarrow> bytes \<Rightarrow> int \<Rightarrow> skins \<Rightarrow> skins" where
  "Skins_Crypt toHdr toPld from iv depth sk = sk @ [crypt_New toHdr toPld from iv depth]"

definition Skins_GetBalance :: "crypto_ops \<Rightarrow> bytes \<Rightarrow> nat option exit_point \<Rightarrow> skins \<Rightarrow> skins" where
  "Skins_GetBalance C i ep sk = sk @ [NewGetBalance C i ep]"

definition Skins_HiddenService :: "crypto_ops \<Rightarrow> intro_ad \<Rightarrow> nat option exit_point \<Rightarrow> skins \<Rightarrow> skins" where
  "Skins_HiddenService C ad point sk = sk @ [hiddenservice_New C ad point]"

definition Skins_IntroQuery :: "crypto_ops \<Rightarrow> bytes \<Rightarrow> pub option \<Rightarrow> nat option exit_point \<Rightarrow> skins \<Rightarrow> skins" where
  "Skins_IntroQuery C i hsk ep sk = sk @ [introquery_New C i hsk ep]"

definition Skins_Ready ::
  "bytes \<Rightarrow> pub option \<Rightarrow> bytes \<Rightarrow> bytes \<Rightarrow> bytes list \<Rightarrow> bytes list \<Rightarrow> bytes list \<Rightarrow> bytes list \<Rightarrow> skins \<Rightarrow> skins" where
  "Skins_Ready i addr fwHdr rvHdr fc rc fn rn sk = sk @ [ready_New i addr fwHdr rvHdr fc rc fn rn]"

definition Skins_Response :: "bytes \<Rightarrow> bytes \<Rightarrow> u16 \<Rightarrow> byte \<Rightarrow> skins \<Rightarrow> skins" where
  "Skins_Response i res port load sk = sk @ [response_New i port res load]"

definition Skins_Route ::
  "crypto_ops \<Rightarrow> bytes \<Rightarrow> bytes \<Rightarrow> bytes \<Rightarrow> pub \<Rightarrow> keyset \<Rightarrow> nat option exit_point \<Rightarrow> skins \<Rightarrow> skins \<times> keyset" where
  "Skins_Route C iv blind i k ks ep sk = (let (r, ks1) = route_New C iv blind i k ks ep in (sk @ [r], ks1))"

definition Skins_Session :: "session_msg \<Rightarrow> skins \<Rightarrow> skins" where
  "Skins_Session x sk = (if sHeader x = None \<or> sPayload x = None then sk else sk @ [OSession x OEnd])"

section \<open>Layers for a session\<close>

definition Skins_ForwardCrypt :: "engine_env \<Rightarrow> mgr \<Rightarrow> nat option \<Rightarrow> prv \<Rightarrow> bytes \<Rightarrow> protocols \<Rightarrow> skins \<Rightarrow> skins res" where
  "Skins_ForwardCrypt ev m s k n p sk =
     rbind (deref s) (\<lambda>r. rbind (session_node r m) (\<lambda>nd. rbind (PickAddress (evAddKey ev) nd p) (\<lambda>ma.
     rbind (session_keys m s) (\<lambda>(h, pl).
       Inr (Skins_Crypt (Some (kPub h)) (Some (kPub pl)) (Some k) n 0 (Skins_Forward ma sk))))))"

definition Skins_ForwardSession ::
  "engine_env \<Rightarrow> node \<Rightarrow> prv \<Rightarrow> bytes \<Rightarrow> session_msg \<Rightarrow> protocols \<Rightarrow> skins \<Rightarrow> skins res" where
  "Skins_ForwardSession ev nd k n x p sk =
     rbind (PickAddress (evAddKey ev) nd p) (\<lambda>ma. rbind (deref (ndIdentity nd)) (\<lambda>i.
       Inr (Skins_Session x (Skins_Crypt (Some (kPub i)) None (Some k) n 0 (Skins_Forward ma sk)))))"

definition zero_crypt :: onion where
  "zero_crypt = OCrypt \<lparr>cDepth = 0, cToHeaderPub = None, cToPayloadPub = None, cFrom = None, cIV = replicate IVLen 0,
     cCloak = replicate CloakLen 0, cToPriv = None, cFromPub = None\<rparr> ONil"

definition Skins_ReverseCrypt ::
  "engine_env \<Rightarrow> mgr \<Rightarrow> nat option \<Rightarrow> prv option \<Rightarrow> bytes \<Rightarrow> int \<Rightarrow> protocols \<Rightarrow> skins \<Rightarrow> skins res" where
  "Skins_ReverseCrypt ev m s k n sq p sk =
     (if s = None \<or> k = None then Inr (sk @ [OReverse None ONil, zero_crypt])
      else rbind (deref s) (\<lambda>r. rbind (session_node r m) (\<lambda>nd. rbind (PickAddress (evAddKey ev) nd p) (\<lambda>ma.
           rbind (session_keys m s) (\<lambda>(h, pl).
             Inr (Skins_Crypt (Some (kPub h)) (Some (kPub pl)) k n sq (Skins_Reverse ma sk)))))))"

record routing =
  rtSessions :: "nat option list"
  rtKeys :: "prv list"
  rtNonces :: "bytes list"

definition Skins_RoutingHeader :: "engine_env \<Rightarrow> mgr \<Rightarrow> routing \<Rightarrow> protocols \<Rightarrow> skins \<Rightarrow> skins res" where
  "Skins_RoutingHeader ev m r p sk =
     rbind (Skins_ReverseCrypt ev m (rtSessions r ! 0) (Some (rtKeys r ! 0)) (rtNonces r ! 0) 3 p sk) (\<lambda>sk1.
     rbind (Skins_ReverseCrypt ev m (rtSessions r ! 1) (Some (rtKeys r ! 1)) (rtNonces r ! 1) 2 p sk1) (\<lambda>sk2.
       Skins_ReverseCrypt ev m (rtSessions r ! 2) (Some (rtKeys r ! 2)) (rtNonces r ! 2) 1 p sk2))"

definition Skins_Message ::
  "engine_env \<Rightarrow> mgr \<Rightarrow> nat option list \<Rightarrow> whisper \<Rightarrow> bytes list \<Rightarrow> keyset \<Rightarrow> protocols \<Rightarrow> skins \<Rightarrow> (skins \<times> keyset) res" where
  "Skins_Message ev m forwards msg n ks p sk =
     (let (k0, ks1) = Next (evC ev) ks; (k1, ks2) = Next (evC ev) ks1 in
      rbind (Skins_ForwardCrypt ev m (forwards ! 0) k0 (n ! 0) p sk) (\<lambda>sk1.
      rbind (Skins_ForwardCrypt ev m (forwards ! 1) k1 (n ! 1) p sk1) (\<lambda>sk2.
        Inr (sk2 @ [OMessage msg], ks2))))"

section \<open>Headers\<close>

record headers =
  hdrForward :: routing
  hdrReturn :: routing
  hdrReturnPubs :: "pub list"

definition payload_pub :: "mgr \<Rightarrow> nat option \<Rightarrow> pub res" where
  "payload_pub m s = rbind (deref s) (\<lambda>r. rbind (sess_at m r) (\<lambda>sd. rbind (deref (sdPayload sd)) (\<lambda>k. Inr (kPub k))))"

text \<open>\<open>c\<close> is the circuit of five sessions, \<open>n\<close> the six nonces.\<close>

definition GetHeaders ::
  "crypto_ops \<Rightarrow> mgr \<Rightarrow> bytes list \<Rightarrow> nat option \<Rightarrow> nat option \<Rightarrow> nat option list \<Rightarrow> keyset \<Rightarrow> (headers \<times> keyset) res" where
  "GetHeaders C m n alice bob c ks =
     (let (fwKeys, ks1) = Next3 C ks; (rtKeys, ks2) = Next3 C ks1 in
      rbind (payload_pub m (c ! 3)) (\<lambda>p0. rbind (payload_pub m (c ! 4)) (\<lambda>p1. rbind (payload_pub m alice) (\<lambda>p2.
        Inr (\<lparr>hdrForward = \<lparr>rtSessions = [c ! 0, c ! 1, bob], rtKeys = fwKeys, rtNonces = take 3 n\<rparr>,
              hdrReturn = \<lparr>rtSessions = [c ! 3, c ! 4, alice], rtKeys = rtKeys, rtNonces = take 3 (drop 3 n)\<rparr>,
              hdrReturnPubs = [p0, p1, p2]\<rparr>, ks2)))))"

definition ExitPoint :: "headers \<Rightarrow> nat option exit_point" where
  "ExitPoint h = \<lparr>epSessions = rtSessions (hdrReturn h), epKeys = rtKeys (hdrReturn h), epNonces = rtNonces (hdrReturn h),
     epReturnPubs = hdrReturnPubs h\<rparr>"

section \<open>Whole messages\<close>

text \<open>The shape the requests share: the routing header of the way there, the request, that of the way back.\<close>

definition make_request ::
  "engine_env \<Rightarrow> mgr \<Rightarrow> nat option \<Rightarrow> nat option \<Rightarrow> nat option list \<Rightarrow> keyset \<Rightarrow> protocols \<Rightarrow>
   (nat option exit_point \<Rightarrow> keyset \<Rightarrow> skins \<Rightarrow> skins \<times> keyset) \<Rightarrow> (skins \<times> keyset) res" where
  "make_request ev m alice bob c ks p core =
     rbind (GetHeaders (evC ev) m (evNonces ev) alice bob c ks) (\<lambda>(h, ks1).
     rbind (Skins_RoutingHeader ev m (hdrForward h) p []) (\<lambda>sk.
     let (sk1, ks2) = core (ExitPoint h) ks1 sk in
     rbind (Skins_RoutingHeader ev m (hdrReturn h) p sk1) (\<lambda>sk2. Inr (sk2, ks2))))"

definition MakeExit ::
  "engine_env \<Rightarrow> mgr \<Rightarrow> u16 \<Rightarrow> bytes \<Rightarrow> bytes \<Rightarrow> nat option \<Rightarrow> nat option \<Rightarrow> nat option list \<Rightarrow> keyset \<Rightarrow> protocols \<Rightarrow>
   (skins \<times> keyset) res" where
  "MakeExit ev m port payload i alice bob c ks np =
     make_request ev m alice bob c ks np (\<lambda>ep ks sk. (Skins_Exit (evC ev) i port payload ep sk, ks))"

definition MakeGetBalance ::
  "engine_env \<Rightarrow> mgr \<Rightarrow> bytes \<Rightarrow> nat option \<Rightarrow> nat option \<Rightarrow> nat option list \<Rightarrow> keyset \<Rightarrow> protocols \<Rightarrow> (skins \<times> keyset) res" where
  "MakeGetBalance ev m i alice bob c ks np =
     make_request ev m alice bob c ks np (\<lambda>ep ks sk. (Skins_GetBalance (evC ev) i ep sk, ks))"

definition MakeHiddenService ::
  "engine_env \<Rightarrow> mgr \<Rightarrow> intro_ad \<Rightarrow> nat option \<Rightarrow> nat option \<Rightarrow> nat option list \<Rightarrow> keyset \<Rightarrow> protocols \<Rightarrow> (skins \<times> keyset) res" where
  "MakeHiddenService ev m ad alice bob c ks p =
     make_request ev m alice bob c ks p (\<lambda>ep ks sk. (Skins_HiddenService (evC ev) ad ep sk, ks))"

definition MakeIntroQuery ::
  "engine_env \<Rightarrow> mgr \<Rightarrow> bytes \<Rightarrow> pub option \<Rightarrow> nat option \<Rightarrow> nat option \<Rightarrow> nat option list \<Rightarrow> keyset \<Rightarrow> protocols \<Rightarrow>
   (skins \<times> keyset) res" where
  "MakeIntroQuery ev m i hsk alice bob c ks p =
     make_request ev m alice bob c ks p (\<lambda>ep ks sk. (Skins_IntroQuery (evC ev) i hsk ep sk, ks))"

definition MakeRoute ::
  "engine_env \<Rightarrow> mgr \<Rightarrow> bytes \<Rightarrow> bytes \<Rightarrow> pub \<Rightarrow> nat option \<Rightarrow> nat option \<Rightarrow> nat option list \<Rightarrow> keyset \<Rightarrow> protocols \<Rightarrow>
   (skins \<times> keyset) res" where
  "MakeRoute ev m i iv k alice bob c ks p =
     make_request ev m alice bob c ks p (\<lambda>ep ks sk. Skins_Route (evC ev) iv (evBlind ev 0) i k ks ep sk)"

fun session_hops ::
  "engine_env \<Rightarrow> mgr \<Rightarrow> protocols \<Rightarrow> (nat \<times> session_msg \<times> nat \<times> bytes) list \<Rightarrow> skins \<Rightarrow> keyset \<Rightarrow> (skins \<times> keyset) res" where
  "session_hops ev m p [] sk ks = Inr (sk, ks)"
| "session_hops ev m p ((i, x, nr, n) # hs) sk ks =
     (let (k, ks1) = Next (evC ev) ks in
      rbind (rbind (node_at m nr) (\<lambda>nd.
        if i = 0 then rbind (deref (ndIdentity nd)) (\<lambda>ident.
            Inr (Skins_Session x (Skins_Crypt (Some (kPub ident)) None (Some k) n 0 sk)))
        else Skins_ForwardSession ev nd k n x p sk)) (\<lambda>sk1. session_hops ev m p hs sk1 ks1))"

definition MakeSession ::
  "engine_env \<Rightarrow> mgr \<Rightarrow> bytes \<Rightarrow> session_msg list \<Rightarrow> nat option \<Rightarrow> nat list \<Rightarrow> keyset \<Rightarrow> protocols \<Rightarrow> (skins \<times> keyset) res" where
  "MakeSession ev m i s client hop ks p =
     rbind (session_hops ev m p (zip [0..<5] (zip s (zip hop (evNonces ev)))) [] ks) (\<lambda>(sk, ks1).
     let (k, ks2) = Next (evC ev) ks1 in
     rbind (Skins_ForwardCrypt ev m client k (evNonces ev ! 5) p sk) (\<lambda>sk1.
       Inr (Skins_Confirmation i 0 sk1, ks2)))"

fun ping_hops ::
  "engine_env \<Rightarrow> mgr \<Rightarrow> protocols \<Rightarrow> (nat option \<times> bytes) list \<Rightarrow> skins \<Rightarrow> keyset \<Rightarrow> (skins \<times> keyset) res" where
  "ping_hops ev m p [] sk ks = Inr (sk, ks)"
| "ping_hops ev m p ((s, n) # hs) sk ks =
     (let (k, ks1) = Next (evC ev) ks in
      rbind (Skins_ForwardCrypt ev m s k n p sk) (\<lambda>sk1. ping_hops ev m p hs sk1 ks1))"

definition Ping :: "engine_env \<Rightarrow> mgr \<Rightarrow> bytes \<Rightarrow> nat option \<Rightarrow> nat option list \<Rightarrow> keyset \<Rightarrow> protocols \<Rightarrow> (skins \<times> keyset) res" where
  "Ping ev m i client s ks p =
     rbind (session_keys m (s ! 0)) (\<lambda>(h, _).
     let (k, ks1) = Next (evC ev) ks; n = evNonces ev in
     rbind (ping_hops ev m p (zip [s ! 1, s ! 2, s ! 3, s ! 4, client] (drop 1 n))
              (Skins_Crypt (Some (kPub h)) None (Some k) (n ! 0) 0 []) ks1) (\<lambda>(sk, ks2).
       Inr (Skins_Confirmation i 0 sk, ks2)))"

definition MakeReplyHeader :: "engine_env \<Rightarrow> engine \<Rightarrow> (reply_header \<times> engine) run" where
  "MakeReplyHeader ev e =
     (let C = evC ev; n = evNonces ev; (rv, ks1) = Next3 C (enKeys e); e1 = e\<lparr>enKeys := ks1\<rparr>; m = enMgr e1 in
      obind (SelectHops (evStr ev) (evYellow ev) (evHopDraw ev) (evDraw ev) (evFuel ev) [3, 4, 5] (replicate 3 None) m) (\<lambda>s.
      Some (rbind (Skins_RoutingHeader ev m \<lparr>rtSessions = take 3 s, rtKeys = rv, rtNonces = take 3 n\<rparr> (mgProtocols m) []) (\<lambda>rh.
            rbind (encode_all ev rh) (\<lambda>hdr.
            rbind (rmap (session_keys m) (take 3 s)) (\<lambda>sk.
            rbind (GetRoutingHeaderFromCursor (SetCursor 0 hdr)) (\<lambda>(b, _).
              Inr (\<lparr>rhBytes = b, rhCiphers = GenCiphers C rv (map (\<lambda>k. prv_pub C (kPrv (snd k))) sk), rhNonces = take 3 n\<rparr>, e1))))))))"

end
