(* ===== verification/Clients.thy ===== *)
theory Clients
  imports Skins
begin

text \<open>
  What a client does with a message it has built: the accounting of \<^verbatim>\<open>acct.go\<close> with the \<^verbatim>\<open>Account\<close> method of each
  message, the senders of \<^verbatim>\<open>eng_senders.go\<close> and the purchase of sessions of \<^verbatim>\<open>eng_sessions.go\<close>. A callback is a
  handle; \<open>nilhook\<close> is the one that \<^verbatim>\<open>SendWithOneHook\<close> puts in place of nil. The state is the engine, because
  \<^verbatim>\<open>Exit.Account\<close> locks the mutex of a node.
\<close>

section \<open>Account\<close>

type_synonym sent_data = "acct sess_send_data"

definition zero_data :: sent_data where
  "zero_data = \<lparr>seB = [], seSessions = [], seBillable = [], seRet = replicate PubKeyLen 0, seID = zero_id, sePort = 0,
     sePostAcct = []\<rparr>"

text \<open>\<^verbatim>\<open>res.Billable = append(res.Billable, s.Header.Bytes)\<close>\<close>

definition bill :: "nat option \<Rightarrow> mgr \<Rightarrow> sent_data \<Rightarrow> sent_data res" where
  "bill s m d = rbind (deref s) (\<lambda>r. rbind (session_header r m) (\<lambda>h. Inr (d\<lparr>seBillable := seBillable d @ [h]\<rparr>)))"

type_synonym accounted = "bool \<times> nat option \<times> sent_data \<times> engine"

definition crypt_Account :: "engine_env \<Rightarrow> crypt \<Rightarrow> bool \<Rightarrow> sent_data \<Rightarrow> engine \<Rightarrow> accounted res" where
  "crypt_Account ev x lst d e =
     rbind (case cToHeaderPub x of
              Some k \<Rightarrow> FindSessionByHeaderPub (evC ev) k (enMgr e)
            | None \<Rightarrow> if mgSessions (enMgr e) = [] then Inr None else Inl nil_panic) (\<lambda>sd.
     case sd of
       None \<Rightarrow> Inr (False, None, d, e)
     | Some r \<Rightarrow>
         let d1 = d\<lparr>seSessions := seSessions d @ [r]\<rparr> in
         if lst then rbind (session_header r (enMgr e)) (\<lambda>h.
           Inr (False, Some r, d1\<lparr>seRet := h, seBillable := seBillable d1 @ [h]\<rparr>, e))
         else Inr (False, Some r, d1, e))"

definition forward_Account :: "nat option \<Rightarrow> sent_data \<Rightarrow> engine \<Rightarrow> accounted res" where
  "forward_Account s d e = rbind (deref s) (\<lambda>r. rbind (bill s (enMgr e) d) (\<lambda>d1.
     Inr (False, None, d1\<lparr>sePostAcct := sePostAcct d1 @ [AcctRelay r (length (seB d1))]\<rparr>, e)))"

definition reverse_Account :: "nat option \<Rightarrow> sent_data \<Rightarrow> engine \<Rightarrow> accounted res" where
  "reverse_Account s d e = rbind (bill s (enMgr e) d) (\<lambda>d1. Inr (False, None, d1, e))"

text \<open>The loop over the services unlocks the node in each round and ends with the first service on the port.\<close>

fun exit_services :: "nat \<Rightarrow> u16 \<Rightarrow> (nat \<times> service) list \<Rightarrow> engine \<Rightarrow> (nat option \<times> engine) run" where
  "exit_services nr port [] e = Some (Inr (None, e))"
| "exit_services nr port ((j, sv) # svs) e = obind (unlock_node nr e) (\<lambda>e1.
     if svcPort sv \<noteq> port then exit_services nr port svs e1 else Some (Inr (Some j, e1)))"

definition exit_Account :: "exit_msg \<Rightarrow> nat option \<Rightarrow> sent_data \<Rightarrow> engine \<Rightarrow> accounted run" where
  "exit_Account x s d e =
     obind (Some (rbind (deref s) (\<lambda>r. rbind (sess_at (enMgr e) r) (\<lambda>sd. rbind (deref (sdNode sd)) (\<lambda>nr.
            rbind (node_at (enMgr e) nr) (\<lambda>n. Inr (r, nr, n))))))) (\<lambda>(r, nr, n).
     obind (lock_node nr e) (\<lambda>e1.
     obind (exit_services nr (xPort x) (zip [0..<length (ndServices n)] (ndServices n)) e1) (\<lambda>(f, e2).
     let d1 = (case f of
                 None \<Rightarrow> d
               | Some j \<Rightarrow> d\<lparr>sePort := xPort x, sePostAcct := sePostAcct d @ [AcctExit r j (length (seB d))]\<rparr>) in
     Some (rbind (bill s (enMgr e2) d1) (\<lambda>d2. Inr (True, None, d2\<lparr>seID := xID x\<rparr>, e2))))))"

definition identified_Account :: "bytes \<Rightarrow> bool \<Rightarrow> nat option \<Rightarrow> sent_data \<Rightarrow> engine \<Rightarrow> accounted res" where
  "identified_Account i skip s d e = rbind (bill s (enMgr e) (d\<lparr>seID := i\<rparr>)) (\<lambda>d1. Inr (skip, None, d1, e))"

text \<open>The dynamic dispatch of \<^verbatim>\<open>Account\<close>. \<^verbatim>\<open>Delay\<close>, \<^verbatim>\<open>Session\<close>, \<^verbatim>\<open>End\<close>, \<^verbatim>\<open>Response\<close> and \<^verbatim>\<open>Ready\<close> do nothing.\<close>

definition onion_Account :: "engine_env \<Rightarrow> onion \<Rightarrow> nat option \<Rightarrow> bool \<Rightarrow> sent_data \<Rightarrow> engine \<Rightarrow> accounted run" where
  "onion_Account ev x s lst d e = (case x of
      ONil \<Rightarrow> Some (Inl nil_panic)
    | OEnd \<Rightarrow> Some (Inr (False, None, d, e))
    | OCrypt c inner \<Rightarrow> Some (crypt_Account ev c lst d e)
    | OForward a inner \<Rightarrow> Some (forward_Account s d e)
    | OReverse a inner \<Rightarrow> Some (reverse_Account s d e)
    | ODelay t inner \<Rightarrow> Some (Inr (False, None, d, e))
    | OGetBalance g inner \<Rightarrow> Some (identified_Account (gID g) True s d e)
    | OExit m inner \<Rightarrow> exit_Account m s d e
    | OSession m inner \<Rightarrow> Some (Inr (False, None, d, e))
    | OIntroQuery q inner \<Rightarrow> Some (identified_Account (qID q) True s d e)
    | ORoute r inner \<Rightarrow> Some (identified_Account (rID r) False s d e)
    | OHiddenService h inner \<Rightarrow> Some (identified_Account (aID (hIntro h)) True s d e)
    | OBalance b \<Rightarrow> Some (Inr (False, None, d\<lparr>seID := bID b\<rparr>, e))
    | OConfirmation i \<Rightarrow> Some (Inr (False, None, d\<lparr>seID := i\<rparr>, e))
    | OResponse r \<Rightarrow> Some (Inr (False, None, d, e))
    | OReady r \<Rightarrow> Some (Inr (False, None, d, e))
    | OMessage w \<Rightarrow> Some (identified_Account (wMsgID w) True s d e))"

section \<open>PostAcctOnion\<close>

text \<open>The loop: every crypt is accounted for, and with its session the message behind it. Only what
  \<^verbatim>\<open>Crypt.Account\<close> returns decides whether the next message is skipped.\<close>

fun account_skins :: "engine_env \<Rightarrow> bool \<Rightarrow> skins \<Rightarrow> sent_data \<Rightarrow> engine \<Rightarrow> (sent_data \<times> engine) run" where
  "account_skins ev skip [] d e = Some (Inr (d, e))"
| "account_skins ev skip (x # xs) d e =
     (if skip then account_skins ev False xs d e
      else (case x of
          OCrypt c inner \<Rightarrow>
            obind (onion_Account ev x None (xs = []) d e) (\<lambda>(sk, s, d1, e1).
            if xs = [] then account_skins ev sk xs d1 e1
            else obind (onion_Account ev (hd xs) s False d1 e1) (\<lambda>(_, _, d2, e2). account_skins ev sk xs d2 e2))
        | _ \<Rightarrow> account_skins ev False xs d e))"

definition PostAcctOnion :: "engine_env \<Rightarrow> skins \<Rightarrow> engine \<Rightarrow> (sent_data \<times> engine) run" where
  "PostAcctOnion ev o1 e = obind (Some (encode_all ev o1)) (\<lambda>sp. account_skins ev False o1 (zero_data\<lparr>seB := sb sp\<rparr>) e)"

section \<open>Senders\<close>

text \<open>The hops of a standard circuit around the sessions that are given, and the array of the first five.\<close>

definition select_circuit :: "engine_env \<Rightarrow> nat option list \<Rightarrow> engine \<Rightarrow> nat option list run" where
  "select_circuit ev s e = SelectHops (evStr ev) (evYellow ev) (evHopDraw ev) (evDraw ev) (evFuel ev) StandardCircuit s (enMgr e)"

definition circuit_of :: "nat option list \<Rightarrow> nat option list" where
  "circuit_of se = copy_to (replicate 5 None) se"

definition addresses_of :: "nat option \<Rightarrow> mgr \<Rightarrow> multiaddr option list res" where
  "addresses_of s m = rbind (deref s) (\<lambda>r. rbind (session_node r m) (\<lambda>n. Inr (ndAddresses n)))"

text \<open>The tail the senders share: accounting, the addresses of the first hop, \<^verbatim>\<open>SendWithOneHook\<close>. The
  addresses are evaluated and not used.\<close>

definition send_out ::
  "engine_env \<Rightarrow> gotime \<Rightarrow> nat \<Rightarrow> multiaddr option list res \<Rightarrow> nat option \<Rightarrow> skins \<times> keyset \<Rightarrow> engine \<Rightarrow> (sent_data \<times> engine) run" where
  "send_out ev now nilhook addrs hook msg e =
     obind (PostAcctOnion ev (fst msg) (e\<lparr>enKeys := snd msg\<rparr>)) (\<lambda>(d, e1).
     Some (rbind addrs (\<lambda>_.
       rbind (SendWithOneHook (evAddKey ev) (evStr ev) (evYellow ev) (evSendDraw ev) (evDraw ev) now nilhook d hook
                (enMgr e1) (enPending e1)) (\<lambda>(p, sent).
         Inr (d, e1\<lparr>enPending := p, enSent := enSent e1 @ (case sent of None \<Rightarrow> [] | Some x \<Rightarrow> [x])\<rparr>)))))"

text \<open>\<^verbatim>\<open>exit.Params\<close> has the fields Alice and Bob in this order; \<^verbatim>\<open>SendExit\<close> gives it bob and alice.\<close>

definition SendExit ::
  "engine_env \<Rightarrow> gotime \<Rightarrow> nat \<Rightarrow> u16 \<Rightarrow> bytes \<Rightarrow> bytes \<Rightarrow> nat option \<Rightarrow> nat option \<Rightarrow> nat option \<Rightarrow> engine \<Rightarrow>
   (sent_data \<times> engine) run" where
  "SendExit ev now nilhook port msg i alice bob hook e =
     obind (select_circuit ev [None, None, bob, None, None, alice] e) (\<lambda>se.
     let c = circuit_of se; m = enMgr e in
     obind (Some (MakeExit ev m port msg i bob alice c (enKeys e) (mgProtocols m))) (\<lambda>o1.
       send_out ev now nilhook (addresses_of (c ! 0) m) hook o1 e))"

definition SendGetBalance ::
  "engine_env \<Rightarrow> gotime \<Rightarrow> nat \<Rightarrow> nat option \<Rightarrow> nat option \<Rightarrow> nat option \<Rightarrow> engine \<Rightarrow> (sent_data \<times> engine) run" where
  "SendGetBalance ev now nilhook alice bob hook e =
     obind (select_circuit ev [None, None, bob, None, None, alice] e) (\<lambda>se.
     let c = circuit_of se; m = enMgr e in
     obind (Some (rbind (deref alice) (\<lambda>r. rbind (sess_at m r) (\<lambda>sd.
              MakeGetBalance ev m (sdID sd) alice bob c (enKeys e) (mgProtocols m))))) (\<lambda>o1.
       send_out ev now nilhook (addresses_of (c ! 0) m) hook o1 e))"

text \<open>\<^verbatim>\<open>AddrToAddrPort\<close> of nil is an error; \<open>to_addr_port\<close> is what it does with an address.\<close>

definition SendHiddenService ::
  "engine_env \<Rightarrow> gotime \<Rightarrow> nat \<Rightarrow> (multiaddr \<Rightarrow> string res) \<Rightarrow> bytes \<Rightarrow> prv \<Rightarrow> u32 \<Rightarrow> u16 \<Rightarrow> gotime \<Rightarrow> nat option \<Rightarrow> nat option \<Rightarrow>
   service \<Rightarrow> nat option \<Rightarrow> engine \<Rightarrow> (intro_ad \<times> engine) run" where
  "SendHiddenService ev now nilhook to_addr_port i key relayRate port expiry alice bob svc hook e =
     obind (select_circuit ev [None, None, alice, None, None, None] e) (\<lambda>se.
     obind (Some (rbind (slice_expr se 0 5) (\<lambda>s5. Inr (circuit_of s5)))) (\<lambda>c.
     let m = enMgr e; C = evC ev in
     obind (Some (rbind (deref alice) (\<lambda>r. rbind (session_node r m) (\<lambda>n.
              rbind (PickAddress (evAddKey ev) n (mgProtocols m)) (\<lambda>a. case a of
                None \<Rightarrow> Inl (Error ''nil multiaddr.Multiaddr'')
              | Some ma \<Rightarrow> to_addr_port ma))))) (\<lambda>_.
     obind (Some (rbind (deref bob) (\<lambda>r. rbind (session_node r m) (\<lambda>n. rbind (deref (ndIdentity n)) (\<lambda>k.
              intro_New C i key (Some (kPub k)) relayRate port expiry))))) (\<lambda>ad.
     obind (Some (MakeHiddenService ev m ad alice bob c (enKeys e) (mgProtocols m))) (\<lambda>o1.
     obind (Some (local_address ev e)) (\<lambda>_.
     obind (PostAcctOnion ev (fst o1) (e\<lparr>enKeys := snd o1\<rparr>)) (\<lambda>(d, e1).
     let e2 = e1\<lparr>enHidden := AddHiddenService C svc key ad (enHidden e1)\<rparr> in
     Some (rbind (local_address ev e2) (\<lambda>_. rbind (addresses_of (c ! 0) m) (\<lambda>_.
       rbind (SendWithOneHook (evAddKey ev) (evStr ev) (evYellow ev) (evSendDraw ev) (evDraw ev) now nilhook d hook
                (enMgr e2) (enPending e2)) (\<lambda>(p, sent).
         Inr (ad, e2\<lparr>enPending := p, enSent := enSent e2 @ (case sent of None \<Rightarrow> [] | Some x \<Rightarrow> [x])\<rparr>))))))))))))"

text \<open>The callback of \<^verbatim>\<open>SendIntroQuery\<close>: the answer is decoded and given to the hook when it is an intro ad.\<close>

definition introquery_answer :: "engine_env \<Rightarrow> bytes \<Rightarrow> intro_ad option res" where
  "introquery_answer ev b = rbind (Recognise (evReg ev) (Load b 0)) (\<lambda>(k, s).
     rbind (deref k) (\<lambda>kind. rbind (codec_Decode ev kind s) (\<lambda>(x, _).
       Inr (case x of MIntro ad \<Rightarrow> Some ad | _ \<Rightarrow> None))))"

definition SendIntroQuery ::
  "engine_env \<Rightarrow> gotime \<Rightarrow> nat \<Rightarrow> bytes \<Rightarrow> pub option \<Rightarrow> nat option \<Rightarrow> nat option \<Rightarrow> nat \<Rightarrow> engine \<Rightarrow> (sent_data \<times> engine) run" where
  "SendIntroQuery ev now nilhook i hsk alice bob fn e =
     obind (select_circuit ev [None, None, bob, None, None, alice] e) (\<lambda>se.
     let c = circuit_of se; m = enMgr e in
     obind (Some (MakeIntroQuery ev m i hsk bob alice c (enKeys e) (mgProtocols m))) (\<lambda>o1.
       send_out ev now nilhook (addresses_of (c ! 0) m) (Some fn) o1 e))"

text \<open>A message to a hidden service: its \<^verbatim>\<open>Forwards\<close> are replaced by the two hops, which the encoding does not use.\<close>

definition SendMessage ::
  "engine_env \<Rightarrow> gotime \<Rightarrow> nat \<Rightarrow> nat option list \<Rightarrow> whisper \<Rightarrow> nat option \<Rightarrow> engine \<Rightarrow> (sent_data \<times> engine) run" where
  "SendMessage ev now nilhook forwards mp hook e =
     obind (SelectHops (evStr ev) (evYellow ev) (evHopDraw ev) (evDraw ev) (evFuel ev) [0, 1] forwards (enMgr e)) (\<lambda>oo.
     obind (Some (rbind (index_expr oo 0) (\<lambda>f0. rbind (index_expr oo 1) (\<lambda>_. Inr f0)))) (\<lambda>f0.
       send_out ev now nilhook (addresses_of f0 (enMgr e)) hook ([OMessage mp], enKeys e) e))"

definition SendPing ::
  "engine_env \<Rightarrow> gotime \<Rightarrow> nat \<Rightarrow> bytes \<Rightarrow> nat option list \<Rightarrow> nat option \<Rightarrow> engine \<Rightarrow> (sent_data \<times> engine) run" where
  "SendPing ev now nilhook i c0 hook e =
     obind (select_circuit ev (copy_to (replicate 6 None) c0) e) (\<lambda>se.
     let c = copy_to c0 se; m = enMgr e in
     obind (Some (rbind (index_expr se (int (length se) - 1)) (\<lambda>client. Ping ev m i client c (enKeys e) (mgProtocols m)))) (\<lambda>o1.
       send_out ev now nilhook (addresses_of (c ! 0) m) hook o1 e))"

definition session_at_address :: "(multiaddr \<Rightarrow> string) \<Rightarrow> string \<Rightarrow> mgr \<Rightarrow> nat option res" where
  "session_at_address mstr ap m = IterateSessions (\<lambda>r st. rbind (session_node r m) (\<lambda>n.
     rbind (has_address mstr ap n) (\<lambda>f. Inr (if f then (True, Some r) else (False, st))))) m None"

definition SendRoute ::
  "engine_env \<Rightarrow> gotime \<Rightarrow> nat \<Rightarrow> bytes \<Rightarrow> bytes \<Rightarrow> pub \<Rightarrow> string \<Rightarrow> nat option \<Rightarrow> engine \<Rightarrow> (sent_data \<times> engine) option run" where
  "SendRoute ev now nilhook i iv k ap hook e =
     obind (Some (rbind (FindNodeByAddrPort (evStr ev) ap (enMgr e)) (\<lambda>_.
              rbind (session_at_address (evStr ev) ap (enMgr e)) (\<lambda>ss. rbind (local_address ev e) (\<lambda>_. Inr ss))))) (\<lambda>ss.
     case ss of
       None \<Rightarrow> Some (Inr None)
     | Some _ \<Rightarrow>
         obind (select_circuit ev [None, None, ss, None, None, None] e) (\<lambda>se.
         let c = circuit_of se; m = enMgr e in
         obind (Some (rbind (index_expr se 5) (\<lambda>alice.
                  MakeRoute ev m i iv k alice (c ! 2) c (enKeys e) (mgProtocols m)))) (\<lambda>o1.
         obind (send_out ev now nilhook (addresses_of (c ! 0) m) hook o1 e) (\<lambda>r. Some (Inr (Some r))))))"

section \<open>Buying sessions\<close>

text \<open>What the surroundings supply to a purchase: the draws for the keys and identifiers of the five sessions, the
  identifier of the confirmation, the orders of the map ranges and the draws of the shuffle, the confirmation channels that are
  made, and what arrives on them, in order: the index of the channel and whether the payment succeeded.\<close>

record purchase =
  buGen :: "nat \<Rightarrow> prv res \<times> prv res"
  buID :: "nat \<Rightarrow> bytes"
  buConf :: bytes
  buOrd :: "nat \<Rightarrow> bytes list"
  buDraw :: "nat \<Rightarrow> nat"
  buChan :: "nat \<Rightarrow> nat"
  buConfirms :: "(nat \<times> bool) list"

definition new_sessions :: "crypto_ops \<Rightarrow> purchase \<Rightarrow> session_msg list res" where
  "new_sessions C b = rmap (\<lambda>i.
     case session_New C (fst (buGen b i)) (snd (buGen b i)) (buID b i) (of_nat i) of
       OSession x _ \<Rightarrow> Inr x
     | _ \<Rightarrow> Inl (Panic ''interface conversion: interface is nil'')) [0..<5]"

text \<open>The payments, each with the channel of the node it goes to.\<close>

definition send_payments ::
  "crypto_ops \<Rightarrow> purchase \<Rightarrow> u64 \<Rightarrow> mgr \<Rightarrow> nat list \<Rightarrow> session_msg list \<Rightarrow> (nat \<times> payment) list res" where
  "send_payments C b amount m nodes s = rmap (\<lambda>i.
     rbind (node_at m (nodes ! i)) (\<lambda>n. rbind (PreimageHash C (s ! i)) (\<lambda>h.
       Inr (ndPayChan n, PayChan_Send amount (sID (s ! i)) h (buChan b i))))) [0..<5]"

text \<open>The loop that waits for five confirmations of success, from any of the channels; it blocks when no more arrive.\<close>

fun await_confirms :: "nat \<Rightarrow> (nat \<times> bool) list \<Rightarrow> bool" where
  "await_confirms 0 cs = True"
| "await_confirms (Suc n) [] = False"
| "await_confirms (Suc n) ((i, success) # cs) = await_confirms (if success then n else Suc n) cs"

text \<open>The purchase up to the payments: the nodes, the return session, the session messages and the payments.\<close>

definition buy_payments ::
  "engine_env \<Rightarrow> purchase \<Rightarrow> u64 \<Rightarrow> engine \<Rightarrow> (engine \<times> nat list \<times> nat \<times> session_msg list \<times> (nat \<times> payment) list) run" where
  "buy_payments ev b amount e =
     obind (SelectUnusedCircuit (buOrd b) (evFuel ev) (enMgr e)) (\<lambda>(m, nodes).
     obind (Some (rmap (\<lambda>n. case n of None \<Rightarrow> Inl (Error ''failed to find nodes'') | Some r \<Rightarrow> Inr r) nodes)) (\<lambda>ns.
     obind (Some (rbind (GetSessionsAtHop 5 m) (\<lambda>hs. index_expr (shuffled (buDraw b) hs) 0))) (\<lambda>ret.
     obind (Some (new_sessions (evC ev) b)) (\<lambda>s.
     obind (Some (send_payments (evC ev) b amount m ns s)) (\<lambda>ps.
       Some (Inr (e\<lparr>enMgr := m\<rparr>, ns, ret, s, ps)))))))"

definition BuyNewSessions ::
  "engine_env \<Rightarrow> purchase \<Rightarrow> gotime \<Rightarrow> nat \<Rightarrow> u64 \<Rightarrow> nat \<Rightarrow> engine \<Rightarrow> (sent_data \<times> engine) run" where
  "BuyNewSessions ev b now nilhook amount hook e =
     obind (buy_payments ev b amount e) (\<lambda>(e1, ns, ret, s, ps).
     if \<not> await_confirms 5 (buConfirms b) then None
     else
       let m = enMgr e1 in
       obind (Some (MakeSession ev m (buConf b) s (Some ret) ns (enKeys e1) (mgProtocols m))) (\<lambda>o1.
         send_out ev now nilhook (rbind (node_at m (ns ! 0)) (\<lambda>n. Inr (ndAddresses n))) (Some hook) o1 e1))"

text \<open>The callback of the confirmation stores the sessions, at the new addresses \<open>new\<close>. What \<^verbatim>\<open>PendingPayments.Delete\<close> returns
  is dropped: the list keeps its length, over the array that \<^verbatim>\<open>Delete\<close> has shifted.\<close>

definition store_session ::
  "crypto_ops \<Rightarrow> (nat \<Rightarrow> nat) \<Rightarrow> u64 \<Rightarrow> nat list \<Rightarrow> session_msg list \<Rightarrow> nat \<Rightarrow> mgr \<Rightarrow> mgr res" where
  "store_session C new amount ns s i m =
     rbind (node_at m (ns ! 0)) (\<lambda>n0. rbind (index_expr (ndAddresses n0) 0) (\<lambda>a. rbind (deref a) (\<lambda>_.
     rbind (NewSessionData C (Inl nil_panic) (Inl nil_panic) (sID (s ! i)) (Some (ns ! i)) amount (sHeader (s ! i))
              (sPayload (s ! i)) (of_nat i)) (\<lambda>sd.
     rbind (CircuitCache_Add (new i) (set_sess (new i) sd m)) (\<lambda>m1.
     rbind (PreimageHash C (s ! i)) (\<lambda>h.
       Inr (m1\<lparr>mgSessions := mgSessions m1 @ [new i], mgPending := fst (pp_delete_loop h (mgPending m1))\<rparr>)))))))"

definition store_sessions ::
  "crypto_ops \<Rightarrow> (nat \<Rightarrow> nat) \<Rightarrow> u64 \<Rightarrow> nat list \<Rightarrow> session_msg list \<Rightarrow> mgr \<Rightarrow> mgr res" where
  "store_sessions C new amount ns s = rfold (store_session C new amount ns s) [0..<5]"

end
