(* ===== verification/Hidden_Props.thy ===== *)
theory Hidden_Props
  imports Hidden Ads_Props
begin

text \<open>
  Properties of the hidden service manager: the invariant of its maps over every sequence of operations, what the search
  for a cloaked key finds, and that deletion by identifier takes out exactly the introductions with that
  identifier, whatever the order in which Go ranges over the maps.
\<close>

section \<open>Reachable states\<close>

text \<open>The hosted introductions are keyed by the key inside them, the local services by their own key.\<close>

definition hidden_ok :: "crypto_ops \<Rightarrow> hidden \<Rightarrow> bool" where
  "hidden_ok C h \<longleftrightarrow>
     (\<forall>k i. hdMyIntros h k = Some i \<longrightarrow> (\<exists>p. aKey (inIntro i) = Some p \<and> Pub_ToBytes C p = k)) \<and>
     (\<forall>k hs. hdServices h k = Some hs \<longrightarrow> Pub_ToBytes C (prv_pub C (lhPrv hs)) = k)"

text \<open>The engine adds an introduction under the key it carries; \<open>Range\<close> is an order of the keys of a map.\<close>

definition Range :: "('k \<rightharpoonup> 'v) \<Rightarrow> 'k list \<Rightarrow> bool" where
  "Range m ks \<longleftrightarrow> distinct ks \<and> set ks = dom m"

inductive hidden_reach :: "crypto_ops \<Rightarrow> hidden \<Rightarrow> bool" for C where
  start: "hidden_reach C NewHiddenRouting"
| addService: "hidden_reach C h \<Longrightarrow> hidden_reach C (AddHiddenService C svc key ad h)"
| addIntro: "hidden_reach C h \<Longrightarrow> AddIntro C (aKey (inIntro i)) i h = Inr h' \<Longrightarrow> hidden_reach C h'"
| addIntroTo: "hidden_reach C h \<Longrightarrow> AddIntroToHiddenService k ad h = Inr h' \<Longrightarrow> hidden_reach C h'"
| delete: "hidden_reach C h \<Longrightarrow> hidden_reach C (snd (hidden_Delete k h))"
| deleteByID: "hidden_reach C h \<Longrightarrow> Range (hdServices h) svcs \<Longrightarrow> Range (hdKnown h) known \<Longrightarrow>
    DeleteIntroByID svcs known i h = Inr h' \<Longrightarrow> hidden_reach C h'"
| deleteKnown: "hidden_reach C h \<Longrightarrow> hidden_reach C (snd (DeleteKnownIntro k h))"

lemma delete_service_intro_shape:
  "delete_service_intro i ks h = Inr h' \<Longrightarrow>
     hdMyIntros h' = hdMyIntros h \<and> hdKnown h' = hdKnown h \<and>
     (\<forall>k. map_option lhPrv (hdServices h' k) = map_option lhPrv (hdServices h k))"
  by (induction ks) (auto elim!: rbind_InrE simp: deref_def split: option.splits)

lemma delete_known_intro_shape:
  "delete_known_intro i ks h = Inr h' \<Longrightarrow> hdMyIntros h' = hdMyIntros h \<and> hdServices h' = hdServices h"
  by (induction ks) (auto elim!: rbind_InrE split: if_splits)

lemma hidden_ok_services:
  "hidden_ok C h \<Longrightarrow> hdMyIntros h' = hdMyIntros h \<Longrightarrow>
   \<forall>k. map_option lhPrv (hdServices h' k) = map_option lhPrv (hdServices h k) \<Longrightarrow> hidden_ok C h'"
proof -
  assume ok: "hidden_ok C h" and my: "hdMyIntros h' = hdMyIntros h"
    and svc: "\<forall>k. map_option lhPrv (hdServices h' k) = map_option lhPrv (hdServices h k)"
  have "Pub_ToBytes C (prv_pub C (lhPrv hs)) = k" if "hdServices h' k = Some hs" for k hs
  proof -
    have "map_option lhPrv (hdServices h k) = Some (lhPrv hs)" using svc that by (metis option.map(2))
    then obtain hs0 where "hdServices h k = Some hs0" "lhPrv hs0 = lhPrv hs" by auto
    then show ?thesis using ok unfolding hidden_ok_def by metis
  qed
  then show "hidden_ok C h'" using ok my unfolding hidden_ok_def by simp
qed

lemma DeleteIntroByID_ok: "DeleteIntroByID svcs known i h = Inr h' \<Longrightarrow> hidden_ok C h \<Longrightarrow> hidden_ok C h'"
  unfolding DeleteIntroByID_def
  by (elim rbind_InrE)
    (auto dest!: delete_service_intro_shape delete_known_intro_shape intro: hidden_ok_services)

lemma hidden_reach_ok: "hidden_reach C h \<Longrightarrow> hidden_ok C h"
proof (induction rule: hidden_reach.induct)
  case (deleteByID h svcs known i h')
  then show ?case by (blast intro: DeleteIntroByID_ok)
next
  case (addIntro h i h')
  then show ?case
    by (auto simp: AddIntro_def hidden_ok_def Let_def deref_def split: option.splits if_splits)
next
  case (addIntroTo h k ad h')
  then show ?case
    by (auto simp: AddIntroToHiddenService_def hidden_ok_def deref_def split: option.splits if_splits)
qed (auto simp: hidden_ok_def NewHiddenRouting_def AddHiddenService_def hidden_Delete_def DeleteKnownIntro_def Let_def
       split: option.splits)

section \<open>The search for a cloaked key\<close>

lemma find_append: "find P (xs @ ys) = (case find P xs of None \<Rightarrow> find P ys | Some x \<Rightarrow> Some x)"
  by (induction xs) auto

lemma match_my_intros_find:
  "hidden_ok C h \<Longrightarrow> set ks \<subseteq> dom (hdMyIntros h) \<Longrightarrow> match_my_intros C clk h ks = Inr (find (Match C clk) ks)"
proof (induction ks)
  case (Cons k ks)
  then obtain i where i: "hdMyIntros h k = Some i" by auto
  then obtain p where "aKey (inIntro i) = Some p" "Pub_ToBytes C p = k" using Cons.prems(1) by (auto simp: hidden_ok_def)
  then show ?case using Cons i by simp
qed simp

text \<open>The three maps are searched as one list of keys.\<close>

lemma FindCloakedHiddenService_find:
  assumes "hidden_ok C h" and "Range (hdMyIntros h) mine"
  shows "FindCloakedHiddenService C mine svcs known clk h = Inr (find (Match C clk) (mine @ svcs @ known))"
proof -
  have "match_my_intros C clk h mine = Inr (find (Match C clk) mine)"
    using assms by (intro match_my_intros_find) (simp_all add: Range_def)
  then show ?thesis by (simp add: FindCloakedHiddenService_def find_append split: option.split)
qed


text \<open>A state with one local service.\<close>

definition demo_hidden :: hidden where
  "demo_hidden = AddHiddenService demo_ops \<lparr>svcPort = 80, svcRelayRate = 1, svcTransport = 4\<rparr> demo_prv demo_intro
     NewHiddenRouting"

lemma demo_hidden_dom:
  "dom (hdMyIntros demo_hidden) = {}" "dom (hdKnown demo_hidden) = {}"
  "dom (hdServices demo_hidden) = {Pub_ToBytes demo_ops (prv_pub demo_ops demo_prv)}"
  by (simp_all add: demo_hidden_def AddHiddenService_def NewHiddenRouting_def Let_def)


section \<open>Deletion by identifier\<close>

text \<open>The state without the introductions of an identifier, as a filter.\<close>

definition drop_intro :: "bytes \<Rightarrow> local_hidden_service \<Rightarrow> local_hidden_service" where
  "drop_intro i hs = hs\<lparr>lhIntros := filter (\<lambda>ad. aID ad \<noteq> i) (lhIntros hs)\<rparr>"

definition without_id :: "bytes \<Rightarrow> hidden \<Rightarrow> hidden" where
  "without_id i h = h\<lparr>hdServices := (\<lambda>k. map_option (drop_intro i) (hdServices h k)),
     hdKnown := (\<lambda>k. if \<exists>ad. hdKnown h k = Some ad \<and> aID ad = i then None else hdKnown h k)\<rparr>"

definition has_intro :: "bytes \<Rightarrow> local_hidden_service \<Rightarrow> bool" where
  "has_intro i hs \<longleftrightarrow> (\<exists>ad \<in> set (lhIntros hs). aID ad = i)"

text \<open>An identifier is used once: by one introduction of one service, by one known introduction.\<close>

definition id_once :: "bytes \<Rightarrow> hidden \<Rightarrow> bool" where
  "id_once i h \<longleftrightarrow>
     (\<forall>k hs. hdServices h k = Some hs \<longrightarrow> length (filter (\<lambda>ad. aID ad = i) (lhIntros hs)) \<le> 1) \<and>
     (\<forall>k k' hs hs'. hdServices h k = Some hs \<longrightarrow> hdServices h k' = Some hs' \<longrightarrow> has_intro i hs \<longrightarrow> has_intro i hs' \<longrightarrow> k = k') \<and>
     (\<forall>k k' ad ad'. hdKnown h k = Some ad \<longrightarrow> hdKnown h k' = Some ad' \<longrightarrow> aID ad = i \<longrightarrow> aID ad' = i \<longrightarrow> k = k')"

lemma drop_intro_none: "\<not> has_intro i hs \<Longrightarrow> drop_intro i hs = hs"
  by (simp add: drop_intro_def has_intro_def filter_id_conv [THEN iffD2])

lemma del_at_filter:
  "find_index P xs = Some j \<Longrightarrow> length (filter P xs) \<le> 1 \<Longrightarrow> del_at j xs = filter (\<lambda>x. \<not> P x) xs"
proof (induction xs arbitrary: j)
  case (Cons x xs)
  show ?case
  proof (cases "P x")
    case True
    then have "filter P xs = []" using Cons.prems by simp
    then have "filter (\<lambda>x. \<not> P x) xs = xs" by (simp add: filter_empty_conv)
    then show ?thesis using True Cons.prems by (simp add: del_at_def)
  next
    case False
    then obtain k where "j = Suc k" "find_index P xs = Some k" using Cons.prems by auto
    then show ?thesis using Cons False by (simp add: del_at_def)
  qed
qed simp

lemma delete_service_intro_filter:
  assumes "id_once i h" and "set ks \<subseteq> dom (hdServices h)"
    and "\<And>k hs. hdServices h k = Some hs \<Longrightarrow> has_intro i hs \<Longrightarrow> k \<in> set ks"
  shows "delete_service_intro i ks h = Inr (h\<lparr>hdServices := \<lambda>k. map_option (drop_intro i) (hdServices h k)\<rparr>)"
  using assms(2,3)
proof (induction ks)
  case Nil
  then have "map_option (drop_intro i) (hdServices h k) = hdServices h k" for k
    by (cases "hdServices h k") (auto intro: drop_intro_none)
  then show ?case by simp
next
  case (Cons k ks)
  obtain hs where hs: "hdServices h k = Some hs" using Cons.prems by auto
  show ?case
  proof (cases "find_index (\<lambda>ad. aID ad = i) (lhIntros hs)")
    case None
    then have "\<not> has_intro i hs" by (auto simp: find_index_None has_intro_def)
    then have "\<And>k' hs'. hdServices h k' = Some hs' \<Longrightarrow> has_intro i hs' \<Longrightarrow> k' \<in> set ks"
      using Cons.prems(2) hs by fastforce
    then show ?thesis using Cons hs None by simp
  next
    case (Some j)
    then have has: "has_intro i hs" by (auto simp: find_index_Some has_intro_def intro: nth_mem)
    have here: "hs\<lparr>lhIntros := del_at j (lhIntros hs)\<rparr> = drop_intro i hs"
      using del_at_filter [OF Some] assms(1) hs by (simp add: id_once_def drop_intro_def)
    have "\<And>k' hs'. hdServices h k' = Some hs' \<Longrightarrow> k' \<noteq> k \<Longrightarrow> \<not> has_intro i hs'"
      using assms(1) hs has unfolding id_once_def by blast
    then have "map_option (drop_intro i) (hdServices h k') = hdServices h k'" if "k' \<noteq> k" for k'
      using that by (cases "hdServices h k'") (auto intro: drop_intro_none)
    then have "(hdServices h)(k \<mapsto> drop_intro i hs) = (\<lambda>k. map_option (drop_intro i) (hdServices h k))"
      using hs by (auto simp: fun_eq_iff)
    then show ?thesis using hs Some here by simp
  qed
qed

lemma delete_known_intro_filter:
  assumes "id_once i h" and "set ks \<subseteq> dom (hdKnown h)"
    and "\<And>k ad. hdKnown h k = Some ad \<Longrightarrow> aID ad = i \<Longrightarrow> k \<in> set ks"
  shows "delete_known_intro i ks h =
    Inr (h\<lparr>hdKnown := \<lambda>k. if \<exists>ad. hdKnown h k = Some ad \<and> aID ad = i then None else hdKnown h k\<rparr>)"
  using assms(2,3)
proof (induction ks)
  case Nil
  then have "(\<lambda>k. if \<exists>ad. hdKnown h k = Some ad \<and> aID ad = i then None else hdKnown h k) = hdKnown h"
    by (auto simp: fun_eq_iff)
  then show ?case by simp
next
  case (Cons k ks)
  obtain ad where ad: "hdKnown h k = Some ad" using Cons.prems by auto
  show ?case
  proof (cases "aID ad = i")
    case True
    then have "\<And>k' ad'. hdKnown h k' = Some ad' \<Longrightarrow> aID ad' = i \<Longrightarrow> k' = k"
      using assms(1) ad unfolding id_once_def by blast
    then have "(\<exists>ad. hdKnown h k' = Some ad \<and> aID ad = i) \<longleftrightarrow> k' = k" for k'
      using ad True by blast
    then have "(hdKnown h)(k := None) =
        (\<lambda>k. if \<exists>ad. hdKnown h k = Some ad \<and> aID ad = i then None else hdKnown h k)"
      by (simp only: fun_upd_def)
    then show ?thesis using ad True by simp
  next
    case False
    then have "\<And>k' ad'. hdKnown h k' = Some ad' \<Longrightarrow> aID ad' = i \<Longrightarrow> k' \<in> set ks"
      using Cons.prems(2) ad by fastforce
    then show ?thesis using Cons ad False by simp
  qed
qed

text \<open>C18: Where an identifier is used by at most one introduction of the local services and at most one known
  introduction, \<^verbatim>\<open>DeleteIntroByID\<close> is the filter that drops the introductions with that identifier from both maps:
  the loops with their early exits and slice deletions take out exactly those, keep every service and every
  hosted introduction, and do so for every order in which the maps are ranged over.\<close>

theorem DeleteIntroByID_filters:
  assumes "id_once i h" and "Range (hdServices h) svcs" and "Range (hdKnown h) known"
  shows "DeleteIntroByID svcs known i h = Inr (without_id i h)"
proof -
  let ?h1 = "h\<lparr>hdServices := \<lambda>k. map_option (drop_intro i) (hdServices h k)\<rparr>"
  have "delete_service_intro i svcs h = Inr ?h1"
    using assms by (intro delete_service_intro_filter) (auto simp: Range_def)
  moreover have "id_once i ?h1"
    using assms(1) by (auto simp: id_once_def has_intro_def drop_intro_def)
  then have "delete_known_intro i known ?h1 = Inr (without_id i h)"
    using assms(3) delete_known_intro_filter [of i ?h1 known]
    by (auto simp: Range_def without_id_def cong: if_cong)
  ultimately show ?thesis by (simp add: DeleteIntroByID_def)
qed

theorem DeleteIntroByID_filters_witness:
  "DeleteIntroByID [Pub_ToBytes demo_ops (prv_pub demo_ops demo_prv)] [] (replicate 8 5) demo_hidden =
   Inr (without_id (replicate 8 5) demo_hidden)"
proof -
  have "id_once (replicate 8 5) demo_hidden"
    by (simp add: id_once_def demo_hidden_def AddHiddenService_def NewHiddenRouting_def Let_def)
  then show ?thesis by (rule DeleteIntroByID_filters) (simp_all add: Range_def demo_hidden_dom)
qed

end
