(* ===== verification/Accounts_Props.thy ===== *)
theory Accounts_Props
  imports Accounts
begin

text \<open>
  The books of \<open>Accounts\<close> keep the contract of a keyed book: the pending payments by
  preimage, the pending responses by identifier and the services of a node by port. For the payments
  this is a fact about the loop that deletes in the array it is ranging over.
\<close>

section \<open>Pending payments\<close>

lemma pp_delete_step_skip:
  "pyPreimage (fst st ! i) \<noteq> h \<Longrightarrow> pp_delete_step h i st = st"
  by (simp add: pp_delete_step_def Let_def)

lemma pp_delete_skips:
  "\<forall>i\<in>set is. pyPreimage (arr ! i) \<noteq> h \<Longrightarrow> fold (pp_delete_step h) is (arr, n) = (arr, n)"
  by (induction "is") (simp_all add: pp_delete_step_skip)

lemma pp_delete_loop_absent:
  "\<forall>x\<in>set p. pyPreimage x \<noteq> h \<Longrightarrow> pp_delete_loop h p = (p, length p)"
  unfolding pp_delete_loop_def by (intro pp_delete_skips) auto

text \<open>After the deletion at \<open>j\<close> no later position of the shifted array holds the preimage.\<close>

lemma pp_delete_loop_at:
  assumes j: "j < length p" "pyPreimage (p ! j) = h" and d: "distinct (map pyPreimage p)"
  shows "pp_delete_loop h p =
    (if j = length p - 1 then (p, j) else (del_at j p @ [p ! (length p - 1)], length p - 1))"
proof -
  have other: "pyPreimage (p ! i) \<noteq> h" if "i < length p" "i \<noteq> j" for i
    using d that j nth_eq_iff_index_eq [OF d, of i j] by auto
  have idx: "[0..<length p] = [0..<j] @ j # [Suc j..<length p]"
    using j(1) upt_add_eq_append [of 0 j "length p - j"] by (simp add: upt_conv_Cons)
  have before: "fold (pp_delete_step h) [0..<j] (p, length p) = (p, length p)"
    using j(1) other by (intro pp_delete_skips) auto
  let ?q = "del_at j p @ [p ! (length p - 1)]"
  show ?thesis
  proof (cases "j = length p - 1")
    case True
    then have "[Suc j..<length p] = []" by auto
    then show ?thesis using True j(2) before
      unfolding pp_delete_loop_def idx by (simp add: pp_delete_step_def Let_def)
  next
    case False
    have "pyPreimage (?q ! i) \<noteq> h" if "i \<in> set [Suc j..<length p]" for i
    proof (cases "i = length p - 1")
      case True
      then show ?thesis using j(1) False other [of "length p - 1"] by (simp add: nth_append)
    next
      case False
      then have "?q ! i = p ! Suc i" and "Suc i < length p"
        using that j(1) by (auto simp: nth_append nth_del_at)
      then show ?thesis using other [of "Suc i"] that by auto
    qed
    then have "fold (pp_delete_step h) [Suc j..<length p] (?q, length p - 1) = (?q, length p - 1)"
      by (intro pp_delete_skips) blast
    then show ?thesis using False j(2) before
      unfolding pp_delete_loop_def idx by (simp add: pp_delete_step_def Let_def)
  qed
qed

lemma PendingPayments_Delete_distinct:
  assumes d: "distinct (map pyPreimage p)"
  shows "PendingPayments_Delete h p = filter (\<lambda>x. pyPreimage x \<noteq> h) p"
proof (cases "find_index (\<lambda>x. pyPreimage x = h) p")
  case None
  then show ?thesis by (simp add: find_index_None PendingPayments_Delete_def pp_delete_loop_absent)
next
  case (Some j)
  then have j: "j < length p" "pyPreimage (p ! j) = h" by (auto simp: find_index_Some)
  have "PendingPayments_Delete h p = del_at j p"
    using pp_delete_loop_at [OF j d] j(1)
    by (auto simp: PendingPayments_Delete_def del_at_def)
  also have "\<dots> = filter (\<lambda>x. pyPreimage x \<noteq> h) p"
    using remove_first_distinct [OF d, of h] Some by (simp add: remove_first_def)
  finally show ?thesis .
qed

interpretation pp: keyed_book pyPreimage "\<lambda>p. p" "\<lambda>x. x" "\<lambda>_. True" "\<lambda>x p. Inr (PendingPayments_Add x p)"
    PendingPayments_FindPreimage "\<lambda>h p. Inr (PendingPayments_Delete h p)"
  by unfold_locales
    (simp_all add: PendingPayments_FindPreimage_def PendingPayments_Add_def PendingPayments_Delete_distinct)

section \<open>Pending responses\<close>

lemma drop1_del_at: "(if k < 1 then drop 1 p else del_at k p) = del_at k p"
  by (auto simp: del_at_def)

lemma ProcessAndDelete_absent:
  "Pending_Find i p = None \<Longrightarrow> ProcessAndDelete run i p = Inr (None, p)"
  by (simp add: ProcessAndDelete_def Pending_Find_def find_by_index)

lemma ProcessAndDelete_found:
  assumes "Pending_Find i p = Some r"
  shows "ProcessAndDelete run i p =
    (case rsCallback r of
       None \<Rightarrow> Inl nil_panic
     | Some cb \<Rightarrow> Inr (Some (rsPostAcct r, cb, run cb), remove_first (\<lambda>x. rsID x = i) p))"
proof -
  obtain k where k: "find_index (\<lambda>x. rsID x = i) p = Some k" "p ! k = r"
    using assms by (auto simp: Pending_Find_def find_by_index)
  then show ?thesis unfolding ProcessAndDelete_def remove_first_def drop1_del_at
    by (simp split: option.split)
qed

lemma ProcessAndDelete_left:
  assumes "distinct (map rsID p)" and "list_all (\<lambda>r. rsCallback r \<noteq> None) p"
  shows "\<exists>w. ProcessAndDelete run i p = Inr (w, filter (\<lambda>x. rsID x \<noteq> i) p)"
proof (cases "Pending_Find i p")
  case None
  then have "filter (\<lambda>x. rsID x \<noteq> i) p = p" by (auto simp: Pending_Find_def find_None_iff_all intro!: filter_True)
  then show ?thesis using ProcessAndDelete_absent [OF None] by simp
next
  case (Some r)
  then have "rsCallback r \<noteq> None" using assms(2) by (auto simp: Pending_Find_def list_all_iff dest: find_Some_in_set)
  then show ?thesis
    using ProcessAndDelete_found [OF Some] remove_first_distinct [OF assms(1)] by auto
qed

interpretation resp: keyed_book rsID "\<lambda>p. p" "new_response now" "\<lambda>r. rsCallback r \<noteq> None"
    "\<lambda>pr p. Inr (Pending_Add now pr p)" Pending_Find "\<lambda>i p. rbind (ProcessAndDelete run i p) (\<lambda>(_, q). Inr q)"
proof (unfold_locales, goal_cases)
  case (3 p i)
  then show ?case using ProcessAndDelete_left [OF 3, of run i] by auto
qed (simp_all add: Pending_Find_def Pending_Add_def)

section \<open>Services of a node\<close>

lemma DeleteService_is: "ndServices (DeleteService port n) = remove_first (\<lambda>x. svcPort x = port) (ndServices n)"
  unfolding DeleteService_def remove_first_def drop1_del_at by (simp split: option.split)

interpretation svc: keyed_book svcPort ndServices "\<lambda>x. x" "\<lambda>_. True" AddService FindService
    "\<lambda>port n. Inr (DeleteService port n)"
  by unfold_locales (auto simp: AddService_def FindService_def find_None_iff_all remove_first_distinct DeleteService_is)

section \<open>Properties\<close>

text \<open>C15: deleting a pending payment removes exactly the payment with that preimage and keeps the others in
  order, although the loop shifts the array it is ranging over; a later search finds it no more and
  finds every other payment as before.\<close>

theorem payments_Delete_exact:
  assumes "distinct (map pyPreimage p)"
  shows "PendingPayments_Delete h p = filter (\<lambda>x. pyPreimage x \<noteq> h) p \<and>
    PendingPayments_FindPreimage k (PendingPayments_Delete h p) =
      (if k = h then None else PendingPayments_FindPreimage k p)"
proof -
  have "pp.book p" using assms by (simp add: pp.book_def list_all_iff)
  then show ?thesis using PendingPayments_Delete_distinct [OF assms] pp.remove_book [of p h] by simp
qed

definition demo_payments :: "payment list" where
  "demo_payments = [PayChan_Send 10 [1] [11] 0, PayChan_Send 20 [2] [12] 1, PayChan_Send 30 [3] [13] 2]"

theorem payments_Delete_exact_witness:
  "PendingPayments_Delete [12] demo_payments = [PayChan_Send 10 [1] [11] 0, PayChan_Send 30 [3] [13] 2] \<and>
   PendingPayments_FindPreimage [12] (PendingPayments_Delete [12] demo_payments) = None"
  using payments_Delete_exact [of demo_payments "[12]" "[12]"] unfolding demo_payments_def PayChan_Send_def PendingPayments_FindPreimage_def
  by (simp del: One_nat_def)

text \<open>C18: a pending response is processed once. Where the identifiers are distinct and the callbacks set,
  \<^verbatim>\<open>ProcessAndDelete\<close> runs the accounting hooks and the callback of the response with that identifier,
  leaves every other response pending, and a second call with the same identifier finds nothing to
  run.\<close>

theorem response_processed_once:
  assumes "distinct (map rsID p)" and "list_all (\<lambda>r. rsCallback r \<noteq> None) p" and "Pending_Find i p = Some r"
  shows "\<exists>cb q. rsCallback r = Some cb \<and>
    ProcessAndDelete run i p = Inr (Some (rsPostAcct r, cb, run cb), q) \<and>
    ProcessAndDelete run i q = Inr (None, q) \<and> (\<forall>k. k \<noteq> i \<longrightarrow> Pending_Find k q = Pending_Find k p)"
proof -
  obtain cb where cb: "rsCallback r = Some cb"
    using assms(2,3) by (auto simp: Pending_Find_def list_all_iff dest: find_Some_in_set)
  let ?q = "remove_first (\<lambda>x. rsID x = i) p"
  have run1: "ProcessAndDelete run i p = Inr (Some (rsPostAcct r, cb, run cb), ?q)"
    using ProcessAndDelete_found [OF assms(3)] cb by simp
  have "\<forall>k. Pending_Find k ?q = (if k = i then None else Pending_Find k p)"
  proof -
    have "resp.book p" unfolding resp.book_def using assms(1,2) by blast
    from resp.remove_book [OF this, of run i] run1 show ?thesis by auto
  qed
  then show ?thesis using cb run1 ProcessAndDelete_absent [of i ?q run] by auto
qed

definition demo_response :: "byte \<Rightarrow> (nat, nat) response" where
  "demo_response i = new_response (GoTime 0 0)
     \<lparr>rpID = [i], rpSentSize = 100, rpS = [], rpBillable = [], rpRet = [], rpPort = 80, rpCallback = Some (unat i),
      rpPostAcct = [1, 2]\<rparr>"

theorem response_processed_once_witness:
  "\<exists>cb q. Some (unat (7 :: byte)) = Some cb \<and>
    ProcessAndDelete (\<lambda>_. None) [7] [demo_response 5, demo_response 7] = Inr (Some ([1, 2], cb, None), q) \<and>
    ProcessAndDelete (\<lambda>_. None) [7] q = Inr (None, q) \<and>
    (\<forall>k. k \<noteq> [7] \<longrightarrow> Pending_Find k q = Pending_Find k [demo_response 5, demo_response 7])"
  using response_processed_once [of "[demo_response 5, demo_response 7]" "[7]" "demo_response 7" "\<lambda>_. None"]
  by (simp add: demo_response_def new_response_def Pending_Find_def)

text \<open>the services of a node are keyed by port. A service is added when its port is free, is then found
  under that port and nowhere else, a second service on the port is refused, and deleting the port
  restores what there was.\<close>

theorem node_services:
  assumes "distinct (map svcPort (ndServices n))" and "FindService (svcPort s) n = None"
  shows "\<exists>n'. AddService s n = Inr n' \<and> distinct (map svcPort (ndServices n')) \<and>
    (\<forall>k. FindService k n' = (if k = svcPort s then Some s else FindService k n)) \<and>
    (\<forall>t. svcPort t = svcPort s \<longrightarrow> (\<exists>m. AddService t n' = Inl (Error m))) \<and>
    (\<forall>b. SendTo (svcPort s) b n' = Inr (svcTransport s, b)) \<and>
    ndServices (DeleteService (svcPort s) n') = ndServices n"
proof -
  obtain n' where n': "AddService s n = Inr n'" "svc.book n'"
    "\<forall>k. FindService k n' = (if k = svcPort s then Some s else FindService k n)"
    using svc.add_book [OF assms(2)] assms(1) by (auto simp: svc.book_def list_all_iff)
  have "\<exists>m. AddService t n' = Inl (Error m)" if "svcPort t = svcPort s" for t
    using that n'(3) by (auto simp: AddService_def FindService_def dest!: spec [of _ "svcPort s"] find_Some_in_set)
  moreover have "ndServices (DeleteService (svcPort s) n') = ndServices n"
    using svc.add_remove [OF assms(2)] assms(1) n'(1) by (auto simp: svc.book_def list_all_iff)
  ultimately show ?thesis using n' by (auto simp: svc.book_def SendTo_def)
qed

theorem node_services_witness:
  "\<exists>n'. AddService \<lparr>svcPort = 80, svcRelayRate = 1, svcTransport = 4\<rparr> (fst (NewNode [1] 0 [] None 0 5)) = Inr n' \<and>
    distinct (map svcPort (ndServices n')) \<and>
    (\<forall>k. FindService k n' = (if k = 80 then Some \<lparr>svcPort = 80, svcRelayRate = 1, svcTransport = 4\<rparr>
       else FindService k (fst (NewNode [1] 0 [] None 0 5)))) \<and>
    (\<forall>t. svcPort t = 80 \<longrightarrow> (\<exists>m. AddService t n' = Inl (Error m))) \<and>
    (\<forall>b. SendTo 80 b n' = Inr (4, b)) \<and> ndServices (DeleteService 80 n') = []"
  using node_services [of "fst (NewNode [1] 0 [] None 0 5)" "\<lparr>svcPort = 80, svcRelayRate = 1, svcTransport = 4\<rparr>"]
  by (simp add: NewNode_def FindService_def)

end
