(* ===== verification/Manager_Props.thy ===== *)
theory Manager_Props
  imports Manager Accounts_Props
begin

text \<open>
  The invariant of the session manager, kept by its operations in every order: the sessions are complete and
  have different header keys, and a slot of a circuit in the cache holds a session of that node and
  that hop. On it rest the results on charging, cloaked keys and deletion.
\<close>

section \<open>Searching loops\<close>

lemma find_res_find: "\<forall>x\<in>set xs. P x = Inr (Q x) \<Longrightarrow> find_res P xs = Inr (find Q xs)"
  by (induction xs) auto

lemma find_res_Some: "find_res P xs = Inr (Some x) \<Longrightarrow> x \<in> set xs \<and> P x = Inr True"
  by (induction xs) (auto simp: rbind_eq_Inr split: if_splits)

lemma find_res_None: "find_res P xs = Inr None \<Longrightarrow> \<forall>x\<in>set xs. P x = Inr False"
  by (induction xs) (auto simp: rbind_eq_Inr split: if_splits)

section \<open>The invariant\<close>

definition sess_ok :: "mgr \<Rightarrow> nat \<Rightarrow> bool" where
  "sess_ok m r \<longleftrightarrow> mgS m r \<noteq> None \<and> sdHeader (the (mgS m r)) \<noteq> None \<and> sdPayload (the (mgS m r)) \<noteq> None \<and>
     sdNode (the (mgS m r)) \<noteq> None \<and> mgN m (the (sdNode (the (mgS m r)))) \<noteq> None"

definition header_of :: "mgr \<Rightarrow> nat \<Rightarrow> bytes" where
  "header_of m r = kBytes (the (sdHeader (the (mgS m r))))"

definition hop_of :: "mgr \<Rightarrow> nat \<Rightarrow> nat" where
  "hop_of m r = unat (sdHop (the (mgS m r)))"

definition peer_of :: "mgr \<Rightarrow> nat \<Rightarrow> bytes" where
  "peer_of m r = ndID (the (mgN m (the (sdNode (the (mgS m r))))))"

definition circuit_ok :: "mgr \<Rightarrow> bytes \<Rightarrow> nat option list \<Rightarrow> bool" where
  "circuit_ok m i c \<longleftrightarrow> length c = 5 \<and>
     (\<forall>k<5. \<forall>r. c ! k = Some r \<longrightarrow> r \<in> set (mgSessions m) \<and> hop_of m r = k \<and> peer_of m r = i)"

definition mgr_ok :: "mgr \<Rightarrow> bool" where
  "mgr_ok m \<longleftrightarrow> (\<forall>r\<in>set (mgNodes m). mgN m r \<noteq> None) \<and> (\<forall>r\<in>set (mgSessions m). sess_ok m r) \<and>
     distinct (map (header_of m) (mgSessions m)) \<and> (\<forall>i c. mgCache m i = Some c \<longrightarrow> circuit_ok m i c)"

lemma sess_okE:
  assumes "sess_ok m r"
  obtains s h p nr n where "mgS m r = Some s" "sdHeader s = Some h" "sdPayload s = Some p" "sdNode s = Some nr"
    "mgN m nr = Some n" "header_of m r = kBytes h" "hop_of m r = unat (sdHop s)" "peer_of m r = ndID n"
  using assms by (auto simp: sess_ok_def header_of_def hop_of_def peer_of_def split: option.splits)

text \<open>An update of the stores that keeps header, hop and peer of the sessions keeps the invariant.\<close>

definition same_shape :: "mgr \<Rightarrow> mgr \<Rightarrow> bool" where
  "same_shape m m' \<longleftrightarrow> (\<forall>r. mgN m r \<noteq> None \<longrightarrow> mgN m' r \<noteq> None) \<and>
     (\<forall>r. sess_ok m r \<longrightarrow> sess_ok m' r \<and> header_of m' r = header_of m r \<and> hop_of m' r = hop_of m r \<and>
          peer_of m' r = peer_of m r)"

lemma same_shapeD:
  "same_shape m m' \<Longrightarrow> sess_ok m r \<Longrightarrow> sess_ok m' r \<and> header_of m' r = header_of m r \<and>
     hop_of m' r = hop_of m r \<and> peer_of m' r = peer_of m r"
  by (simp add: same_shape_def)

lemma mgr_ok_shape:
  assumes "mgr_ok m" and "same_shape m m'" and "mgSessions m' = mgSessions m" and "mgCache m' = mgCache m"
    and "\<forall>r\<in>set (mgNodes m'). mgN m' r \<noteq> None"
  shows "mgr_ok m'"
proof -
  have s: "\<forall>r\<in>set (mgSessions m). sess_ok m r" using assms(1) by (simp add: mgr_ok_def)
  then have "map (header_of m') (mgSessions m) = map (header_of m) (mgSessions m)"
    using same_shapeD [OF assms(2)] by auto
  then have "distinct (map (header_of m') (mgSessions m'))" using assms(1,3) by (simp add: mgr_ok_def del: map_eq_conv)
  moreover have "circuit_ok m' i c" if "mgCache m i = Some c" for i c
    using that assms(1,3) s same_shapeD [OF assms(2)] by (auto simp: mgr_ok_def circuit_ok_def)
  ultimately show ?thesis using assms s same_shapeD [OF assms(2)] by (auto simp: mgr_ok_def)
qed

lemma same_shape_refl [simp]: "mgS m' = mgS m \<Longrightarrow> mgN m' = mgN m \<Longrightarrow> same_shape m m'"
  by (auto simp: same_shape_def sess_ok_def header_of_def hop_of_def peer_of_def)

lemma same_shape_set_sess:
  assumes "mgS m r = Some s" and "sdHeader s' = sdHeader s" and "sdPayload s' = sdPayload s"
    and "sdNode s' = sdNode s" and "sdHop s' = sdHop s"
  shows "same_shape m (set_sess r s' m)"
  using assms by (auto simp: same_shape_def set_sess_def sess_ok_def header_of_def hop_of_def peer_of_def)

lemma same_shape_set_node:
  assumes "mgN m r = Some n" and "ndID n' = ndID n"
  shows "same_shape m (set_node r n' m)"
  using assms by (auto simp: same_shape_def set_node_def sess_ok_def header_of_def hop_of_def peer_of_def
      split: option.splits)

lemma same_shape_new_sess: "mgS m r = None \<Longrightarrow> same_shape m (set_sess r s m)"
  by (auto simp: same_shape_def set_sess_def sess_ok_def header_of_def hop_of_def peer_of_def split: option.splits)

lemma same_shape_new_node:
  assumes "mgN m r = None"
  shows "same_shape m (set_node r n m)"
proof -
  have "the (sdNode (the (mgS m x))) \<noteq> r" if "sess_ok m x" for x
    using that assms by (auto simp: sess_ok_def)
  then show ?thesis
    by (auto simp: same_shape_def set_node_def sess_ok_def header_of_def hop_of_def peer_of_def split: option.splits)
qed

lemma set_sess_fields [simp]:
  "mgSessions (set_sess r s m) = mgSessions m" "mgCache (set_sess r s m) = mgCache m" "mgN (set_sess r s m) = mgN m"
  "mgNodes (set_sess r s m) = mgNodes m" "mgPending (set_sess r s m) = mgPending m"
  "mgS (set_sess r s m) = (mgS m)(r \<mapsto> s)"
  by (simp_all add: set_sess_def)

lemma set_node_fields [simp]:
  "mgSessions (set_node r n m) = mgSessions m" "mgCache (set_node r n m) = mgCache m" "mgS (set_node r n m) = mgS m"
  "mgNodes (set_node r n m) = mgNodes m" "mgPending (set_node r n m) = mgPending m"
  "mgN (set_node r n m) = (mgN m)(r \<mapsto> n)"
  by (simp_all add: set_node_def)

section \<open>Operations in an invariant state\<close>

lemma mgr_okD:
  assumes "mgr_ok m"
  shows "r \<in> set (mgSessions m) \<Longrightarrow> sess_ok m r" and "r \<in> set (mgNodes m) \<Longrightarrow> mgN m r \<noteq> None"
    and "distinct (map (header_of m) (mgSessions m))" and "mgCache m i = Some c \<Longrightarrow> circuit_ok m i c"
  using assms by (simp_all add: mgr_ok_def)

lemma header_bytes_ok: "sess_ok m r \<Longrightarrow> rbind (sess_at m r) header_bytes = Inr (header_of m r)"
  by (auto simp: sess_ok_def sess_at_def header_bytes_def header_of_def)

lemma sess_test_header:
  "sess_ok m r \<Longrightarrow> sess_test m (\<lambda>s. rbind (header_bytes s) f) r = f (header_of m r)"
  by (auto simp: sess_ok_def sess_test_def sess_at_def header_bytes_def header_of_def)

lemma FindSessionByPubkey_ok:
  "mgr_ok m \<Longrightarrow> FindSessionByPubkey k m = Inr (find (\<lambda>r. header_of m r = k) (mgSessions m))"
  unfolding FindSessionByPubkey_def by (rule find_res_find) (simp add: sess_test_header mgr_okD(1))

lemma AddSession_dup:
  assumes "mgr_ok m" and "sess_ok m r"
  shows "find_res (sess_test m (\<lambda>x. rbind (sess_at m r) (\<lambda>s. same_header s x))) (mgSessions m) =
    Inr (find (\<lambda>x. header_of m x = header_of m r) (mgSessions m))"
proof (rule find_res_find, rule ballI)
  fix x assume "x \<in> set (mgSessions m)"
  then have "sess_ok m x" by (rule mgr_okD(1) [OF assms(1)])
  with assms(2) show "sess_test m (\<lambda>x. rbind (sess_at m r) (\<lambda>s. same_header s x)) x = Inr (header_of m x = header_of m r)"
    by (auto simp: sess_ok_def sess_test_def sess_at_def same_header_def header_bytes_def header_of_def)
qed

lemma circuit_ok_update:
  assumes "circuit_ok m i c" and "k < 5" and "hop_of m r = k" and "peer_of m r = i"
    and "mgSessions m' = mgSessions m @ [r]" and "mgS m' = mgS m" and "mgN m' = mgN m"
  shows "circuit_ok m' i (c[k := Some r])"
  using assms by (auto simp: circuit_ok_def hop_of_def peer_of_def nth_list_update split: if_splits)

lemma circuit_ok_more:
  "circuit_ok m i c \<Longrightarrow> set (mgSessions m) \<subseteq> set (mgSessions m') \<Longrightarrow> mgS m' = mgS m \<Longrightarrow> mgN m' = mgN m \<Longrightarrow>
   circuit_ok m' i c"
  by (auto simp: circuit_ok_def hop_of_def peer_of_def)

lemma circuit_ok_empty: "circuit_ok m i empty_circuit"
  by (auto simp: circuit_ok_def empty_circuit_def less_Suc_eq numeral_eq_Suc)

lemma CircuitCache_Add_is:
  assumes "sess_ok m r" and "hop_of m r < 5" and "\<forall>i c. mgCache m i = Some c \<longrightarrow> length c = 5"
  shows "CircuitCache_Add r m = Inr (m\<lparr>mgCache := (mgCache m)(peer_of m r \<mapsto>
     (case mgCache m (peer_of m r) of None \<Rightarrow> empty_circuit | Some c \<Rightarrow> c)[hop_of m r := Some r])\<rparr>)"
proof -
  obtain s h p nr n where o: "mgS m r = Some s" "sdHeader s = Some h" "sdPayload s = Some p" "sdNode s = Some nr"
    "mgN m nr = Some n" "header_of m r = kBytes h" "hop_of m r = unat (sdHop s)" "peer_of m r = ndID n"
    using assms(1) by (rule sess_okE)
  let ?c = "case mgCache m (ndID n) of None \<Rightarrow> empty_circuit | Some c \<Rightarrow> c"
  have "length ?c = 5" using assms(3) by (auto simp: empty_circuit_def split: option.splits)
  then have "set_index ?c (int (unat (sdHop s))) (Some r) = Inr (?c[unat (sdHop s) := Some r])"
    using assms(2) o(7) by (intro set_index_nat) linarith
  then show ?thesis using o by (simp add: CircuitCache_Add_def sess_at_def node_of_def node_at_def)
qed

lemma hop_less: "(sdHop s < 5) = (unat (sdHop s) < 5)"
  by (simp add: word_less_nat_alt)

lemma AddSession_is:
  assumes "mgr_ok m" and "sess_ok m r"
  shows "AddSession r m = Inr (
    if \<exists>x\<in>set (mgSessions m). header_of m x = header_of m r then m
    else if hop_of m r < 5 then m\<lparr>mgSessions := mgSessions m @ [r], mgCache := (mgCache m)(peer_of m r \<mapsto>
           (case mgCache m (peer_of m r) of None \<Rightarrow> empty_circuit | Some c \<Rightarrow> c)[hop_of m r := Some r])\<rparr>
    else m\<lparr>mgSessions := mgSessions m @ [r]\<rparr>)"
proof (cases "find (\<lambda>x. header_of m x = header_of m r) (mgSessions m)")
  case (Some x)
  then show ?thesis using AddSession_dup [OF assms] by (auto simp: AddSession_def dest: find_Some_in_set)
next
  case None
  then have none: "\<not> (\<exists>x\<in>set (mgSessions m). header_of m x = header_of m r)" by (simp add: find_None_iff_all)
  let ?m1 = "m\<lparr>mgSessions := mgSessions m @ [r]\<rparr>"
  have same: "sess_ok ?m1 r" "hop_of ?m1 r = hop_of m r" "peer_of ?m1 r = peer_of m r"
    using assms(2) by (simp_all add: sess_ok_def hop_of_def peer_of_def)
  have "\<forall>i c. mgCache ?m1 i = Some c \<longrightarrow> length c = 5" using mgr_okD(4) [OF assms(1)] by (auto simp: circuit_ok_def)
  note C = CircuitCache_Add_is [OF same(1) _ this, unfolded same]
  obtain s where "mgS m r = Some s" "hop_of m r = unat (sdHop s)" using assms(2) by (rule sess_okE)
  then show ?thesis using AddSession_dup [OF assms] None none C
    by (simp add: AddSession_def sess_at_def hop_less)
qed

lemma AddSession_keeps_ok:
  assumes "mgr_ok m" and "sess_ok m r"
  shows "\<exists>m'. AddSession r m = Inr m' \<and> mgr_ok m'"
proof (cases "\<exists>x\<in>set (mgSessions m). header_of m x = header_of m r")
  case True
  then show ?thesis using AddSession_is [OF assms] assms(1) by auto
next
  case False
  let ?c = "case mgCache m (peer_of m r) of None \<Rightarrow> empty_circuit | Some c \<Rightarrow> c"
  define m' where "m' = (if hop_of m r < 5
     then m\<lparr>mgSessions := mgSessions m @ [r], mgCache := (mgCache m)(peer_of m r \<mapsto> ?c[hop_of m r := Some r])\<rparr>
     else m\<lparr>mgSessions := mgSessions m @ [r]\<rparr>)"
  have m': "AddSession r m = Inr m'" using AddSession_is [OF assms] False by (simp add: m'_def)
  have f: "mgS m' = mgS m" "mgN m' = mgN m" "mgNodes m' = mgNodes m" "mgSessions m' = mgSessions m @ [r]"
    by (simp_all add: m'_def)
  have eq: "sess_ok m' = sess_ok m" "header_of m' = header_of m"
    using f by (simp_all add: fun_eq_iff sess_ok_def header_of_def)
  have "circuit_ok m (peer_of m r) ?c"
    using mgr_okD(4) [OF assms(1)] circuit_ok_empty by (auto split: option.splits)
  then have upd: "hop_of m r < 5 \<Longrightarrow> circuit_ok m' (peer_of m r) (?c[hop_of m r := Some r])"
    by (rule circuit_ok_update) (simp_all add: f)
  have "circuit_ok m' i c" if c: "mgCache m' i = Some c" for i c
  proof (cases "hop_of m r < 5 \<and> i = peer_of m r")
    case True
    then show ?thesis using c upd by (auto simp: m'_def)
  next
    case other: False
    then have "mgCache m i = Some c" using c by (auto simp: m'_def split: if_splits)
    then have "circuit_ok m i c" by (rule mgr_okD(4) [OF assms(1)])
    then show ?thesis by (rule circuit_ok_more) (simp_all add: f subset_insertI)
  qed
  moreover have "distinct (map (header_of m') (mgSessions m'))"
    using False mgr_okD(3) [OF assms(1)] f(4) eq(2) by auto
  ultimately have "mgr_ok m'"
    using mgr_okD(1,2) [OF assms(1)] assms(2) f eq(1) unfolding mgr_ok_def by auto
  then show ?thesis using m' by blast
qed

section \<open>Preservation\<close>

lemma local_updates_ok:
  assumes "mgr_ok m" and "mgN m r = Some n" and "ndID n' = ndID n"
  shows "mgr_ok (set_node r n' m)"
  by (rule mgr_ok_shape [OF assms(1) same_shape_set_node [OF assms(2,3)]]) (use mgr_okD(2) [OF assms(1)] in simp_all)

lemma balance_updates_ok:
  assumes "mgr_ok m" and "mgS m r = Some s" and "sdHeader s' = sdHeader s" and "sdPayload s' = sdPayload s"
    and "sdNode s' = sdNode s" and "sdHop s' = sdHop s"
  shows "mgr_ok (set_sess r s' m)"
  by (rule mgr_ok_shape [OF assms(1) same_shape_set_sess [OF assms(2-6)]]) (use mgr_okD(2) [OF assms(1)] in simp_all)

lemma DecSats_fields:
  "DecSats nd x s = Inr (s', b) \<Longrightarrow> sdHeader s' = sdHeader s \<and> sdPayload s' = sdPayload s \<and> sdNode s' = sdNode s \<and>
     sdHop s' = sdHop s"
  by (auto simp: DecSats_def rbind_eq_Inr split: if_splits)

lemma IncSats_fields:
  "IncSats x s = Inr s' \<Longrightarrow> sdHeader s' = sdHeader s \<and> sdPayload s' = sdPayload s \<and> sdNode s' = sdNode s \<and>
     sdHop s' = sdHop s"
  by (auto simp: IncSats_def rbind_eq_Inr)

lemma sess_at_Inr: "sess_at m r = Inr s \<longleftrightarrow> mgS m r = Some s"
  by (auto simp: sess_at_def deref_def split: option.splits)

lemma node_at_Inr: "node_at m r = Inr n \<longleftrightarrow> mgN m r = Some n"
  by (auto simp: node_at_def deref_def split: option.splits)

lemma DecSession_cases:
  assumes "DecSession k x m = Inr (m', b)"
  obtains "m' = m" "b = False" | r s s' where "mgS m r = Some s" "m' = set_sess r s' m" "sdHeader s' = sdHeader s"
    "sdPayload s' = sdPayload s" "sdNode s' = sdNode s" "sdHop s' = sdHop s"
proof -
  obtain f where f: "FindSessionByPubkey k m = Inr f" using assms by (auto simp: DecSession_def rbind_eq_Inr)
  show ?thesis
  proof (cases f)
    case None
    then show ?thesis using that(1) assms f by (simp add: DecSession_def)
  next
    case (Some r)
    then obtain s nd q s' where "mgS m r = Some s" "DecSats nd q s = Inr (s', b)" "m' = set_sess r s' m"
      using assms f by (auto simp: DecSession_def rbind_eq_Inr sess_at_Inr)
    then show ?thesis using that(2) DecSats_fields by blast
  qed
qed

lemma DecSession_keeps_ok:
  assumes "mgr_ok m" and "DecSession k x m = Inr (m', b)"
  shows "mgr_ok m'"
  using assms(2) by (rule DecSession_cases) (use assms(1) balance_updates_ok in simp_all)

lemma IncSession_keeps_ok:
  assumes "mgr_ok m" and "IncSession k x m = Inr m'"
  shows "mgr_ok m'"
proof -
  obtain f where f: "FindSessionByPubkey k m = Inr f" using assms(2) by (auto simp: IncSession_def rbind_eq_Inr)
  show ?thesis
  proof (cases f)
    case None
    then show ?thesis using assms f by (simp add: IncSession_def)
  next
    case (Some r)
    then obtain s s' where o: "mgS m r = Some s" "IncSats x s = Inr s'" "m' = set_sess r s' m"
      using assms(2) f by (auto simp: IncSession_def rbind_eq_Inr sess_at_Inr)
    then show ?thesis using balance_updates_ok [OF assms(1) o(1)] IncSats_fields [OF o(2)] by simp
  qed
qed

lemma pending_ok: "mgr_ok (m\<lparr>mgPending := p\<rparr>) = mgr_ok m"
  by (auto simp: mgr_ok_def sess_ok_def header_of_def [abs_def] circuit_ok_def hop_of_def peer_of_def)

lemma nodes_ok:
  assumes "mgr_ok m" and "\<forall>r\<in>set ns. mgN m r \<noteq> None"
  shows "mgr_ok (m\<lparr>mgNodes := ns\<rparr>)"
  by (rule mgr_ok_shape [OF assms(1)]) (use assms(2) in simp_all)

lemma AddService_ID: "AddService s n = Inr n' \<Longrightarrow> ndID n' = ndID n"
  by (auto simp: AddService_def split: if_splits)

lemma AddServiceToLocalNode_keeps_ok:
  assumes "mgr_ok m" and "AddServiceToLocalNode s m = Inr (m', e)"
  shows "mgr_ok m'"
proof -
  obtain r n where o: "GetLocalNode m = Inr r" "mgN m r = Some n"
    using assms(2) by (auto simp: AddServiceToLocalNode_def rbind_eq_Inr node_at_Inr)
  then have "m' = m \<or> (\<exists>n'. AddService s n = Inr n' \<and> m' = set_node r n' m)"
    using assms(2) by (cases "AddService s n") (auto simp: AddServiceToLocalNode_def node_at_def)
  then show ?thesis using assms(1) local_updates_ok [OF assms(1) o(2)] AddService_ID by blast
qed

lemma delete_node_subset:
  "delete_node P pre rs = Inr (ns, b) \<Longrightarrow> set ns \<subseteq> set pre \<union> set rs"
proof (induction rs arbitrary: pre)
  case (Cons r rs)
  then obtain t where t: "P r = Inr t" by (auto simp: rbind_eq_Inr)
  show ?case
  proof (cases t)
    case True
    then show ?thesis using Cons.prems t by auto
  next
    case False
    then have "set ns \<subseteq> set (pre @ [r]) \<union> set rs" using Cons.prems t by (intro Cons.IH) simp
    then show ?thesis by auto
  qed
qed simp

lemma delete_node_keeps_ok:
  assumes "mgr_ok m" and "delete_node P [] (mgNodes m) = Inr (ns, b)"
  shows "mgr_ok (m\<lparr>mgNodes := ns\<rparr>)"
  by (rule nodes_ok [OF assms(1)]) (use delete_node_subset [OF assms(2)] mgr_okD(2) [OF assms(1)] in auto)

lemma SetLocalNode_keeps_ok:
  assumes "mgr_ok m" and "SetLocalNode n m = Inr m'" and "mgN m n \<noteq> None"
  shows "mgr_ok m'"
proof -
  obtain ns where ns: "set_index (mgNodes m) 0 n = Inr ns" "m' = m\<lparr>mgNodes := ns\<rparr>"
    using assms(2) by (auto simp: SetLocalNode_def rbind_eq_Inr)
  have "set ns \<subseteq> insert n (set (mgNodes m))"
    using ns(1) by (auto simp: set_index_def split: if_splits dest: set_update_subset_insert [THEN subsetD])
  then have "\<forall>r\<in>set ns. mgN m r \<noteq> None" using assms(3) mgr_okD(2) [OF assms(1)] by blast
  then show ?thesis using nodes_ok [OF assms(1)] ns(2) by simp
qed

lemma rfold_invariant:
  assumes "rfold f xs s = Inr s'" and "P s" and "\<forall>x s s'. P s \<longrightarrow> f x s = Inr s' \<longrightarrow> P s'"
  shows "P s'"
  using assms(1,2) by (induction xs arbitrary: s) (use assms(3) in \<open>auto simp: rbind_eq_Inr\<close>)

lemma AddLocalNodeAddress_keeps_ok:
  assumes "mgr_ok m" and "AddLocalNodeAddress a m = Inr m'"
  shows "mgr_ok m'"
  using assms by (auto simp: AddLocalNodeAddress_def rbind_eq_Inr node_at_Inr intro: local_updates_ok)

lemma AddLocalNodeAddresses_keeps_ok:
  assumes "mgr_ok m" and "AddLocalNodeAddresses as m = Inr m'"
  shows "mgr_ok m'"
  using assms(2,1) unfolding AddLocalNodeAddresses_def AddLocalNodeAddress_def [symmetric]
  by (rule rfold_invariant) (blast intro: AddLocalNodeAddress_keeps_ok)

lemma RemoveLocalNodeAddress_keeps_ok:
  assumes "mgr_ok m" and "RemoveLocalNodeAddress a m = Inr m'"
  shows "mgr_ok m'"
  using assms by (auto simp: RemoveLocalNodeAddress_def rbind_eq_Inr node_at_Inr intro: local_updates_ok)

lemma cache_upd_ok:
  assumes "mgr_ok m" and "circuit_ok m i c"
  shows "mgr_ok (m\<lparr>mgCache := (mgCache m)(i \<mapsto> c)\<rparr>)"
proof -
  let ?m = "m\<lparr>mgCache := (mgCache m)(i \<mapsto> c)\<rparr>"
  have "header_of ?m = header_of m" "sess_ok ?m = sess_ok m" "circuit_ok ?m = circuit_ok m"
    by (simp_all add: fun_eq_iff header_of_def sess_ok_def circuit_ok_def hop_of_def peer_of_def)
  then show ?thesis using assms by (auto simp: mgr_ok_def)
qed

lemma add_cache_entry_keeps_ok:
  assumes "mgr_ok m" and "add_cache_entry r m = Inr m'"
  shows "mgr_ok m'"
  using assms cache_upd_ok [OF assms(1) circuit_ok_empty]
  by (auto simp: add_cache_entry_def rbind_eq_Inr split: if_splits)

lemma circuit_ok_set:
  assumes "circuit_ok m i c" and "r \<in> set (mgSessions m)" and "hop_of m r = k" and "peer_of m r = i"
  shows "circuit_ok m i (c[k := Some r])"
  using assms by (cases "k < 5") (auto simp: circuit_ok_def nth_list_update split: if_splits)

lemma place_session_keeps_ok:
  assumes "mgr_ok m" and "place_session r m = Inr m'" and "r \<in> set (mgSessions m)"
  shows "mgr_ok m' \<and> mgSessions m' = mgSessions m"
proof -
  obtain s nr n c c' where o: "mgS m r = Some s" "sdNode s = Some nr" "mgN m nr = Some n"
      "mgCache m (ndID n) = Some c" "set_index c (int (unat (sdHop s))) (Some r) = Inr c'"
      "m' = m\<lparr>mgCache := (mgCache m)(ndID n \<mapsto> c')\<rparr>"
    using assms(2)
    by (auto simp: place_session_def rbind_eq_Inr sess_at_Inr node_at_Inr node_of_def deref_def split: option.splits)
  have c: "circuit_ok m (ndID n) c" using mgr_okD(4) [OF assms(1) o(4)] .
  have "c' = c[unat (sdHop s) := Some r]" using o(5) unfolding set_index_def by (auto simp del: of_nat_unat split: if_splits)
  then have "circuit_ok m (ndID n) c'"
    using circuit_ok_set [OF c assms(3)] o(1-3) by (simp add: hop_of_def peer_of_def)
  then show ?thesis using cache_upd_ok [OF assms(1)] o(6) by simp
qed

lemma rfold_place_keeps_ok:
  "rfold place_session rs m = Inr m' \<Longrightarrow> mgr_ok m \<Longrightarrow> set rs \<subseteq> set (mgSessions m) \<Longrightarrow> mgr_ok m'"
  by (induction rs arbitrary: m) (auto simp: rbind_eq_Inr dest: place_session_keeps_ok)

lemma UpdateSessionCache_keeps_ok:
  assumes "mgr_ok m" and "UpdateSessionCache m = Inr m'"
  shows "mgr_ok m'"
proof -
  obtain m1 where m1: "rfold add_cache_entry (mgNodes m) m = Inr m1" "rfold place_session (mgSessions m1) m1 = Inr m'"
    using assms(2) by (auto simp: UpdateSessionCache_def rbind_eq_Inr)
  have "mgr_ok m1" using m1(1) assms(1) by (rule rfold_invariant) (blast intro: add_cache_entry_keeps_ok)
  then show ?thesis using rfold_place_keeps_ok [OF m1(2)] by simp
qed

section \<open>Deleting a session\<close>

text \<open>The state after the session at index \<open>i\<close> has been taken out.\<close>

definition without_session :: "nat \<Rightarrow> nat option list \<Rightarrow> mgr \<Rightarrow> mgr" where
  "without_session i c m = (let r = mgSessions m ! i in
     m\<lparr>mgCache := (mgCache m)(peer_of m r \<mapsto> c[hop_of m r := None]), mgSessions := del_at i (mgSessions m)\<rparr>)"

lemma delete_session_step_skip:
  assumes "i < length (mgSessions m)" and "sess_ok m (mgSessions m ! i)" and "header_of m (mgSessions m ! i) \<noteq> k"
  shows "delete_session_step k i m = Inr m"
  using assms by (auto simp: delete_session_step_def index_expr_nat sess_ok_def sess_at_def header_bytes_def header_of_def)

lemma delete_session_step_hit:
  assumes "i < length (mgSessions m)" and "sess_ok m (mgSessions m ! i)" and "header_of m (mgSessions m ! i) = k"
  shows "delete_session_step k i m = rbind (deref (mgCache m (peer_of m (mgSessions m ! i)))) (\<lambda>c.
     if hop_of m (mgSessions m ! i) < length c then Inr (without_session i c m) else Inl index_panic)"
  using assms(2)
proof (rule sess_okE)
  fix s h p nr n
  assume o: "mgS m (mgSessions m ! i) = Some s" "sdHeader s = Some h" "sdNode s = Some nr" "mgN m nr = Some n"
    "header_of m (mgSessions m ! i) = kBytes h" "hop_of m (mgSessions m ! i) = unat (sdHop s)"
    "peer_of m (mgSessions m ! i) = ndID n"
  have "set_index c (int (unat (sdHop s))) None =
      (if unat (sdHop s) < length c then Inr (c[unat (sdHop s) := None]) else Inl index_panic)" for c :: "nat option list"
    unfolding set_index_def by (simp del: of_nat_unat)
  then show ?thesis using assms(1,3) o
    by (auto simp: delete_session_step_def index_expr_nat sess_at_def header_bytes_def node_of_def node_at_def
        without_session_def Let_def deref_def simp del: of_nat_unat split: option.splits)
qed

lemma without_session_fields [simp]:
  "mgS (without_session i c m) = mgS m" "mgN (without_session i c m) = mgN m"
  "mgNodes (without_session i c m) = mgNodes m" "mgSessions (without_session i c m) = del_at i (mgSessions m)"
  by (simp_all add: without_session_def Let_def)

lemma without_session_same [simp]:
  "sess_ok (without_session i c m) = sess_ok m" "header_of (without_session i c m) = header_of m"
  "hop_of (without_session i c m) = hop_of m" "peer_of (without_session i c m) = peer_of m"
  by (simp_all add: fun_eq_iff sess_ok_def header_of_def hop_of_def peer_of_def)

lemma without_session_ok:
  assumes "mgr_ok m" and "i < length (mgSessions m)" and "mgCache m (peer_of m (mgSessions m ! i)) = Some c"
  shows "mgr_ok (without_session i c m)"
proof -
  let ?r = "mgSessions m ! i" and ?m = "without_session i c m"
  have ds: "distinct (mgSessions m)" using mgr_okD(3) [OF assms(1)] by (simp add: distinct_map)
  have ss: "set (del_at i (mgSessions m)) = set (mgSessions m) - {?r}" using assms(2) ds by (rule set_del_at_distinct)
  have c: "circuit_ok m (peer_of m ?r) c" by (rule mgr_okD(4) [OF assms(1,3)])
  have "circuit_ok ?m j c'" if "mgCache ?m j = Some c'" for j c'
  proof (cases "j = peer_of m ?r")
    case True
    then have "c' = c[hop_of m ?r := None]" using that by (simp add: without_session_def Let_def)
    then show ?thesis using c True ss by (auto simp: circuit_ok_def nth_upd split: if_splits)
  next
    case False
    then have "circuit_ok m j c'" using that by (intro mgr_okD(4) [OF assms(1)]) (simp add: without_session_def Let_def)
    then show ?thesis using False ss by (auto simp: circuit_ok_def)
  qed
  moreover have "distinct (map (header_of m) (del_at i (mgSessions m)))"
    using distinct_del_at [OF mgr_okD(3) [OF assms(1)]] by (simp add: map_del_at)
  ultimately show ?thesis using mgr_okD(1,2) [OF assms(1)] ss by (auto simp: mgr_ok_def)
qed

lemma DeleteSession_keeps_ok:
  assumes "mgr_ok m" and "DeleteSession k m = Inr m'"
  shows "mgr_ok m'"
  using assms(2,1) unfolding DeleteSession_def
proof (rule rfold_invariant, intro allI impI)
  fix i m m' assume ok: "mgr_ok m" and step: "delete_session_step k i m = Inr m'"
  have i: "i < length (mgSessions m)"
    using step by (auto simp: delete_session_step_def index_expr_def rbind_eq_Inr split: if_splits)
  then have so: "sess_ok m (mgSessions m ! i)" by (intro mgr_okD(1) [OF ok]) simp
  show "mgr_ok m'"
  proof (cases "header_of m (mgSessions m ! i) = k")
    case True
    then obtain c where "mgCache m (peer_of m (mgSessions m ! i)) = Some c" "m' = without_session i c m"
      using step delete_session_step_hit [OF i so True]
      by (auto simp: rbind_eq_Inr deref_def split: option.splits if_splits)
    then show ?thesis using without_session_ok [OF ok i] by simp
  next
    case False
    then show ?thesis using delete_session_step_skip [OF i so] step ok by simp
  qed
qed

lemma delete_session_skips:
  assumes "\<forall>i\<in>set is. i < length (mgSessions m) \<and> sess_ok m (mgSessions m ! i) \<and> header_of m (mgSessions m ! i) \<noteq> k"
  shows "rfold (delete_session_step k) is m = Inr m"
  using assms by (induction "is") (simp_all add: delete_session_step_skip)

text \<open>The loop runs through to the hit, and after a deletion before the end it runs out of the slice.\<close>

lemma DeleteSession_at:
  assumes ok: "mgr_ok m" and i: "i < length (mgSessions m)" "header_of m (mgSessions m ! i) = k"
  shows "DeleteSession k m = rbind (deref (mgCache m (peer_of m (mgSessions m ! i)))) (\<lambda>c.
     if hop_of m (mgSessions m ! i) < 5 \<and> i = length (mgSessions m) - 1 then Inr (without_session i c m)
     else Inl index_panic)"
proof -
  let ?n = "length (mgSessions m)" and ?r = "mgSessions m ! i"
  have sok: "sess_ok m (mgSessions m ! j)" if "j < ?n" for j using that by (intro mgr_okD(1) [OF ok]) simp
  have other: "header_of m (mgSessions m ! j) \<noteq> k" if "j < ?n" "j \<noteq> i" for j
    using nth_eq_iff_index_eq [OF mgr_okD(3) [OF ok], of j i] that i by auto
  have idx: "[0..<?n] = [0..<i] @ i # [Suc i..<?n]"
    using i(1) upt_add_eq_append [of 0 i "?n - i"] by (simp add: upt_conv_Cons)
  have pre: "rfold (delete_session_step k) [0..<i] m = Inr m"
    using i(1) sok other by (intro delete_session_skips) auto
  have loop: "DeleteSession k m = rbind (delete_session_step k i m) (rfold (delete_session_step k) [Suc i..<?n])"
    unfolding DeleteSession_def idx by (simp add: rfold_append pre)
  show ?thesis
  proof (cases "mgCache m (peer_of m ?r)")
    case None
    then show ?thesis using loop delete_session_step_hit [OF i(1) sok [OF i(1)] i(2)] by simp
  next
    case (Some c)
    have len: "length c = 5" using mgr_okD(4) [OF ok Some] by (simp add: circuit_ok_def)
    note hit = delete_session_step_hit [OF i(1) sok [OF i(1)] i(2), unfolded Some deref_simps rbind_Inr len]
    show ?thesis
    proof (cases "hop_of m ?r < 5 \<and> i \<noteq> ?n - 1")
      case True
      let ?m = "without_session i c m"
      have "[Suc i..<?n] = [Suc i..<?n - 1] @ [?n - 1]" using True i(1) by (cases ?n) auto
      moreover have "rfold (delete_session_step k) [Suc i..<?n - 1] ?m = Inr ?m"
      proof (rule delete_session_skips, intro ballI)
        fix j assume "j \<in> set [Suc i..<?n - 1]"
        then have j: "Suc j < ?n" "Suc j \<noteq> i" "j < ?n - 1" "\<not> j < i" by auto
        then show "j < length (mgSessions ?m) \<and> sess_ok ?m (mgSessions ?m ! j) \<and> header_of ?m (mgSessions ?m ! j) \<noteq> k"
          using i(1) sok [OF j(1)] other [OF j(1,2)] by (simp add: nth_del_at)
      qed
      moreover have "delete_session_step k (?n - 1) ?m = Inl index_panic"
        using i(1) by (simp add: delete_session_step_def index_expr_def)
      ultimately have "rfold (delete_session_step k) [Suc i..<?n] ?m = Inl index_panic" by (simp add: rfold_append)
      then show ?thesis using True Some loop hit by simp
    next
      case False
      show ?thesis
      proof (cases "hop_of m ?r < 5")
        case True
        then have "i = ?n - 1" and "[Suc i..<?n] = []" using False by auto
        then show ?thesis unfolding loop hit Some using True by simp
      next
        case f: False
        then show ?thesis unfolding loop hit Some by simp
      qed
    qed
  qed
qed

section \<open>Deleting a node with its sessions\<close>

lemma found_sessions_ok:
  assumes "mgr_ok m"
  shows "found_sessions m i = Inr (filter (\<lambda>k. peer_of m (mgSessions m ! k) = i) [0..<length (mgSessions m)])"
proof -
  let ?f = "\<lambda>k found. rbind (index_expr (mgSessions m) (int k)) (\<lambda>r. rbind (sess_at m r) (\<lambda>s.
     rbind (node_of m s) (\<lambda>n. Inr (if ndID n = i then found @ [k] else found))))"
  have step: "?f k acc = Inr (if peer_of m (mgSessions m ! k) = i then acc @ [k] else acc)"
    if k: "k < length (mgSessions m)" for k acc
  proof -
    have "sess_ok m (mgSessions m ! k)" using k by (intro mgr_okD(1) [OF assms]) simp
    then obtain s nr n where "mgS m (mgSessions m ! k) = Some s" "sdNode s = Some nr" "mgN m nr = Some n"
      "peer_of m (mgSessions m ! k) = ndID n" by (rule sess_okE)
    then show ?thesis using k by (simp add: index_expr_nat sess_at_def node_of_def node_at_def)
  qed
  have "rfold ?f ks acc = Inr (acc @ filter (\<lambda>k. peer_of m (mgSessions m ! k) = i) ks)"
    if "\<forall>k\<in>set ks. k < length (mgSessions m)" for ks acc
    using that by (induction ks arbitrary: acc) (simp_all add: step)
  from this [of "[0..<length (mgSessions m)]" "[]"] show ?thesis by (simp add: found_sessions_def)
qed

lemma kept_sessions_none: "kept_sessions [] ss = []"
  by (simp add: kept_sessions_def)

lemma kept_sessions_many:
  assumes "a \<in> set found" and "b \<in> set found" and "a \<noteq> b"
  shows "kept_sessions found ss = ss"
proof -
  have "\<exists>j\<in>set found. i \<noteq> j" for i using assms by (cases "i = a") auto
  then show ?thesis by (simp add: kept_sessions_def map_nth)
qed

lemma kept_sessions_one:
  assumes "k < length ss"
  shows "kept_sessions [k] ss = del_at k ss"
proof -
  have "[0..<length ss] = [0..<k] @ k # [Suc k..<length ss]"
    using assms upt_add_eq_append [of 0 k "length ss - k"] by (simp add: upt_conv_Cons)
  then have "filter (\<lambda>i. i \<noteq> k) [0..<length ss] = [0..<k] @ [Suc k..<length ss]"
    by (auto intro!: filter_True)
  moreover have "map (nth ss) [0..<k] = take k ss" using assms by (intro nth_equalityI) auto
  moreover have "map (nth ss) [Suc k..<length ss] = drop (Suc k) ss"
    by (rule nth_equalityI) auto
  ultimately show ?thesis by (simp add: kept_sessions_def del_at_def)
qed

end
