(* ===== verification/Select_Props.thy ===== *)
theory Select_Props
  imports Select Manager_Props
begin

text \<open>
  When the selections return and what they return. \<^verbatim>\<open>SelectUnusedCircuit\<close> returns within five passes over the
  cache when every position has a node with a free slot there, and never returns otherwise.
  \<^verbatim>\<open>SelectHops\<close> takes, position by position, the first remaining candidate of the wanted hop.
\<close>

section \<open>Cache entries for all nodes\<close>

definition node_id :: "mgr \<Rightarrow> nat \<Rightarrow> bytes" where
  "node_id m r = ndID (the (mgN m r))"

definition entries :: "mgr \<Rightarrow> nat list \<Rightarrow> bytes \<Rightarrow> nat option list option" where
  "entries m rs i = (if mgCache m i = None \<and> i \<in> node_id m ` set rs then Some empty_circuit else mgCache m i)"

definition with_entries :: "nat list \<Rightarrow> mgr \<Rightarrow> mgr" where
  "with_entries rs m = m\<lparr>mgCache := entries m rs\<rparr>"

lemma add_cache_entry_is:
  assumes "mgN m r \<noteq> None"
  shows "add_cache_entry r m = Inr (with_entries [r] m)"
proof -
  obtain n where n: "mgN m r = Some n" using assms by auto
  then have "entries m [r] = (if mgCache m (ndID n) = None then (mgCache m)(ndID n \<mapsto> empty_circuit) else mgCache m)"
    by (auto simp: fun_eq_iff entries_def node_id_def)
  then show ?thesis using n by (simp add: add_cache_entry_def node_at_def with_entries_def)
qed

lemma with_entries_fields [simp]:
  "mgS (with_entries rs m) = mgS m" "mgN (with_entries rs m) = mgN m" "mgNodes (with_entries rs m) = mgNodes m"
  "mgSessions (with_entries rs m) = mgSessions m" "node_id (with_entries rs m) = node_id m"
  by (simp_all add: with_entries_def node_id_def fun_eq_iff)

lemma with_entries_Cons: "with_entries rs (with_entries [r] m) = with_entries (r # rs) m"
proof -
  have "entries (m\<lparr>mgCache := entries m [r]\<rparr>) rs = entries m (r # rs)"
    by (auto simp: fun_eq_iff entries_def node_id_def)
  then show ?thesis by (simp add: with_entries_def)
qed

lemma add_cache_entries:
  "\<forall>r\<in>set rs. mgN m r \<noteq> None \<Longrightarrow> rfold add_cache_entry rs m = Inr (with_entries rs m)"
proof (induction rs arbitrary: m)
  case Nil
  have "entries m [] = mgCache m" by (simp add: fun_eq_iff entries_def)
  then show ?case by (simp add: with_entries_def)
next
  case (Cons r rs)
  then show ?case by (simp add: add_cache_entry_is with_entries_Cons)
qed

section \<open>Passes over the cache\<close>

text \<open>Node \<open>r\<close> can be taken at position \<open>k\<close>.\<close>

definition free_at :: "mgr \<Rightarrow> nat \<Rightarrow> nat \<Rightarrow> bool" where
  "free_at m k r \<longleftrightarrow> (case mgCache m (node_id m r) of None \<Rightarrow> True | Some c \<Rightarrow> c ! k = None)"

definition picks_ok :: "mgr \<Rightarrow> nat list \<Rightarrow> nat \<Rightarrow> nat option list \<Rightarrow> bool" where
  "picks_ok m nl cnt c \<longleftrightarrow> cnt \<le> 5 \<and> length c = 5 \<and> (\<forall>k<cnt. \<exists>r\<in>set nl. c ! k = Some r \<and> free_at m k r)"

lemma has_id_find:
  assumes "\<forall>r\<in>set nl. mgN m r \<noteq> None"
  shows "find_res (has_id m i) nl = Inr (find (\<lambda>r. node_id m r = i) nl)"
  using assms by (intro find_res_find) (auto simp: has_id_def node_test_def node_at_def node_id_def)

lemma unused_pass_step:
  assumes nodes: "\<forall>r\<in>set nl. mgN m r \<noteq> None" and c: "mgCache m i = Some circ" "length circ = 5" and "cnt < 5"
  shows "unused_pass m nl (i # ids) (cnt, c) =
    (case (if circ ! cnt = None then find (\<lambda>r. node_id m r = i) nl else None) of
       None \<Rightarrow> unused_pass m nl ids (cnt, c)
     | Some r \<Rightarrow> unused_pass m nl ids (Suc cnt, c[cnt := Some r]))"
  using assms by (simp add: index_expr_nat has_id_find [OF nodes])

lemma picks_ok_Suc:
  assumes "picks_ok m nl cnt c" and "cnt < 5" and "r \<in> set nl" and "free_at m cnt r"
  shows "picks_ok m nl (Suc cnt) (c[cnt := Some r])"
  using assms by (auto simp: picks_ok_def less_Suc_eq nth_list_update)

lemma unused_pass_picks:
  assumes nodes: "\<forall>r\<in>set nl. mgN m r \<noteq> None"
  shows "\<forall>i\<in>set ids. \<exists>circ. mgCache m i = Some circ \<and> length circ = 5 \<Longrightarrow> picks_ok m nl cnt c \<Longrightarrow>
    \<exists>cnt' c'. unused_pass m nl ids (cnt, c) = Inr (cnt', c') \<and> cnt \<le> cnt' \<and> picks_ok m nl cnt' c' \<and>
      (cnt < 5 \<and> (\<exists>r\<in>set nl. node_id m r \<in> set ids \<and> free_at m cnt r) \<longrightarrow> cnt < cnt') \<and>
      (\<forall>k. cnt \<le> k \<and> k < 5 \<and> (\<forall>r\<in>set nl. \<not> free_at m k r) \<longrightarrow> cnt' \<le> k)"
proof (induction ids arbitrary: cnt c)
  case Nil
  then show ?case by auto
next
  case (Cons i ids)
  then obtain circ where circ: "mgCache m i = Some circ" "length circ = 5" by auto
  show ?case
  proof (cases "cnt < 5")
    case False
    then have "cnt = 5" using Cons.prems(2) by (simp add: picks_ok_def)
    then show ?thesis using Cons.prems(2) by simp
  next
    case True
    note step = unused_pass_step [OF nodes circ True, of ids c]
    show ?thesis
    proof (cases "if circ ! cnt = None then find (\<lambda>r. node_id m r = i) nl else None")
      case None
      then have "\<not> (\<exists>r\<in>set nl. node_id m r = i \<and> free_at m cnt r)"
        using circ by (auto simp: free_at_def find_None_iff_all split: if_splits)
      moreover obtain cnt' c' where "unused_pass m nl ids (cnt, c) = Inr (cnt', c')" "cnt \<le> cnt'" "picks_ok m nl cnt' c'"
        "cnt < 5 \<and> (\<exists>r\<in>set nl. node_id m r \<in> set ids \<and> free_at m cnt r) \<longrightarrow> cnt < cnt'"
        "\<forall>k. cnt \<le> k \<and> k < 5 \<and> (\<forall>r\<in>set nl. \<not> free_at m k r) \<longrightarrow> cnt' \<le> k"
        using Cons.IH [of cnt c] Cons.prems by auto
      ultimately show ?thesis using step None by auto
    next
      case (Some r)
      then have r: "r \<in> set nl" "free_at m cnt r"
        using circ by (auto simp: free_at_def dest!: find_Some_in_set split: if_splits)
      obtain cnt' c' where o: "unused_pass m nl ids (Suc cnt, c[cnt := Some r]) = Inr (cnt', c')" "Suc cnt \<le> cnt'"
        "picks_ok m nl cnt' c'"
        "\<forall>k. Suc cnt \<le> k \<and> k < 5 \<and> (\<forall>r\<in>set nl. \<not> free_at m k r) \<longrightarrow> cnt' \<le> k"
        using Cons.IH [of "Suc cnt" "c[cnt := Some r]"] Cons.prems picks_ok_Suc [OF _ True r] by auto
      have "\<forall>k. cnt \<le> k \<and> k < 5 \<and> (\<forall>r\<in>set nl. \<not> free_at m k r) \<longrightarrow> cnt' \<le> k"
        using o(4) r by (metis Suc_leI le_neq_implies_less)
      then show ?thesis using step Some o by auto
    qed
  qed
qed

text \<open>What the loop is run on: every circuit has five slots, and the passes range over the whole cache.\<close>

definition cache_ranges :: "mgr \<Rightarrow> nat list \<Rightarrow> (nat \<Rightarrow> bytes list) \<Rightarrow> bool" where
  "cache_ranges m nl ord \<longleftrightarrow> (\<forall>r\<in>set nl. mgN m r \<noteq> None) \<and>
     (\<forall>k. (\<forall>i\<in>set (ord k). \<exists>c. mgCache m i = Some c \<and> length c = 5) \<and> node_id m ` set nl \<subseteq> set (ord k))"

lemma cache_rangesD:
  assumes "cache_ranges m nl ord"
  shows "\<forall>r\<in>set nl. mgN m r \<noteq> None" and "\<forall>i\<in>set (ord k). \<exists>c. mgCache m i = Some c \<and> length c = 5"
    and "r \<in> set nl \<Longrightarrow> node_id m r \<in> set (ord k)"
  using assms unfolding cache_ranges_def by blast+

lemma unused_loop_returns:
  assumes ok: "cache_ranges m nl ord" and free: "\<forall>k<5. \<exists>r\<in>set nl. free_at m k r"
  shows "picks_ok m nl cnt c \<Longrightarrow> 5 - cnt \<le> fuel \<Longrightarrow>
    \<exists>c'. unused_loop m nl ord fuel (cnt, c) = Some (Inr c') \<and> picks_ok m nl 5 c'"
proof (induction fuel arbitrary: cnt c)
  case 0
  then have "cnt = 5" by (simp add: picks_ok_def)
  then show ?case using 0 by simp
next
  case (Suc fuel)
  show ?case
  proof (cases "cnt < 5")
    case False
    then have "cnt = 5" using Suc.prems by (simp add: picks_ok_def)
    then show ?thesis using Suc.prems by simp
  next
    case True
    then have "\<exists>r\<in>set nl. node_id m r \<in> set (ord fuel) \<and> free_at m cnt r"
      using free cache_rangesD(3) [OF ok] by blast
    then obtain cnt' c' where p: "unused_pass m nl (ord fuel) (cnt, c) = Inr (cnt', c')" "cnt < cnt'" "picks_ok m nl cnt' c'"
      using unused_pass_picks [OF cache_rangesD(1,2) [OF ok] Suc.prems(1), of fuel] True by blast
    have "5 - cnt' \<le> fuel" using p(2) Suc.prems(2) True by linarith
    from Suc.IH [OF p(3) this] show ?thesis using True p(1) by simp
  qed
qed

lemma unused_loop_spins:
  assumes ok: "cache_ranges m nl ord" and k: "k < 5" "\<forall>r\<in>set nl. \<not> free_at m k r"
  shows "picks_ok m nl cnt c \<Longrightarrow> cnt \<le> k \<Longrightarrow> unused_loop m nl ord fuel (cnt, c) = None"
proof (induction fuel arbitrary: cnt c)
  case 0
  then show ?case using k(1) by simp
next
  case (Suc fuel)
  obtain cnt' c' where p: "unused_pass m nl (ord fuel) (cnt, c) = Inr (cnt', c')" "picks_ok m nl cnt' c'" "cnt' \<le> k"
    using unused_pass_picks [OF cache_rangesD(1,2) [OF ok] Suc.prems(1), of fuel] k Suc.prems(2) by blast
  from Suc.IH [OF p(2,3)] show ?case using p(1) Suc.prems(2) k(1) by simp
qed

lemma free_at_entries:
  assumes "r \<in> set rs"
  shows "k < 5 \<Longrightarrow> free_at (with_entries rs m) k r = free_at m k r"
  using assms by (auto simp: free_at_def with_entries_def entries_def node_id_def empty_circuit_def split: option.splits)

lemma picks_ok_start: "picks_ok m nl 0 empty_circuit"
  by (simp add: picks_ok_def empty_circuit_def)

lemma picks_ok_entries:
  assumes "picks_ok (with_entries nl m) nl 5 c"
  shows "length c = 5 \<and> (\<forall>k<5. \<exists>r\<in>set nl. c ! k = Some r \<and> free_at m k r)"
  using assms unfolding picks_ok_def by (metis free_at_entries)

text \<open>The order of a range over the cache of the manager after the entries have been added.\<close>

definition ranges_cache :: "mgr \<Rightarrow> (nat \<Rightarrow> bytes list) \<Rightarrow> bool" where
  "ranges_cache m ord \<longleftrightarrow> (\<forall>k. set (ord k) = dom (mgCache m) \<union> node_id m ` set (tl (mgNodes m)))"

lemma ranges_cache_entries:
  assumes "mgr_ok m" and "ranges_cache m ord"
  shows "cache_ranges (with_entries (tl (mgNodes m)) m) (tl (mgNodes m)) ord"
proof -
  let ?nl = "tl (mgNodes m)"
  have "\<exists>c. entries m ?nl i = Some c \<and> length c = 5" if "i \<in> dom (mgCache m) \<union> node_id m ` set ?nl" for i
    using that mgr_okD(4) [OF assms(1)] by (auto simp: entries_def circuit_ok_def empty_circuit_def)
  moreover have "\<forall>r\<in>set ?nl. mgN m r \<noteq> None"
    using mgr_okD(2) [OF assms(1)] by (cases "mgNodes m") auto
  ultimately show ?thesis using assms(2)
    by (simp add: cache_ranges_def ranges_cache_def) (simp add: with_entries_def)
qed

section \<open>Picking hops\<close>

text \<open>The first remaining candidate of the hop.\<close>

definition first_of_hop :: "mgr \<Rightarrow> byte \<Rightarrow> nat option list \<Rightarrow> nat option" where
  "first_of_hop m hop ws = find_index (\<lambda>w. case w of None \<Rightarrow> False | Some r \<Rightarrow> sdHop (the (mgS m r)) = hop) ws"

lemma pick_hop_scan:
  assumes so: "i < length so" "so ! i = None" and ws: "\<forall>r. Some r \<in> set ws \<longrightarrow> mgS m r \<noteq> None"
    and hit: "first_of_hop m hop ws = Some p"
  shows "cur \<le> p \<Longrightarrow> p - cur < fuel \<Longrightarrow> pick_hop cmp m fuel i hop cur ws so =
    Some (rbind (cmp (take i so) (the (mgS m (the (ws ! p))))) (\<lambda>_. Inr (ws[p := None], so[i := ws ! p])))"
proof (induction fuel arbitrary: cur)
  case (Suc fuel)
  have p: "p < length ws" "\<forall>j<p. \<not> (case ws ! j of None \<Rightarrow> False | Some r \<Rightarrow> sdHop (the (mgS m r)) = hop)"
    "case ws ! p of None \<Rightarrow> False | Some r \<Rightarrow> sdHop (the (mgS m r)) = hop"
    using hit by (auto simp: first_of_hop_def find_index_Some)
  have cur: "cur < length ws" using Suc.prems p(1) by simp
  show ?case
  proof (cases "cur = p")
    case True
    then obtain r where r: "ws ! p = Some r" "sdHop (the (mgS m r)) = hop" using p(3) by (auto split: option.splits)
    have "Some r \<in> set ws" using r(1) nth_mem [OF p(1)] by simp
    then obtain s where "mgS m r = Some s" using ws by blast
    then show ?thesis using True r p(1) so by (simp add: index_expr_nat sess_at_def)
  next
    case False
    then have nx: "Suc cur \<le> p" "p - Suc cur < fuel" "Suc cur \<noteq> length ws" using Suc.prems p(1) by auto
    show ?thesis
    proof (cases "ws ! cur")
      case None
      then show ?thesis using Suc.IH [OF nx(1,2)] cur by (simp add: index_expr_nat)
    next
      case (Some r)
      then have "Some r \<in> set ws" using nth_mem [OF cur] by simp
      then obtain s where s: "mgS m r = Some s" using ws by blast
      have "cur < p" using False Suc.prems(1) by simp
      then have "sdHop s \<noteq> hop" using p(2) [rule_format, of cur] Some s by simp
      then show ?thesis using Suc.IH [OF nx(1,2)] nx(3) cur Some s so by (simp add: index_expr_nat sess_at_def)
    qed
  qed
qed simp

definition is_hop :: "mgr \<Rightarrow> byte \<Rightarrow> nat option \<Rightarrow> bool" where
  "is_hop m hop w = (case w of None \<Rightarrow> False | Some r \<Rightarrow> sdHop (the (mgS m r)) = hop)"

lemma is_hop_None [simp]: "\<not> is_hop m hop None"
  by (simp add: is_hop_def)

lemma mset_upd_filter:
  assumes "p < length ws" and "\<not> P v"
  shows "filter_mset P (mset (ws[p := v])) = filter_mset P (mset ws) - (if P (ws ! p) then {#ws ! p#} else {#})"
  using assms by (simp add: mset_update filter_diff_mset)

lemma enough_after_pick:
  assumes "p < length ws" and "is_hop m hop (ws ! p)"
    and "\<forall>h. length (filter ((=) h) (hop # hs)) \<le> length (filter (is_hop m h) ws)"
  shows "\<forall>h. length (filter ((=) h) hs) \<le> length (filter (is_hop m h) (ws[p := None]))"
proof
  fix h
  have "length (filter (is_hop m h) (ws[p := None])) = size (filter_mset (is_hop m h) (mset (ws[p := None])))"
    by (simp flip: mset_filter)
  also have "\<dots> = length (filter (is_hop m h) ws) - (if is_hop m h (ws ! p) then 1 else 0)"
    using assms(1) mset_upd_filter [OF assms(1), of "is_hop m h" None] nth_mem [OF assms(1)]
    by (simp add: size_Diff_singleton flip: mset_filter)
  moreover have "is_hop m h (ws ! p) \<longleftrightarrow> h = hop" using assms(2) by (auto simp: is_hop_def split: option.splits)
  ultimately show "length (filter ((=) h) hs) \<le> length (filter (is_hop m h) (ws[p := None]))"
    using assms(3) [rule_format, of h] by (auto split: if_splits)
qed

lemma moved_mset:
  fixes ws so :: "nat option list"
  assumes "p < length ws" and "ws ! p = Some r" and "i < length so" and "so ! i = None"
  shows "mset (filter (\<lambda>x. x \<noteq> None) (so[i := Some r] @ ws[p := None])) = mset (filter (\<lambda>x. x \<noteq> None) (so @ ws))"
proof -
  let ?Q = "\<lambda>x :: nat option. x \<noteq> None"
  have "filter_mset ?Q (mset (so[i := Some r])) = add_mset (Some r) (filter_mset ?Q (mset so))"
    using assms(3,4) by (simp add: mset_update filter_diff_mset)
  moreover have "filter_mset ?Q (mset (ws[p := None])) = filter_mset ?Q (mset ws) - {#Some r#}"
    using mset_upd_filter [OF assms(1), of ?Q None] assms(2) by simp
  moreover have "Some r \<in># filter_mset ?Q (mset ws)" using nth_mem [OF assms(1)] assms(2) by simp
  ultimately show ?thesis by (simp add: mset_filter [symmetric] del: mset_filter)
qed

text \<open>The loop over the positions, with enough candidates of every hop and comparisons that do not panic.\<close>

lemma pick_hops_returns:
  assumes R: "\<forall>r\<in>R. mgS m r \<noteq> None"
    and cmp: "\<forall>prev r. set prev \<subseteq> Some ` R \<longrightarrow> r \<in> R \<longrightarrow> cmp prev (the (mgS m r)) = Inr ()"
  shows "set ws \<subseteq> insert None (Some ` R) \<Longrightarrow> length ws \<le> fuel \<Longrightarrow> length so = i + length hs \<Longrightarrow>
    \<forall>j<i. so ! j \<in> Some ` R \<Longrightarrow> \<forall>j. i \<le> j \<and> j < length so \<longrightarrow> so ! j = None \<Longrightarrow>
    distinct (filter (\<lambda>x. x \<noteq> None) (so @ ws)) \<Longrightarrow>
    \<forall>h. length (filter ((=) h) hs) \<le> length (filter (is_hop m h) ws) \<Longrightarrow>
    \<exists>so'. pick_hops cmp m fuel i hs ws so = Some (Inr so') \<and> length so' = length so \<and> set so' \<subseteq> Some ` R \<and>
      distinct so' \<and> (\<forall>j<i. so' ! j = so ! j) \<and> (\<forall>j<length hs. is_hop m (hs ! j) (so' ! (i + j)))"
proof (induction hs arbitrary: i ws so)
  case Nil
  then have "set so \<subseteq> Some ` R" by (auto simp: in_set_conv_nth)
  moreover from this have "filter (\<lambda>x. x \<noteq> None) so = so" by (intro filter_True) auto
  ultimately show ?case using Nil.prems(6) by simp
next
  case (Cons h hs)
  have ex: "\<exists>w\<in>set ws. is_hop m h w"
    using Cons.prems(7) [rule_format, of h] by (cases "filter (is_hop m h) ws") (auto simp: filter_eq_Cons_iff)
  then have "find_index (is_hop m h) ws \<noteq> None" using find_index_None by fast
  then obtain p where fp: "find_index (is_hop m h) ws = Some p" by auto
  then have p: "p < length ws" "is_hop m h (ws ! p)" by (auto simp: find_index_Some)
  then obtain r where r: "ws ! p = Some r" by (auto simp: is_hop_def split: option.splits)
  have rR: "r \<in> R" using Cons.prems(1) r nth_mem [OF p(1)] by auto
  have hit: "first_of_hop m h ws = Some p" using fp by (simp add: first_of_hop_def is_hop_def [abs_def])
  have i: "i < length so" "so ! i = None" using Cons.prems(3,5) by auto
  have wsS: "\<forall>r. Some r \<in> set ws \<longrightarrow> mgS m r \<noteq> None" using Cons.prems(1) R by auto
  have prev: "set (take i so) \<subseteq> Some ` R" using Cons.prems(4) i by (auto simp: in_set_conv_nth)
  have step: "pick_hop cmp m fuel i h 0 ws so = Some (Inr (ws[p := None], so[i := Some r]))"
    using pick_hop_scan [OF i wsS hit, of 0 fuel cmp] cmp prev rR p(1) Cons.prems(2) r by simp
  have "\<exists>so'. pick_hops cmp m fuel (Suc i) hs (ws[p := None]) (so[i := Some r]) = Some (Inr so') \<and>
      length so' = length (so[i := Some r]) \<and> set so' \<subseteq> Some ` R \<and> distinct so' \<and>
      (\<forall>j<Suc i. so' ! j = so[i := Some r] ! j) \<and> (\<forall>j<length hs. is_hop m (hs ! j) (so' ! (Suc i + j)))"
  proof (rule Cons.IH)
    show "set (ws[p := None]) \<subseteq> insert None (Some ` R)"
      using Cons.prems(1) set_update_subset_insert [of ws p None] by blast
    show "distinct (filter (\<lambda>x. x \<noteq> None) (so[i := Some r] @ ws[p := None]))"
      using moved_mset [OF p(1) r i] Cons.prems(6) by (metis mset_eq_imp_distinct_iff)
    show "\<forall>h. length (filter ((=) h) hs) \<le> length (filter (is_hop m h) (ws[p := None]))"
      by (rule enough_after_pick [OF p Cons.prems(7)])
  qed (use Cons.prems(2,3,4,5) i rR in \<open>auto simp: nth_list_update less_Suc_eq\<close>)
  then obtain so' where so': "pick_hops cmp m fuel (Suc i) hs (ws[p := None]) (so[i := Some r]) = Some (Inr so')"
    "length so' = length so" "set so' \<subseteq> Some ` R" "distinct so'"
    "\<forall>j<Suc i. so' ! j = so[i := Some r] ! j" "\<forall>j<length hs. is_hop m (hs ! j) (so' ! (Suc i + j))" by auto
  have "so' ! i = Some r" using so'(5) i by simp
  then have "is_hop m h (so' ! i)" using p(2) r by simp
  then have "\<forall>j<length (h # hs). is_hop m ((h # hs) ! j) (so' ! (i + j))"
    using so'(6) by (auto simp: nth_Cons split: nat.splits)
  moreover have "\<forall>j<i. so' ! j = so ! j" using so'(5) by simp
  ultimately show ?case using step so'(1-4) by auto
qed

section \<open>SelectHops\<close>

definition addresses_of :: "mgr \<Rightarrow> nat \<Rightarrow> multiaddr option list" where
  "addresses_of m r = ndAddresses (the (mgN m (the (sdNode (the (mgS m r))))))"

text \<open>The comparison indexes the address lists of two nodes in step: it does not panic when the nodes of all
  sessions have as many addresses and none of them is nil.\<close>

definition addresses_match :: "mgr \<Rightarrow> bool" where
  "addresses_match m \<longleftrightarrow> (\<forall>r\<in>set (mgSessions m). \<forall>r'\<in>set (mgSessions m).
     length (addresses_of m r) = length (addresses_of m r') \<and> None \<notin> set (addresses_of m r))"

lemma rfold_unit: "\<forall>x\<in>set xs. f x () = Inr () \<Longrightarrow> rfold f xs () = Inr ()"
  by (induction xs) auto

lemma local_address_ok:
  assumes "local_node m = Inr n" and "ndAddresses n \<noteq> []"
  shows "\<exists>l. GetLocalNodeAddressString yellow d m = Inr l"
proof -
  have "0 < length (shuffled d (ndAddresses n))" using assms(2) by simp
  then show ?thesis using assms(1) index_expr_nat [of 0 "shuffled d (ndAddresses n)"]
    by (simp add: GetLocalNodeAddressString_def GetLocalNodeAddress_def)
qed

lemma node_of_ok:
  assumes "sess_ok m r"
  shows "\<exists>s n. mgS m r = Some s \<and> node_of m s = Inr n \<and> ndAddresses n = addresses_of m r"
  using assms by (rule sess_okE) (auto simp: node_of_def node_at_def addresses_of_def)

lemma compare_addresses_ok:
  assumes ok: "mgr_ok m" and am: "addresses_match m" and local: "local_node m = Inr n" "ndAddresses n \<noteq> []"
    and prev: "set prev \<subseteq> Some ` set (mgSessions m)" and r: "r \<in> set (mgSessions m)"
  shows "compare_addresses mstr yellow ds m prev (the (mgS m r)) = Inr ()"
  unfolding compare_addresses_def
proof (rule rfold_unit, clarify)
  fix k p assume "(k, p) \<in> set (zip [0..<length prev] prev)"
  then obtain x where x: "p = Some x" "x \<in> set (mgSessions m)" using prev by (auto dest!: set_zip_rightD)
  obtain sx nx where nx: "mgS m x = Some sx" "node_of m sx = Inr nx" "ndAddresses nx = addresses_of m x"
    using node_of_ok mgr_okD(1) [OF ok x(2)] by blast
  obtain sr nr where nr: "mgS m r = Some sr" "node_of m sr = Inr nr" "ndAddresses nr = addresses_of m r"
    using node_of_ok mgr_okD(1) [OF ok r] by blast
  have "compare_address mstr (GetLocalNodeAddressString yellow (ds k a) m) nx (Inr nr) a = Inr ()"
    if a: "a < length (addresses_of m x)" for a
  proof -
    have la: "length (addresses_of m x) = length (addresses_of m r)" "None \<notin> set (addresses_of m x)" "None \<notin> set (addresses_of m r)"
      using am x(2) r unfolding addresses_match_def by blast+
    have "a < length (addresses_of m r)" using a la(1) by simp
    then obtain y z where "addresses_of m x ! a = Some y" "addresses_of m r ! a = Some z"
      using nth_mem [OF a] nth_mem [of a "addresses_of m r"] la by (metis not_None_eq)
    moreover obtain l where "GetLocalNodeAddressString yellow (ds k a) m = Inr l" using local_address_ok [OF local] by blast
    ultimately show ?thesis using a la(1) nx(3) nr(3) by (simp add: compare_address_def index_expr_nat)
  qed
  then have "rfold (\<lambda>a u. compare_address mstr (GetLocalNodeAddressString yellow (ds k a) m) nx (Inr nr) a)
      [0..<length (ndAddresses nx)] () = Inr ()"
    using nx(3) by (intro rfold_unit) simp
  then show "rbind (deref p) (\<lambda>r'. rbind (sess_at m r') (\<lambda>s. rbind (node_of m s) (\<lambda>v.
      rfold (\<lambda>a u. compare_address mstr (GetLocalNodeAddressString yellow (ds k a) m) v (node_of m (the (mgS m r))) a)
        [0..<length (ndAddresses v)] ()))) = Inr ()"
    using x(1) nx nr by (simp add: sess_at_def)
qed

lemma print_circuit_ok:
  assumes ok: "mgr_ok m" and am: "addresses_match m" and so: "set so \<subseteq> Some ` set (mgSessions m)"
  shows "print_circuit m so = Inr ()"
  unfolding print_circuit_def
proof (rule rfold_unit, rule ballI)
  fix p assume "p \<in> set so"
  then obtain x where x: "p = Some x" "x \<in> set (mgSessions m)" using so by auto
  obtain sx nx where nx: "mgS m x = Some sx" "node_of m sx = Inr nx" "ndAddresses nx = addresses_of m x"
    using node_of_ok mgr_okD(1) [OF ok x(2)] by blast
  have "None \<notin> set (addresses_of m x)" using am x(2) unfolding addresses_match_def by blast
  then have "rfold (\<lambda>a u. rbind (deref a) (\<lambda>_. Inr ())) (ndAddresses nx) () = Inr ()"
    using nx(3) by (intro rfold_unit) (metis deref_simps(2) not_None_eq rbind_Inr)
  then show "rbind (deref p) (\<lambda>r. rbind (sess_at m r) (\<lambda>s. rbind (node_of m s) (\<lambda>n.
      rfold (\<lambda>a u. rbind (deref a) (\<lambda>_. Inr ())) (ndAddresses n) ()))) = Inr ()"
    using x(1) nx by (simp add: sess_at_def)
qed

lemma candidates_all:
  assumes "mgr_ok m"
  shows "candidates m (replicate k None) = Inr (mgSessions m)"
proof -
  have free: "in_have m (replicate k None) s = Inr False" for s
    by (induction k) (simp_all add: in_have_def)
  have "rfold (\<lambda>r ws. rbind (sess_at m r) (\<lambda>s. rbind (in_have m (replicate k None) s) (\<lambda>b.
      Inr (if b then ws else ws @ [r])))) rs acc = Inr (acc @ rs)" if "set rs \<subseteq> set (mgSessions m)" for rs acc
    using that
  proof (induction rs arbitrary: acc)
    case (Cons r rs)
    then have "sess_ok m r" by (intro mgr_okD(1) [OF assms]) simp
    then obtain s where "mgS m r = Some s" by (rule sess_okE)
    then show ?case using Cons free by (simp add: sess_at_def)
  qed simp
  from this [of "mgSessions m" "[]"] show ?thesis by (simp add: candidates_def)
qed

end
