(* ===== verification/Manager_Thms.thy ===== *)
theory Manager_Thms
  imports Select_Props Ads_Props
begin

text \<open>
  The results on the session manager: its invariant in every reachable state, charging, cloaked keys, deletion,
  and the selection of circuits.
\<close>

section \<open>Reachable states\<close>

text \<open>One step of the manager. Allocation of a node or of session data is a step of its own kind. The operations
  that do not keep the invariant are not steps: \<^verbatim>\<open>DeleteNodeAndSessions\<close>, treated below, and \<^verbatim>\<open>ClearSessions\<close>, a
  debugging aid that leaves the cache alone.\<close>

inductive mgr_step :: "mgr \<Rightarrow> mgr \<Rightarrow> bool" where
  step_new_node: "mgN m r = None \<Longrightarrow> NewNode i pc addr ks tpt rate = (n, i) \<Longrightarrow> mgr_step m (set_node r n m)"
| step_add_nodes: "\<forall>r\<in>set nn. mgN m r \<noteq> None \<Longrightarrow> mgr_step m (AddNodes nn m)"
| step_session: "mgS m r = None \<Longrightarrow> NewSessionData C g1 g2 i (Some nr) rm hdr pld hop = Inr s \<Longrightarrow>
    mgN m nr \<noteq> None \<Longrightarrow> AddSession r (set_sess r s m) = Inr m' \<Longrightarrow> mgr_step m m'"
| step_readd: "r \<in> set (mgSessions m) \<Longrightarrow> AddSession r m = Inr m' \<Longrightarrow> mgr_step m m'"
| step_payment: "AddPendingPayment np m = Inr m' \<Longrightarrow> mgr_step m m'"
| step_unpay: "mgr_step m (DeletePendingPayment h m)"
| step_clear: "mgr_step m (ClearPendingPayments m)"
| step_charge: "DecSession k x m = Inr (m', b) \<Longrightarrow> mgr_step m m'"
| step_topup: "IncSession k a m = Inr m' \<Longrightarrow> mgr_step m m'"
| step_service: "AddServiceToLocalNode sv m = Inr (m', e) \<Longrightarrow> mgr_step m m'"
| step_delete_session: "DeleteSession k m = Inr m' \<Longrightarrow> mgr_step m m'"
| step_delete_node: "DeleteNodeByID i m = Inr (m', e) \<Longrightarrow> mgr_step m m'"
| step_delete_addr: "DeleteNodeByAddrPort mstr ip m = Inr (m', e) \<Longrightarrow> mgr_step m m'"
| step_local: "mgN m n \<noteq> None \<Longrightarrow> SetLocalNode n m = Inr m' \<Longrightarrow> mgr_step m m'"
| step_address: "AddLocalNodeAddress a m = Inr m' \<Longrightarrow> mgr_step m m'"
| step_addresses: "AddLocalNodeAddresses as m = Inr m' \<Longrightarrow> mgr_step m m'"
| step_unaddress: "RemoveLocalNodeAddress ma m = Inr m' \<Longrightarrow> mgr_step m m'"
| step_update: "UpdateSessionCache m = Inr m' \<Longrightarrow> mgr_step m m'"
| step_select: "SelectUnusedCircuit ord fuel m = Some (Inr (m', c)) \<Longrightarrow> mgr_step m m'"

inductive mgr_reach :: "mgr \<Rightarrow> bool" where
  reach_new: "mgN store n \<noteq> None \<Longrightarrow> mgr_reach (NewSessionManager ps n store)"
| reach_step: "mgr_reach m \<Longrightarrow> mgr_step m m' \<Longrightarrow> mgr_reach m'"

lemma NewSessionManager_ok: "mgN store n \<noteq> None \<Longrightarrow> mgr_ok (NewSessionManager ps n store)"
  by (auto simp: NewSessionManager_def mgr_ok_def)

lemma NewSessionData_ok:
  assumes "NewSessionData C g1 g2 i (Some nr) rm hdr pld hop = Inr s" and "mgN m nr \<noteq> None"
  shows "sess_ok (set_sess r s m) r"
  using assms by (auto simp: NewSessionData_def sess_ok_def rbind_eq_Inr)

lemma SelectUnusedCircuit_keeps_ok:
  assumes "mgr_ok m" and "SelectUnusedCircuit ord fuel m = Some (Inr (m', c))"
  shows "mgr_ok m'"
proof -
  obtain m1 where m1: "rfold add_cache_entry (tl (mgNodes m)) m = Inr m1" "m' = m1"
    using assms(2) by (auto simp: SelectUnusedCircuit_def Let_def split: if_splits sum.splits option.splits)
  from m1(1) assms(1) have "mgr_ok m1" by (rule rfold_invariant) (blast intro: add_cache_entry_keeps_ok)
  then show ?thesis using m1(2) by simp
qed

lemma mgr_step_ok:
  assumes "mgr_step m m'" and ok: "mgr_ok m"
  shows "mgr_ok m'"
  using assms(1)
proof (cases rule: mgr_step.cases)
  case (step_new_node r i pc addr ks tpt rate n)
  then show ?thesis
    using mgr_okD(2) [OF ok] by (auto intro: mgr_ok_shape [OF ok same_shape_new_node])
next
  case (step_add_nodes nn)
  have "mgr_ok (m\<lparr>mgNodes := mgNodes m @ nn\<rparr>)"
    by (rule nodes_ok [OF ok]) (use step_add_nodes mgr_okD(2) [OF ok] in auto)
  then show ?thesis using step_add_nodes by (simp add: AddNodes_def)
next
  case (step_session r C g1 g2 i nr rm hdr pld hop s)
  have "mgr_ok (set_sess r s m)"
    by (rule mgr_ok_shape [OF ok same_shape_new_sess [OF step_session(1)]]) (use mgr_okD(2) [OF ok] in simp_all)
  from AddSession_keeps_ok [OF this NewSessionData_ok [OF step_session(2,3)]] step_session(4) show ?thesis by simp
next
  case (step_readd r)
  then show ?thesis using AddSession_keeps_ok [OF ok mgr_okD(1) [OF ok]] by fastforce
next
  case (step_payment np)
  then show ?thesis using ok by (auto simp: AddPendingPayment_def rbind_eq_Inr pending_ok)
next
  case step_unpay
  then show ?thesis using ok by (simp add: DeletePendingPayment_def pending_ok)
next
  case step_clear
  then show ?thesis using ok by (simp add: ClearPendingPayments_def pending_ok)
next
  case (step_delete_node i e)
  then show ?thesis using delete_node_keeps_ok [OF ok] by (auto simp: DeleteNodeByID_def rbind_eq_Inr)
next
  case (step_delete_addr mstr ip e)
  then show ?thesis using delete_node_keeps_ok [OF ok] by (auto simp: DeleteNodeByAddrPort_def rbind_eq_Inr)
qed (use ok in \<open>blast intro: DecSession_keeps_ok IncSession_keeps_ok AddServiceToLocalNode_keeps_ok DeleteSession_keeps_ok
      SetLocalNode_keeps_ok AddLocalNodeAddress_keeps_ok AddLocalNodeAddresses_keeps_ok RemoveLocalNodeAddress_keeps_ok
      UpdateSessionCache_keeps_ok SelectUnusedCircuit_keeps_ok\<close>)+


section \<open>A manager with two sessions\<close>

definition demo_keys :: "byte \<Rightarrow> keys" where
  "demo_keys b = \<lparr>kPub = Pub (ucast b) 0, kBytes = Pub_ToBytes demo_ops (Pub (ucast b) 0), kPrv = Prv (ucast b)\<rparr>"

definition demo_node :: "byte \<Rightarrow> node" where
  "demo_node b = \<lparr>ndID = [b], ndAddresses = [Some demo_addr], ndIdentity = Some (demo_keys b), ndRelayRate = 5,
     ndServices = [], ndLoad = 0, ndPayChan = 0, ndTransport = unat b\<rparr>"

definition demo_sess :: "byte \<Rightarrow> nat \<Rightarrow> byte \<Rightarrow> session_data" where
  "demo_sess b nr hop = \<lparr>sdID = [b], sdNode = Some nr, sdRemaining = 1000, sdHeader = Some (demo_keys b),
     sdPayload = Some (demo_keys (b + 1)), sdPreimage = [b], sdHop = hop\<rparr>"

definition demo_mgr :: mgr where
  "demo_mgr = \<lparr>mgS = [0 \<mapsto> demo_sess 10 1 0, 1 \<mapsto> demo_sess 20 2 1], mgN = [0 \<mapsto> demo_node 100, 1 \<mapsto> demo_node 101, 2 \<mapsto> demo_node 102],
     mgNodes = [0, 1, 2], mgPending = [], mgSessions = [0, 1],
     mgCache = [[101] \<mapsto> [Some 0, None, None, None, None], [102] \<mapsto> [None, Some 1, None, None, None]], mgProtocols = 1\<rparr>"

lemma demo_key_bytes: "kBytes (demo_keys b) = 2 # replicate 31 0 @ [b]"
  by (simp add: demo_keys_def Pub_ToBytes_def demo_ops_def)

lemma demo_keys_inj: "kBytes (demo_keys b) = kBytes (demo_keys c) \<longleftrightarrow> b = c"
  by (simp add: demo_key_bytes)

lemma demo_mgr_of:
  "header_of demo_mgr 0 = kBytes (demo_keys 10)" "header_of demo_mgr (Suc 0) = kBytes (demo_keys 20)"
  "hop_of demo_mgr 0 = 0" "hop_of demo_mgr (Suc 0) = 1" "peer_of demo_mgr 0 = [101]" "peer_of demo_mgr (Suc 0) = [102]"
  "addresses_of demo_mgr 0 = [Some demo_addr]" "addresses_of demo_mgr (Suc 0) = [Some demo_addr]"
  by (simp_all add: header_of_def hop_of_def peer_of_def addresses_of_def demo_mgr_def demo_sess_def demo_node_def)

lemma demo_mgr_ok: "mgr_ok demo_mgr"
proof -
  have 1: "mgSessions demo_mgr = [0, 1]" "mgNodes demo_mgr = [0, 1, 2]" by (simp_all add: demo_mgr_def)
  have "circuit_ok demo_mgr i c" if "mgCache demo_mgr i = Some c" for i c
  proof -
    have "i = [101] \<and> c = [Some 0, None, None, None, None] \<or> i = [102] \<and> c = [None, Some 1, None, None, None]"
      using that by (simp add: demo_mgr_def split: if_splits)
    then show ?thesis by (auto simp: circuit_ok_def demo_mgr_of 1 less_Suc_eq numeral_eq_Suc)
  qed
  moreover have "sess_ok demo_mgr 0" "sess_ok demo_mgr 1" "\<forall>r\<in>{0, 1, 2}. mgN demo_mgr r \<noteq> None"
    by (simp_all add: sess_ok_def demo_mgr_def demo_sess_def)
  ultimately show ?thesis
    by (auto simp: mgr_ok_def 1 demo_mgr_of demo_keys_inj)
qed

lemma demo_local: "local_node demo_mgr = Inr (demo_node 100)"
  by (simp add: local_node_def GetLocalNode_def index_expr_def node_at_def demo_mgr_def)

lemma demo_reach: "\<exists>m. mgr_reach m \<and> mgSessions m = [0]"
proof -
  let ?st = "demo_mgr\<lparr>mgS := Map.empty\<rparr>"
  let ?m0 = "NewSessionManager 1 0 ?st"
  obtain s where s: "NewSessionData demo_ops (Inr demo_prv) (Inr demo_prv) [10] (Some 1) 1000 (Some (demo_keys 10))
      (Some (demo_keys 11)) 0 = Inr s" by (simp add: NewSessionData_def)
  have n: "mgN ?m0 1 \<noteq> None" "mgS ?m0 0 = None" "mgSessions ?m0 = []" "mgN ?st 0 \<noteq> None"
    by (simp_all add: NewSessionManager_def demo_mgr_def)
  have ok0: "mgr_ok ?m0" using n(4) by (rule NewSessionManager_ok)
  have ok: "mgr_ok (set_sess 0 s ?m0)"
    by (rule mgr_ok_shape [OF ok0 same_shape_new_sess [OF n(2)]]) (use mgr_okD(2) [OF ok0] in simp_all)
  obtain m' where m': "AddSession 0 (set_sess 0 s ?m0) = Inr m'" "mgSessions m' = [0]"
    using AddSession_is [OF ok NewSessionData_ok [OF s n(1)]] n(3) by auto
  have "mgr_reach m'" using reach_step [OF reach_new [OF n(4)] step_session [OF n(2) s n(1) m'(1)]] .
  then show ?thesis using m'(2) by blast
qed


section \<open>Charging\<close>

lemma find_unique:
  assumes "distinct (map f xs)" and "r \<in> set xs"
  shows "find (\<lambda>x. f x = f r) xs = Some r"
proof (cases "find (\<lambda>x. f x = f r) xs")
  case None
  then show ?thesis using assms(2) find_None_iff_all [of "\<lambda>x. f x = f r" xs] by auto
next
  case (Some x)
  then show ?thesis using assms find_Some_in_set [OF Some] by (auto simp: distinct_map inj_on_def)
qed

lemma set_sess_same: "mgS m r = Some s \<Longrightarrow> set_sess r s m = m"
  by (simp add: set_sess_def fun_upd_idem)

text \<open>C10: charging a session takes the price, divided by 1024 twice and rounded down, off its balance, and off no
  other session; a price above the balance is refused and nothing changes, so a balance never wraps
  around; and a price below 1048576 is accepted but costs nothing.\<close>

theorem DecSession_charges:
  assumes "mgr_ok m" and "r \<in> set (mgSessions m)" and "mgS m r = Some s" and "addresses_of m r = Some a # as"
    and "0 \<le> msats" and "msats div 1048576 < 2 ^ 64"
  shows "(uint (sdRemaining s) < msats div 1048576 \<longrightarrow> DecSession (header_of m r) msats m = Inr (m, False)) \<and>
    (msats div 1048576 \<le> uint (sdRemaining s) \<longrightarrow> (\<exists>b.
       DecSession (header_of m r) msats m = Inr (set_sess r (s\<lparr>sdRemaining := b\<rparr>) m, True) \<and>
       uint b = uint (sdRemaining s) - msats div 1048576)) \<and>
    (msats < 1048576 \<longrightarrow> DecSession (header_of m r) msats m = Inr (m, True))"
proof -
  let ?p = "msats div 1048576"
  obtain n h where n: "node_of m s = Inr n" "ndAddresses n = Some a # as" "sdHeader s = Some h"
    using node_of_ok [OF mgr_okD(1) [OF assms(1,2)]] mgr_okD(1) [OF assms(1,2)] assms(3,4)
    by (auto simp: sess_ok_def)
  have q: "msats div 1024 div 1024 = ?p" by (simp add: div_mult2_eq [symmetric] zdiv_zmult2_eq [symmetric])
  have p: "uint (word_of_int ?p :: u64) = ?p" using assms(5,6) by (simp add: uint_word_of_int pos_imp_zdiv_nonneg_iff)
  have dec: "DecSession (header_of m r) msats m =
      rbind (DecSats (Some n) (word_of_int ?p) s) (\<lambda>(s', ok). Inr (set_sess r s' m, ok))"
    using FindSessionByPubkey_ok [OF assms(1), of "header_of m r"] find_unique [OF mgr_okD(3) [OF assms(1)] assms(2)]
      assms(3,5) n(1) q by (simp add: DecSession_def sess_at_def)
  have sats: "DecSats (Some n) (word_of_int ?p) s =
      (if uint (sdRemaining s) < ?p then Inr (s, False)
       else Inr (s\<lparr>sdRemaining := sdRemaining s - word_of_int ?p\<rparr>, True))"
    using n p by (simp add: DecSats_def word_less_def index_expr_def)
  have b: "uint (sdRemaining s - word_of_int ?p) = uint (sdRemaining s) - ?p" if "?p \<le> uint (sdRemaining s)"
  proof -
    have "uint (word_of_int ?p :: u64) \<le> uint (sdRemaining s)" using that p by simp
    then show ?thesis using uint_sub_lem [of "word_of_int ?p" "sdRemaining s"] p by simp
  qed
  have small: "?p = 0" if "msats < 1048576" using that assms(5) by simp
  show ?thesis using dec sats b small set_sess_same [OF assms(3)] by (auto simp: not_less)
qed

theorem DecSession_charges_witness:
  "\<exists>b. DecSession (kBytes (demo_keys 10)) 5242880 demo_mgr =
     Inr (set_sess 0 ((demo_sess 10 1 0)\<lparr>sdRemaining := b\<rparr>) demo_mgr, True) \<and> uint b = 995"
  using DecSession_charges [OF demo_mgr_ok, of 0 "demo_sess 10 1 0" demo_addr "[]" 5242880]
  by (simp add: demo_mgr_of) (simp add: demo_mgr_def demo_sess_def)

section \<open>Cloaked keys\<close>

lemma Match_take:
  "length clk = 8 \<Longrightarrow> (Cloak C (take 4 clk) k = clk) = Match C clk k"
  by (auto simp: Match_def Let_def)

lemma FindCloaked_is:
  assumes "mgr_ok m" and "local_node m = Inr n" and "ndIdentity n = Some ident" and "length clk = 8"
  shows "FindCloaked C clk m = Inr (
    if Match C clk (kBytes ident) then (Some (kPrv ident), None, None, True)
    else case find (\<lambda>r. Match C clk (header_of m r)) (mgSessions m) of
      None \<Rightarrow> (None, None, None, False)
    | Some r \<Rightarrow> (map_option kPrv (sdHeader (the (mgS m r))), map_option kPrv (sdPayload (the (mgS m r))), Some r, False))"
proof (cases "Match C clk (kBytes ident)")
  case True
  then show ?thesis using assms(2-4) by (simp add: FindCloaked_def Let_def Match_take)
next
  case False
  let ?t = "sess_test m (\<lambda>s. rbind (header_bytes s) (\<lambda>h. Inr (Cloak C (take BlindLen clk) h = clk)))"
  have "find_res ?t (mgSessions m) = Inr (find (\<lambda>r. Match C clk (header_of m r)) (mgSessions m))"
    using assms(1,4) by (intro find_res_find) (auto simp: sess_test_header mgr_okD(1) Match_take)
  moreover have "sess_ok m r" if "find (\<lambda>r. Match C clk (header_of m r)) (mgSessions m) = Some r" for r
    using find_Some_in_set [OF that] mgr_okD(1) [OF assms(1)] by simp
  ultimately show ?thesis using False assms(2-4)
    by (cases "find (\<lambda>r. Match C clk (header_of m r)) (mgSessions m)")
      (auto simp: FindCloaked_def Let_def Match_take sess_ok_def sess_at_def)
qed



section \<open>Deletion\<close>

text \<open>C16: \<^verbatim>\<open>DeleteSession\<close> deletes only the last session of the slice. For a session in another position, or one with
  a hop that has no place in a circuit, it panics: it removes the element from the slice it ranges over
  by index and runs past the end.\<close>

theorem DeleteSession_last_only:
  assumes "mgr_ok m" and "i < length (mgSessions m)" and "mgCache m (peer_of m (mgSessions m ! i)) = Some c"
  shows "(i = length (mgSessions m) - 1 \<and> hop_of m (mgSessions m ! i) < 5 \<longrightarrow>
      (\<exists>m'. DeleteSession (header_of m (mgSessions m ! i)) m = Inr m' \<and> mgSessions m' = butlast (mgSessions m) \<and> mgr_ok m')) \<and>
    (i < length (mgSessions m) - 1 \<or> 5 \<le> hop_of m (mgSessions m ! i) \<longrightarrow>
      DeleteSession (header_of m (mgSessions m ! i)) m = Inl (Panic ''index out of range''))"
proof -
  have "del_at (length xs - 1) xs = butlast xs" for xs :: "nat list"
    by (cases xs rule: rev_cases) (simp_all add: del_at_def)
  then show ?thesis using DeleteSession_at [OF assms(1,2) refl] assms(3) without_session_ok [OF assms]
    by (auto simp: index_panic_def)
qed

theorem DeleteSession_last_only_witness:
  "DeleteSession (kBytes (demo_keys 10)) demo_mgr = Inl (Panic ''index out of range'') \<and>
   (\<exists>m'. DeleteSession (kBytes (demo_keys 20)) demo_mgr = Inr m' \<and> mgSessions m' = [0])"
proof -
  have s: "mgSessions demo_mgr = [0, Suc 0]" by (simp add: demo_mgr_def)
  have c: "mgCache demo_mgr [101] = Some [Some 0, None, None, None, None]"
    "mgCache demo_mgr [102] = Some [None, Some 1, None, None, None]" by (simp_all add: demo_mgr_def)
  show ?thesis
    using DeleteSession_last_only [OF demo_mgr_ok, of 0] DeleteSession_last_only [OF demo_mgr_ok, of 1]
    by (auto simp: s c demo_mgr_of)
qed

text \<open>C21: what \<^verbatim>\<open>DeleteNodeAndSessions\<close> leaves of the sessions depends on how many of them belong to the node: with one
  it removes that session, with none it removes every session of the manager, with two or more it
  removes no session at all.\<close>

theorem DeleteNodeAndSessions_sessions:
  assumes "mgr_ok m" and "mgCache m i \<noteq> None" and "found = filter (\<lambda>k. peer_of m (mgSessions m ! k) = i) [0..<length (mgSessions m)]"
  shows "\<exists>m'. DeleteNodeAndSessions i m = Inr m' \<and> mgCache m' i = None \<and>
    (found = [] \<longrightarrow> mgSessions m' = []) \<and>
    (\<forall>k. found = [k] \<longrightarrow> mgSessions m' = del_at k (mgSessions m)) \<and>
    (2 \<le> length found \<longrightarrow> mgSessions m' = mgSessions m)"
proof -
  let ?m1 = "m\<lparr>mgCache := (mgCache m)(i := None)\<rparr>"
  have "\<forall>r\<in>set (mgNodes m). has_id ?m1 i r = Inr (ndID (the (mgN m r)) = i)"
    using mgr_okD(2) [OF assms(1)] by (auto simp: has_id_def node_test_def node_at_def dest!: mgr_okD(2) [OF assms(1)])
  moreover have "\<exists>ns b. delete_node P pre rs = Inr (ns, b)" if "\<forall>r\<in>set rs. \<exists>t. P r = Inr t" for P pre rs
    using that
  proof (induction rs arbitrary: pre)
    case (Cons r rs)
    then obtain t where "P r = Inr t" by auto
    then show ?case using Cons by (cases t) auto
  qed (auto intro: exI [of _ False])
  ultimately obtain ns b where ns: "delete_node (has_id ?m1 i) [] (mgNodes m) = Inr (ns, b)" by metis
  let ?m2 = "?m1\<lparr>mgNodes := ns\<rparr>"
  have "found_sessions ?m2 i = found_sessions m i"
    by (simp add: found_sessions_def sess_at_def node_of_def node_at_def [abs_def])
  then have f: "found_sessions ?m2 i = Inr found" using found_sessions_ok [OF assms(1)] assms(3) by simp
  obtain c where "mgCache m i = Some c" using assms(2) by auto
  then have r: "DeleteNodeAndSessions i m = Inr (?m2\<lparr>mgSessions := kept_sessions found (mgSessions m)\<rparr>)"
    using ns f by (simp add: DeleteNodeAndSessions_def Let_def)
  have one: "kept_sessions found (mgSessions m) = del_at k (mgSessions m)" if "found = [k]" for k
  proof -
    have "k \<in> set found" using that by simp
    then have "k < length (mgSessions m)" using assms(3) by auto
    then show ?thesis using that by (simp add: kept_sessions_one)
  qed
  have many: "kept_sessions found (mgSessions m) = mgSessions m" if "2 \<le> length found"
  proof -
    have "distinct found" using assms(3) by simp
    moreover obtain x y zs where "found = x # y # zs" using \<open>2 \<le> length found\<close> by (metis Suc_le_length_iff numeral_2_eq_2)
    ultimately show ?thesis by (intro kept_sessions_many [of x _ y]) auto
  qed
  show ?thesis using r one many kept_sessions_none by auto
qed

theorem DeleteNodeAndSessions_sessions_witness:
  "\<exists>m'. DeleteNodeAndSessions [101] demo_mgr = Inr m' \<and> mgSessions m' = [1]"
proof -
  have s: "mgSessions demo_mgr = [0, Suc 0]" "mgCache demo_mgr [101] \<noteq> None" by (simp_all add: demo_mgr_def)
  have "filter (\<lambda>k. peer_of demo_mgr (mgSessions demo_mgr ! k) = [101]) [0..<length (mgSessions demo_mgr)] = [0]"
    by (simp add: s demo_mgr_of upt_rec)
  from DeleteNodeAndSessions_sessions [OF demo_mgr_ok s(2) this [symmetric]] show ?thesis
    by (auto simp: s del_at_def)
qed

lemma place_session_result:
  assumes ok: "mgr_ok m" and x: "x \<in> set (mgSessions m)"
  shows "(\<exists>m'. place_session x m = Inr m' \<and> mgr_ok m' \<and> mgSessions m' = mgSessions m \<and> mgS m' = mgS m \<and> hop_of m x < 5) \<or>
    (\<exists>e. place_session x m = Inl (Panic e))"
proof -
  obtain s nr n where o: "mgS m x = Some s" "sdNode s = Some nr" "mgN m nr = Some n" "hop_of m x = unat (sdHop s)"
    using mgr_okD(1) [OF ok x] by (rule sess_okE)
  have p: "place_session x m = rbind (deref (mgCache m (ndID n))) (\<lambda>c.
      rbind (set_index c (int (unat (sdHop s))) (Some x)) (\<lambda>c'. Inr (m\<lparr>mgCache := (mgCache m)(ndID n \<mapsto> c')\<rparr>)))"
    using o by (simp add: place_session_def sess_at_def node_of_def node_at_def del: of_nat_unat)
  show ?thesis
  proof (cases "mgCache m (ndID n)")
    case (Some c)
    then have len: "length c = 5" using mgr_okD(4) [OF ok] by (simp add: circuit_ok_def)
    have p': "place_session x m = (if unat (sdHop s) < 5
        then Inr (m\<lparr>mgCache := (mgCache m)(ndID n \<mapsto> c[unat (sdHop s) := Some x])\<rparr>) else Inl index_panic)"
      unfolding p Some set_index_def using len by (simp del: of_nat_unat)
    show ?thesis
    proof (cases "unat (sdHop s) < 5")
      case True
      then show ?thesis using p' o(4) place_session_keeps_ok [OF ok _ x] by auto
    qed (use p' in \<open>simp add: index_panic_def\<close>)
  qed (use p in \<open>simp add: nil_panic_def\<close>)
qed

lemma place_sessions_panic:
  "mgr_ok m \<Longrightarrow> set rs \<subseteq> set (mgSessions m) \<Longrightarrow> \<exists>r\<in>set rs. 5 \<le> hop_of m r \<Longrightarrow>
   \<exists>e. rfold place_session rs m = Inl (Panic e)"
proof (induction rs arbitrary: m)
  case (Cons x rs)
  have x: "x \<in> set (mgSessions m)" using Cons.prems(2) by simp
  show ?case
  proof (cases "\<exists>e. place_session x m = Inl (Panic e)")
    case False
    then obtain m' where m': "place_session x m = Inr m'" "mgr_ok m'" "mgSessions m' = mgSessions m" "mgS m' = mgS m"
      "hop_of m x < 5" using place_session_result [OF Cons.prems(1) x] by blast
    have "\<exists>r\<in>set rs. 5 \<le> hop_of m' r" using Cons.prems(3) m'(4,5) by (auto simp: hop_of_def)
    then show ?thesis using Cons.IH [OF m'(2)] Cons.prems(2) m'(1,3) by simp
  qed auto
qed simp

text \<open>C22: \<^verbatim>\<open>UpdateSessionCache\<close> panics as soon as the manager has a session outside the five hops of a circuit, as the
  return sessions every engine starts with are.\<close>

theorem UpdateSessionCache_return_session:
  assumes "mgr_ok m" and "r \<in> set (mgSessions m)" and "5 \<le> hop_of m r"
  shows "\<exists>e. UpdateSessionCache m = Inl (Panic e)"
proof -
  let ?m = "with_entries (mgNodes m) m"
  have "\<forall>r\<in>set (mgNodes m). mgN m r \<noteq> None" using mgr_okD(2) [OF assms(1)] by blast
  then have m1: "rfold add_cache_entry (mgNodes m) m = Inr ?m" by (rule add_cache_entries)
  then have "mgr_ok ?m" using assms(1) by (rule rfold_invariant) (blast intro: add_cache_entry_keeps_ok)
  moreover have "\<exists>r\<in>set (mgSessions m). 5 \<le> hop_of ?m r" using assms(2,3) by (auto simp: hop_of_def)
  ultimately show ?thesis using place_sessions_panic [of ?m "mgSessions m"] m1 by (simp add: UpdateSessionCache_def)
qed

theorem UpdateSessionCache_return_session_witness:
  "\<exists>e m. AddSession 2 (set_sess 2 (demo_sess 30 0 5) demo_mgr) = Inr m \<and> UpdateSessionCache m = Inl (Panic e)"
proof -
  let ?m = "set_sess 2 (demo_sess 30 0 5) demo_mgr"
  have "mgS demo_mgr 2 = None" by (simp add: demo_mgr_def)
  then have ok: "mgr_ok ?m"
    by (intro mgr_ok_shape [OF demo_mgr_ok same_shape_new_sess]) (use mgr_okD(2) [OF demo_mgr_ok] in simp_all)
  have s: "sess_ok ?m 2" "hop_of ?m 2 = 5" "mgSessions ?m = [0, Suc 0]" "header_of ?m 0 = kBytes (demo_keys 10)"
      "header_of ?m (Suc 0) = kBytes (demo_keys 20)" "header_of ?m 2 = kBytes (demo_keys 30)"
    by (simp_all add: sess_ok_def hop_of_def header_of_def demo_mgr_def demo_sess_def)
  have a: "AddSession 2 ?m = Inr (?m\<lparr>mgSessions := [0, Suc 0, 2]\<rparr>)"
    using AddSession_is [OF ok s(1)] s by (simp add: demo_keys_inj)
  have "mgr_ok (?m\<lparr>mgSessions := [0, Suc 0, 2]\<rparr>)" using AddSession_keeps_ok [OF ok s(1)] a by simp
  from UpdateSessionCache_return_session [OF this, of 2] show ?thesis using a s(2) by (auto simp: hop_of_def)
qed

section \<open>Selection\<close>

text \<open>C11: \<^verbatim>\<open>SelectUnusedCircuit\<close> returns within five passes over the circuit cache, whatever order the map is ranged
  over in, when for each of the five positions some peer has its slot free; the node it gives for a position is
  one of these.\<close>

theorem SelectUnusedCircuit_returns:
  assumes "mgr_ok m" and "mgNodes m \<noteq> []" and "ranges_cache m ord"
    and "\<forall>k<5. \<exists>r\<in>set (tl (mgNodes m)). free_at m k r" and "5 \<le> fuel"
  shows "\<exists>m' c. SelectUnusedCircuit ord fuel m = Some (Inr (m', c)) \<and> length c = 5 \<and>
    (\<forall>k<5. \<exists>r\<in>set (tl (mgNodes m)). c ! k = Some r \<and> free_at m k r)"
proof -
  let ?nl = "tl (mgNodes m)"
  let ?m = "with_entries ?nl m"
  have nl: "\<forall>r\<in>set ?nl. mgN m r \<noteq> None" using mgr_okD(2) [OF assms(1)] by (cases "mgNodes m") auto
  have "\<forall>k<5. \<exists>r\<in>set ?nl. free_at ?m k r" using assms(4) by (metis free_at_entries)
  then obtain c where c: "unused_loop ?m ?nl ord fuel (0, empty_circuit) = Some (Inr c)" "picks_ok ?m ?nl 5 c"
    using unused_loop_returns [OF ranges_cache_entries [OF assms(1,3)] _ picks_ok_start] assms(5) by auto
  show ?thesis using assms(2) add_cache_entries [OF nl] c(1) picks_ok_entries [OF c(2)]
    by (auto simp: SelectUnusedCircuit_def Let_def)
qed

lemma demo_free: "\<forall>k<5. \<exists>r\<in>set (tl (mgNodes demo_mgr)). free_at demo_mgr k r"
proof -
  have "free_at demo_mgr 0 2" "free_at demo_mgr 1 1" "free_at demo_mgr 2 1" "free_at demo_mgr 3 1" "free_at demo_mgr 4 1"
    by (simp_all add: free_at_def node_id_def demo_mgr_def demo_node_def)
  moreover have "set (tl (mgNodes demo_mgr)) = {1, 2}" by (simp add: demo_mgr_def)
  ultimately show ?thesis by (auto simp: less_Suc_eq numeral_eq_Suc)
qed

lemma demo_ranges: "ranges_cache demo_mgr (\<lambda>_. [[101], [102]])"
  by (auto simp: ranges_cache_def demo_mgr_def node_id_def demo_node_def split: if_splits)

theorem SelectUnusedCircuit_returns_witness:
  "\<exists>m' c. SelectUnusedCircuit (\<lambda>_. [[101], [102]]) 5 demo_mgr = Some (Inr (m', c)) \<and> length c = 5 \<and>
    (\<forall>k<5. \<exists>r\<in>set (tl (mgNodes demo_mgr)). c ! k = Some r \<and> free_at demo_mgr k r)"
proof (rule SelectUnusedCircuit_returns [OF demo_mgr_ok _ demo_ranges demo_free])
  show "mgNodes demo_mgr \<noteq> []" by (simp add: demo_mgr_def)
qed simp

text \<open>C12: \<^verbatim>\<open>SelectUnusedCircuit\<close> never returns when some position has no peer with a free slot, as with fewer peers than
  it needs: it ranges over the cache forever, with the mutex of the manager held.\<close>

theorem SelectUnusedCircuit_spins:
  assumes "mgr_ok m" and "mgNodes m \<noteq> []" and "ranges_cache m ord"
    and "k < 5" and "\<forall>r\<in>set (tl (mgNodes m)). \<not> free_at m k r"
  shows "SelectUnusedCircuit ord fuel m = None"
proof -
  let ?nl = "tl (mgNodes m)"
  let ?m = "with_entries ?nl m"
  have nl: "\<forall>r\<in>set ?nl. mgN m r \<noteq> None" using mgr_okD(2) [OF assms(1)] by (cases "mgNodes m") auto
  have "\<forall>r\<in>set ?nl. \<not> free_at ?m k r" using assms(4,5) by (metis free_at_entries)
  then have "unused_loop ?m ?nl ord fuel (0, empty_circuit) = None"
    using unused_loop_spins [OF ranges_cache_entries [OF assms(1,3)] assms(4) _ picks_ok_start] by simp
  then show ?thesis using assms(2) add_cache_entries [OF nl] by (simp add: SelectUnusedCircuit_def Let_def)
qed

theorem SelectUnusedCircuit_spins_witness:
  "SelectUnusedCircuit (\<lambda>_. []) 1000 (NewSessionManager 1 0 demo_mgr) = None"
  by (rule SelectUnusedCircuit_spins [where k = 0])
    (auto simp: NewSessionManager_def mgr_ok_def ranges_cache_def demo_mgr_def)



section \<open>Sending\<close>

lemma PickAddress_nil: "PickAddress addkey n p = Inr a \<Longrightarrow> a = None"
  by (auto simp: PickAddress_def rbind_eq_Inr)

lemma PickAddress_no_error: "no_error (PickAddress addkey n p)"
proof -
  have "no_error (with_key addkey n q bt code a)" for n q bt code a
    by (simp add: with_key_def no_error_rbind)
  then show ?thesis
    unfolding PickAddress_def gather_addresses_def by (intro no_error_rbind no_error_rfold no_error_Inr)
qed

text \<open>C27: \<^verbatim>\<open>SendWithOneHook\<close>, through which every client message leaves, never sends anything: \<^verbatim>\<open>PickAddress\<close>
  gathers addresses and returns none of them, and the nil address is dereferenced.\<close>

theorem SendWithOneHook_panics:
  "\<exists>e. SendWithOneHook addkey mstr yellow ds d now nilhook r hook m p = Inl (Panic e)"
proof -
  let ?s = "SendWithOneHook addkey mstr yellow ds d now nilhook r hook m p"
  have ln: "no_error (local_node m)"
    by (simp add: local_node_def GetLocalNode_def node_at_def no_error_rbind)
  have "no_error (GetLocalNodeAddressString yellow d m)"
    unfolding GetLocalNodeAddressString_def GetLocalNodeAddress_def
    by (intro no_error_rbind ln no_error_index no_error_Inr)
  then have "no_error ?s"
    unfolding SendWithOneHook_def Let_def by (intro no_error_rbind ln PickAddress_no_error) (auto dest!: PickAddress_nil simp: no_error_def nil_panic_def)
  moreover have "?s \<noteq> Inr y" for y
    by (auto simp: SendWithOneHook_def Let_def rbind_eq_Inr dest!: PickAddress_nil)
  ultimately show ?thesis using no_error_cases by blast
qed

end
