(* ===== verification/Engine_Props.thy ===== *)
theory Engine_Props
  imports Engine Hidden_Props Manager_Thms
begin

text \<open>
  What a message from the network can do to an engine. The locale \<open>message_frame\<close> has a relation on engines that contains the
  elementary updates the handlers make; then the relation holds between the engine before and after any
  message, whatever its bytes. It is interpreted with three relations: balances and sessions, hidden services, and
  pending responses.
\<close>

section \<open>Postconditions\<close>

definition ensures :: "('a \<Rightarrow> bool) \<Rightarrow> 'a res \<Rightarrow> bool" where
  "ensures P m \<longleftrightarrow> (\<forall>x. m = Inr x \<longrightarrow> P x)"

definition ensures_run :: "('a \<Rightarrow> bool) \<Rightarrow> 'a run \<Rightarrow> bool" where
  "ensures_run P m \<longleftrightarrow> (\<forall>x. m = Some (Inr x) \<longrightarrow> P x)"

named_theorems ensures_intros "rules for postconditions"

lemma ensures_basic [ensures_intros]:
  "P x \<Longrightarrow> ensures P (Inr x)"
  "ensures P (Inl e)"
  "ensures_run P None"
  "ensures P m \<Longrightarrow> ensures_run P (Some m)"
  by (simp_all add: ensures_def ensures_run_def)

lemma ensures_bind [ensures_intros]:
  "(\<And>x. m = Inr x \<Longrightarrow> ensures P (f x)) \<Longrightarrow> ensures P (rbind m f)"
  "(\<And>x. n = Some (Inr x) \<Longrightarrow> ensures_run P (g x)) \<Longrightarrow> ensures_run P (obind n g)"
  by (auto simp: ensures_def ensures_run_def elim!: rbind_InrE obind_InrE)

lemma ensures_if [ensures_intros]:
  "(c \<Longrightarrow> ensures P a) \<Longrightarrow> (\<not> c \<Longrightarrow> ensures P b) \<Longrightarrow> ensures P (if c then a else b)"
  "(c \<Longrightarrow> ensures_run P a') \<Longrightarrow> (\<not> c \<Longrightarrow> ensures_run P b') \<Longrightarrow> ensures_run P (if c then a' else b')"
  by simp_all

lemma ensures_option [ensures_intros]:
  "(v = None \<Longrightarrow> ensures P a) \<Longrightarrow> (\<And>x. v = Some x \<Longrightarrow> ensures P (f x)) \<Longrightarrow>
   ensures P (case v of None \<Rightarrow> a | Some x \<Rightarrow> f x)"
  "(v = None \<Longrightarrow> ensures_run P a') \<Longrightarrow> (\<And>x. v = Some x \<Longrightarrow> ensures_run P (f' x)) \<Longrightarrow>
   ensures_run P (case v of None \<Rightarrow> a' | Some x \<Rightarrow> f' x)"
  by (auto split: option.split)

lemma ensures_prod [ensures_intros]:
  "(\<And>x y. v = (x, y) \<Longrightarrow> ensures P (f x y)) \<Longrightarrow> ensures P (case v of (x, y) \<Rightarrow> f x y)"
  "(\<And>x y. v = (x, y) \<Longrightarrow> ensures_run P (f' x y)) \<Longrightarrow> ensures_run P (case v of (x, y) \<Rightarrow> f' x y)"
  by (auto split: prod.split)

lemma ensuresD: "ensures P m \<Longrightarrow> m = Inr x \<Longrightarrow> P x"
  by (simp add: ensures_def)

lemma ensures_runD: "ensures_run P m \<Longrightarrow> m = Some (Inr x) \<Longrightarrow> P x"
  by (simp add: ensures_run_def)

section \<open>Which messages are handled\<close>

text \<open>After decoding and unwrapping, a session message has no keys and a balance message is the zero value: those two
  come only out of a packed message, undecoded.\<close>

definition handled :: "onion \<Rightarrow> bool" where
  "handled x = (case x of OSession m _ \<Rightarrow> sHeader m = None | OBalance b \<Rightarrow> bMilliSatoshi b = 0 | _ \<Rightarrow> True)"

lemma zero_onion_handled: "zero_onion k = Some x \<Longrightarrow> handled x"
  by (cases k) (auto simp: zero_onion_def handled_def)

lemma decoded_handled:
  assumes "codec_Decode ev k s = Inr (x, s2)" and "codec_Unwrap reg x = Inr m"
  shows "handled m"
proof (cases x)
  case (MOnion y)
  have "y = ONil \<or> (case y of OForward _ i \<Rightarrow> i = ONil | OReverse _ i \<Rightarrow> i = ONil | OExit _ i \<Rightarrow> i = ONil
      | OSession _ i \<Rightarrow> i = ONil | OIntroQuery _ i \<Rightarrow> i = ONil | _ \<Rightarrow> True)"
    using assms(1) MOnion by (cases k) (auto simp: codec_Decode_def rmap_fst_def Let_def rbind_eq_Inr)
  then show ?thesis using assms(2) MOnion by (cases y) (auto simp: codec_Unwrap_def onion_Unwrap_def handled_def)
next
  case (MPacked b)
  then obtain u where "m = (case u of None \<Rightarrow> ONil | Some y \<Rightarrow> y)" "Unpack reg b = Inr u"
    using assms(2) by (auto simp: codec_Unwrap_def rbind_eq_Inr)
  then show ?thesis
    by (auto simp: Unpack_def rbind_eq_Inr handled_def bind_eq_Some_conv dest: zero_onion_handled split: option.splits)
qed (use assms(2) in \<open>auto simp: codec_Unwrap_def handled_def\<close>)

section \<open>The frame of a message\<close>

text \<open>The primitives are the same in every round.\<close>

definition env_crypto :: "crypto_ops \<Rightarrow> (nat \<Rightarrow> engine_env) \<Rightarrow> bool" where
  "env_crypto C env \<longleftrightarrow> (\<forall>n. evC (env n) = C)"

locale message_frame =
  fixes C :: crypto_ops
    and R :: "engine \<Rightarrow> engine \<Rightarrow> bool"
  assumes refl: "R e e"
    and trans: "R e e1 \<Longrightarrow> R e1 e2 \<Longrightarrow> R e e2"
    and dec: "DecSession k a (enMgr e) = Inr (m, b) \<Longrightarrow> R e (e\<lparr>enMgr := m\<rparr>)"
    and zero: "mgS (enMgr e) r = Some sd \<Longrightarrow> R e (e\<lparr>enMgr := set_sess r (sd\<lparr>sdRemaining := 0\<rparr>) (enMgr e)\<rparr>)"
    and add_intro: "AddIntro C (aKey (inIntro x)) x (enHidden e) = Inr h \<Longrightarrow> R e (e\<lparr>enHidden := h\<rparr>)"
    and deliver: "ProcessAndDelete run i (enPending e) = Inr (Some (hooks, cb, er), p) \<Longrightarrow>
      R e (e\<lparr>enPending := p, enCalls := enCalls e @ [(cb, i, payload)]\<rparr>)"
    and sent: "R e (e\<lparr>enSent := xs\<rparr>)" and locked: "R e (e\<lparr>enLocked := l\<rparr>)" and keyset: "R e (e\<lparr>enKeys := ks\<rparr>)"
begin

lemma charge_R: "charge k a e = Inr e' \<Longrightarrow> R e e'"
  by (auto simp: charge_def dec elim!: rbind_InrE)

lemma charge_both_R: "charge_both prev i out e = Inr e' \<Longrightarrow> R e e'"
  unfolding charge_both_def by (auto simp: refl charge_R elim!: rbind_InrE split: option.splits)

lemma run_acct_R: "run_acct a (enMgr e) = Inr m \<Longrightarrow> R e (e\<lparr>enMgr := m\<rparr>)"
  by (cases a) (auto simp: run_acct_def dec elim!: rbind_InrE)

lemma hooks_R: "rfold run_acct hooks (enMgr e) = Inr m \<Longrightarrow> R e (e\<lparr>enMgr := m\<rparr>)"
proof (induction hooks arbitrary: e)
  case (Cons a hooks)
  then obtain m1 where m1: "run_acct a (enMgr e) = Inr m1" "rfold run_acct hooks m1 = Inr m" by (auto elim: rbind_InrE)
  then show ?case using trans [OF run_acct_R [OF m1(1)], of "e\<lparr>enMgr := m\<rparr>"] Cons.IH [of "e\<lparr>enMgr := m1\<rparr>"] by simp
next
  case Nil
  then have "e\<lparr>enMgr := m\<rparr> = e" by simp
  then show ?case using refl [of e] by (simp only:)
qed

lemma finish_R: "finish_pending ev i payload e = Inr e' \<Longrightarrow> R e e'"
proof -
  assume "finish_pending ev i payload e = Inr e'"
  then obtain ran p where r: "ProcessAndDelete (evRun ev) i (enPending e) = Inr (ran, p)"
    "ran = None \<and> e' = e \<or> (\<exists>hooks cb er m. ran = Some (hooks, cb, er) \<and> rfold run_acct hooks (enMgr e) = Inr m \<and>
       e' = e\<lparr>enMgr := m, enPending := p, enCalls := enCalls e @ [(cb, i, payload)]\<rparr>)"
    by (auto simp: finish_pending_def elim!: rbind_InrE split: option.splits)
  then consider "e' = e" | hooks cb er m where "ran = Some (hooks, cb, er)" "rfold run_acct hooks (enMgr e) = Inr m"
      "e' = e\<lparr>enMgr := m, enPending := p, enCalls := enCalls e @ [(cb, i, payload)]\<rparr>" by blast
  then show ?thesis
  proof cases
    case 2
    have "R (e\<lparr>enMgr := m\<rparr>) e'"
      using deliver [of "evRun ev" i "e\<lparr>enMgr := m\<rparr>"] r(1) 2(1,3) by simp
    then show ?thesis using trans [OF hooks_R [OF 2(2)]] by simp
  qed (simp add: refl)
qed

lemma handle_next_R: "handle_next ev s prev e0 = Inr (e', nxt) \<Longrightarrow> e' = e0"
  by (auto simp: handle_next_def elim!: rbind_InrE)

lemma crypt_R: "ensures (\<lambda>(e', _). R e e') (crypt_Handle ev x inner s e)"
  unfolding crypt_Handle_def Let_def handle_next_def by (intro ensures_intros) (simp_all add: refl)

lemma forward_R: "ensures (\<lambda>(e', _). R e e') (forward_Handle ev a inner s prev e)"
proof -
  have "R e e1 \<Longrightarrow> R e (e1\<lparr>enSent := xs\<rparr>)" for e1 xs by (blast intro: trans sent)
  then show ?thesis
    unfolding forward_Handle_def handle_next_def
    by (intro ensures_intros) (auto simp: refl charge_R elim!: rbind_InrE split: option.splits)
qed

lemma reverse_R: "ensures (\<lambda>(e', _). R e e') (reverse_Handle ev a s prev e)"
  unfolding reverse_Handle_def reverse_local_def Let_def handle_next_def
  by (intro ensures_intros) (auto simp: refl charge_R sent)

lemma getbalance_R: "ensures (\<lambda>(e', _). R e e') (getbalance_Handle ev x inner s prev e)"
  unfolding getbalance_Handle_def by (intro ensures_intros) (auto simp: refl charge_both_R)

lemma introquery_R: "ensures (\<lambda>(e', _). R e e') (introquery_Handle ev x inner s prev e)"
  unfolding introquery_Handle_def by (intro ensures_intros) (auto simp: refl charge_both_R)

lemma hiddenservice_R: "evC ev = C \<Longrightarrow> ensures (\<lambda>(e', _). R e e') (hiddenservice_Handle ev x e)"
  unfolding hiddenservice_Handle_def
  using add_intro [of "\<lparr>inIntro = hIntro x, inReply = \<lparr>rhBytes = hHeader x, rhCiphers = hCiphers x, rhNonces = hNonces x\<rparr>\<rparr>" e]
  by (intro ensures_intros) simp

lemma finish_all_R:
  "ensures (\<lambda>(e', _). R e e') (confirmation_Handle ev i s e)"
  "ensures (\<lambda>(e', _). R e e') (ready_Handle ev y s e)"
  "ensures (\<lambda>(e', _). R e e') (message_Handle ev w s e)"
  unfolding confirmation_Handle_def ready_Handle_def message_Handle_def
  by (intro ensures_intros; simp add: finish_R)+

lemma lock_R: "lock_node r e = Some (Inr e') \<Longrightarrow> R e e'" "unlock_node r e = Some (Inr e') \<Longrightarrow> R e e'"
  by (auto simp: lock_node_def unlock_node_def locked split: if_splits)

lemma exit_charge_R: "exit_charge port h i out r svs e = Some (Inr e') \<Longrightarrow> R e e'"
proof (induction svs arbitrary: e)
  case (Cons sv svs)
  then show ?case
    by (auto split: if_splits elim!: obind_InrE rbind_InrE intro: trans [OF lock_R(2)] charge_R)
qed (simp add: refl)

lemma exit_R: "ensures_run (\<lambda>(e', _). R e e') (exit_Handle ev x inner s prev e)"
proof -
  have t: "lock_node r (e\<lparr>enSent := xs\<rparr>) = Some (Inr e1) \<Longrightarrow> exit_charge port h i out r svs e1 = Some (Inr e2) \<Longrightarrow> R e e2"
    for r xs e1 port h i out svs e2
    by (blast intro: trans sent lock_R exit_charge_R)
  show ?thesis
    unfolding exit_Handle_def Let_def
    by (cases prev; simp only: onion.case; intro ensures_intros; auto simp: sent intro: t)
qed

lemma session_R: "sHeader x = None \<Longrightarrow> ensures P (session_Handle ev x s e)"
  by (simp add: session_Handle_def PreimageHash_def ensures_def)

lemma response_charge_R: "response_charge x slen sz ik e = Some (Inr e') \<Longrightarrow> R e e'"
proof -
  have t: "obind (lock_node r e) (unlock_node r) = Some (Inr e1) \<Longrightarrow> R e e1" for r e1
    by (auto elim!: obind_InrE intro: trans lock_R)
  have "ensures_run (R e) (response_charge x slen sz ik e)"
    unfolding response_charge_def Let_def
    by (intro ensures_intros) (auto simp: refl ensures_def split: if_splits intro: charge_R trans [OF t])
  then show "response_charge x slen sz ik e = Some (Inr e') \<Longrightarrow> R e e'" by (rule ensures_runD)
qed

lemma ofold_R:
  assumes "\<And>x e e'. f x e = Some (Inr e') \<Longrightarrow> R e e'" and "ofold f xs e = Some (Inr e')"
  shows "R e e'"
  using assms(2)
proof (induction xs arbitrary: e)
  case (Cons x xs)
  then obtain e1 where "f x e = Some (Inr e1)" "ofold f xs e1 = Some (Inr e')" by (auto elim: obind_InrE)
  then show ?case using assms(1) Cons.IH trans by blast
qed (simp add: refl)

lemma rfold_R:
  assumes "\<And>x e e'. f x e = Inr e' \<Longrightarrow> R e e'" and "rfold f xs e = Inr e'"
  shows "R e e'"
  using assms(2)
proof (induction xs arbitrary: e)
  case (Cons x xs)
  then obtain e1 where "f x e = Inr e1" "rfold f xs e1 = Inr e'" by (auto elim: rbind_InrE)
  then show ?case using assms(1) Cons.IH trans by blast
qed (simp add: refl)

lemma response_R: "ensures_run (\<lambda>(e', _). R e e') (response_Handle ev x s e)"
  unfolding response_Handle_def
  by (intro ensures_intros) (auto simp: refl intro: trans [OF ofold_R [OF response_charge_R] finish_R])

lemma balance_charge_R: "balance_charge slen sz ik e = Inr e' \<Longrightarrow> R e e'"
  unfolding balance_charge_def Let_def
  by (auto elim!: rbind_InrE split: prod.splits if_splits intro: charge_R)

lemma balance_R:
  assumes "bMilliSatoshi x = 0"
  shows "ensures (\<lambda>(e', _). R e e') (balance_Handle ev x s e)"
proof -
  have z: "R e1 e2" if "(case f of None \<Rightarrow> Inr e1
      | Some r \<Rightarrow> rbind (sess_at (enMgr e1) r) (\<lambda>sd.
          Inr (e1\<lparr>enMgr := set_sess r (sd\<lparr>sdRemaining := bMilliSatoshi x\<rparr>) (enMgr e1)\<rparr>))) = Inr e2" for f e1 e2
    using that assms by (auto simp: refl zero sess_at_Inr elim!: rbind_InrE split: option.splits)
  show ?thesis
    unfolding balance_Handle_def
    by (intro ensures_intros) (auto simp: refl intro: trans [OF rfold_R [OF balance_charge_R] trans [OF z finish_R]])
qed

lemma route_R: "ensures_run (\<lambda>(e', _). R e e') (route_Handle ev x s e)"
proof -
  have "R e (e\<lparr>enKeys := k1, enKeys := k2\<rparr>)" for k1 k2 by (rule trans [OF keyset keyset])
  then show ?thesis
    unfolding route_Handle_def route_reply_def Let_def
    by (intro ensures_intros) (auto simp: refl)
qed

lemma onion_Handle_R:
  assumes "evC ev = C" and "handled x"
  shows "ensures_run (\<lambda>(e', _). R e e') (onion_Handle ev x s prev e)"
  using assms unfolding onion_Handle_def
  by (cases x)
    (auto simp: handled_def crypt_R forward_R reverse_R getbalance_R introquery_R hiddenservice_R finish_all_R exit_R
       session_R response_R balance_R route_R refl handle_next_def intro!: ensures_intros)

lemma handle_once_R:
  assumes "evC ev = C" and "handle_once ev s prev e = Some (Inr (e', nxt))"
  shows "R e e'"
proof -
  have once: "R e e'" if "codec_Decode ev k s1 = Inr (x, s2)" "codec_Unwrap (evReg ev) x = Inr m"
      "onion_Handle ev m s2 prev e = Some (Inr (e', nxt))" for k s1 x s2 m
    using ensures_runD [OF onion_Handle_R [OF assms(1) decoded_handled [OF that(1,2)]] that(3)] by simp
  show ?thesis
    using assms(2) unfolding handle_once_def
    by (auto simp: refl elim!: obind_InrE split: option.splits sum.splits go_error.splits if_splits) (blast intro: once)
qed

lemma HandleMessage_R:
  assumes "env_crypto C env" and "HandleMessage env fuel s prev e = Some (Inr e')"
  shows "R e e'"
  using assms(2)
proof (induction fuel arbitrary: s prev e)
  case (Suc fuel)
  then obtain e1 nxt where o: "handle_once (env fuel) s prev e = Some (Inr (e1, nxt))"
      "(case nxt of None \<Rightarrow> Some (Inr e1) | Some (s1, p1) \<Rightarrow> HandleMessage env fuel s1 p1 e1) = Some (Inr e')"
    by (auto elim!: obind_InrE)
  then show ?case
    using handle_once_R [OF assms(1) [unfolded env_crypto_def, rule_format] o(1)] Suc.IH by (auto split: option.splits intro: trans)
qed simp

end

end
