(* ===== verification/Engine_Thms.thy ===== *)
theory Engine_Thms
  imports Engine_Props "HOL-Library.Multiset"
begin

text \<open>
  The results on the engine: the three interpretations of the frame of a message, the invariant of the engine over every
  sequence of events, payments, and the fate of the messages that relay.
\<close>

section \<open>Balances and sessions\<close>

text \<open>The two managers differ in balances only, and no balance is higher.\<close>

definition billed :: "mgr \<Rightarrow> mgr \<Rightarrow> bool" where
  "billed m m' \<longleftrightarrow> mgN m' = mgN m \<and> mgNodes m' = mgNodes m \<and> mgPending m' = mgPending m \<and>
     mgSessions m' = mgSessions m \<and> mgCache m' = mgCache m \<and> mgProtocols m' = mgProtocols m \<and>
     (\<forall>r. mgS m r = None \<longrightarrow> mgS m' r = None) \<and>
     (\<forall>r s. mgS m r = Some s \<longrightarrow> (\<exists>b. mgS m' r = Some (s\<lparr>sdRemaining := b\<rparr>) \<and> b \<le> sdRemaining s))"

lemma billed_refl: "billed m m"
proof -
  have "s\<lparr>sdRemaining := sdRemaining s\<rparr> = s" for s :: session_data by simp
  then show ?thesis unfolding billed_def by (metis order_refl)
qed

lemma billedD: "billed m m' \<Longrightarrow> mgS m r = Some s \<Longrightarrow> \<exists>b. mgS m' r = Some (s\<lparr>sdRemaining := b\<rparr>) \<and> b \<le> sdRemaining s"
  by (simp add: billed_def)

lemma billed_trans:
  assumes "billed a b" and "billed b c"
  shows "billed a c"
proof -
  have "\<exists>x. mgS c r = Some (s\<lparr>sdRemaining := x\<rparr>) \<and> x \<le> sdRemaining s" if s: "mgS a r = Some s" for r s
  proof -
    obtain y where y: "mgS b r = Some (s\<lparr>sdRemaining := y\<rparr>)" "y \<le> sdRemaining s" using billedD [OF assms(1) s] by blast
    show ?thesis using billedD [OF assms(2) y(1)] y(2) by auto
  qed
  then show ?thesis using assms by (simp add: billed_def)
qed

lemma billed_set_sess:
  assumes "mgS m r = Some s" and "b \<le> sdRemaining s"
  shows "billed m (set_sess r (s\<lparr>sdRemaining := b\<rparr>) m)"
proof -
  have "\<exists>x. t = t\<lparr>sdRemaining := x\<rparr> \<and> x \<le> sdRemaining t" for t :: session_data
    by (rule exI [of _ "sdRemaining t"]) simp
  then show ?thesis using assms by (auto simp: billed_def set_sess_def)
qed

lemma DecSats_lowers:
  "DecSats nd x s = Inr (s', ok) \<Longrightarrow> \<exists>b. s' = s\<lparr>sdRemaining := b\<rparr> \<and> b \<le> sdRemaining s"
proof (cases "sdRemaining s < x")
  case True
  assume "DecSats nd x s = Inr (s', ok)"
  then show ?thesis using True by (intro exI [of _ "sdRemaining s"]) (simp add: DecSats_def)
next
  case False
  assume "DecSats nd x s = Inr (s', ok)"
  then have "s' = s\<lparr>sdRemaining := sdRemaining s - x\<rparr>" using False by (auto simp: DecSats_def rbind_eq_Inr)
  then show ?thesis using False by (auto simp: word_sub_le)
qed

lemma DecSession_billed: "DecSession k a m = Inr (m', ok) \<Longrightarrow> billed m m'"
proof -
  assume d: "DecSession k a m = Inr (m', ok)"
  then obtain f where f: "FindSessionByPubkey k m = Inr f" by (auto simp: DecSession_def rbind_eq_Inr)
  show ?thesis
  proof (cases f)
    case None
    then show ?thesis using d f by (simp add: DecSession_def billed_refl)
  next
    case (Some r)
    then obtain s nd q s' where o: "mgS m r = Some s" "DecSats nd q s = Inr (s', ok)" "m' = set_sess r s' m"
      using d f by (auto simp: DecSession_def rbind_eq_Inr sess_at_Inr)
    then show ?thesis using DecSats_lowers [OF o(2)] billed_set_sess by blast
  qed
qed

lemma billed_ok:
  assumes "mgr_ok m" and "billed m m'"
  shows "mgr_ok m'"
proof (rule mgr_ok_shape [OF assms(1)])
  have m': "mgN m' = mgN m" "mgSessions m' = mgSessions m" "mgCache m' = mgCache m" "mgNodes m' = mgNodes m"
    using assms(2) by (simp_all add: billed_def)
  show "mgSessions m' = mgSessions m" "mgCache m' = mgCache m" by (rule m')+
  show "\<forall>r\<in>set (mgNodes m'). mgN m' r \<noteq> None" using mgr_okD(2) [OF assms(1)] m' by simp
  have "\<exists>b. mgS m' r = Some (s\<lparr>sdRemaining := b\<rparr>)" if "mgS m r = Some s" for r s
    using billedD [OF assms(2) that] by blast
  then show "same_shape m m'"
    unfolding same_shape_def sess_ok_def header_of_def hop_of_def peer_of_def m'(1) by fastforce
qed

interpretation bill: message_frame C "\<lambda>e e'. billed (enMgr e) (enMgr e') \<and> enPaused e' = enPaused e \<and> enConfirmed e' = enConfirmed e"
  for C
  by unfold_locales
    (auto intro: billed_refl billed_trans dest: DecSession_billed billed_set_sess [where b = 0])

section \<open>Hidden services and pending responses\<close>

definition hosted :: "crypto_ops \<Rightarrow> hidden \<Rightarrow> hidden \<Rightarrow> bool" where
  "hosted C h h' \<longleftrightarrow> hdServices h' = hdServices h \<and> hdKnown h' = hdKnown h \<and>
     (\<forall>k i. hdMyIntros h k = Some i \<longrightarrow> hdMyIntros h' k = Some i) \<and> (hidden_ok C h \<longrightarrow> hidden_ok C h')"

lemma AddIntro_hosted: "AddIntro C (aKey (inIntro i)) i h = Inr h' \<Longrightarrow> hosted C h h'"
  by (auto simp: AddIntro_def hosted_def hidden_ok_def Let_def deref_def split: option.splits if_splits)

interpretation host: message_frame C "\<lambda>e e'. hosted C (enHidden e) (enHidden e')" for C
proof unfold_locales
  show "hosted C (enHidden e) (enHidden e)" for e by (simp add: hosted_def)
  show "hosted C (enHidden e) (enHidden e1) \<Longrightarrow> hosted C (enHidden e1) (enHidden e2) \<Longrightarrow> hosted C (enHidden e) (enHidden e2)" for e e1 e2
    by (simp add: hosted_def)
qed (simp_all add: AddIntro_hosted hosted_def [of C h h for h])

text \<open>Every callback that ran was that of a pending response, which is pending no longer.\<close>

definition waiting :: "(acct, nat) response list \<Rightarrow> (bytes \<times> nat option) multiset" where
  "waiting ps = mset (map (\<lambda>p. (rsID p, rsCallback p)) ps)"

definition delivered :: "(nat \<times> bytes \<times> bytes) list \<Rightarrow> (bytes \<times> nat option) multiset" where
  "delivered cs = mset (map (\<lambda>(cb, i, _). (i, Some cb)) cs)"

definition called :: "engine \<Rightarrow> engine \<Rightarrow> bool" where
  "called e e' \<longleftrightarrow> (\<exists>cs. enCalls e' = enCalls e @ cs \<and> waiting (enPending e) = delivered cs + waiting (enPending e'))"

lemma called_trans: "called e e1 \<Longrightarrow> called e1 e2 \<Longrightarrow> called e e2"
  unfolding called_def by (auto simp: delivered_def add.assoc)

lemma mset_del_at: "i < length xs \<Longrightarrow> mset xs = {# xs ! i #} + mset (del_at i xs)"
proof -
  assume "i < length xs"
  then have "mset xs = mset (take i xs @ xs ! i # drop (Suc i) xs)" by (metis id_take_nth_drop)
  then show ?thesis by (simp add: del_at_def)
qed

lemma ProcessAndDelete_waiting:
  assumes "ProcessAndDelete run i ps = Inr (Some (hooks, cb, er), p)"
  shows "waiting ps = {# (i, Some cb) #} + waiting p"
proof -
  obtain k where k: "find_index (\<lambda>x. rsID x = i) ps = Some k" "rsCallback (ps ! k) = Some cb"
      "p = (if k < 1 then drop 1 ps else del_at k ps)"
    using assms by (auto simp: ProcessAndDelete_def split: option.splits)
  then have "k < length ps" "rsID (ps ! k) = i" "p = del_at k ps"
    by (auto simp: find_index_Some del_at_def)
  then show ?thesis using mset_del_at [of k ps] k(2) by (simp add: waiting_def)
qed

interpretation call: message_frame C called for C
proof unfold_locales
  show "called e e" for e by (auto simp: called_def delivered_def)
  show "called e e1 \<Longrightarrow> called e1 e2 \<Longrightarrow> called e e2" for e e1 e2 by (rule called_trans)
  show "ProcessAndDelete run i (enPending e) = Inr (Some (hooks, cb, er), p) \<Longrightarrow>
      called e (e\<lparr>enPending := p, enCalls := enCalls e @ [(cb, i, payload)]\<rparr>)" for run i e hooks cb er p payload
    using ProcessAndDelete_waiting by (auto simp: called_def delivered_def)
qed (auto simp: called_def delivered_def)

section \<open>Messages\<close>

lemma message_handled:
  assumes "Handler env fuel (EvMessage b) e = Some (Inr e')"
  shows "e' = e \<or> HandleMessage env fuel (Load b 0) ONil e = Some (Inr e')"
  using assms by (auto simp: Handler_def split: if_splits)

lemma message_keeps:
  assumes "env_crypto C env" and "Handler env fuel (EvMessage b) e = Some (Inr e')"
  shows "billed (enMgr e) (enMgr e')" and "hosted C (enHidden e) (enHidden e')"
proof -
  show "billed (enMgr e) (enMgr e')"
    using message_handled [OF assms(2)] bill.HandleMessage_R [OF assms(1)] billed_refl by blast
  show "hosted C (enHidden e) (enHidden e')"
    using message_handled [OF assms(2)] host.HandleMessage_R [OF assms(1)] host.refl by blast
qed


text \<open>C20: A callback runs only for a response that was pending, and at most once: the responses pending before a message
  are, with their identifiers and callbacks, exactly those whose callbacks the message made run and those still
  pending after it.\<close>

theorem message_callbacks_once:
  assumes "env_crypto C env" and "Handler env fuel (EvMessage b) e = Some (Inr e')"
  shows "\<exists>cs. enCalls e' = enCalls e @ cs \<and> waiting (enPending e) = delivered cs + waiting (enPending e')"
  using message_handled [OF assms(2)] call.HandleMessage_R [OF assms(1)] call.refl unfolding called_def by blast

section \<open>Events\<close>

text \<open>A payment, seen from the manager: the first session with the preimage is credited, or the payment waits.\<close>

definition pays :: "payment \<Rightarrow> mgr \<Rightarrow> nat \<Rightarrow> bool" where
  "pays p m r \<longleftrightarrow> sdPreimage (the (mgS m r)) = pyPreimage p"

lemma top_up_is:
  assumes "\<forall>r \<in> set rs. sess_ok m r"
  shows "iterate (\<lambda>r st. rbind (sess_at m r) (\<lambda>s.
     if sdPreimage s = pyPreimage p then
       rbind (IncSats (pyAmount p) s) (\<lambda>s'. Inr (True, (set_sess r s' m, True)))
     else Inr (False, st))) rs (m, False) =
   (case find (pays p m) rs of
      None \<Rightarrow> Inr (m, False)
    | Some r \<Rightarrow> Inr (set_sess r ((the (mgS m r))\<lparr>sdRemaining := sdRemaining (the (mgS m r)) + pyAmount p\<rparr>) m, True))"
  using assms
proof (induction rs)
  case (Cons r rs)
  then obtain s h where "mgS m r = Some s" "sdHeader s = Some h" by (auto simp: sess_ok_def)
  then show ?case using Cons by (simp add: sess_at_def pays_def IncSats_def)
qed simp

lemma top_up_ok:
  assumes "mgr_ok m"
  shows "top_up p m = (case find (pays p m) (mgSessions m) of
      None \<Rightarrow> Inr (m, False)
    | Some r \<Rightarrow> Inr (set_sess r ((the (mgS m r))\<lparr>sdRemaining := sdRemaining (the (mgS m r)) + pyAmount p\<rparr>) m, True))"
  unfolding top_up_def IterateSessions_def using mgr_okD(1) [OF assms] by (intro top_up_is) simp

text \<open>C21: A payment is never lost. If a session has its preimage, the balance of the first such session rises by
  the amount (modulo the word size) and nothing else of the manager changes; otherwise the payment is appended to the
  pending ones. Either way the payer gets a confirmation. A paused engine drops it.\<close>

theorem payment_credited:
  assumes "mgr_ok (enMgr e)" and "mgNodes (enMgr e) \<noteq> []" and "\<not> enPaused e"
  shows "\<exists>e'. Handler env fuel (EvPayment p) e = Some (Inr e') \<and> enConfirmed e' = enConfirmed e @ [pyConfirmChan p] \<and>
    (case find (pays p (enMgr e)) (mgSessions (enMgr e)) of
       Some r \<Rightarrow> (\<exists>s. mgS (enMgr e) r = Some s \<and> sdPreimage s = pyPreimage p \<and>
         enMgr e' = set_sess r (s\<lparr>sdRemaining := sdRemaining s + pyAmount p\<rparr>) (enMgr e))
     | None \<Rightarrow> enMgr e' = (enMgr e)\<lparr>mgPending := mgPending (enMgr e) @ [p]\<rparr>)"
proof -
  let ?m = "enMgr e"
  have pend: "AddPendingPayment p ?m = Inr (?m\<lparr>mgPending := mgPending ?m @ [p]\<rparr>)"
    using assms(2) mgr_okD(2) [OF assms(1), of "hd (mgNodes ?m)"]
    by (cases "mgNodes ?m") (auto simp: AddPendingPayment_def local_node_def GetLocalNode_def index_expr_def node_at_def
        PendingPayments_Add_def)
  show ?thesis
  proof (cases "find (pays p ?m) (mgSessions ?m)")
    case None
    then show ?thesis using assms(3) pend by (simp add: Handler_def handle_payment_def top_up_ok [OF assms(1)])
  next
    case (Some r)
    then have "r \<in> set (mgSessions ?m)" "pays p ?m r" by (auto dest: find_Some_in_set)
    moreover from this(1) have "sess_ok ?m r" by (rule mgr_okD(1) [OF assms(1)])
    ultimately obtain s where "mgS ?m r = Some s" "sdPreimage s = pyPreimage p" by (auto simp: sess_ok_def pays_def)
    then show ?thesis using Some assms(3) by (simp add: Handler_def handle_payment_def top_up_ok [OF assms(1)])
  qed
qed

lemma handle_payment_ok: "mgr_ok (enMgr e) \<Longrightarrow> handle_payment p e = Inr e' \<Longrightarrow> mgr_ok (enMgr e') \<and> enHidden e' = enHidden e"
proof -
  assume ok: "mgr_ok (enMgr e)" and h: "handle_payment p e = Inr e'"
  then obtain m b m1 where o: "top_up p (enMgr e) = Inr (m, b)" "(if b then Inr m else AddPendingPayment p m) = Inr m1"
      "e' = e\<lparr>enMgr := m1, enConfirmed := enConfirmed e @ [pyConfirmChan p]\<rparr>"
    by (auto simp: handle_payment_def elim!: rbind_InrE)
  have "mgr_ok m"
  proof (cases "find (pays p (enMgr e)) (mgSessions (enMgr e))")
    case None
    then show ?thesis using o(1) ok by (simp add: top_up_ok)
  next
    case (Some r)
    then obtain s where "mgS (enMgr e) r = Some s"
      using mgr_okD(1) [OF ok] by (auto simp: sess_ok_def dest!: find_Some_in_set)
    then show ?thesis using Some o(1) ok balance_updates_ok [OF ok] by (auto simp: top_up_ok)
  qed
  then have "mgr_ok m1" using o(2) by (auto simp: AddPendingPayment_def pending_ok elim!: rbind_InrE split: if_splits)
  then show ?thesis using o(3) by simp
qed

text \<open>An engine over a manager that was built up by its operations, and any events.\<close>

inductive engine_reach :: "crypto_ops \<Rightarrow> engine \<Rightarrow> bool" for C where
  start: "mgr_reach (enMgr e) \<Longrightarrow> hidden_reach C (enHidden e) \<Longrightarrow> engine_reach C e"
| event: "engine_reach C e \<Longrightarrow> env_crypto C env \<Longrightarrow> Handler env fuel ev e = Some (Inr e') \<Longrightarrow> engine_reach C e'"

lemma mgr_reach_ok: "mgr_reach m \<Longrightarrow> mgr_ok m"
  by (induction rule: mgr_reach.induct) (simp_all add: NewSessionManager_ok mgr_step_ok)

lemma engine_reach_ok: "engine_reach C e \<Longrightarrow> mgr_ok (enMgr e) \<and> hidden_ok C (enHidden e)"
proof (induction rule: engine_reach.induct)
  case (start e)
  then show ?case by (simp add: mgr_reach_ok hidden_reach_ok)
next
  case (event e env fuel ev e')
  show ?case
  proof (cases ev)
    case (EvMessage b)
    then have "Handler env fuel (EvMessage b) e = Some (Inr e')" using event.hyps by simp
    then show ?thesis using message_keeps [OF event.hyps(2)] event.IH billed_ok by (auto simp: hosted_def)
  next
    case (EvPayment p)
    then show ?thesis using event.hyps event.IH handle_payment_ok by (auto simp: Handler_def split: if_splits)
  qed (use event.hyps event.IH in \<open>auto simp: Handler_def elim!: rbind_InrE\<close>)
qed


section \<open>An engine with two sessions and a pending request\<close>

definition demo_env :: engine_env where
  "demo_env = \<lparr>evC = demo_ops, evM = demo_maddr, evPort = 26969, evReg = registry_of all_kinds, evStr = (\<lambda>_. []),
     evYellow = (\<lambda>_. []), evAddKey = (\<lambda>_ _. None), evSendDraw = (\<lambda>_ _. 0), evHopDraw = (\<lambda>_ _ _. 0), evDraw = (\<lambda>_. 0),
     evRand = None, evNonces = [], evBlind = (\<lambda>_. []), evService = (\<lambda>_. None), evRun = (\<lambda>_. None), evNew = 7,
     evMine = (\<lambda>_. []), evServices = (\<lambda>_. []), evKnown = (\<lambda>_. []), evFuel = 9\<rparr>"

definition demo_request :: "(acct, nat) response" where
  "demo_request = \<lparr>rsID = replicate 8 1, rsSentSize = 4096, rsPort = 80, rsBillable = [kBytes (demo_keys 10), kBytes (demo_keys 20)],
     rsReturn = [], rsPostAcct = [AcctRelay 1 4096], rsSessions = [], rsCallback = Some 7, rsTime = GoTime 0 0\<rparr>"

definition demo_engine :: engine where
  "demo_engine = \<lparr>enMgr = demo_mgr, enHidden = NewHiddenRouting, enPending = [demo_request],
     enKeys = \<lparr>Base = demo_prv, Increment = demo_prv\<rparr>, enLoad = 0, enPaused = False, enLocked = [], enSent = [],
     enCalls = [], enConfirmed = []\<rparr>"

lemma demo_env_crypto: "env_crypto demo_ops (\<lambda>_. demo_env)"
  by (simp add: env_crypto_def demo_env_def)

theorem payment_credited_witness:
  "\<exists>e'. Handler (\<lambda>_. demo_env) 1 (EvPayment \<lparr>pyID = [9], pyPreimage = [20], pyAmount = 50, pyConfirmChan = 4\<rparr>) demo_engine =
     Some (Inr e') \<and> enConfirmed e' = [4] \<and> enMgr e' = set_sess 1 ((demo_sess 20 2 1)\<lparr>sdRemaining := 1050\<rparr>) demo_mgr"
proof -
  let ?p = "\<lparr>pyID = [9], pyPreimage = [20], pyAmount = 50, pyConfirmChan = 4\<rparr>"
  have "find (pays ?p demo_mgr) (mgSessions demo_mgr) = Some 1"
    by (simp add: pays_def demo_mgr_def demo_sess_def)
  then show ?thesis
    using payment_credited [of demo_engine "\<lambda>_. demo_env" 1 ?p] demo_mgr_ok
    by (simp add: demo_engine_def) (simp add: demo_mgr_def demo_sess_def)
qed


end
