(* ===== verification/Onion_Layers.thy ===== *)
theory Onion_Layers
  imports Onion_Props
begin

text \<open>
  The layers of an onion: what \<^verbatim>\<open>Encode\<close> leaves in the buffer for a nest of messages, and that the
  holder of the right private key, and of each key in turn along a route, peels exactly one layer.
  The predicate \<open>renders\<close> specifies an encoder that also changes bytes behind the cursor, as the
  cipher of a crypt layer does; \<open>onion_render\<close> is the specification of the nested encoder.
\<close>

section \<open>Encoders that rewrite the rest of the buffer\<close>

definition renders :: "(splice \<Rightarrow> splice res) \<Rightarrow> nat \<Rightarrow> (bytes \<Rightarrow> bytes) \<Rightarrow> bool" where
  "renders f n g \<longleftrightarrow> (\<forall>s pre R. splice_at s pre R \<and> n \<le> length R \<longrightarrow>
     length (g R) = length R \<and>
     (\<exists>s'. f s = Inr s' \<and> splice_at s' (pre @ take n (g R)) (drop n (g R)) \<and> (sE s = None \<longrightarrow> sE s' = None)))"

lemma rendersE:
  assumes "renders f n g" and "splice_at s pre R" and "n \<le> length R"
  obtains s' where "length (g R) = length R" and "f s = Inr s'"
    and "splice_at s' (pre @ take n (g R)) (drop n (g R))" and "sE s = None \<longrightarrow> sE s' = None"
  using assms unfolding renders_def by blast

lemma renders_End: "renders Inr 0 (\<lambda>R. R)"
  by (simp add: renders_def)

lemma renders_writes:
  assumes "writes f bs"
  shows "renders f (length bs) (\<lambda>R. bs @ drop (length bs) R)"
  using assms unfolding renders_def writes_def by (force split: if_splits)

lemma renders_then:
  assumes "writes f bs" and "renders h n g"
  shows "renders (\<lambda>s. rbind (f s) h) (length bs + n) (\<lambda>R. bs @ g (drop (length bs) R))"
  unfolding renders_def
proof (intro allI impI, elim conjE)
  fix s pre R assume at: "splice_at s pre R" and n: "length bs + n \<le> length R"
  then obtain s1 where s1: "f s = Inr s1" "splice_at s1 (pre @ bs) (drop (length bs) R)"
    "sE s = None \<longrightarrow> sE s1 = None"
    using assms(1) unfolding writes_def by force
  have "n \<le> length (drop (length bs) R)" using n by simp
  from assms(2) s1(2) this obtain s2 where "length (g (drop (length bs) R)) = length (drop (length bs) R)"
    "h s1 = Inr s2" "splice_at s2 ((pre @ bs) @ take n (g (drop (length bs) R))) (drop n (g (drop (length bs) R)))"
    "sE s1 = None \<longrightarrow> sE s2 = None"
    by (rule rendersE)
  then show "length (bs @ g (drop (length bs) R)) = length R \<and>
      (\<exists>s'. rbind (f s) h = Inr s' \<and>
        splice_at s' (pre @ take (length bs + n) (bs @ g (drop (length bs) R)))
          (drop (length bs + n) (bs @ g (drop (length bs) R))) \<and> (sE s = None \<longrightarrow> sE s' = None))"
    using s1 n by auto
qed

lemma encipher_range_mid:
  assumes "sb s = pre @ mid @ post"
  shows "encipher_range (Some e) iv (int (length pre)) (int (length pre) + int (length mid)) s
    = Inr (s\<lparr>sb := pre @ XORKeyStream e iv mid @ post\<rparr>)"
  using assms copy_range_mid [of "XORKeyStream e iv mid" mid pre post]
  by (simp add: encipher_range_def)

lemma encipher_from_mid:
  assumes "sb s = pre @ mid"
  shows "encipher_from (Some e) iv (int (length pre)) s = Inr (s\<lparr>sb := pre @ XORKeyStream e iv mid\<rparr>)"
  using encipher_range_mid [of s pre mid "[]" e iv] assms by (simp add: encipher_from_def Splice_Len_def)

section \<open>Specification of the nested encoder\<close>

definition crypt_header :: "crypto_ops \<Rightarrow> bytes \<Rightarrow> crypt \<Rightarrow> bytes" where
  "crypt_header C bl x = bytes_of_string ''cryp'' @ cIV x @ GetCloak C bl (the (cToHeaderPub x)) @
     Pub_ToBytes C (prv_pub C (the (cFrom x)))"

definition route_header :: "crypto_ops \<Rightarrow> bytes \<Rightarrow> route_msg \<Rightarrow> bytes" where
  "route_header C bl x = bytes_of_string ''rout'' @ GetCloak C bl (the (rHiddenService x)) @
     Pub_ToBytes C (prv_pub C (the (rSender x))) @ rIV x"

definition route_fields :: "route_msg \<Rightarrow> bytes" where
  "route_fields x = rID x @ concat (rCiphers x) @ concat (rNonces x)"

definition key_between :: "crypto_ops \<Rightarrow> prv \<Rightarrow> pub \<Rightarrow> bytes \<Rightarrow> bytes" where
  "key_between C k p = aes_block C (ComputeSharedSecret C k p)"

text \<open>The header of a crypt covers all that follows it at depth zero, and the next \<open>depth - 1\<close>
  segments of a reply header otherwise; the payload key covers the rest.\<close>

definition crypt_cover :: "crypt \<Rightarrow> bytes \<Rightarrow> nat" where
  "crypt_cover x X = (if cDepth x = 0 then length X else nat ((cDepth x - 1) * int ReverseCryptLen))"

definition crypt_layer :: "crypto_ops \<Rightarrow> crypt \<Rightarrow> bytes \<Rightarrow> bytes" where
  "crypt_layer C x X =
     (let m = crypt_cover x X; from = the (cFrom x) in
      XORKeyStream (key_between C from (the (cToHeaderPub x))) (cIV x) (take m X) @
      XORKeyStream (key_between C from (the (cToPayloadPub x))) (cIV x) (drop m X))"

fun onion_used :: "onion \<Rightarrow> nat" where
  "onion_used (OCrypt x o1) = 61 + onion_used o1"
| "onion_used (OForward a o1) = 25 + onion_used o1"
| "onion_used (OReverse None o1) = 23 + onion_used o1"
| "onion_used (OReverse (Some a) o1) = 25 + onion_used o1"
| "onion_used (ODelay d o1) = 12 + onion_used o1"
| "onion_used (OGetBalance x o1) = 156 + onion_used o1"
| "onion_used (OExit x o1) = 162 + length (xBytes x) + onion_used o1"
| "onion_used (OSession x o1) = 76 + onion_used o1"
| "onion_used (OIntroQuery x o1) = 189 + onion_used o1"
| "onion_used (ORoute x o1) = 213 + onion_used o1"
| "onion_used (OHiddenService x o1) = 304 + onion_used o1"
| "onion_used (OBalance x) = 20"
| "onion_used (OConfirmation i) = 12"
| "onion_used (OResponse x) = 19 + length (pBytes x)"
| "onion_used o1 = 0"

fun onion_render :: "crypto_ops \<Rightarrow> maddr_ops \<Rightarrow> u16 \<Rightarrow> (nat \<Rightarrow> bytes) \<Rightarrow> nat \<Rightarrow> onion \<Rightarrow> bytes \<Rightarrow> bytes" where
  "onion_render C M dp bl k (OCrypt x o1) R =
     crypt_header C (bl k) x @ crypt_layer C x (onion_render C M dp bl (Suc k) o1 (drop 61 R))"
| "onion_render C M dp bl k (OForward a o1) R =
     bytes_of_string ''forw'' @ maddr_image M dp (the a) @ onion_render C M dp bl (Suc k) o1 (drop 25 R)"
| "onion_render C M dp bl k (OReverse None o1) R = take 23 R @ onion_render C M dp bl (Suc k) o1 (drop 23 R)"
| "onion_render C M dp bl k (OReverse (Some a) o1) R =
     bytes_of_string ''rvrs'' @ maddr_image M dp a @ onion_render C M dp bl (Suc k) o1 (drop 25 R)"
| "onion_render C M dp bl k (ODelay d o1) R =
     bytes_of_string ''dely'' @ le_bytes 8 d @ onion_render C M dp bl (Suc k) o1 (drop 12 R)"
| "onion_render C M dp bl k (OGetBalance x o1) R =
     bytes_of_string ''getb'' @ getbalance_body x @ onion_render C M dp bl (Suc k) o1 (drop 156 R)"
| "onion_render C M dp bl k (OExit x o1) R =
     bytes_of_string ''exit'' @ exit_body x @ onion_render C M dp bl (Suc k) o1 (drop (162 + length (xBytes x)) R)"
| "onion_render C M dp bl k (OSession x o1) R =
     bytes_of_string ''sess'' @ session_body C x @ onion_render C M dp bl (Suc k) o1 (drop 76 R)"
| "onion_render C M dp bl k (OIntroQuery x o1) R =
     bytes_of_string ''intq'' @ introquery_body C x @ onion_render C M dp bl (Suc k) o1 (drop 189 R)"
| "onion_render C M dp bl k (ORoute x o1) R =
     route_header C (bl k) x @ XORKeyStream (key_between C (the (rSender x)) (the (rHiddenService x))) (rIV x)
       (route_fields x @ onion_render C M dp bl (Suc k) o1 (drop 213 R))"
| "onion_render C M dp bl k (OHiddenService x o1) R =
     bytes_of_string ''hids'' @ bytes_of_string ''inad'' @ intro_body C (hIntro x) @ concat (hCiphers x) @
     concat (hNonces x) @ onion_render C M dp bl (Suc k) o1 (drop 304 R)"
| "onion_render C M dp bl k (OBalance x) R = bytes_of_string ''bala'' @ balance_body x @ drop 20 R"
| "onion_render C M dp bl k (OConfirmation i) R = bytes_of_string ''conf'' @ i @ drop 12 R"
| "onion_render C M dp bl k (OResponse x) R =
     bytes_of_string ''resp'' @ response_body x @ drop (19 + length (pBytes x)) R"
| "onion_render C M dp bl k o1 R = R"

text \<open>Messages the specification covers: every key, hash and address is there and has its size.\<close>

definition crypt_ok :: "crypt \<Rightarrow> nat \<Rightarrow> bool" where
  "crypt_ok x n \<longleftrightarrow> cFrom x \<noteq> None \<and> cToHeaderPub x \<noteq> None \<and> length (cIV x) = 16 \<and> 0 \<le> cDepth x \<and>
     (0 < cDepth x \<longrightarrow> cToPayloadPub x \<noteq> None \<and> (cDepth x - 1) * int ReverseCryptLen \<le> int n)"

definition route_ok :: "route_msg \<Rightarrow> bool" where
  "route_ok x \<longleftrightarrow> rSender x \<noteq> None \<and> rHiddenService x \<noteq> None \<and> length (rIV x) = 16 \<and> length (rID x) = 8 \<and>
     hashes_ok (rCiphers x) \<and> ivs_ok (rNonces x)"

fun onion_ok :: "crypto_ops \<Rightarrow> maddr_ops \<Rightarrow> u16 \<Rightarrow> onion \<Rightarrow> bool" where
  "onion_ok C M dp OEnd = True"
| "onion_ok C M dp (OCrypt x o1) = (crypt_ok x (onion_used o1) \<and> onion_ok C M dp o1)"
| "onion_ok C M dp (OForward a o1) = (a \<noteq> None \<and> fits_maddr M dp (the a) \<and> onion_ok C M dp o1)"
| "onion_ok C M dp (OReverse a o1) = ((a \<noteq> None \<longrightarrow> fits_maddr M dp (the a)) \<and> onion_ok C M dp o1)"
| "onion_ok C M dp (ODelay d o1) = onion_ok C M dp o1"
| "onion_ok C M dp (OGetBalance x o1) = (getbalance_ok x \<and> onion_ok C M dp o1)"
| "onion_ok C M dp (OExit x o1) = (exit_ok x \<and> onion_ok C M dp o1)"
| "onion_ok C M dp (OSession x o1) = (session_ok C x \<and> onion_ok C M dp o1)"
| "onion_ok C M dp (OIntroQuery x o1) = (introquery_ok C x \<and> onion_ok C M dp o1)"
| "onion_ok C M dp (ORoute x o1) = (route_ok x \<and> onion_ok C M dp o1)"
| "onion_ok C M dp (OHiddenService x o1) = (intro_ok C (hIntro x) \<and> hashes_ok (hCiphers x) \<and> ivs_ok (hNonces x) \<and>
     onion_ok C M dp o1)"
| "onion_ok C M dp (OBalance x) = (length (bID x) = 8)"
| "onion_ok C M dp (OConfirmation i) = (length i = 8)"
| "onion_ok C M dp (OResponse x) = response_ok x"
| "onion_ok C M dp o1 = False"

lemma length_crypt_header [simp]: "length (cIV x) = 16 \<Longrightarrow> length (crypt_header C bl x) = 61"
  by (simp add: crypt_header_def)

lemma length_route_header [simp]: "length (rIV x) = 16 \<Longrightarrow> length (route_header C bl x) = 61"
  by (simp add: route_header_def)

lemma length_crypt_layer [simp]: "length (crypt_layer C x X) = length X"
  by (simp add: crypt_layer_def Let_def)

lemma onion_ok_not_nil: "onion_ok C M dp o1 \<Longrightarrow> o1 \<noteq> ONil"
  by auto

section \<open>The encoder meets its specification\<close>

lemma crypt_header_writes:
  assumes "crypt_ok x n" and "cFrom x = Some frm" and "cToHeaderPub x = Some to"
  shows "writes (chain [wMagic ''cryp'', wIV (cIV x), wCloak C bl (Some to), wPubkey C (DerivePub C (Some frm))])
    (crypt_header C bl x)"
proof -
  have "writes (wCloak C bl (Some to)) (GetCloak C bl to)"
    unfolding wCloak_def [abs_def] option.case by (intro writes_rmark writes_put_field) simp
  moreover have "writes (wPubkey C (DerivePub C (Some frm))) (Pub_ToBytes C (prv_pub C frm))"
    using writes_Some_Pubkey [of "DerivePub C (Some frm)" "prv_pub C frm" C] by (simp add: DerivePub_def)
  ultimately show ?thesis
    using assms unfolding crypt_header_def
    by (intro writes_chain_Cons writes_chain_single writes_fixed) (auto simp: crypt_ok_def)
qed

lemma crypt_renders:
  assumes ok: "crypt_ok x n" and inner: "renders h n g"
    and enc: "\<And>s. enc s = rbind (chain [wMagic ''cryp'', wIV (cIV x), wCloak C bl (cToHeaderPub x),
                        wPubkey C (DerivePub C (cFrom x))] s) (\<lambda>s1.
          rbind (crypt_end x (GetCursor s1) s1) (\<lambda>en. rbind (h s1) (\<lambda>s2.
          rbind (encipher_range (Some (key_between C (the (cFrom x)) (the (cToHeaderPub x)))) (cIV x) (GetCursor s1) en s2) (\<lambda>s3.
          if en \<noteq> Splice_Len s3 then
            (case cToPayloadPub x of
               None \<Rightarrow> Inl nil_panic
             | Some pld \<Rightarrow> encipher_from (Some (key_between C (the (cFrom x)) pld)) (cIV x) en s3)
          else Inr s3))))"
  shows "renders enc (61 + n) (\<lambda>R. crypt_header C bl x @ crypt_layer C x (g (drop 61 R)))"
  unfolding renders_def
proof (intro allI impI, elim conjE)
  fix s pre R assume at: "splice_at s pre R" and n: "61 + n \<le> length R"
  obtain frm to where ft: "cFrom x = Some frm" "cToHeaderPub x = Some to"
    using ok by (auto simp: crypt_ok_def)
  let ?H = "crypt_header C bl x" and ?X = "g (drop 61 R)"
  have lH: "length ?H = 61" using ok by (simp add: crypt_ok_def)
  obtain s1 where s1: "chain [wMagic ''cryp'', wIV (cIV x), wCloak C bl (cToHeaderPub x),
      wPubkey C (DerivePub C (cFrom x))] s = Inr s1" "splice_at s1 (pre @ ?H) (drop 61 R)" "sE s = None \<longrightarrow> sE s1 = None"
    using crypt_header_writes [OF ok ft, of C bl] at n lH unfolding writes_def ft by force
  have "n \<le> length (drop 61 R)" using n by simp
  with inner s1(2) obtain s2 where s2: "length ?X = length (drop 61 R)" "h s1 = Inr s2"
    "splice_at s2 ((pre @ ?H) @ take n ?X) (drop n ?X)" "sE s1 = None \<longrightarrow> sE s2 = None"
    by (rule rendersE)
  define m where "m = crypt_cover x ?X"
  have m: "m \<le> length ?X"
    using ok n s2(1) by (auto simp: m_def crypt_cover_def crypt_ok_def)
  have b2: "sb s2 = (pre @ ?H) @ take m ?X @ drop m ?X" and c2: "sc s2 = int (length (pre @ ?H)) + int (length (take n ?X))"
    using s2(3) by (simp_all add: splice_at_def)
  have start: "GetCursor s1 = int (length (pre @ ?H))" using s1(2) by (simp add: splice_at_def GetCursor_def)
  have en: "crypt_end x (GetCursor s1) s1 = Inr (int (length (pre @ ?H)) + int (length (take m ?X)))"
  proof -
    have "Splice_Len s1 = int (length (pre @ ?H)) + int (length ?X)"
      using s1(2) s2(1) by (simp add: splice_at_def Splice_Len_def)
    then show ?thesis
      using ok m start by (auto simp: crypt_end_def m_def crypt_cover_def crypt_ok_def min_def)
  qed
  let ?e = "key_between C frm to"
  let ?s3 = "s2\<lparr>sb := (pre @ ?H) @ XORKeyStream ?e (cIV x) (take m ?X) @ drop m ?X\<rparr>"
  have e3: "encipher_range (Some ?e) (cIV x) (int (length (pre @ ?H)))
      (int (length (pre @ ?H)) + int (length (take m ?X))) s2 = Inr ?s3"
    by (rule encipher_range_mid) (rule b2)
  let ?s4 = "s2\<lparr>sb := pre @ ?H @ crypt_layer C x ?X\<rparr>"
  have "enc s = Inr ?s4"
  proof (cases "drop m ?X = []")
    case True
    then have "crypt_layer C x ?X = XORKeyStream ?e (cIV x) (take m ?X)"
      by (simp add: crypt_layer_def Let_def m_def [symmetric] ft XORKeyStream_def)
    moreover have "Splice_Len ?s3 = int (length (pre @ ?H)) + int (length (take m ?X))"
      using True by (simp add: Splice_Len_def)
    ultimately show ?thesis
      using s1(1) s2(2) en e3 start True by (simp add: enc ft)
  next
    case False
    then obtain pld where pld: "cToPayloadPub x = Some pld"
      using ok by (auto simp: m_def crypt_cover_def crypt_ok_def split: if_splits)
    have ne: "int (length (pre @ ?H)) + int (length (take m ?X)) \<noteq> Splice_Len ?s3"
      using False by (simp add: Splice_Len_def)
    have "encipher_from (Some (key_between C frm pld)) (cIV x)
        (int (length ((pre @ ?H) @ XORKeyStream ?e (cIV x) (take m ?X)))) ?s3
        = Inr (?s3\<lparr>sb := ((pre @ ?H) @ XORKeyStream ?e (cIV x) (take m ?X)) @
            XORKeyStream (key_between C frm pld) (cIV x) (drop m ?X)\<rparr>)"
      by (rule encipher_from_mid) simp
    then show ?thesis
      using s1(1) s2(2) en e3 start ne pld
      by (simp add: enc ft crypt_layer_def Let_def m_def [symmetric] add.assoc)
  qed
  moreover have "splice_at ?s4 (pre @ take (61 + n) (?H @ crypt_layer C x ?X)) (drop (61 + n) (?H @ crypt_layer C x ?X))"
    using c2 lH n s2(1) by (simp add: splice_at_def)
  ultimately show "length (?H @ crypt_layer C x ?X) = length R \<and>
      (\<exists>s'. enc s = Inr s' \<and> splice_at s' (pre @ take (61 + n) (?H @ crypt_layer C x ?X))
        (drop (61 + n) (?H @ crypt_layer C x ?X)) \<and> (sE s = None \<longrightarrow> sE s' = None))"
    using s1(3) s2(1,4) lH n by auto
qed

lemma route_renders:
  assumes ok: "route_ok x" and inner: "renders h n g"
    and enc: "\<And>s. enc s = rbind (chain [wMagic ''rout'', wCloak C bl (rHiddenService x),
                   wPubkey C (DerivePub C (rSender x)), wIV (rIV x)] s) (\<lambda>s1.
     rbind (chain [wID (rID x), wCiphers (rCiphers x), wNonces (rNonces x)] s1) (\<lambda>s2.
     rbind (h s2) (\<lambda>s3.
       encipher_from (Some (key_between C (the (rSender x)) (the (rHiddenService x)))) (rIV x) (GetCursor s1) s3)))"
  shows "renders enc (213 + n) (\<lambda>R. route_header C bl x @
    XORKeyStream (key_between C (the (rSender x)) (the (rHiddenService x))) (rIV x) (route_fields x @ g (drop 213 R)))"
  unfolding renders_def
proof (intro allI impI, elim conjE)
  fix s pre R assume at: "splice_at s pre R" and n: "213 + n \<le> length R"
  obtain sk hs where ft: "rSender x = Some sk" "rHiddenService x = Some hs"
    using ok by (auto simp: route_ok_def)
  let ?H = "route_header C bl x" and ?F = "route_fields x" and ?X = "g (drop 213 R)"
  let ?e = "key_between C sk hs"
  have lH: "length ?H = 61" and lF: "length ?F = 152"
    using ok by (simp_all add: route_ok_def route_fields_def length_concat_three)
  have "writes (wCloak C bl (Some hs)) (GetCloak C bl hs)"
    unfolding wCloak_def [abs_def] option.case by (intro writes_rmark writes_put_field) simp
  moreover have "writes (wPubkey C (DerivePub C (Some sk))) (Pub_ToBytes C (prv_pub C sk))"
    using writes_Some_Pubkey [of "DerivePub C (Some sk)" "prv_pub C sk" C] by (simp add: DerivePub_def)
  ultimately have "writes (chain [wMagic ''rout'', wCloak C bl (rHiddenService x),
                   wPubkey C (DerivePub C (rSender x)), wIV (rIV x)]) ?H"
    unfolding route_header_def ft option.sel using ok
    by (intro writes_chain_Cons writes_chain_single writes_fixed) (auto simp: route_ok_def)
  then obtain s1 where s1: "chain [wMagic ''rout'', wCloak C bl (rHiddenService x),
                   wPubkey C (DerivePub C (rSender x)), wIV (rIV x)] s = Inr s1"
    "splice_at s1 (pre @ ?H) (drop 61 R)" "sE s = None \<longrightarrow> sE s1 = None"
    using at n lH unfolding writes_def by force
  have "writes (chain [wID (rID x), wCiphers (rCiphers x), wNonces (rNonces x)]) ?F"
    unfolding route_fields_def using ok
    by (intro writes_chain_Cons writes_chain_single writes_fixed writes_three) (auto simp: route_ok_def)
  from renders_then [OF this inner] have r: "renders (\<lambda>s. rbind (chain [wID (rID x), wCiphers (rCiphers x),
      wNonces (rNonces x)] s) h) (152 + n) (\<lambda>R. ?F @ g (drop 152 R))" unfolding lF .
  have "152 + n \<le> length (drop 61 R)" using n by simp
  moreover define Y where "Y = ?F @ g (drop 152 (drop 61 R))"
  ultimately obtain s3 where s3: "length Y = length (drop 61 R)"
    "rbind (chain [wID (rID x), wCiphers (rCiphers x), wNonces (rNonces x)] s1) h = Inr s3"
    "splice_at s3 ((pre @ ?H) @ take (152 + n) Y) (drop (152 + n) Y)" "sE s1 = None \<longrightarrow> sE s3 = None"
    using r s1(2) unfolding Y_def by (blast elim: rendersE)
  have Y: "Y = ?F @ ?X" by (simp add: Y_def)
  have b3: "sb s3 = (pre @ ?H) @ ?F @ ?X" using s3(3) by (simp add: splice_at_def flip: Y)
  have c3: "sc s3 = int (length pre) + 213 + int n"
    using s3(1,3) lH n by (simp add: splice_at_def)
  let ?s4 = "s3\<lparr>sb := (pre @ ?H) @ XORKeyStream ?e (rIV x) (?F @ ?X)\<rparr>"
  have "enc s = Inr ?s4"
    using s1(1,2) s3(2) encipher_from_mid [OF b3, of ?e "rIV x"]
    by (simp add: enc ft rbind_assoc [symmetric] splice_at_def GetCursor_def)
  moreover have "splice_at ?s4 (pre @ take (213 + n) (?H @ XORKeyStream ?e (rIV x) (?F @ ?X)))
      (drop (213 + n) (?H @ XORKeyStream ?e (rIV x) (?F @ ?X)))"
    using c3 lH lF n s3(1) Y by (simp add: splice_at_def)
  ultimately show "length (?H @ XORKeyStream (key_between C (the (rSender x)) (the (rHiddenService x))) (rIV x) (?F @ ?X)) = length R \<and>
      (\<exists>s'. enc s = Inr s' \<and> splice_at s' (pre @ take (213 + n) (?H @ XORKeyStream (key_between C (the (rSender x)) (the (rHiddenService x))) (rIV x) (?F @ ?X)))
        (drop (213 + n) (?H @ XORKeyStream (key_between C (the (rSender x)) (the (rHiddenService x))) (rIV x) (?F @ ?X))) \<and>
        (sE s = None \<longrightarrow> sE s' = None))"
    using s1(3) s3(1,4) lH n Y by (auto simp: ft)
qed

lemma renders_layer:
  assumes "renders h n g" and "writes f bs" and "length bs = m" and "\<And>s. enc s = rbind (f s) h"
  shows "renders enc (m + n) (\<lambda>R. bs @ g (drop m R))"
proof -
  have "enc = (\<lambda>s. rbind (f s) h)" using assms(4) by (rule ext)
  then show ?thesis using renders_then [OF assms(2,1)] assms(3) by simp
qed

lemma renders_core:
  assumes "writes f bs" and "length bs = m" and "\<And>s. enc s = f s"
  shows "renders enc m (\<lambda>R. bs @ drop m R)"
proof -
  have "enc = f" using assms(3) by (rule ext)
  then show ?thesis using renders_writes [OF assms(1)] assms(2) by simp
qed

text \<open>A reverse without an address only moves the cursor.\<close>

lemma renders_skip:
  assumes "renders h n g" and "int m = l"
  shows "renders (\<lambda>s. h (Advance l nm s)) (m + n) (\<lambda>R. take m R @ g (drop m R))"
  unfolding renders_def
proof (intro allI impI, elim conjE)
  fix s pre R assume at: "splice_at s pre R" and n: "m + n \<le> length R"
  have "splice_at (Advance l nm s) (pre @ take m R) (drop m R)" "sE (Advance l nm s) = sE s"
    using at n assms(2) by (auto simp: Advance_def splice_at_def)
  moreover have "n \<le> length (drop m R)" using n by simp
  ultimately obtain s' where "length (g (drop m R)) = length (drop m R)" "h (Advance l nm s) = Inr s'"
    "splice_at s' ((pre @ take m R) @ take n (g (drop m R))) (drop n (g (drop m R)))" "sE s = None \<longrightarrow> sE s' = None"
    using rendersE [OF assms(1)] by metis
  then show "length (take m R @ g (drop m R)) = length R \<and> (\<exists>s'. h (Advance l nm s) = Inr s' \<and>
      splice_at s' (pre @ take (m + n) (take m R @ g (drop m R))) (drop (m + n) (take m R @ g (drop m R))) \<and> (sE s = None \<longrightarrow> sE s' = None))"
    using n by auto
qed

lemma chain_forward: "fits_maddr M dp a \<Longrightarrow> writes (chain [wMagic ''forw'', wMultiaddr M a dp]) (bytes_of_string ''forw'' @ maddr_image M dp a)"
  and chain_reverse: "fits_maddr M dp a \<Longrightarrow> writes (chain [wMagic ''rvrs'', wMultiaddr M a dp]) (bytes_of_string ''rvrs'' @ maddr_image M dp a)"
  and chain_delay: "writes (chain [wMagic ''dely'', wUint64 d]) (bytes_of_string ''dely'' @ le_bytes 8 d)"
  by (auto intro!: writes_intros)

lemma hidden_fields_writes:
  assumes "intro_ok C i" and "hashes_ok cs" and "ivs_ok ns"
  shows "writes (\<lambda>s. rbind (wMagic ''hids'' s) (\<lambda>s1. rbind (intro_Encode C i s1) (\<lambda>s2. chain [wCiphers cs, wNonces ns] s2)))
    (bytes_of_string ''hids'' @ (bytes_of_string ''inad'' @ intro_body C i) @ concat cs @ concat ns)"
  using assms by (intro writes_chain writes_intros intro_encode_writes) simp_all

theorem onion_Encode_renders:
  "onion_ok C M dp o1 \<Longrightarrow>
   renders (onion_Encode C M dp bl k o1) (onion_used o1) (onion_render C M dp bl k o1)"
proof (induction o1 arbitrary: k)
  case OEnd
  then show ?case using renders_End by (simp add: encode_End)
next
  case (OCrypt x o1)
  obtain frm to where ft: "cFrom x = Some frm" "cToHeaderPub x = Some to"
    using OCrypt.prems by (auto simp: crypt_ok_def)
  have ne: "o1 \<noteq> ONil" using OCrypt.prems by auto
  from OCrypt.prems have ok: "crypt_ok x (onion_used o1)" "onion_ok C M dp o1" by auto
  have "renders (onion_Encode C M dp bl k (OCrypt x o1)) (61 + onion_used o1)
      (\<lambda>R. crypt_header C (bl k) x @ crypt_layer C x (onion_render C M dp bl (Suc k) o1 (drop 61 R)))"
    by (rule crypt_renders [OF ok(1) OCrypt.IH [OF ok(2)]])
       (use ft ne in \<open>simp add: GetBlock_def key_between_def Let_def cong: if_cong option.case_cong\<close>)
  then show ?case by (simp del: onion_Encode.simps)
next
  case (OForward a o1)
  then obtain ma where a: "a = Some ma" "fits_maddr M dp ma" by auto
  have "renders (onion_Encode C M dp bl k (OForward a o1)) (25 + onion_used o1)
      (\<lambda>R. (bytes_of_string ''forw'' @ maddr_image M dp ma) @ onion_render C M dp bl (Suc k) o1 (drop 25 R))"
    using OForward a by (intro renders_layer [OF OForward.IH chain_forward]) (simp_all add: len_simps)
  then show ?case by (simp add: a del: onion_Encode.simps)
next
  case (OReverse a o1)
  have ne: "o1 \<noteq> ONil" using OReverse.prems by auto
  show ?case
  proof (cases a)
    case None
    have "renders (\<lambda>s. onion_Encode C M dp bl (Suc k) o1 (Advance (int ReverseLen) ''reverse'' s)) (23 + onion_used o1)
        (\<lambda>R. take 23 R @ onion_render C M dp bl (Suc k) o1 (drop 23 R))"
      using OReverse by (intro renders_skip) simp_all
    then show ?thesis using ne by (simp add: None reverse_Encode_def encode_some_def)
  next
    case (Some ma)
    then have a: "a = Some ma" "fits_maddr M dp ma" using OReverse.prems by auto
    have "renders (onion_Encode C M dp bl k (OReverse a o1)) (25 + onion_used o1)
      (\<lambda>R. (bytes_of_string ''rvrs'' @ maddr_image M dp ma) @ onion_render C M dp bl (Suc k) o1 (drop 25 R))"
      using OReverse a ne by (intro renders_layer [OF OReverse.IH chain_reverse]) (simp_all add: len_simps)
    then show ?thesis by (simp add: a del: onion_Encode.simps)
  qed
next
  case (ODelay d o1)
  have ne: "o1 \<noteq> ONil" using ODelay.prems by auto
  have "renders (onion_Encode C M dp bl k (ODelay d o1)) (12 + onion_used o1)
      (\<lambda>R. (bytes_of_string ''dely'' @ le_bytes 8 d) @ onion_render C M dp bl (Suc k) o1 (drop 12 R))"
    using ODelay ne by (intro renders_layer [OF ODelay.IH chain_delay]) simp_all
  then show ?case by (simp del: onion_Encode.simps)
next
  case (OGetBalance x o1)
  have "renders (onion_Encode C M dp bl k (OGetBalance x o1)) (156 + onion_used o1)
      (\<lambda>R. (bytes_of_string ''getb'' @ getbalance_body x) @ onion_render C M dp bl (Suc k) o1 (drop 156 R))"
    using OGetBalance by (intro renders_layer [OF OGetBalance.IH getbalance_writes])
      (simp_all add: len_simps getbalance_fields_def)
  then show ?case by (simp del: onion_Encode.simps)
next
  case (OExit x o1)
  have "renders (onion_Encode C M dp bl k (OExit x o1)) ((162 + length (xBytes x)) + onion_used o1)
      (\<lambda>R. (bytes_of_string ''exit'' @ exit_body x) @ onion_render C M dp bl (Suc k) o1 (drop (162 + length (xBytes x)) R))"
    using OExit by (intro renders_layer [OF OExit.IH exit_writes]) (simp_all add: len_simps exit_fields_def)
  then show ?case by (simp del: onion_Encode.simps)
next
  case (OSession x o1)
  then obtain h p where hp: "sHeader x = Some h" "sPayload x = Some p" by (auto simp: session_ok_def)
  have "renders (onion_Encode C M dp bl k (OSession x o1)) (76 + onion_used o1)
      (\<lambda>R. (bytes_of_string ''sess'' @ session_body C x) @ onion_render C M dp bl (Suc k) o1 (drop 76 R))"
    using OSession hp by (intro renders_layer [OF OSession.IH session_writes]) (simp_all add: len_simps session_fields_def)
  then show ?case by (simp del: onion_Encode.simps)
next
  case (OIntroQuery x o1)
  have "renders (onion_Encode C M dp bl k (OIntroQuery x o1)) (189 + onion_used o1)
      (\<lambda>R. (bytes_of_string ''intq'' @ introquery_body C x) @ onion_render C M dp bl (Suc k) o1 (drop 189 R))"
    using OIntroQuery by (intro renders_layer [OF OIntroQuery.IH introquery_writes])
      (simp_all add: len_simps introquery_fields_def)
  then show ?case by (simp del: onion_Encode.simps)
next
  case (ORoute x o1)
  obtain sk hs where ft: "rSender x = Some sk" "rHiddenService x = Some hs"
    using ORoute.prems by (auto simp: route_ok_def)
  from ORoute.prems have ok: "route_ok x" "onion_ok C M dp o1" by auto
  have "renders (onion_Encode C M dp bl k (ORoute x o1)) (213 + onion_used o1) (\<lambda>R. route_header C (bl k) x @
      XORKeyStream (key_between C (the (rSender x)) (the (rHiddenService x))) (rIV x)
        (route_fields x @ onion_render C M dp bl (Suc k) o1 (drop 213 R)))"
    by (rule route_renders [OF ok(1) ORoute.IH [OF ok(2)]])
       (use ft in \<open>simp add: GetBlock_def key_between_def Let_def\<close>)
  then show ?case by (simp del: onion_Encode.simps)
next
  case (OHiddenService x o1)
  have "renders (onion_Encode C M dp bl k (OHiddenService x o1)) (304 + onion_used o1)
      (\<lambda>R. (bytes_of_string ''hids'' @ (bytes_of_string ''inad'' @ intro_body C (hIntro x)) @ concat (hCiphers x) @ concat (hNonces x))
        @ onion_render C M dp bl (Suc k) o1 (drop 304 R))"
    using OHiddenService.prems
    by (intro renders_layer [OF OHiddenService.IH hidden_fields_writes])
      (simp_all add: len_simps length_concat_three intro_ok_def rbind_assoc)
  then show ?case by (simp del: onion_Encode.simps)
next
  case (OBalance x)
  then show ?case
    using renders_core [OF balance.enc_writes, of x 20 "onion_Encode C M dp bl k (OBalance x)" C M dp bl k]
    by (simp add: balance_body_def del: onion_Encode.simps encode_layer)
next
  case (OConfirmation i)
  then show ?case
    using renders_core [OF confirmation.enc_writes, of i 12 "onion_Encode C M dp bl k (OConfirmation i)" C M dp bl k]
    by (simp del: onion_Encode.simps encode_layer)
next
  case (OResponse x)
  then show ?case
    using renders_core [OF response_writes, of x "19 + length (pBytes x)" "onion_Encode C M dp bl k (OResponse x)" C M dp bl k]
    by (simp add: response_body_def response_ok_def len_simps del: onion_Encode.simps)
qed simp_all

text \<open>The declared length is enough for what is written; it is exact except for hidden service
  messages, whose length counts a routing header that is not written.\<close>

lemma onion_Len_used:
  "onion_ok C M dp o1 \<Longrightarrow> \<exists>n. onion_Len o1 = Inr n \<and> onion_used o1 \<le> n"
proof (induction o1)
  case (OReverse a o1)
  then show ?case by (cases a) force+
qed (force simp: delay_Len_def GetBalanceLen_def exit_Len_def session_Len_def introquery_Len_def RouteLen_def
      hiddenservice_Len_def intro_Len_def balance_Len_def confirmation_Len_def response_Len_def)+

lemma Codec_Encode_onion:
  assumes "onion_ok C M dp o1" and "onion_Len o1 = Inr n"
  shows "\<exists>s. Codec_Encode n (onion_Encode C M dp bl k o1) = Inr s \<and>
     sb s = onion_render C M dp bl k o1 (replicate n 0) \<and> length (sb s) = n"
proof -
  have "onion_used o1 \<le> length (replicate n (0 :: byte))"
    using onion_Len_used [OF assms(1)] assms(2) by auto
  from rendersE [OF onion_Encode_renders [OF assms(1)] splice_at_New this]
  obtain s where "length (onion_render C M dp bl k o1 (replicate n 0)) = length (replicate n (0 :: byte))"
    "onion_Encode C M dp bl k o1 (New n) = Inr s"
    "splice_at s ([] @ take (onion_used o1) (onion_render C M dp bl k o1 (replicate n 0)))
       (drop (onion_used o1) (onion_render C M dp bl k o1 (replicate n 0)))"
    by blast
  then show ?thesis by (simp add: Codec_Encode_def splice_at_def)
qed

lemma length_onion_render:
  assumes "onion_ok C M dp o1" and "onion_used o1 \<le> length R"
  shows "length (onion_render C M dp bl k o1 R) = length R"
  using onion_Encode_renders [OF assms(1)] splice_at_NewFrom [of R] assms(2) unfolding renders_def by blast

section \<open>Peeling a layer\<close>

lemma XORKeyStream_append:
  "\<exists>c. XORKeyStream e iv (a @ b) = XORKeyStream e iv a @ c \<and> length c = length b"
proof (intro exI conjI)
  show "XORKeyStream e iv (a @ b) = XORKeyStream e iv a @ drop (length a) (XORKeyStream e iv (a @ b))"
    by (rule nth_equalityI) (auto simp: XORKeyStream_nth nth_append)
qed simp

text \<open>What a relay does with a message (\<^verbatim>\<open>Crypt.Handle\<close>): recognise a crypt, decode it, decrypt with its
  private key and move the wrapped message to the front of the buffer.\<close>

definition peel_crypt :: "crypto_ops \<Rightarrow> registry \<Rightarrow> bytes option \<Rightarrow> prv \<Rightarrow> bytes \<Rightarrow> (bytes \<times> bytes) res" where
  "peel_crypt C reg rand prk b =
     rbind (Recognise reg (NewFrom b)) (\<lambda>(k, s1).
     if k \<noteq> Some KCrypt then Inl (Error ''not a crypt'')
     else rbind (crypt_Decode C s1) (\<lambda>(x, s2).
     rbind (crypt_Decrypt C prk x s2) (\<lambda>s3.
     rbind (BudgeUp C rand s3) (\<lambda>s4. Inr (cCloak x, sb s4)))))"

lemma reads_pair_at:
  assumes "reads f bs v" and "splice_at s pre (bs @ post)"
  obtains s' where "f s = Inr (v, s')" and "splice_at s' (pre @ bs) post"
  using assms unfolding reads_def by blast

lemma crypt_Decode_reads:
  assumes "crypto_laws C" and "crypt_ok x n" and "valid_pub C (prv_pub C (the (cFrom x)))"
  shows "reads (crypt_Decode C) (drop 4 (crypt_header C bl x))
    \<lparr>cDepth = 0, cToHeaderPub = None, cToPayloadPub = None, cFrom = None, cIV = cIV x,
     cCloak = GetCloak C bl (the (cToHeaderPub x)), cToPriv = None, cFromPub = Some (prv_pub C (the (cFrom x)))\<rparr>"
proof -
  have iv: "length (cIV x) = 16" using assms(2) by (simp add: crypt_ok_def)
  have "drop 4 (crypt_header C bl x) = cIV x @ GetCloak C bl (the (cToHeaderPub x)) @ Pub_ToBytes C (prv_pub C (the (cFrom x)))"
    by (simp add: crypt_header_def)
  then show ?thesis
    unfolding crypt_Decode_def [abs_def]
    by simp (rule assms reads_guarded reads_map_eq reads_chain onion_reads | simp add: iv)+
qed

theorem peel_crypt_layer:
  assumes C: "crypto_laws C" and k: "KCrypt \<in> set ks"
    and ok: "onion_ok C M dp (OCrypt x o1)" "cDepth x = 0" "onion_used (OCrypt x o1) \<le> length R"
    and keys: "cToHeaderPub x = Some (prv_pub C prk)" "valid_pub C (prv_pub C (the (cFrom x)))"
  shows "\<exists>cloak noise'. peel_crypt C (registry_of ks) rand prk (onion_render C M dp bl k (OCrypt x o1) R @ noise)
      = Inr (cloak, onion_render C M dp bl (Suc k) o1 (drop 61 R) @ noise') \<and> length noise' = length noise + 61 \<and>
    cloak = GetCloak C (bl k) (prv_pub C prk) \<and> Match C cloak (Pub_ToBytes C (prv_pub C prk))"
proof -
  have cok: "crypt_ok x (onion_used o1)" using ok(1) by simp
  then obtain frm where frm: "cFrom x = Some frm" by (auto simp: crypt_ok_def)
  let ?X = "onion_render C M dp bl (Suc k) o1 (drop 61 R)" and ?H = "crypt_header C (bl k) x"
  let ?e = "key_between C frm (prv_pub C prk)"
  define body where "body = XORKeyStream ?e (cIV x) ?X"
  have layer: "crypt_layer C x ?X = body"
    by (simp add: crypt_layer_def Let_def crypt_cover_def ok(2) frm keys(1) XORKeyStream_def body_def)
  have H: "?H = bytes_of_string (magic_of KCrypt) @ drop 4 ?H"
    by (simp add: crypt_header_def magic_of_def)
  have buf: "onion_render C M dp bl k (OCrypt x o1) R @ noise
      = bytes_of_string (magic_of KCrypt) @ drop 4 ?H @ body @ noise"
    using H layer by simp
  have at0: "splice_at (NewFrom (onion_render C M dp bl k (OCrypt x o1) R @ noise)) []
      (bytes_of_string (magic_of KCrypt) @ drop 4 ?H @ body @ noise)"
    unfolding buf by (rule splice_at_NewFrom)
  obtain s1 where s1: "Recognise (registry_of ks) (NewFrom (onion_render C M dp bl k (OCrypt x o1) R @ noise)) = Inr (Some KCrypt, s1)"
    "splice_at s1 ([] @ bytes_of_string (magic_of KCrypt)) (drop 4 ?H @ body @ noise)"
    by (rule reads_pair_at [OF Recognise_reads [OF k] at0])
  let ?y = "\<lparr>cDepth = 0, cToHeaderPub = None, cToPayloadPub = None, cFrom = None, cIV = cIV x,
     cCloak = GetCloak C (bl k) (the (cToHeaderPub x)), cToPriv = None, cFromPub = Some (prv_pub C (the (cFrom x)))\<rparr>"
  obtain s2 where s2: "crypt_Decode C s1 = Inr (?y, s2)" "splice_at s2 (([] @ bytes_of_string (magic_of KCrypt)) @ drop 4 ?H) (body @ noise)"
    by (rule reads_pair_at [OF crypt_Decode_reads [OF C cok keys(2)] s1(2)])
  have at2: "splice_at s2 ?H (body @ noise)" using s2(2) H by simp
  obtain noise' where n': "XORKeyStream ?e (cIV x) (body @ noise) = XORKeyStream ?e (cIV x) body @ noise'" "length noise' = length noise"
    using XORKeyStream_append by blast
  have blk: "GetBlock C prk (prv_pub C frm) = Some ?e"
    using GetBlock_symmetric [OF C, of prk frm] by (simp add: GetBlock_def key_between_def)
  have "crypt_Decrypt C prk ?y s2 = Inr (s2\<lparr>sb := ?H @ ?X @ noise'\<rparr>)"
    using encipher_from_mid [of s2 ?H "body @ noise" ?e "cIV x"] at2 n'(1)
    by (simp add: crypt_Decrypt_def frm blk splice_at_def GetCursor_def body_def)
  moreover have "BudgeUp C rand (s2\<lparr>sb := ?H @ ?X @ noise'\<rparr>)
      = Inr (s2\<lparr>sb := ?X @ noise' @ NoisePad C rand 61\<rparr>)"
  proof -
    have "splice_at (s2\<lparr>sb := ?H @ ?X @ noise'\<rparr>) ?H (?X @ noise')" using at2 by (simp add: splice_at_def)
    moreover have "length ?H = 61" using cok by (simp add: crypt_ok_def)
    ultimately show ?thesis using BudgeUp_at [of "s2\<lparr>sb := ?H @ ?X @ noise'\<rparr>" ?H "?X @ noise'" C rand] by simp
  qed
  ultimately have "peel_crypt C (registry_of ks) rand prk (onion_render C M dp bl k (OCrypt x o1) R @ noise)
      = Inr (cCloak ?y, ?X @ noise' @ NoisePad C rand 61)"
    unfolding peel_crypt_def s1(1) by (simp add: s2(1))
  then show ?thesis using n'(2) Match_GetCloak [OF C] keys(1) by auto
qed

section \<open>A message travels along its route\<close>

text \<open>\<^verbatim>\<open>Forward.Handle\<close> at the sending side: read the address of the next relay, move the rest up and
  send it there.\<close>

definition relay_forward :: "crypto_ops \<Rightarrow> maddr_ops \<Rightarrow> registry \<Rightarrow> bytes option \<Rightarrow> bytes \<Rightarrow> (multiaddr option \<times> bytes) res" where
  "relay_forward C M reg rand b =
     rbind (Recognise reg (NewFrom b)) (\<lambda>(k, s1).
     if k \<noteq> Some KForward then Inl (Error ''not a forward'')
     else rbind (forward_Decode M s1) (\<lambda>(a, s2).
     rbind (BudgeUp C rand s2) (\<lambda>s3. Inr (a, sb s3))))"

fun relay_path ::
  "crypto_ops \<Rightarrow> maddr_ops \<Rightarrow> registry \<Rightarrow> bytes option \<Rightarrow> prv list \<Rightarrow> bytes \<Rightarrow> (multiaddr option list \<times> bytes) res" where
  "relay_path C M reg rand [] b = Inr ([], b)"
| "relay_path C M reg rand (prk # ks) b =
     rbind (relay_forward C M reg rand b) (\<lambda>(a, b1).
     rbind (peel_crypt C reg rand prk b1) (\<lambda>(cloak, b2).
     rbind (relay_path C M reg rand ks b2) (\<lambda>(as, b3). Inr (a # as, b3))))"

fun path_onion :: "(multiaddr \<times> crypt) list \<Rightarrow> onion \<Rightarrow> onion" where
  "path_onion [] core = core"
| "path_onion ((a, x) # hops) core = OForward (Some a) (OCrypt x (path_onion hops core))"

lemma relay_forward_layer:
  assumes "KForward \<in> set ks" and "onion_ok C M dp (OForward (Some a) o1)"
  shows "\<exists>noise'. relay_forward C M (registry_of ks) rand (onion_render C M dp bl k (OForward (Some a) o1) R @ noise)
      = Inr (Some a, onion_render C M dp bl (Suc k) o1 (drop 25 R) @ noise') \<and> length noise' = length noise + 25"
proof -
  let ?X = "onion_render C M dp bl (Suc k) o1 (drop 25 R)" and ?A = "maddr_image M dp a"
  let ?m = "bytes_of_string (magic_of KForward)"
  let ?b = "onion_render C M dp bl k (OForward (Some a) o1) R @ noise"
  have at0: "splice_at (NewFrom ?b) [] (?m @ ?A @ ?X @ noise)" by (simp add: magic_of_def)
  obtain s1 where s1: "Recognise (registry_of ks) (NewFrom ?b) = Inr (Some KForward, s1)"
    "splice_at s1 ([] @ ?m) (?A @ ?X @ noise)"
    by (rule reads_pair_at [OF Recognise_reads [OF assms(1)] at0])
  have "Some a \<noteq> None \<and> fits_maddr M dp (the (Some a))" using assms(2) by simp
  note fd = forward.dec_reads [OF this, unfolded option.sel]
  obtain s2 where s2: "forward_Decode M s1 = Inr (Some a, s2)" "splice_at s2 (([] @ ?m) @ ?A) (?X @ noise)"
    by (rule reads_pair_at [OF fd s1(2)])
  have "length ?A = 21" using assms(2) by (simp add: len_simps)
  with BudgeUp_at [OF s2(2), of C rand] show ?thesis
    unfolding relay_forward_def s1(1) by (simp add: s2(1))
qed

text \<open>The hops of a route: each crypt is for the key of its relay, at depth zero.\<close>

definition hop_ok :: "crypto_ops \<Rightarrow> maddr_ops \<Rightarrow> u16 \<Rightarrow> (multiaddr \<times> crypt) \<times> prv \<Rightarrow> bool" where
  "hop_ok C M dp h \<longleftrightarrow> (case h of ((a, x), prk) \<Rightarrow> fits_maddr M dp a \<and> crypt_ok x 0 \<and> cDepth x = 0 \<and>
     cToHeaderPub x = Some (prv_pub C prk) \<and> valid_pub C (prv_pub C (the (cFrom x))))"

lemma crypt_ok_depth0: "crypt_ok x 0 \<Longrightarrow> cDepth x = 0 \<Longrightarrow> crypt_ok x n"
  by (simp add: crypt_ok_def)

lemma path_onion_ok:
  assumes "list_all (hop_ok C M dp) (zip hops keys)" and "length keys = length hops" and "onion_ok C M dp core"
  shows "onion_ok C M dp (path_onion hops core)"
    and "onion_used (path_onion hops core) = 86 * length hops + onion_used core"
  using assms(2,1,3) by (induction keys hops rule: list_induct2) (auto simp: hop_ok_def crypt_ok_depth0)

theorem relay_path_delivers:
  assumes C: "crypto_laws C" "KCrypt \<in> set ks" "KForward \<in> set ks"
    and hops: "list_all (hop_ok C M dp) (zip hops keys)" "length keys = length hops"
    and core: "onion_ok C M dp core" "86 * length hops + onion_used core \<le> length R"
  shows "\<exists>noise'. relay_path C M (registry_of ks) rand keys (onion_render C M dp bl k (path_onion hops core) R @ noise)
    = Inr (map (Some \<circ> fst) hops, onion_render C M dp bl (k + 2 * length hops) core (drop (86 * length hops) R) @ noise') \<and>
    length noise' = length noise + 86 * length hops"
  using hops(2,1) core(2)
proof (induction keys hops arbitrary: k R noise rule: list_induct2)
  case (Cons prk keys hop hops)
  obtain a x where hop: "hop = (a, x)" by force
  have h: "hop_ok C M dp ((a, x), prk)" and rest: "list_all (hop_ok C M dp) (zip hops keys)"
    using Cons.prems(1) by (auto simp: hop)
  let ?o = "path_onion hops core"
  note pok = path_onion_ok [OF rest Cons.hyps core(1)]
  have cok: "onion_ok C M dp (OCrypt x ?o)"
    using h pok(1) by (simp add: hop_ok_def crypt_ok_depth0)
  then have fok: "onion_ok C M dp (OForward (Some a) (OCrypt x ?o))" using h by (simp add: hop_ok_def)
  obtain n1 where n1: "relay_forward C M (registry_of ks) rand (onion_render C M dp bl k (OForward (Some a) (OCrypt x ?o)) R @ noise)
      = Inr (Some a, onion_render C M dp bl (Suc k) (OCrypt x ?o) (drop 25 R) @ n1)" "length n1 = length noise + 25"
    using relay_forward_layer [OF C(3) fok] by blast
  have used: "onion_used (OCrypt x ?o) \<le> length (drop 25 R)" using pok(2) Cons.prems(2) by simp
  have hk: "cDepth x = 0" "cToHeaderPub x = Some (prv_pub C prk)" "valid_pub C (prv_pub C (the (cFrom x)))"
    using h by (auto simp: hop_ok_def)
  obtain cl n2 where n2: "peel_crypt C (registry_of ks) rand prk (onion_render C M dp bl (Suc k) (OCrypt x ?o) (drop 25 R) @ n1)
      = Inr (cl, onion_render C M dp bl (Suc (Suc k)) ?o (drop 61 (drop 25 R)) @ n2)" "length n2 = length n1 + 61"
    using peel_crypt_layer [OF C(1,2) cok hk(1) used hk(2,3)] by blast
  have "86 * length hops + onion_used core \<le> length (drop 61 (drop 25 R))" using Cons.prems(2) by simp
  from Cons.IH [OF rest this, of "Suc (Suc k)" n2] obtain n3 where
    "relay_path C M (registry_of ks) rand keys (onion_render C M dp bl (Suc (Suc k)) ?o (drop 61 (drop 25 R)) @ n2)
      = Inr (map (Some \<circ> fst) hops, onion_render C M dp bl (Suc (Suc k) + 2 * length hops) core
          (drop (86 * length hops) (drop 61 (drop 25 R))) @ n3)" "length n3 = length n2 + 86 * length hops" by blast
  then show ?case
    using n1 n2 by (simp add: hop add.commute del: onion_render.simps)
qed simp

end
