(* ===== verification/Onion_Thms.thy ===== *)
theory Onion_Thms
  imports Onion_Layers "HOL-Library.Multiset"
begin

text \<open>
  Properties of the onion messages: delivery along a route, peeling of one layer, the reply header
  and the reply format, and the round trips of the cores.
\<close>

section \<open>Delivery\<close>

lemma path_onion_Len:
  "onion_Len core = Inr n \<Longrightarrow> onion_Len (path_onion hops core) = Inr (86 * length hops + n)"
  by (induction hops) auto


text \<open>Two relays and a request, for the witness.\<close>

definition demo_crypt :: "byte \<Rightarrow> byte \<Rightarrow> crypt" where
  "demo_crypt f t = \<lparr>cDepth = 0, cToHeaderPub = Some (prv_pub demo_ops (Prv (ucast t))), cToPayloadPub = None,
     cFrom = Some (Prv (ucast f)), cIV = replicate 16 f, cCloak = [], cToPriv = None, cFromPub = None\<rparr>"

definition demo_hops :: "(multiaddr \<times> crypt) list" where
  "demo_hops = [(demo_addr, demo_crypt 11 21), (demo_addr, demo_crypt 12 22)]"

definition demo_exit :: exit_msg where
  "demo_exit = \<lparr>xID = replicate 8 1, xCiphers = replicate 3 (replicate 32 2), xNonces = replicate 3 (replicate 16 3),
     xPort = 80, xBytes = [1, 2, 3]\<rparr>"

lemma demo_exit_ok: "exit_ok demo_exit"
  by (simp add: exit_ok_def demo_exit_def hashes_ok_def ivs_ok_def)

lemma demo_prv_pub_valid: "valid_pub demo_ops (prv_pub demo_ops k)"
  by (simp add: valid_pub_def demo_ops_def)

lemma demo_hops_ok: "list_all (hop_ok demo_ops demo_maddr 26969) (zip demo_hops [Prv (ucast (21 :: byte)), Prv (ucast (22 :: byte))])"
  using demo_addr_fits demo_prv_pub_valid by (simp add: demo_hops_def hop_ok_def demo_crypt_def crypt_ok_def)


text \<open>C6: Peeling a crypt. Decrypting an encoded crypt layer with the private key it was made for gives, at the
  front of the buffer, exactly the bytes that encoding the wrapped message alone would give, and the
  cloak in the header matches the key.\<close>

theorem crypt_peel:
  assumes "crypto_laws C" and "KCrypt \<in> set ks" and "onion_ok C M dp (OCrypt x o1)" and "cDepth x = 0"
    and "cToHeaderPub x = Some (prv_pub C prk)" and "valid_pub C (prv_pub C (the (cFrom x)))"
  shows "\<exists>n s s' cloak noise. onion_Len o1 = Inr n \<and>
     Codec_Encode (61 + n) (onion_Encode C M dp bl k (OCrypt x o1)) = Inr s \<and>
     Codec_Encode n (onion_Encode C M dp bl (Suc k) o1) = Inr s' \<and>
     peel_crypt C (registry_of ks) rand prk (sb s) = Inr (cloak, sb s' @ noise) \<and> length noise = 61 \<and>
     Match C cloak (Pub_ToBytes C (prv_pub C prk))"
proof -
  obtain n where n: "onion_Len o1 = Inr n" "onion_used o1 \<le> n"
    using onion_Len_used [of C M dp o1] assms(3) by auto
  then have n': "onion_Len (OCrypt x o1) = Inr (61 + n)" by simp
  have ok1: "onion_ok C M dp o1" using assms(3) by simp
  obtain s where s: "Codec_Encode (61 + n) (onion_Encode C M dp bl k (OCrypt x o1)) = Inr s"
    "sb s = onion_render C M dp bl k (OCrypt x o1) (replicate (61 + n) 0)"
    using Codec_Encode_onion [OF assms(3) n'] by blast
  obtain s' where s': "Codec_Encode n (onion_Encode C M dp bl (Suc k) o1) = Inr s'"
    "sb s' = onion_render C M dp bl (Suc k) o1 (replicate n 0)"
    using Codec_Encode_onion [OF ok1 n(1)] by blast
  have "onion_used (OCrypt x o1) \<le> length (replicate (61 + n) (0 :: byte))" using n(2) by simp
  from peel_crypt_layer [OF assms(1-4) this assms(5,6), of rand bl k "[]"]
  show ?thesis using n(1) s s' by auto
qed

theorem crypt_peel_witness:
  "\<exists>n s s' cloak noise. onion_Len (OExit demo_exit OEnd) = Inr n \<and>
     Codec_Encode (61 + n) (onion_Encode demo_ops demo_maddr 26969 (\<lambda>i. []) 0 (OCrypt (demo_crypt 11 21) (OExit demo_exit OEnd))) = Inr s \<and>
     Codec_Encode n (onion_Encode demo_ops demo_maddr 26969 (\<lambda>i. []) (Suc 0) (OExit demo_exit OEnd)) = Inr s' \<and>
     peel_crypt demo_ops (registry_of all_kinds) None (Prv (ucast (21 :: byte))) (sb s) = Inr (cloak, sb s' @ noise) \<and>
     length noise = 61 \<and> Match demo_ops cloak (Pub_ToBytes demo_ops (prv_pub demo_ops (Prv (ucast (21 :: byte)))))"
  by (rule crypt_peel)
     (simp_all add: all_kinds_def demo_crypt_def crypt_ok_def demo_exit_ok demo_prv_pub_valid)

section \<open>Replies\<close>

definition strip_ciphers :: "crypto_ops \<Rightarrow> (bytes \<times> bytes) list \<Rightarrow> bytes \<Rightarrow> bytes" where
  "strip_ciphers C cns p = fold (\<lambda>(c, n). XORKeyStream (aes_block C c) n) cns p"

lemma encipher_all_mid:
  "sb s = pre @ p \<Longrightarrow> encipher_all C cns (int (length pre)) s = Inr (s\<lparr>sb := pre @ strip_ciphers C cns p\<rparr>)"
proof (induction cns arbitrary: s p)
  case Nil
  then show ?case by (simp add: strip_ciphers_def)
next
  case (Cons cn cns)
  obtain c n where cn: "cn = (c, n)" by force
  show ?case
    using Cons.IH [of "s\<lparr>sb := pre @ XORKeyStream (aes_block C c) n p\<rparr>"] encipher_from_mid [OF Cons.prems, of "aes_block C c" n]
    by (simp add: cn BlockFromHash_def strip_ciphers_def)
qed

lemma strip_ciphers_rev [simp]: "strip_ciphers C (rev cns) (strip_ciphers C cns p) = p"
  by (induction cns arbitrary: p) (auto simp: strip_ciphers_def)

lemma strip_ciphers_perm:
  assumes "mset cns = mset cns'"
  shows "strip_ciphers C cns = strip_ciphers C cns'"
proof (rule ext)
  fix p
  have "fold (\<lambda>(c, n). XORKeyStream (aes_block C c) n) cns = fold (\<lambda>(c, n). XORKeyStream (aes_block C c) n) cns'"
    using assms by (intro fold_multiset_equiv) (auto intro!: ext simp: XORKeyStream_commute)
  then show "strip_ciphers C cns p = strip_ciphers C cns' p" by (simp add: strip_ciphers_def)
qed

lemma length_strip_ciphers [simp]: "length (strip_ciphers C cns p) = length p"
  by (induction cns arbitrary: p) (auto simp: strip_ciphers_def)

text \<open>C7: A reply is its routing header in the clear followed by the response under the three
  ciphers; applying the same ciphers with their nonces again, in whatever order, gives the response.\<close>

theorem FormatReply_recovers:
  assumes "length header = RoutingHeaderLen" and "mset cns = mset (zip ciphers nonces)"
  shows "\<exists>rb p. FormatReply C header ciphers nonces res = Inr rb \<and> sb rb = header @ p \<and>
     length p = length res \<and> strip_ciphers C cns p = res"
proof -
  let ?rb = "New (RoutingHeaderLen + length res)"
  have h: "slice_expr header 0 (int RoutingHeaderLen) = Inr header"
    using assms(1) by (simp add: slice_expr_def)
  have c1: "copy_range (sb ?rb) 0 (int RoutingHeaderLen) header = Inr (header @ replicate (length res) 0)"
    using copy_range_mid [of header "replicate 252 0" "[]" "replicate (length res) 0"] assms(1)
    by (simp add: New_def replicate_add)
  have c2: "copy_range (header @ replicate (length res) 0) (int RoutingHeaderLen)
      (int (length (header @ replicate (length res) (0 :: byte)))) res = Inr (header @ res)"
    using copy_range_mid [of res "replicate (length res) 0" header "[]"] assms(1) by simp
  have "FormatReply C header ciphers nonces res
      = encipher_all C (zip ciphers nonces) (int RoutingHeaderLen) (?rb\<lparr>sb := header @ res\<rparr>)"
    unfolding FormatReply_def Let_def h rbind_Inr c1 c2 ..
  also have "\<dots> = Inr (?rb\<lparr>sb := header @ strip_ciphers C (zip ciphers nonces) res\<rparr>)"
    using encipher_all_mid [of "?rb\<lparr>sb := header @ res\<rparr>" header res C "zip ciphers nonces"] assms(1) by simp
  finally show ?thesis
    using strip_ciphers_perm [of cns "rev (zip ciphers nonces)" C] assms(2) by auto
qed

theorem FormatReply_recovers_witness:
  "\<exists>rb p. FormatReply demo_ops (replicate 252 0) [[1], [2], [3]] [[4], [5], [6]] [7, 8] = Inr rb \<and>
     sb rb = replicate 252 0 @ p \<and> length p = 2 \<and>
     strip_ciphers demo_ops [([3], [6]), ([1], [4]), ([2], [5])] p = [7, 8]"
  using FormatReply_recovers [of "replicate 252 0" "[([3], [6]), ([1], [4]), ([2], [5])]" "[[1], [2], [3]]" "[[4], [5], [6]]" demo_ops "[7, 8]"]
  by (simp add: numeral_2_eq_2)

text \<open>C8: The reply header does not fit its constant. Three pairs of a reverse and a crypt, assembled
  and encoded as the senders do, take 258 bytes, because an address takes 21 bytes and not the 19
  that \<^verbatim>\<open>ReverseLen\<close> counts; \<^verbatim>\<open>GetRoutingHeaderFromCursor\<close> returns the first 252, so that the last six
  bytes, of the sender's key in the last crypt, are cut off.\<close>

theorem reply_header_truncated:
  assumes "fits_maddr M dp a1" and "fits_maddr M dp a2" and "fits_maddr M dp a3"
    and "length n1 = IVLen" and "length n2 = IVLen" and "length n3 = IVLen"
  shows "\<exists>rh s h s'. Assemble [reverse_New (Some a1), crypt_New (Some h1) (Some p1) (Some k1) n1 3,
       reverse_New (Some a2), crypt_New (Some h2) (Some p2) (Some k2) n2 2,
       reverse_New (Some a3), crypt_New (Some h3) (Some p3) (Some k3) n3 1] = Inr rh \<and>
     onion_Len rh = Inr 258 \<and> Codec_Encode 258 (onion_Encode C M dp bl 0 rh) = Inr s \<and>
     GetRoutingHeaderFromCursor (SetCursor 0 s) = Inr (h, s') \<and>
     h = take RoutingHeaderLen (sb s) \<and> length (sb s) = RoutingHeaderLen + 6"
proof -
  let ?c = "\<lambda>h p k n d. \<lparr>cDepth = d, cToHeaderPub = Some h, cToPayloadPub = Some p, cFrom = Some k, cIV = n,
      cCloak = replicate CloakLen 0, cToPriv = None, cFromPub = None\<rparr> :: crypt"
  let ?rh = "OReverse (Some a1) (OCrypt (?c h1 p1 k1 n1 3) (OReverse (Some a2) (OCrypt (?c h2 p2 k2 n2 2)
      (OReverse (Some a3) (OCrypt (?c h3 p3 k3 n3 1) OEnd)))))"
  have rh: "Assemble [reverse_New (Some a1), crypt_New (Some h1) (Some p1) (Some k1) n1 3,
       reverse_New (Some a2), crypt_New (Some h2) (Some p2) (Some k2) n2 2,
       reverse_New (Some a3), crypt_New (Some h3) (Some p3) (Some k3) n3 1] = Inr ?rh"
    by (simp add: Assemble_def reverse_New_def crypt_New_def)
  have ok: "onion_ok C M dp ?rh" using assms by (simp add: crypt_ok_def)
  have len: "onion_Len ?rh = Inr 258" by simp
  obtain s where s: "Codec_Encode 258 (onion_Encode C M dp bl 0 ?rh) = Inr s" "length (sb s) = 258"
    using Codec_Encode_onion [OF ok len] by blast
  have "slice_expr (sb s) 0 252 = Inr (take 252 (sb s))" using s(2) by (simp add: slice_expr_def)
  then have "\<exists>s'. GetRoutingHeaderFromCursor (SetCursor 0 s) = Inr (take 252 (sb s), s')"
    using s(2) by (simp add: GetRoutingHeaderFromCursor_def SetCursor_def GetCursor_def Advance_def GetRange_def Let_def)
  then show ?thesis using rh len s by auto
qed

theorem reply_header_truncated_witness:
  "\<exists>rh s h s'. Assemble [reverse_New (Some demo_addr), crypt_New (Some demo_pub) (Some demo_pub) (Some demo_prv) (replicate 16 1) 3,
       reverse_New (Some demo_addr), crypt_New (Some demo_pub) (Some demo_pub) (Some demo_prv) (replicate 16 2) 2,
       reverse_New (Some demo_addr), crypt_New (Some demo_pub) (Some demo_pub) (Some demo_prv) (replicate 16 3) 1] = Inr rh \<and>
     onion_Len rh = Inr 258 \<and> Codec_Encode 258 (onion_Encode demo_ops demo_maddr 26969 (\<lambda>i. []) 0 rh) = Inr s \<and>
     GetRoutingHeaderFromCursor (SetCursor 0 s) = Inr (h, s') \<and>
     h = take RoutingHeaderLen (sb s) \<and> length (sb s) = RoutingHeaderLen + 6"
  by (rule reply_header_truncated) (use demo_addr_fits in simp_all)

section \<open>Sessions and responses\<close>

lemma encode_session:
  "session_ok C x \<Longrightarrow> onion_Encode C M dp bl k (OSession x OEnd) = session_fields C x"
  by (rule ext) (auto simp: session_ok_def session_fields_def)

text \<open>A session message round trips, and the relay computes from it the same preimage hash, by which
  it finds the payment, as the client did.\<close>

theorem session_roundtrip:
  assumes "session_ok C x" and "KSession \<in> set ks"
  shows "\<exists>s s1 y s2. Codec_Encode session_Len (onion_Encode C M dp bl k (OSession x OEnd)) = Inr s \<and>
     Recognise (registry_of ks) (NewFrom (sb s)) = Inr (Some KSession, s1) \<and>
     session_Decode C s1 = Inr (y, s2) \<and> y = x \<and> PreimageHash C y = PreimageHash C x"
  using session.codec_roundtrip [OF assms(1) _ assms(2)] by (auto simp: encode_session [OF assms(1)] magic_of_def)

definition demo_session :: session_msg where
  "demo_session = \<lparr>sID = replicate 8 5, sHop = 0, sHeader = Some (MakeKeys demo_ops demo_prv),
     sPayload = Some (MakeKeys demo_ops demo_prv)\<rparr>"

theorem session_roundtrip_witness:
  "\<exists>s s1 y s2. Codec_Encode session_Len (onion_Encode demo_ops demo_maddr 0 (\<lambda>i. []) 0 (OSession demo_session OEnd)) = Inr s \<and>
     Recognise (registry_of all_kinds) (NewFrom (sb s)) = Inr (Some KSession, s1) \<and>
     session_Decode demo_ops s1 = Inr (y, s2) \<and> y = demo_session \<and> PreimageHash demo_ops y = PreimageHash demo_ops demo_session"
proof (rule session_roundtrip)
  show "session_ok demo_ops demo_session"
    unfolding session_ok_def demo_session_def using demo_prv_valid by fastforce
qed (simp add: all_kinds_def)

text \<open>A response message with any payload below four gigabytes round trips.\<close>

theorem response_roundtrip:
  assumes "response_ok x" and "KResponse \<in> set ks"
  shows "\<exists>n s s1 s2. onion_Len (OResponse x) = Inr n \<and> Codec_Encode n (onion_Encode C M dp bl k (OResponse x)) = Inr s \<and>
     length (sb s) = n \<and> Recognise (registry_of ks) (NewFrom (sb s)) = Inr (Some KResponse, s1) \<and>
     response_Decode s1 = Inr (x, s2)"
  using response.codec_roundtrip [OF assms(1) _ assms(2), of C M dp bl k]
  by (auto simp: magic_of_def simp del: onion_Encode.simps)

theorem response_roundtrip_witness:
  "\<exists>n s s1 s2. onion_Len (OResponse \<lparr>pID' = replicate 8 1, pPort = 80, pLoad = 3, pBytes = [1, 2]\<rparr>) = Inr n \<and>
     Codec_Encode n (onion_Encode demo_ops demo_maddr 0 (\<lambda>i. []) 0
       (OResponse \<lparr>pID' = replicate 8 1, pPort = 80, pLoad = 3, pBytes = [1, 2]\<rparr>)) = Inr s \<and>
     length (sb s) = n \<and> Recognise (registry_of all_kinds) (NewFrom (sb s)) = Inr (Some KResponse, s1) \<and>
     response_Decode s1 = Inr (\<lparr>pID' = replicate 8 1, pPort = 80, pLoad = 3, pBytes = [1, 2]\<rparr>, s2)"
  by (rule response_roundtrip) (simp_all add: response_ok_def all_kinds_def)

section \<open>Hidden service messages\<close>

text \<open>A reader that takes a fixed number of bytes whatever they are.\<close>

definition consumes :: "(splice \<Rightarrow> ('a \<times> splice) res) \<Rightarrow> nat \<Rightarrow> bool" where
  "consumes f n \<longleftrightarrow> (\<forall>s pre b post. splice_at s pre (b @ post) \<and> length b = n \<longrightarrow>
     (\<exists>v s'. f s = Inr (v, s') \<and> splice_at s' (pre @ b) post))"

lemma consumes_reads: "(\<And>b. length b = n \<Longrightarrow> \<exists>v. reads f b v) \<Longrightarrow> consumes f n"
  unfolding consumes_def by (metis reads_pair_at)

lemma consumes_chain:
  assumes "consumes f n" and "\<And>x. consumes (g x) m"
  shows "consumes (\<lambda>s. rbind (f s) (\<lambda>(x, s1). g x s1)) (n + m)"
  unfolding consumes_def
proof (intro allI impI, elim conjE)
  fix s pre b post assume at: "splice_at s pre (b @ post)" and l: "length b = n + m"
  have "splice_at s pre (take n b @ (drop n b @ post))" "length (take n b) = n" "length (drop n b) = m"
    using at l by (simp_all flip: append_assoc)
  then obtain x s1 where s1: "f s = Inr (x, s1)" "splice_at s1 (pre @ take n b) (drop n b @ post)"
    using assms(1) unfolding consumes_def by blast
  then obtain y s2 where "g x s1 = Inr (y, s2)" "splice_at s2 ((pre @ take n b) @ drop n b) post"
    using assms(2) \<open>length (drop n b) = m\<close> unfolding consumes_def by blast
  then show "\<exists>v s'. rbind (f s) (\<lambda>(x, s1). g x s1) = Inr (v, s') \<and> splice_at s' (pre @ b) post"
    using s1(1) by auto
qed

lemma consumes_return: "consumes (\<lambda>s. Inr (v, s)) 0"
  by (simp add: consumes_def)

lemma consumes_Pubkey: "consumes (ReadPubkey C) 33"
  unfolding consumes_def
proof (intro allI impI, elim conjE)
  fix s pre b post assume "splice_at s pre (b @ post)" and l: "length b = (33 :: nat)"
  then obtain s1 where "get_field 33 s = Inr (b, s1)" "splice_at s1 (pre @ b) post"
    using reads_pair_at [OF reads_get_field [OF l]] by blast
  then show "\<exists>v s'. ReadPubkey C s = Inr (v, s') \<and> splice_at s' (pre @ b) post"
    by (cases "PubFromBytes C b") (auto simp: ReadPubkey_def)
qed

lemma bytes_as_word:
  assumes "length b = n" and "LENGTH('a::len) = 8 * n"
  obtains v :: "'a::len word" where "b = le_bytes n v"
  using le_bytes_le_word [OF assms(2,1)] that by metis

lemma consumes_ints: "consumes ReadUint32 4" "consumes ReadUint16 2" "consumes ReadTime 8"
proof -
  have "\<exists>v. reads ReadUint32 b v" if "length b = 4" for b
    using that by (rule bytes_as_word [where ?'a = 32]) (simp, metis reads_Uint32)
  moreover have "\<exists>v. reads ReadUint16 b v" if "length b = 2" for b
    using that by (rule bytes_as_word [where ?'a = 16]) (simp, metis reads_Uint16)
  moreover have "\<exists>v. reads ReadTime b v" if "length b = 8" for b
    using that by (rule bytes_as_word [where ?'a = 64]) (simp, metis reads_u64(4))
  ultimately show "consumes ReadUint32 4" "consumes ReadUint16 2" "consumes ReadTime 8"
    by (auto intro: consumes_reads)
qed

lemma consumes_lists: "consumes ReadSignature 64" "consumes ReadCiphers 96" "consumes ReadNonces 48"
proof -
  have hash: "consumes ReadHash 32" and iv: "consumes ReadIV 16"
    by (auto intro!: consumes_reads exI reads_fixed)
  have times: "consumes f n \<Longrightarrow> consumes (read_times f k) (k * n)" for f :: "splice \<Rightarrow> (bytes \<times> splice) res" and n k
  proof (induction k)
    case (Suc k)
    have "read_times f (Suc k) = (\<lambda>s. rbind (f s) (\<lambda>(x, s1). rbind (read_times f k s1) (\<lambda>(xs, s2). Inr (x # xs, s2))))"
      by (rule ext) simp
    then show ?case
      using consumes_chain [OF Suc.prems consumes_chain [OF Suc.IH [OF Suc.prems] consumes_return]] by simp
  qed (simp add: consumes_def)
  show "consumes ReadSignature 64" by (auto intro!: consumes_reads exI reads_fixed)
  show "consumes ReadCiphers 96" "consumes ReadNonces 48"
    using times [OF hash, of 3] times [OF iv, of 3] by (simp_all add: ReadCiphers_def [abs_def] ReadNonces_def [abs_def])
qed

lemma consumes_header: "consumes GetRoutingHeaderFromCursor 252" "consumes ReadRoutingHeader 252"
proof -
  show g: "consumes GetRoutingHeaderFromCursor 252"
    unfolding consumes_def
  proof (intro allI impI, elim conjE)
    fix s pre b post assume at: "splice_at s pre (b @ post)" and l: "length b = (252 :: nat)"
    have "slice_expr (pre @ b @ post) (int (length pre)) (int (length pre) + 252) = Inr b"
      using slice_expr_mid [of pre b post] l by simp
    then show "\<exists>v s'. GetRoutingHeaderFromCursor s = Inr (v, s') \<and> splice_at s' (pre @ b) post"
      using at l by (auto simp: GetRoutingHeaderFromCursor_def Let_def Advance_def GetCursor_def GetRange_def splice_at_def)
  qed
  have "ReadRoutingHeader = (\<lambda>s. rbind (GetRoutingHeaderFromCursor s) (\<lambda>(b, s1). Inr (b, mark (SegLit ''routingheader'') s1)))"
    by (rule ext) (simp add: ReadRoutingHeader_def)
  moreover have "consumes (\<lambda>s1. Inr (b, mark (SegLit ''routingheader'') s1)) 0" for b :: bytes
    by (simp add: consumes_def)
  ultimately show "consumes ReadRoutingHeader 252" using consumes_chain [OF g, where m = 0 and g = "\<lambda>b s1. Inr (b, mark (SegLit ''routingheader'') s1)"] by simp
qed

lemmas consumes_all = consumes_Pubkey consumes_ints consumes_lists consumes_header consumes_return

text \<open>What the decoder of a hidden service message makes of any bytes: the identifier of the intro is
  the first eight of them.\<close>

lemma intro_tail_consumes:
  "consumes (\<lambda>s. rbind (ReadPubkey C s) (\<lambda>(k, s). rbind (ReadPubkey C s) (\<lambda>(n, s).
     rbind (ReadUint32 s) (\<lambda>(r, s). rbind (ReadUint16 s) (\<lambda>(p, s). rbind (ReadTime s) (\<lambda>(t, s).
     rbind (ReadSignature s) (\<lambda>(g, s). Inr (\<lparr>aID = i, aKey = k, aExpiry = t, aSig = g, iIntroducer = n, iPort = p,
             iRelayRate = r\<rparr>, s)))))))) (33 + (33 + (4 + (2 + (8 + (64 + 0))))))"
  by (intro consumes_chain consumes_all)

lemma intro_Decode_any:
  assumes "splice_at s pre (i @ b @ post)" and "length i = 8" and "length b = 144"
  shows "\<exists>ad s'. intro_Decode C s = Inr (ad, s') \<and> aID ad = i \<and> splice_at s' (pre @ i @ b) post"
proof -
  obtain s1 where s1: "ReadID s = Inr (i, s1)" "splice_at s1 (pre @ i) (b @ post)"
    using reads_pair_at [OF reads_fixed(2) [OF assms(2)] assms(1)] .
  have "TooShort (Remaining s) (int intro_Len - int magic_Len) ''inad'' = Inr ()"
    using Remaining_at [OF assms(1)] assms(2,3) by (simp add: TooShort_def intro_Len_def)
  moreover obtain ad s' where "rbind (ReadPubkey C s1) (\<lambda>(k, s). rbind (ReadPubkey C s) (\<lambda>(n, s).
     rbind (ReadUint32 s) (\<lambda>(r, s). rbind (ReadUint16 s) (\<lambda>(p, s). rbind (ReadTime s) (\<lambda>(t, s).
     rbind (ReadSignature s) (\<lambda>(g, s). Inr (\<lparr>aID = i, aKey = k, aExpiry = t, aSig = g, iIntroducer = n, iPort = p,
             iRelayRate = r\<rparr>, s))))))) = Inr (ad, s')" "splice_at s' ((pre @ i) @ b) post"
    using intro_tail_consumes [of C i] s1(2) assms(3) unfolding consumes_def by fastforce
  moreover from this(1) have "aID ad = i"
    by (auto simp: rbind_eq_Inr split: prod.splits)
  ultimately show ?thesis using s1(1) by (auto simp: intro_Decode_def)
qed

lemma hidden_tail_consumes:
  "consumes (\<lambda>s. rbind (ReadCiphers s) (\<lambda>(c, s2). rbind (ReadNonces s2) (\<lambda>(n, s3).
     rbind (GetRoutingHeaderFromCursor s3) (\<lambda>(_, s4). rbind (ReadRoutingHeader s4) (\<lambda>(_, s5).
       Inr (\<lparr>hIntro = ad, hCiphers = c, hNonces = n, hHeader = replicate RoutingHeaderLen 0\<rparr>, s5))))))
   (96 + (48 + (252 + (252 + 0))))"
  by (intro consumes_chain consumes_all)

text \<open>C11: \<^verbatim>\<open>HiddenService.Decode\<close> does not read what \<^verbatim>\<open>Encode\<close> writes. The intro is written with its own
  magic, which \<^verbatim>\<open>intro.Ad.Decode\<close> expects to be consumed already: the decoded identifier is the magic
  followed by half of the real one, every later field is shifted, and the routing header that
  follows is read over twice and never stored.\<close>

theorem hiddenservice_Decode_shifted:
  assumes "onion_ok C M dp (OHiddenService x o1)" and "onion_Len o1 = Inr n" and "248 \<le> n"
    and "KHiddenService \<in> set ks"
  shows "\<exists>s s1 m s2. Codec_Encode (hiddenservice_Len + n) (onion_Encode C M dp bl k (OHiddenService x o1)) = Inr s \<and>
     Recognise (registry_of ks) (NewFrom (sb s)) = Inr (Some KHiddenService, s1) \<and>
     hiddenservice_Decode C s1 = Inr (m, s2) \<and>
     aID (hIntro m) = bytes_of_string ''inad'' @ take 4 (aID (hIntro x)) \<and>
     hHeader m = replicate RoutingHeaderLen 0"
proof -
  have len: "onion_Len (OHiddenService x o1) = Inr (hiddenservice_Len + n)" using assms(2) by simp
  obtain s where s: "Codec_Encode (hiddenservice_Len + n) (onion_Encode C M dp bl k (OHiddenService x o1)) = Inr s"
    "sb s = onion_render C M dp bl k (OHiddenService x o1) (replicate (hiddenservice_Len + n) 0)"
    "length (sb s) = hiddenservice_Len + n"
    using Codec_Encode_onion [OF assms(1) len] by blast
  have li: "length (aID (hIntro x)) = 8" and lib: "length (intro_body C (hIntro x)) = 152"
    using assms(1) by (auto simp: intro_ok_def ad_ok_def len_simps)
  define i where "i = bytes_of_string ''inad'' @ take 4 (aID (hIntro x))"
  have ib: "take 4 (intro_body C (hIntro x)) = take 4 (aID (hIntro x))"
    using li by (simp add: intro_body_def)
  let ?m = "bytes_of_string (magic_of KHiddenService)"
  obtain tl where tl: "sb s = ?m @ i @ tl"
  proof
    show "sb s = ?m @ i @ drop 12 (sb s)"
      using ib lib unfolding s(2) i_def
      by (simp add: magic_of_def) (metis append_take_drop_id)
  qed
  have li8: "length i = 8" using li by (simp add: i_def)
  have ltl: "792 \<le> length tl" using tl s(3) assms(3) li8 by (simp add: hiddenservice_Len_def intro_Len_def)
  have "drop 792 tl = drop 648 (drop 144 tl)" by simp
  then have "tl = take 144 tl @ take 648 (drop 144 tl) @ drop 792 tl" by (simp only: append_take_drop_id)
  then obtain b1 b2 post where split: "tl = b1 @ b2 @ post" "length b1 = 144" "length b2 = 648"
    using ltl by (intro that [of "take 144 tl" "take 648 (drop 144 tl)" "drop 792 tl"]) simp_all
  have at0: "splice_at (NewFrom (sb s)) [] (?m @ i @ b1 @ b2 @ post)" unfolding tl split(1) by simp
  obtain s1 where s1: "Recognise (registry_of ks) (NewFrom (sb s)) = Inr (Some KHiddenService, s1)"
    "splice_at s1 ([] @ ?m) (i @ b1 @ b2 @ post)"
    using reads_pair_at [OF Recognise_reads [OF assms(4)] at0] .
  obtain ad s2 where ad: "intro_Decode C s1 = Inr (ad, s2)" "aID ad = i" "splice_at s2 (([] @ ?m) @ i @ b1) (b2 @ post)"
    using intro_Decode_any [OF s1(2) li8 split(2)] by blast
  have "TooShort (Remaining s1) (int (hiddenservice_Len - magic_Len)) ''hids'' = Inr ()"
    using Remaining_at [OF s1(2)] li8 split by (simp add: TooShort_def hiddenservice_Len_def intro_Len_def)
  moreover obtain m s3 where m: "rbind (ReadCiphers s2) (\<lambda>(c, s2). rbind (ReadNonces s2) (\<lambda>(n, s3).
     rbind (GetRoutingHeaderFromCursor s3) (\<lambda>(_, s4). rbind (ReadRoutingHeader s4) (\<lambda>(_, s5).
       Inr (\<lparr>hIntro = ad, hCiphers = c, hNonces = n, hHeader = replicate RoutingHeaderLen 0\<rparr>, s5))))) = Inr (m, s3)"
    using hidden_tail_consumes [of ad] ad(3) split(3) unfolding consumes_def by fastforce
  moreover from m have "hIntro m = ad \<and> hHeader m = replicate RoutingHeaderLen 0"
    by (auto simp: rbind_eq_Inr split: prod.splits)
  ultimately have "hiddenservice_Decode C s1 = Inr (m, s3)" "hIntro m = ad" "hHeader m = replicate RoutingHeaderLen 0"
    by (simp_all add: hiddenservice_Decode_def ad(1))
  then show ?thesis using s(1) s1(1) ad(2) by (auto simp: i_def)
qed

theorem hiddenservice_Decode_shifted_witness:
  "\<exists>s s1 m s2. Codec_Encode (hiddenservice_Len + 262) (onion_Encode demo_ops demo_maddr 26969 (\<lambda>i. []) 0
        (OHiddenService \<lparr>hIntro = demo_intro, hCiphers = replicate 3 (replicate 32 1), hNonces = replicate 3 (replicate 16 2),
             hHeader = []\<rparr> (OExit (demo_exit\<lparr>xBytes := replicate 100 7\<rparr>) OEnd))) = Inr s \<and>
     Recognise (registry_of all_kinds) (NewFrom (sb s)) = Inr (Some KHiddenService, s1) \<and>
     hiddenservice_Decode demo_ops s1 = Inr (m, s2) \<and>
     aID (hIntro m) = bytes_of_string ''inad'' @ take 4 (aID demo_intro) \<and>
     hHeader m = replicate RoutingHeaderLen 0"
proof -
  let ?x = "\<lparr>hIntro = demo_intro, hCiphers = replicate 3 (replicate 32 1), hNonces = replicate 3 (replicate 16 2), hHeader = []\<rparr>"
  let ?o = "OExit (demo_exit\<lparr>xBytes := replicate 100 7\<rparr>) OEnd"
  have 1: "onion_ok demo_ops demo_maddr 26969 (OHiddenService ?x ?o)"
    using demo_exit_ok demo_intro_ok by (simp add: exit_ok_def hashes_ok_def ivs_ok_def)
  have 2: "onion_Len ?o = Inr 262" by (simp add: exit_Len_def)
  show ?thesis
    using hiddenservice_Decode_shifted [OF 1 2, of all_kinds "\<lambda>i. []" 0] by (simp add: all_kinds_def del: onion_Encode.simps)
qed

end
