(* ===== verification/Engine_Relay.thy ===== *)
theory Engine_Relay
  imports Engine_Thms Onion_Thms
begin

text \<open>
  What becomes of a message at a relay. \<^verbatim>\<open>HandleMessage\<close> handles what \<^verbatim>\<open>Unwrap\<close> returns, and the layers that relay
  (forward, reverse, exit, session) return what they wrap, which is nil in a message that was just decoded.
\<close>

section \<open>One round\<close>

lemma engine_address_ok:
  "local_node (enMgr e) = Inr n \<Longrightarrow> ndAddresses n \<noteq> [] \<Longrightarrow> \<exists>a. local_address ev e = Inr a"
  by (simp add: local_address_def GetLocalNodeAddressString_def GetLocalNodeAddress_def index_expr_def)

text \<open>The kinds that \<^verbatim>\<open>Unwrap\<close> turns into nil.\<close>

definition dropped :: "msg_kind set" where
  "dropped = {KForward, KReverse, KExit, KSession, KIntroQuery, KBalance, KConfirmation, KReady, KRoute, KMessage,
     KAddressesAd, KIntroAd, KLoadAd, KPeerAd, KServicesAd, KNewKey, KAcknowledge}"

lemma dropped_unwraps:
  "k \<in> dropped \<Longrightarrow> codec_Decode ev k s = Inr (x, s2) \<Longrightarrow> codec_Unwrap reg x = Inr ONil"
  by (auto simp: dropped_def codec_Decode_def rmap_fst_def Let_def rbind_eq_Inr codec_Unwrap_def onion_Unwrap_def)

lemma handle_once_recognised:
  assumes "local_address ev e = Inr a" and "evReg ev = registry_of ks" and "k \<in> set ks"
    and "sb s = bytes_of_string (magic_of k) @ rest"
  shows "\<exists>s1. splice_at s1 (bytes_of_string (magic_of k)) rest \<and>
    handle_once ev s prev e =
      (case codec_Decode ev k s1 of
         Inl (Panic p) \<Rightarrow> Some (Inl (Panic p))
       | Inl (Error _) \<Rightarrow> Some (Inr (e, None))
       | Inr (x, s2) \<Rightarrow> obind (Some (codec_Unwrap (evReg ev) x)) (\<lambda>m.
           if m = ONil then Some (Inr (e, None))
           else (case onion_Handle ev m s2 prev e of Some (Inl (Error _)) \<Rightarrow> Some (Inr (e, None)) | r \<Rightarrow> r)))"
proof -
  have "splice_at ((SetCursor 0 s)\<lparr>sSegs := []\<rparr>) [] (bytes_of_string (magic_of k) @ rest)"
    using assms(4) by (simp add: splice_at_def SetCursor_def)
  from reads_pair_at [OF Recognise_reads [OF assms(3)] this] obtain s1 where
    "Recognise (registry_of ks) ((SetCursor 0 s)\<lparr>sSegs := []\<rparr>) = Inr (Some k, s1)"
    "splice_at s1 ([] @ bytes_of_string (magic_of k)) rest" .
  then show ?thesis unfolding handle_once_def using assms(1,2) by (auto simp: case_prod_unfold)
qed

lemma dropped_once:
  assumes "local_address ev e = Inr a" and "evReg ev = registry_of ks" and "k \<in> set ks"
    and "sb s = bytes_of_string (magic_of k) @ rest" and "k \<in> dropped"
  shows "handle_once ev s prev e = Some (Inr (e, None)) \<or> (\<exists>p. handle_once ev s prev e = Some (Inl (Panic p)))"
proof -
  obtain s1 where s1: "handle_once ev s prev e =
      (case codec_Decode ev k s1 of
         Inl (Panic p) \<Rightarrow> Some (Inl (Panic p))
       | Inl (Error _) \<Rightarrow> Some (Inr (e, None))
       | Inr (x, s2) \<Rightarrow> obind (Some (codec_Unwrap (evReg ev) x)) (\<lambda>m.
           if m = ONil then Some (Inr (e, None))
           else (case onion_Handle ev m s2 prev e of Some (Inl (Error _)) \<Rightarrow> Some (Inr (e, None)) | r \<Rightarrow> r)))"
    using handle_once_recognised [OF assms(1-4)] by blast
  show ?thesis
  proof (cases "codec_Decode ev k s1")
    case (Inl er)
    then show ?thesis using s1 by (cases er) simp_all
  next
    case (Inr xs)
    then show ?thesis using s1 dropped_unwraps [OF assms(5), of ev s1 "fst xs" "snd xs" "evReg ev"] by (cases xs) simp
  qed
qed

section \<open>Messages for a relay\<close>

lemma handle_forward:
  assumes "local_address ev e = Inr a" and "evReg ev = registry_of ks" and "KForward \<in> set ks" and "evM ev = M"
    and "fits_maddr M dp ma" and "sb s = bytes_of_string (magic_of KForward) @ maddr_image M dp ma @ rest"
  shows "handle_once ev s prev e = Some (Inr (e, None))"
proof -
  obtain s1 where s1: "splice_at s1 (bytes_of_string (magic_of KForward)) (maddr_image M dp ma @ rest)"
      "handle_once ev s prev e =
      (case codec_Decode ev KForward s1 of
         Inl (Panic p) \<Rightarrow> Some (Inl (Panic p))
       | Inl (Error _) \<Rightarrow> Some (Inr (e, None))
       | Inr (x, s2) \<Rightarrow> obind (Some (codec_Unwrap (evReg ev) x)) (\<lambda>m.
           if m = ONil then Some (Inr (e, None))
           else (case onion_Handle ev m s2 prev e of Some (Inl (Error _)) \<Rightarrow> Some (Inr (e, None)) | r \<Rightarrow> r)))"
    using handle_once_recognised [OF assms(1-3,6)] by blast
  have "reads (forward_Decode M) (maddr_image M dp ma) (Some ma)"
    using forward.dec_reads [of "Some ma" M dp] assms(5) by simp
  from reads_pair_at [OF this s1(1)] obtain s2 where "forward_Decode M s1 = Inr (Some ma, s2)" .
  then show ?thesis
    using s1(2) assms(4) by (simp add: codec_Decode_def rmap_fst_def codec_Unwrap_def onion_Unwrap_def)
qed

lemma handle_crypt:
  assumes "local_address ev e = Inr a" and "evReg ev = registry_of ks" and "KCrypt \<in> set ks" and "evC ev = C"
    and "peel_crypt C (registry_of ks) (evRand ev) prk b = Inr (cloak, b')"
    and "FindCloaked C cloak (enMgr e) = Inr (Some prk, pld, f, False)"
  shows "\<exists>s' y. handle_once ev (Load b 0) prev e = Some (Inr (e, Some (s', y))) \<and> sb s' = b'"
proof -
  have nf: "(SetCursor 0 (Load b 0))\<lparr>sSegs := []\<rparr> = NewFrom b" by (simp add: SetCursor_def Load_def NewFrom_def)
  obtain s1 x s2 s3 s4 where p: "Recognise (registry_of ks) (NewFrom b) = Inr (Some KCrypt, s1)"
      "crypt_Decode C s1 = Inr (x, s2)" "crypt_Decrypt C prk x s2 = Inr s3" "BudgeUp C (evRand ev) s3 = Inr s4"
      "cloak = cCloak x" "b' = sb s4"
    using assms(5) by (auto simp: peel_crypt_def elim!: rbind_InrE split: if_splits)
  have "crypt_Decrypt C prk (x\<lparr>cToPriv := Some prk\<rparr>) s2 = Inr s3" using p(3) by (simp add: crypt_Decrypt_def split: option.splits)
  then have "crypt_Handle ev x ONil s2 e = Inr (e, Some (s4, OCrypt (x\<lparr>cToPriv := Some prk\<rparr>) ONil))"
    using assms(4,6) p(4,5) by (simp add: crypt_Handle_def Let_def handle_next_def)
  then show ?thesis
    using assms(1,2,4) nf p
    by (simp add: handle_once_def codec_Decode_def rmap_fst_def codec_Unwrap_def onion_Unwrap_def onion_Handle_def)
qed

text \<open>C23: A relay does not relay. Take a message that the encoder of this code made for a relay that has the session: a
  crypt for the session key around a forward to the next relay around any message. The relay decrypts the crypt,
  recognises and decodes the forward, and then drops it: the engine is as it was, nothing is sent and nobody is
  charged. \<^verbatim>\<open>HandleMessage\<close> handles what \<^verbatim>\<open>Forward.Unwrap\<close> returns, the wrapped message, which decoding left nil.\<close>

theorem relay_drops_forward:
  assumes "crypto_laws C" and "env_crypto C env" and "\<forall>n. evReg (env n) = registry_of ks \<and> evM (env n) = M"
    and "{KCrypt, KForward} \<subseteq> set ks"
    and "local_node (enMgr e) = Inr node" and "ndAddresses node \<noteq> []"
    and "onion_ok C M dp (OCrypt x (OForward (Some ma) o1))" and "cDepth x = 0"
    and "cToHeaderPub x = Some (prv_pub C prk)" and "valid_pub C (prv_pub C (the (cFrom x)))"
    and "FindCloaked C (GetCloak C (bl 0) (prv_pub C prk)) (enMgr e) = Inr (Some prk, pld, f, False)"
  shows "\<exists>n s. onion_Len (OCrypt x (OForward (Some ma) o1)) = Inr n \<and>
    Codec_Encode n (onion_Encode C M dp bl 0 (OCrypt x (OForward (Some ma) o1))) = Inr s \<and>
    (\<forall>fuel. HandleMessage env (Suc (Suc fuel)) (Load (sb s) 0) ONil e = Some (Inr e))"
proof -
  let ?o = "OForward (Some ma) o1"
  obtain n where n: "onion_Len (OCrypt x ?o) = Inr n" "onion_used (OCrypt x ?o) \<le> n"
    using onion_Len_used [of C M dp "OCrypt x ?o"] assms(7) by auto
  obtain s where s: "Codec_Encode n (onion_Encode C M dp bl 0 (OCrypt x ?o)) = Inr s"
      "sb s = onion_render C M dp bl 0 (OCrypt x ?o) (replicate n 0)"
    using Codec_Encode_onion [OF assms(7) n(1)] by blast
  have addr: "\<exists>a. local_address ev e = Inr a" for ev using assms(5,6) by (rule engine_address_ok)
  have kinds: "KCrypt \<in> set ks" "KForward \<in> set ks" using assms(4) by simp_all
  have two: "HandleMessage env (Suc (Suc fuel)) (Load (sb s) 0) ONil e = Some (Inr e)" for fuel
  proof -
    let ?ev = "env (Suc fuel)"
    have "onion_used (OCrypt x ?o) \<le> length (replicate n (0 :: byte))" using n(2) by simp
    from peel_crypt_layer [OF assms(1) kinds(1) assms(7,8) this assms(9,10), of "evRand ?ev" bl 0 "[]"] obtain noise where
      peel: "peel_crypt C (registry_of ks) (evRand ?ev) prk (sb s) =
        Inr (GetCloak C (bl 0) (prv_pub C prk), onion_render C M dp bl 1 ?o (drop 61 (replicate n 0)) @ noise)"
      using s(2) by auto
    obtain s1 y where s1: "handle_once ?ev (Load (sb s) 0) ONil e = Some (Inr (e, Some (s1, y)))"
        "sb s1 = onion_render C M dp bl 1 ?o (drop 61 (replicate n 0)) @ noise"
      using handle_crypt [OF _ _ kinds(1) _ peel assms(11)] addr assms(2,3) unfolding env_crypto_def by blast
    have "fits_maddr M dp ma" using assms(7) by simp
    moreover have "sb s1 = bytes_of_string (magic_of KForward) @ maddr_image M dp ma @
        onion_render C M dp bl 2 o1 (drop 25 (drop 61 (replicate n 0))) @ noise"
      using s1(2) by (simp add: magic_of_def numeral_2_eq_2)
    ultimately have "handle_once (env fuel) s1 y e = Some (Inr (e, None))"
      using handle_forward [OF _ _ kinds(2)] addr assms(3) by blast
    then show ?thesis using s1(1) by simp
  qed
  then show ?thesis using n(1) s(1) by blast
qed

lemma demo_cloak:
  "FindCloaked demo_ops (GetCloak demo_ops [] (prv_pub demo_ops (Prv (ucast (10 :: byte))))) demo_mgr =
     Inr (Some (Prv (ucast (10 :: byte))), Some (Prv (ucast (11 :: byte))), Some 0, False)"
proof -
  let ?clk = "GetCloak demo_ops [] (prv_pub demo_ops (Prv (ucast (10 :: byte))))"
  have "\<not> Match demo_ops ?clk (kBytes (demo_keys 100))" by code_simp
  moreover have "Match demo_ops ?clk (kBytes (demo_keys 10))" by code_simp
  moreover have "ndIdentity (demo_node 100) = Some (demo_keys 100)" by (simp add: demo_node_def)
  moreover have "find (\<lambda>r. Match demo_ops ?clk (header_of demo_mgr r)) (mgSessions demo_mgr) = Some 0"
    if "Match demo_ops ?clk (kBytes (demo_keys 10))"
  proof -
    have "mgSessions demo_mgr = [0, 1]" by (simp add: demo_mgr_def)
    then show ?thesis using that demo_mgr_of(1) by simp
  qed
  moreover have "sdHeader (the (mgS demo_mgr 0)) = Some (demo_keys 10)" "sdPayload (the (mgS demo_mgr 0)) = Some (demo_keys 11)"
    by (simp_all add: demo_mgr_def demo_sess_def)
  ultimately show ?thesis
    using FindCloaked_is [OF demo_mgr_ok demo_local, of "demo_keys 100" ?clk demo_ops] by (simp add: demo_keys_def)
qed

theorem relay_drops_forward_witness:
  "\<exists>n s. onion_Len (OCrypt (demo_crypt 11 10) (OForward (Some demo_addr) (OExit demo_exit OEnd))) = Inr n \<and>
    Codec_Encode n (onion_Encode demo_ops demo_maddr 26969 (\<lambda>_. []) 0
      (OCrypt (demo_crypt 11 10) (OForward (Some demo_addr) (OExit demo_exit OEnd)))) = Inr s \<and>
    (\<forall>fuel. HandleMessage (\<lambda>_. demo_env) (Suc (Suc fuel)) (Load (sb s) 0) ONil demo_engine = Some (Inr demo_engine))"
  by (rule relay_drops_forward [OF demo_ops_laws demo_env_crypto, where prk = "Prv (ucast (10 :: byte))" and ks = all_kinds
        and node = "demo_node 100" and M = demo_maddr])
    (use demo_cloak demo_local demo_addr_fits in
      \<open>simp_all add: demo_env_def demo_engine_def all_kinds_def demo_node_def demo_crypt_def crypt_ok_def demo_exit_ok demo_prv_pub_valid\<close>)

section \<open>Routes to hidden services\<close>

lemma rmap_fails: "x \<in> set xs \<Longrightarrow> f x = Inl e \<Longrightarrow> \<exists>er. rmap f xs = Inl er"
proof (induction xs)
  case (Cons y ys)
  then show ?case by (cases "f y") auto
qed simp

lemma route_addresses_fails: "length rt \<le> 3 \<Longrightarrow> \<exists>er. route_addresses ev rt m = Inl er"
  unfolding route_addresses_def by (rule rmap_fails [of 3 _ _ index_panic]) (simp_all add: index_expr_def)

text \<open>A hidden service never answers a route message, the request of a client for a connection. If the engine has no such
  service, the message is dropped; if it has it, the handler looks up the addresses of five sessions in an array of
  three and panics, unless it failed or hung before: in no case is there a reply, and in no case does the
  engine change.\<close>

theorem route_never_answers:
  "route_Handle ev x s e = None \<or> route_Handle ev x s e = Some (Inr (e, None)) \<or> (\<exists>er. route_Handle ev x s e = Some (Inl er))"
proof -
  have "ensures_run (\<lambda>r. r = (e, None)) (route_Handle ev x s e)"
    unfolding route_Handle_def Let_def
  proof (intro ensures_intros; simp)
    fix ss m addrs assume "route_addresses ev (take 3 ss) m = Inr addrs"
    then show "ensures P y" for P and y :: "outcome res" using route_addresses_fails [of "take 3 ss" ev m] by auto
  qed
  then have "r = Inr (e, None) \<or> (\<exists>er. r = Inl er)" if "route_Handle ev x s e = Some r" for r
    using that by (cases r) (auto simp: ensures_run_def)
  then show ?thesis by (cases "route_Handle ev x s e") auto
qed

end
