(* ===== verification/Engine_Accounts.thy ===== *)
theory Engine_Accounts
  imports Engine_Relay
begin

text \<open>
  A response that arrives is accounted for in full: the relays on the way are charged what the code means to charge, the
  accounting hooks run, and then the callback of the request, once.
\<close>

section \<open>Charging does not panic\<close>

text \<open>Every session is complete and its node has an address to print.\<close>

definition chargeable :: "mgr \<Rightarrow> bool" where
  "chargeable m \<longleftrightarrow> mgr_ok m \<and> (\<forall>r \<in> set (mgSessions m). \<exists>a as. addresses_of m r = Some a # as)"

lemma chargeableD:
  assumes "chargeable m" and "r \<in> set (mgSessions m)"
  obtains s h p nr n a as where "mgS m r = Some s" "sdHeader s = Some h" "sdPayload s = Some p" "sdNode s = Some nr"
    "mgN m nr = Some n" "ndAddresses n = Some a # as" "header_of m r = kBytes h"
proof -
  have "sess_ok m r" using assms by (auto simp: chargeable_def intro: mgr_okD(1))
  moreover obtain a as where "addresses_of m r = Some a # as" using assms by (auto simp: chargeable_def)
  ultimately show ?thesis using that by (elim sess_okE) (auto simp: addresses_of_def)
qed

lemma DecSession_total:
  assumes "chargeable m"
  shows "\<exists>m' b. DecSession k x m = Inr (m', b)"
proof -
  have f: "FindSessionByPubkey k m = Inr (find (\<lambda>r. header_of m r = k) (mgSessions m))"
    using assms by (auto simp: chargeable_def intro: FindSessionByPubkey_ok)
  obtain q where q: "go_div x 1024 = Inr q" by (simp add: go_div_def)
  obtain q2 where q2: "go_div q 1024 = Inr q2" by (simp add: go_div_def)
  show ?thesis
  proof (cases "find (\<lambda>r. header_of m r = k) (mgSessions m)")
    case None
    then show ?thesis using f by (auto simp: DecSession_def)
  next
    case (Some r)
    then have "r \<in> set (mgSessions m)" by (auto dest: find_Some_in_set)
    then show ?thesis
      using f Some q q2
      by (elim chargeableD [OF assms])
        (auto simp: DecSession_def sess_at_def node_of_def node_at_def DecSats_def index_expr_def)
  qed
qed

lemma billed_chargeable: "chargeable m \<Longrightarrow> billed m m' \<Longrightarrow> chargeable m'"
proof -
  assume c: "chargeable m" and b: "billed m m'"
  have same: "mgSessions m' = mgSessions m" "mgN m' = mgN m" using b by (simp_all add: billed_def)
  have "\<exists>a as. addresses_of m' r = Some a # as" if "r \<in> set (mgSessions m')" for r
  proof -
    have r: "r \<in> set (mgSessions m)" using that same by simp
    obtain s where s: "mgS m r = Some s" by (rule chargeableD [OF c r])
    have "addresses_of m' r = addresses_of m r"
      using billedD [OF b s] s same by (auto simp: addresses_of_def)
    then show ?thesis using c r by (auto simp: chargeable_def)
  qed
  then show ?thesis using billed_ok [OF _ b] c by (simp add: chargeable_def)
qed

section \<open>What a response costs\<close>

text \<open>The manager after a charge.\<close>

definition bill_key :: "bytes \<Rightarrow> int \<Rightarrow> mgr \<Rightarrow> mgr" where
  "bill_key k x m = (case DecSession k x m of Inl _ \<Rightarrow> m | Inr (m', _) \<Rightarrow> m')"

text \<open>The price for the \<open>i\<close>-th session of the circuit, by its node: the relay rate, or half the rate of the service for
  the exit, times the size of the request before the exit and the size of the response from there on.\<close>

definition response_price :: "response_msg \<Rightarrow> int \<Rightarrow> int \<Rightarrow> nat \<Rightarrow> node \<Rightarrow> int" where
  "response_price x slen sent i n =
     int (unat (if i = 2 then response_rate (pPort x) n else ndRelayRate n)) * (if i < 2 then sent else slen)"

definition response_bill :: "response_msg \<Rightarrow> int \<Rightarrow> int \<Rightarrow> nat \<times> bytes \<Rightarrow> mgr \<Rightarrow> mgr" where
  "response_bill x slen sent ik m =
     (case find (\<lambda>r. header_of m r = snd ik) (mgSessions m) of
        None \<Rightarrow> m
      | Some r \<Rightarrow> bill_key (snd ik) (response_price x slen sent (fst ik) (the (mgN m (the (sdNode (the (mgS m r))))))) m)"

lemma bill_key_billed: "billed m (bill_key k x m)"
  by (auto simp: bill_key_def billed_refl DecSession_billed split: sum.split)

lemma charge_is: "chargeable (enMgr e) \<Longrightarrow> charge k x e = Inr (e\<lparr>enMgr := bill_key k x (enMgr e)\<rparr>)"
  using DecSession_total [of "enMgr e" k x] by (auto simp: charge_def bill_key_def)

lemma response_bill_billed: "billed m (response_bill x slen sent ik m)"
  by (auto simp: response_bill_def billed_refl bill_key_billed split: option.split)

lemma response_charge_is:
  assumes "chargeable (enMgr e)" and "enLocked e = []"
  shows "response_charge x slen sent ik e = Some (Inr (e\<lparr>enMgr := response_bill x slen sent ik (enMgr e)\<rparr>))"
proof -
  obtain i key where ik: "ik = (i, key)" by force
  let ?m = "enMgr e"
  have f: "FindSessionByPubkey key ?m = Inr (find (\<lambda>r. header_of ?m r = key) (mgSessions ?m))"
    using assms by (auto simp: chargeable_def intro: FindSessionByPubkey_ok)
  have lk: "obind (lock_node nr e) (unlock_node nr) = Some (Inr e)" for nr
    using assms(2) by (simp add: lock_node_def unlock_node_def)
  show ?thesis
  proof (cases "find (\<lambda>r. header_of ?m r = key) (mgSessions ?m)")
    case None
    then show ?thesis using f ik by (simp add: response_charge_def response_bill_def)
  next
    case (Some r)
    then have r: "r \<in> set (mgSessions ?m)" "header_of ?m r = key" by (auto dest: find_Some_in_set)
    obtain s h nr n where "mgS ?m r = Some s" "sdHeader s = Some h" "sdNode s = Some nr" "mgN ?m nr = Some n" "kBytes h = key"
      by (rule chargeableD [OF assms(1) r(1)]) (use r(2) in simp)
    then show ?thesis
      using f Some ik lk charge_is [OF assms(1)]
      by (simp add: response_charge_def response_bill_def sess_at_def node_at_def header_bytes_def response_price_def)
  qed
qed

lemma response_charges_are:
  assumes "chargeable (enMgr e)" and "enLocked e = []"
  shows "ofold (response_charge x slen sent) iks e = Some (Inr (e\<lparr>enMgr := fold (response_bill x slen sent) iks (enMgr e)\<rparr>))"
  using assms
proof (induction iks arbitrary: e)
  case (Cons ik iks)
  let ?e = "e\<lparr>enMgr := response_bill x slen sent ik (enMgr e)\<rparr>"
  have "chargeable (enMgr ?e)" using billed_chargeable [OF Cons.prems(1) response_bill_billed] by simp
  then show ?case using Cons.IH [of ?e] Cons.prems response_charge_is by simp
qed simp

lemma fold_bill_chargeable:
  "chargeable m \<Longrightarrow> chargeable (fold (response_bill x slen sent) iks m) \<and> billed m (fold (response_bill x slen sent) iks m)"
proof (induction iks arbitrary: m)
  case (Cons ik iks)
  have b: "billed m (response_bill x slen sent ik m)" by (rule response_bill_billed)
  show ?case using Cons.IH [OF billed_chargeable [OF Cons.prems b]] billed_trans [OF b] by auto
qed (simp add: billed_refl)

section \<open>Hooks\<close>

definition acct_ok :: "mgr \<Rightarrow> acct \<Rightarrow> bool" where
  "acct_ok m a = (case a of
      AcctRelay r _ \<Rightarrow> r \<in> set (mgSessions m)
    | AcctExit r j _ \<Rightarrow> r \<in> set (mgSessions m) \<and> j < length (ndServices (the (mgN m (the (sdNode (the (mgS m r))))))))"

definition hook_bill :: "acct \<Rightarrow> mgr \<Rightarrow> mgr" where
  "hook_bill a m = (case run_acct a m of Inl _ \<Rightarrow> m | Inr m' \<Rightarrow> m')"

lemma run_acct_total:
  assumes "chargeable m" and "acct_ok m a"
  shows "run_acct a m = Inr (hook_bill a m) \<and> billed m (hook_bill a m)"
proof -
  obtain r where r: "r \<in> set (mgSessions m)" "(\<exists>len. a = AcctRelay r len) \<or> (\<exists>j len. a = AcctExit r j len)"
    using assms(2) by (cases a) (auto simp: acct_ok_def)
  obtain s h nr n where s: "mgS m r = Some s" "sdHeader s = Some h" "sdNode s = Some nr" "mgN m nr = Some n"
    by (rule chargeableD [OF assms(1) r(1)]) blast
  have dec: "\<exists>m'. rbind (DecSession k x m) (\<lambda>(m', _). Inr m') = Inr m' \<and> billed m m'" for k x
    using DecSession_total [OF assms(1), of k x] DecSession_billed by fastforce
  have div: "\<exists>q. go_div x 2 = Inr q" for x by (simp add: go_div_def)
  have "\<exists>m'. run_acct a m = Inr m' \<and> billed m m'"
  proof (cases a)
    case (AcctRelay r' len)
    then have "r' = r" using r(2) by auto
    then show ?thesis using AcctRelay s dec
      by (simp add: run_acct_def session_header_def session_node_def sess_at_def header_bytes_def node_of_def node_at_def)
  next
    case (AcctExit r' j len)
    then have "r' = r" "j < length (ndServices n)" using r(2) assms(2) s by (auto simp: acct_ok_def)
    moreover obtain q where "go_div (int (unat (svcRelayRate (ndServices n ! j))) * int len) 2 = Inr q" using div by blast
    ultimately show ?thesis using AcctExit s dec
      by (simp add: run_acct_def session_header_def session_node_def sess_at_def header_bytes_def node_of_def node_at_def
          index_expr_def)
  qed
  then show ?thesis by (auto simp: hook_bill_def)
qed

lemma acct_ok_billed: "billed m m' \<Longrightarrow> chargeable m \<Longrightarrow> acct_ok m a \<Longrightarrow> acct_ok m' a"
proof -
  assume b: "billed m m'" and c: "chargeable m" and a: "acct_ok m a"
  have same: "mgSessions m' = mgSessions m" "mgN m' = mgN m" using b by (simp_all add: billed_def)
  have "sdNode (the (mgS m' r)) = sdNode (the (mgS m r))" if r: "r \<in> set (mgSessions m)" for r
  proof -
    obtain s where s: "mgS m r = Some s" by (rule chargeableD [OF c r])
    then show ?thesis using billedD [OF b s] by auto
  qed
  then show ?thesis using a same by (auto simp: acct_ok_def split: acct.splits)
qed

lemma hooks_total:
  assumes "chargeable m" and "list_all (acct_ok m) hooks"
  shows "rfold run_acct hooks m = Inr (fold hook_bill hooks m)"
  using assms
proof (induction hooks arbitrary: m)
  case (Cons a hooks)
  have a: "run_acct a m = Inr (hook_bill a m)" "billed m (hook_bill a m)"
    using run_acct_total [OF Cons.prems(1)] Cons.prems(2) by auto
  have "list_all (acct_ok (hook_bill a m)) hooks"
    using Cons.prems acct_ok_billed [OF a(2)] by (auto simp: list_all_iff)
  then show ?case using Cons.IH [OF billed_chargeable [OF Cons.prems(1) a(2)]] a(1) by simp
qed simp

section \<open>A response\<close>

lemma finish_pending_is:
  assumes "Pending_Find i (enPending e) = Some p" and "rsCallback p = Some cb"
    and "chargeable (enMgr e)" and "list_all (acct_ok (enMgr e)) (rsPostAcct p)"
  shows "finish_pending ev i payload e = Inr (e\<lparr>enMgr := fold hook_bill (rsPostAcct p) (enMgr e),
    enPending := remove_first (\<lambda>q. rsID q = i) (enPending e), enCalls := enCalls e @ [(cb, i, payload)]\<rparr>)"
proof -
  obtain k where k: "find_index (\<lambda>q. rsID q = i) (enPending e) = Some k" "enPending e ! k = p"
    using assms(1) by (auto simp: Pending_Find_def find_by_index)
  then have "(if k < 1 then drop 1 (enPending e) else del_at k (enPending e)) = remove_first (\<lambda>q. rsID q = i) (enPending e)"
    by (auto simp: remove_first_def del_at_def)
  then show ?thesis
    using k assms(2) hooks_total [OF assms(3,4)] by (simp add: finish_pending_def ProcessAndDelete_def)
qed

lemma response_handled:
  assumes "chargeable (enMgr e)" and "enLocked e = []" and "local_node (enMgr e) = Inr n" and "ndAddresses n \<noteq> []"
    and "Pending_Find (pID' x) (enPending e) = Some p" and "rsCallback p = Some cb"
    and "list_all (acct_ok (enMgr e)) (rsPostAcct p)"
    and "evReg (env fuel) = registry_of ks" and "KResponse \<in> set ks" and "response_ok x"
    and "sb s = bytes_of_string ''resp'' @ response_body x @ rest"
  shows "\<exists>e'. HandleMessage env (Suc fuel) s prev e = Some (Inr e') \<and>
    enMgr e' = fold hook_bill (rsPostAcct p)
      (fold (response_bill x (int (length (sb s))) (rsSentSize p)) (zip [0..<length (rsBillable p)] (rsBillable p)) (enMgr e)) \<and>
    enPending e' = remove_first (\<lambda>q. rsID q = pID' x) (enPending e) \<and>
    enCalls e' = enCalls e @ [(cb, pID' x, pBytes x)]"
proof -
  let ?ev = "env fuel" and ?bills = "fold (response_bill x (int (length (sb s))) (rsSentSize p)) (zip [0..<length (rsBillable p)] (rsBillable p))"
  have m: "sb s = bytes_of_string (magic_of KResponse) @ response_body x @ rest" using assms(11) by (simp add: magic_of_def)
  obtain a where "local_address ?ev e = Inr a" using engine_address_ok [OF assms(3,4)] by blast
  from handle_once_recognised [OF this assms(8,9) m, of prev] obtain s1 where
    s1: "splice_at s1 (bytes_of_string (magic_of KResponse)) (response_body x @ rest)"
      "handle_once ?ev s prev e =
      (case codec_Decode ?ev KResponse s1 of
         Inl (Panic p) \<Rightarrow> Some (Inl (Panic p))
       | Inl (Error _) \<Rightarrow> Some (Inr (e, None))
       | Inr (x, s2) \<Rightarrow> obind (Some (codec_Unwrap (evReg ?ev) x)) (\<lambda>m.
           if m = ONil then Some (Inr (e, None))
           else (case onion_Handle ?ev m s2 prev e of Some (Inl (Error _)) \<Rightarrow> Some (Inr (e, None)) | r \<Rightarrow> r)))"
    by blast
  from reads_pair_at [OF response_reads [OF assms(10)] s1(1)] obtain s2 where
    s2: "response_Decode s1 = Inr (x, s2)" "splice_at s2 (bytes_of_string (magic_of KResponse) @ response_body x) rest" .
  have len: "Splice_Len s2 = int (length (sb s))" using s2(2) m by (simp add: splice_at_def Splice_Len_def)
  let ?e1 = "e\<lparr>enMgr := ?bills (enMgr e)\<rparr>"
  have c: "chargeable (enMgr ?e1)" and b: "billed (enMgr e) (enMgr ?e1)"
    using fold_bill_chargeable [OF assms(1)] by auto
  have "list_all (acct_ok (enMgr ?e1)) (rsPostAcct p)"
    using assms(7) acct_ok_billed [OF b assms(1)] by (simp add: list_all_iff)
  then have "finish_pending ?ev (pID' x) (pBytes x) ?e1 = Inr (?e1\<lparr>enMgr := fold hook_bill (rsPostAcct p) (enMgr ?e1),
      enPending := remove_first (\<lambda>q. rsID q = pID' x) (enPending ?e1), enCalls := enCalls ?e1 @ [(cb, pID' x, pBytes x)]\<rparr>)"
    using finish_pending_is [of "pID' x" ?e1 p cb] assms(5,6) c by simp
  then show ?thesis
    using s1(2) s2(1) response_charges_are [OF assms(1,2)] assms(5) len
    by (simp add: codec_Decode_def rmap_fst_def codec_Unwrap_def onion_Unwrap_def onion_Handle_def response_Handle_def)
qed

text \<open>C24: A response to a pending request is processed in full and does not fail: the engine charges every session that was
  recorded as billable its price (the relay rate for the size of the request before the exit, for the size of the response
  after it, and half the rate of the service at the exit), then runs the accounting hooks of the request, takes it off
  the pending ones and runs its callback, once, with the payload of the response.\<close>

theorem response_completes:
  assumes "chargeable (enMgr e)" and "enLocked e = []" and "local_node (enMgr e) = Inr n" and "ndAddresses n \<noteq> []"
    and "Pending_Find (pID' x) (enPending e) = Some p" and "rsCallback p = Some cb"
    and "list_all (acct_ok (enMgr e)) (rsPostAcct p)"
    and "evReg (env fuel) = registry_of ks" and "KResponse \<in> set ks" and "response_ok x"
    and "sb s = bytes_of_string ''resp'' @ response_body x @ rest"
  shows "\<exists>e'. HandleMessage env (Suc fuel) s prev e = Some (Inr e') \<and>
    enMgr e' = fold hook_bill (rsPostAcct p)
      (fold (response_bill x (int (length (sb s))) (rsSentSize p)) (zip [0..<length (rsBillable p)] (rsBillable p)) (enMgr e)) \<and>
    enPending e' = remove_first (\<lambda>q. rsID q = pID' x) (enPending e) \<and>
    enCalls e' = enCalls e @ [(cb, pID' x, pBytes x)]"
  using assms by (rule response_handled)

section \<open>The response to the pending request\<close>

definition demo_response_msg :: response_msg where
  "demo_response_msg = \<lparr>pID' = replicate 8 1, pPort = 80, pLoad = 3, pBytes = [1, 2]\<rparr>"

definition demo_response_bytes :: bytes where
  "demo_response_bytes = bytes_of_string ''resp'' @ response_body demo_response_msg"

lemma demo_chargeable: "chargeable demo_mgr"
proof -
  have "mgSessions demo_mgr = [0, 1]" by (simp add: demo_mgr_def)
  then show ?thesis using demo_mgr_ok by (simp add: chargeable_def demo_mgr_of)
qed

lemma demo_response_premises:
  "chargeable (enMgr demo_engine)" "enLocked demo_engine = []" "local_node (enMgr demo_engine) = Inr (demo_node 100)"
  "ndAddresses (demo_node 100) \<noteq> []" "Pending_Find (pID' demo_response_msg) (enPending demo_engine) = Some demo_request"
  "rsCallback demo_request = Some 7" "list_all (acct_ok (enMgr demo_engine)) (rsPostAcct demo_request)"
  "evReg demo_env = registry_of all_kinds" "KResponse \<in> set all_kinds" "response_ok demo_response_msg"
  "sb (Load demo_response_bytes 0) = bytes_of_string ''resp'' @ response_body demo_response_msg @ []"
  by (simp_all add: demo_engine_def demo_chargeable demo_local demo_node_def demo_request_def demo_response_msg_def Pending_Find_def
      demo_env_def all_kinds_def response_ok_def Load_def demo_response_bytes_def acct_ok_def) (simp add: demo_mgr_def)

theorem response_completes_witness:
  "\<exists>e'. HandleMessage (\<lambda>_. demo_env) (Suc 0) (Load demo_response_bytes 0) ONil demo_engine = Some (Inr e') \<and>
    enMgr e' = fold hook_bill [AcctRelay 1 4096]
      (fold (response_bill demo_response_msg (int (length demo_response_bytes)) 4096)
         [(0, kBytes (demo_keys 10)), (1, kBytes (demo_keys 20))] demo_mgr) \<and>
    enPending e' = [] \<and> enCalls e' = [(7, replicate 8 1, [1, 2])]"
proof -
  have "zip [0..<2] [kBytes (demo_keys 10), kBytes (demo_keys 20)] = [(0, kBytes (demo_keys 10)), (1, kBytes (demo_keys 20))]"
    by (simp add: upt_rec)
  moreover have "sb (Load demo_response_bytes 0) = demo_response_bytes" by (simp add: Load_def)
  ultimately show ?thesis
    using response_completes [OF demo_response_premises(1-7), of "\<lambda>_. demo_env" 0 all_kinds "Load demo_response_bytes 0" "[]" ONil]
      demo_response_premises(8-11)
    by (simp add: demo_engine_def demo_request_def demo_response_msg_def numeral_2_eq_2)
qed

lemma demo_response_event:
  "\<exists>e'. Handler (\<lambda>_. demo_env) 1 (EvMessage demo_response_bytes) demo_engine = Some (Inr e') \<and> enPending e' = [] \<and>
     enCalls e' = [(7, replicate 8 1, [1, 2])]"
proof -
  obtain e' where e': "HandleMessage (\<lambda>_. demo_env) (Suc 0) (Load demo_response_bytes 0) ONil demo_engine = Some (Inr e')"
      "enPending e' = remove_first (\<lambda>q. rsID q = pID' demo_response_msg) (enPending demo_engine)"
      "enCalls e' = enCalls demo_engine @ [(7, pID' demo_response_msg, pBytes demo_response_msg)]"
    using response_handled [OF demo_response_premises(1-7), of "\<lambda>_. demo_env" 0 all_kinds "Load demo_response_bytes 0" "[]" ONil]
      demo_response_premises(8-11) by blast
  have "\<not> enPaused demo_engine" by (simp add: demo_engine_def)
  then have "Handler (\<lambda>_. demo_env) 1 (EvMessage demo_response_bytes) demo_engine = Some (Inr e')"
    using e'(1) by (simp only: Handler_def event.case One_nat_def if_False)
  moreover have "enPending e' = []" "enCalls e' = [(7, replicate 8 1, [1, 2])]"
    using e'(2,3) by (simp_all add: demo_engine_def demo_request_def demo_response_msg_def)
  ultimately show ?thesis by blast
qed


theorem message_callbacks_once_witness:
  "\<exists>e' cs. Handler (\<lambda>_. demo_env) 1 (EvMessage demo_response_bytes) demo_engine = Some (Inr e') \<and>
    enCalls e' = cs \<and> waiting [demo_request] = delivered cs + waiting (enPending e') \<and> cs = [(7, replicate 8 1, [1, 2])]"
proof -
  obtain e' where e': "Handler (\<lambda>_. demo_env) 1 (EvMessage demo_response_bytes) demo_engine = Some (Inr e')"
      "enCalls e' = [(7, replicate 8 1, [1, 2])]"
    using demo_response_event by blast
  have "enCalls demo_engine = []" "enPending demo_engine = [demo_request]" by (simp_all add: demo_engine_def)
  then show ?thesis using message_callbacks_once [OF demo_env_crypto e'(1)] e' by auto
qed

end
