(* ===== verification/Clients_Props.thy ===== *)
theory Clients_Props
  imports Clients Engine_Accounts
begin

text \<open>
  What becomes of the messages of a client: the accounting that \<^verbatim>\<open>PostAcctOnion\<close> sets up for a request, and why neither a
  sender nor the purchase of sessions ever gets a message out.
\<close>

section \<open>Nothing leaves\<close>

lemma obind_not_Inr: "(\<And>x. m = Some (Inr x) \<Longrightarrow> f x \<noteq> Some (Inr y)) \<Longrightarrow> obind m f \<noteq> Some (Inr y)"
  by (auto elim!: obind_InrE)

lemma SendWithOneHook_not_Inr [simp]: "SendWithOneHook k s y ds d now nilhook r hook m p \<noteq> Inr z"
  using SendWithOneHook_panics [of k s y ds d now nilhook r hook m p] by auto

lemma send_out_fails: "send_out ev now nilhook addrs hook msg e \<noteq> Some (Inr r)"
  by (auto simp: send_out_def rbind_eq_Inr elim!: obind_InrE)

lemmas fails_intros = obind_not_Inr send_out_fails

lemma hidden_service_fails:
  "SendHiddenService ev now nilhook f i key rate port expiry alice bob svc hook e \<noteq> Some (Inr r)"
  by (auto simp: SendHiddenService_def Let_def rbind_eq_Inr elim!: obind_InrE dest!: PickAddress_nil)

text \<open>C25: No client request ever leaves the engine. Whatever the sessions, keys, nodes and random draws are, none of the seven senders
  returns with a message sent: the call loops, or it ends in a panic or an error. \<^verbatim>\<open>SendRoute\<close> returns only where it
  has no session for the address, without a message.\<close>

theorem senders_never_send:
  "SendExit ev now nilhook port msg i alice bob hook e \<noteq> Some (Inr r) \<and>
   SendGetBalance ev now nilhook alice bob hook e \<noteq> Some (Inr r) \<and>
   SendIntroQuery ev now nilhook i hsk alice bob fn e \<noteq> Some (Inr r) \<and>
   SendMessage ev now nilhook forwards mp hook e \<noteq> Some (Inr r) \<and>
   SendPing ev now nilhook i c hook e \<noteq> Some (Inr r) \<and>
   SendRoute ev now nilhook i iv k ap hook e \<noteq> Some (Inr (Some r)) \<and>
   SendHiddenService ev now nilhook to_addr_port i key rate port expiry alice bob svc hook e \<noteq> Some (Inr (ad, e'))"
  unfolding SendExit_def SendGetBalance_def SendIntroQuery_def SendMessage_def SendPing_def SendRoute_def Let_def
  by (intro conjI fails_intros hidden_service_fails) (auto split: option.splits elim!: obind_InrE simp: send_out_fails)

section \<open>Buying sessions\<close>

lemma no_error_put_field [simp]: "no_error (put_field n v s)"
  by (simp add: put_field_def no_error_rbind)

lemma no_error_rmark: "no_error m \<Longrightarrow> no_error (rmark nm m)"
  by (simp add: rmark_def no_error_rbind)

lemma no_error_writers [simp]:
  "no_error (wMagic mg s)" "no_error (wIV iv s)" "no_error (wCloak C rand pk s)" "no_error (wPubkey C k s)"
  "no_error (wID i s)" "no_error (wPrvkey C p s)"
  by (simp_all add: wMagic_def wIV_def wCloak_def wPubkey_def wID_def wPrvkey_def no_error_rmark split: option.splits)

lemma no_error_chain: "(\<And>f s. f \<in> set fs \<Longrightarrow> no_error (f s)) \<Longrightarrow> no_error (chain fs s)"
  by (induction fs arbitrary: s) (auto intro!: no_error_rbind)

text \<open>A crypt around a session message around a forward without an address cannot be encoded.\<close>

lemma nil_forward_panics: "panics (onion_Encode C M dp blind k (OForward None inner) s)"
  by (simp add: forward_Encode_def nil_panic_def)

lemma session_panics:
  assumes "\<And>s. panics (onion_Encode C M dp blind (Suc k) inner s)"
  shows "panics (onion_Encode C M dp blind k (OSession x inner) s)"
proof -
  have "no_error (chain [wMagic ''sess'', wID (sID x), wPrvkey C h, wPrvkey C p] s)" for h p
    by (rule no_error_chain) auto
  then have "panics (rbind (chain [wMagic ''sess'', wID (sID x), wPrvkey C h, wPrvkey C p] s)
      (onion_Encode C M dp blind (Suc k) inner))" for h p
    by (rule panics_rbind) (rule assms)
  then show ?thesis by (simp add: session_Encode_def nil_panic_def split: option.splits)
qed

lemma crypt_panics:
  assumes "\<And>s. panics (onion_Encode C M dp blind (Suc k) inner s)" and "cToHeaderPub x \<noteq> None" and "cDepth x = 0"
    and "inner \<noteq> ONil"
  shows "panics (onion_Encode C M dp blind k (OCrypt x inner) s)"
proof (cases "cFrom x")
  case None
  then show ?thesis by (simp add: crypt_Encode_def nil_panic_def)
next
  case (Some fk)
  obtain to where to: "cToHeaderPub x = Some to" using assms(2) by auto
  have "no_error (chain [wMagic ''cryp'', wIV (cIV x), wCloak C (blind k) (Some to), wPubkey C (DerivePub C (Some fk))] s)"
    by (rule no_error_chain) auto
  moreover have "panics (rbind (onion_Encode C M dp blind (Suc k) inner s1) g)" for s1 and g :: "splice \<Rightarrow> splice res"
    using assms(1) [of s1] by (auto simp: panics_iff)
  ultimately show ?thesis
    using Some to assms(3,4)
    by (simp add: crypt_Encode_def crypt_end_def encode_some_def Let_def panics_rbind del: chain.simps)
qed

lemma no_error_nil [simp]: "no_error (Inl nil_panic)"
  by (simp add: no_error_def nil_panic_def)

lemma Codec_Encode_panics: "panics (enc (New l)) \<Longrightarrow> panics (Codec_Encode l enc)"
  by (auto simp: panics_iff Codec_Encode_def)

lemma no_error_onion_Len: "no_error (onion_Len x)"
  by (induction x) (simp_all add: no_error_rbind)

lemma encode_all_panics:
  assumes "cToHeaderPub c \<noteq> None" and "cDepth c = 0"
  shows "panics (encode_all ev (OCrypt c y # OSession x z # OForward None w # os))"
proof -
  obtain inner where o1: "Assemble (OCrypt c y # OSession x z # OForward None w # os) =
      Inr (OCrypt c (OSession x (OForward None inner)))"
    by (cases os) (auto simp: Assemble_def)
  have "panics (onion_Encode C M dp blind 0 (OCrypt c (OSession x (OForward None inner))) s)" for C M dp blind s
    by (rule crypt_panics [OF session_panics [OF nil_forward_panics]]) (use assms in simp_all)
  note enc = Codec_Encode_panics [OF this]
  show ?thesis
    unfolding encode_all_def o1 by (simp add: panics_rbind no_error_onion_Len enc del: onion_Len.simps onion_Encode.simps)
qed

text \<open>The message that \<^verbatim>\<open>MakeSession\<close> builds starts with a crypt, a session and a forward without an address.\<close>

lemma session_hops_prefix: "session_hops ev m p hs sk ks = Inr (sk', ks') \<Longrightarrow> \<exists>r. sk' = sk @ r"
proof (induction hs arbitrary: sk ks)
  case (Cons h hs)
  obtain i x nr n where h: "h = (i, x, nr, n)" by (cases h)
  obtain k ks1 where k: "Next (evC ev) ks = (k, ks1)" by fastforce
  obtain sk1 where sk1: "\<exists>r. sk1 = sk @ r" "session_hops ev m p hs sk1 ks1 = Inr (sk', ks')"
    using Cons.prems
    by (auto simp: h k rbind_eq_Inr Skins_ForwardSession_def Skins_Session_def Skins_Crypt_def Skins_Forward_def split: if_splits)
  then show ?case using Cons.IH [OF sk1(2)] by auto
qed simp

lemma MakeSession_shape:
  assumes "MakeSession ev m i s client hop ks p = Inr (sk, ks')" and "length s = 5" and "length hop = 5"
    and "length (evNonces ev) \<ge> 2" and "\<forall>x\<in>set s. sHeader x \<noteq> None \<and> sPayload x \<noteq> None"
  shows "\<exists>c y x z w os. sk = OCrypt c y # OSession x z # OForward None w # os \<and> cToHeaderPub c \<noteq> None \<and> cDepth c = 0"
proof -
  obtain x0 x1 s' where s: "s = x0 # x1 # s'" using assms(2) by (auto simp: numeral_eq_Suc length_Suc_conv)
  obtain h0 h1 hop' where hop: "hop = h0 # h1 # hop'" using assms(3) by (auto simp: numeral_eq_Suc length_Suc_conv)
  obtain n0 n1 ns where n: "evNonces ev = n0 # n1 # ns" using assms(4) by (auto simp: numeral_eq_Suc Suc_le_length_iff)
  obtain k0 ks1 where k0: "Next (evC ev) ks = (k0, ks1)" by fastforce
  obtain k1 ks2 where k1: "Next (evC ev) ks1 = (k1, ks2)" by fastforce
  have keys: "sHeader x0 \<noteq> None" "sPayload x0 \<noteq> None" using assms(5) s by auto
  have up: "[0..<5] = 0 # 1 # [2..<5]" by (simp add: upt_rec)
  obtain sk1 ks3 where hops: "session_hops ev m p (zip [0..<5] (zip s (zip hop (evNonces ev)))) [] ks = Inr (sk1, ks3)"
    and more: "\<exists>r. sk = sk1 @ r"
    using assms(1) by (auto simp: MakeSession_def rbind_eq_Inr Let_def Skins_ForwardCrypt_def Skins_Crypt_def Skins_Forward_def
        Skins_Confirmation_def case_prod_beta)
  obtain c y w rest where "sk1 = OCrypt c y # OSession x0 OEnd # OForward None w # rest" "cToHeaderPub c \<noteq> None" "cDepth c = 0"
    using hops keys
    by (auto simp: up s hop n k0 k1 rbind_eq_Inr Skins_ForwardSession_def Skins_Session_def Skins_Crypt_def Skins_Forward_def
        crypt_New_def forward_New_def split: if_splits dest!: session_hops_prefix PickAddress_nil)
  then show ?thesis using more by auto
qed

lemma no_error_lookups [simp]: "no_error (sess_at m r)" "no_error (node_at m r)"
  by (simp_all add: sess_at_def node_at_def)

lemma no_error_session_hops: "no_error (session_hops ev m p hs sk ks)"
proof (induction ev m p hs sk ks rule: session_hops.induct)
  case (2 ev m p i x nr n hs sk ks)
  then show ?case
    by (auto simp: Skins_ForwardSession_def PickAddress_no_error intro!: no_error_rbind split: prod.splits)
qed simp

lemma no_error_MakeSession: "no_error (MakeSession ev m i s client hop ks p)"
  unfolding MakeSession_def Skins_ForwardCrypt_def session_node_def session_keys_def node_of_def
  by (auto simp: PickAddress_no_error no_error_session_hops intro!: no_error_rbind split: prod.splits)

lemma new_sessions_keys:
  assumes "new_sessions C b = Inr s"
  shows "length s = 5 \<and> (\<forall>x\<in>set s. sHeader x \<noteq> None \<and> sPayload x \<noteq> None)"
proof -
  have "sHeader x \<noteq> None \<and> sPayload x \<noteq> None" if "session_New C g1 g2 i h = OSession x y" for x y g1 g2 i h
    using that by (auto simp: session_New_def split: sum.splits prod.splits)
  note keys = this
  have all: "list_all2 (\<lambda>i x. \<exists>y. session_New C (fst (buGen b i)) (snd (buGen b i)) (buID b i) (of_nat i) = OSession x y) [0..<5] s"
    using assms unfolding new_sessions_def rmap_iff by (rule list_all2_mono) (simp split: onion.splits)
  moreover have "sHeader (s ! k) \<noteq> None \<and> sPayload (s ! k) \<noteq> None" if "k < length s" for k
    using list_all2_nthD2 [OF all that] keys by blast
  ultimately show ?thesis by (auto simp: in_set_conv_nth dest!: list_all2_lengthD)
qed

lemma unused_pass_length: "unused_pass m nl ids (cnt, c) = Inr (cnt', c') \<Longrightarrow> length c' = length c"
  by (induction m nl ids "(cnt, c)" arbitrary: cnt c rule: unused_pass.induct)
    (auto simp: rbind_eq_Inr split: if_splits option.splits)

lemma unused_loop_length: "unused_loop m nl ord fuel (cnt, c) = Some (Inr c') \<Longrightarrow> length c' = length c"
proof (induction fuel arbitrary: cnt c)
  case (Suc fuel)
  then show ?case by (auto split: if_splits sum.splits dest!: unused_pass_length)
qed (simp split: if_splits)

lemma SelectUnusedCircuit_length: "SelectUnusedCircuit ord fuel m = Some (Inr (m', c)) \<Longrightarrow> length c = 5"
  by (auto simp: SelectUnusedCircuit_def Let_def empty_circuit_def split: if_splits sum.splits option.splits dest!: unused_loop_length)

text \<open>C26: A purchase of sessions takes the money and fails. When the payments have been sent, there are five of them, each of
  the full amount, to the five nodes of the circuit; and once they are confirmed, \<^verbatim>\<open>BuyNewSessions\<close> panics while it
  encodes the session keys, so no node ever gets its keys. Without five confirmations of success it waits forever.\<close>

theorem purchase_pays_and_panics:
  assumes "buy_payments ev b amount e = Some (Inr (e1, ns, ret, s, ps))" and "length (evNonces ev) = 6"
  shows "length ps = 5 \<and> (\<forall>i<5. \<exists>n h. mgN (enMgr e1) (ns ! i) = Some n \<and> PreimageHash (evC ev) (s ! i) = Inr h \<and>
      ps ! i = (ndPayChan n, \<lparr>pyID = sID (s ! i), pyPreimage = h, pyAmount = amount, pyConfirmChan = buChan b i\<rparr>)) \<and>
    (if await_confirms 5 (buConfirms b) then \<exists>p. BuyNewSessions ev b now nilhook amount hook e = Some (Inl (Panic p))
     else BuyNewSessions ev b now nilhook amount hook e = None)"
proof -
  let ?m = "enMgr e1" and ?C = "evC ev"
  obtain m nodes where m: "SelectUnusedCircuit (buOrd b) (evFuel ev) (enMgr e) = Some (Inr (m, nodes))" "e1 = e\<lparr>enMgr := m\<rparr>"
    and ns: "length ns = length nodes" and s: "new_sessions ?C b = Inr s" and ps: "send_payments ?C b amount m ns s = Inr ps"
    using assms(1) by (auto simp: buy_payments_def rmap_iff dest!: list_all2_lengthD elim!: obind_InrE)
  have len: "length ns = 5" using SelectUnusedCircuit_length [OF m(1)] ns by simp
  note keys = new_sessions_keys [OF s]
  have pay: "list_all2 (\<lambda>i p. \<exists>n h. mgN m (ns ! i) = Some n \<and> PreimageHash ?C (s ! i) = Inr h \<and>
      p = (ndPayChan n, PayChan_Send amount (sID (s ! i)) h (buChan b i))) [0..<5] ps"
    using ps unfolding send_payments_def rmap_iff
    by (rule list_all2_mono) (auto simp: rbind_eq_Inr node_at_def deref_def split: option.splits)
  have pans: "panics (encode_all ev sk)" if "MakeSession ev m (buConf b) s (Some ret) ns (enKeys e1) (mgProtocols m) = Inr (sk, ks)" for sk ks
    using MakeSession_shape [OF that] keys len assms(2) encode_all_panics by fastforce
  have "\<exists>p. BuyNewSessions ev b now nilhook amount hook e = Some (Inl (Panic p))" if "await_confirms 5 (buConfirms b)"
  proof (cases "MakeSession ev m (buConf b) s (Some ret) ns (enKeys e1) (mgProtocols m)")
    case (Inl x)
    then have "\<exists>p. x = Panic p" using no_error_MakeSession [of ev m] no_error_cases by (metis sum.inject(1) sum.simps(4))
    then show ?thesis using that assms(1) Inl m(2) by (auto simp: BuyNewSessions_def Let_def)
  next
    case (Inr o1)
    then obtain p where "encode_all ev (fst o1) = Inl (Panic p)" using pans by (cases o1) (auto simp: panics_iff)
    then show ?thesis using that assms(1) Inr m(2) by (auto simp: BuyNewSessions_def Let_def send_out_def PostAcctOnion_def)
  qed
  moreover have "BuyNewSessions ev b now nilhook amount hook e = None" if "\<not> await_confirms 5 (buConfirms b)"
    using that assms(1) by (simp add: BuyNewSessions_def)
  ultimately show ?thesis
    using pay m(2) by (auto simp: list_all2_conv_all_nth PayChan_Send_def)
qed

section \<open>A client with one peer and a return session\<close>

definition shop_mgr :: mgr where
  "shop_mgr = demo_mgr\<lparr>mgS := [5 \<mapsto> demo_sess 50 0 5], mgNodes := [0, 1], mgSessions := [5], mgCache := Map.empty\<rparr>"

definition shop_purchase :: purchase where
  "shop_purchase = \<lparr>buGen = (\<lambda>i. (Inr (Prv (of_nat (60 + 2 * i))), Inr (Prv (of_nat (61 + 2 * i))))), buID = (\<lambda>i. [of_nat i]), buConf = [9],
     buOrd = (\<lambda>_. [[101]]), buDraw = (\<lambda>_. 0), buChan = (\<lambda>i. i), buConfirms = map (\<lambda>i. (i, True)) [0..<5]\<rparr>"

definition shop_env :: engine_env where
  "shop_env = demo_env\<lparr>evNonces := replicate 6 (replicate 16 0), evFuel := 5\<rparr>"

lemma shop_circuit:
  "SelectUnusedCircuit (buOrd shop_purchase) (evFuel shop_env) (enMgr (demo_engine\<lparr>enMgr := shop_mgr\<rparr>)) =
     Some (Inr (shop_mgr\<lparr>mgCache := [[101] \<mapsto> empty_circuit]\<rparr>, replicate 5 (Some 1)))"
  by (simp add: SelectUnusedCircuit_def shop_purchase_def shop_env_def demo_env_def shop_mgr_def demo_mgr_def demo_node_def
      add_cache_entry_def node_at_def Let_def empty_circuit_def index_expr_def has_id_def node_test_def numeral_eq_Suc)

lemma shop_sessions: "\<exists>s. new_sessions demo_ops shop_purchase = Inr s"
  unfolding new_sessions_def
  by (rule exI, rule rmap_Inr) (simp add: shop_purchase_def session_New_def Generate2Keys_def GenerateKeys_def Let_def)

lemma send_payments_returns:
  assumes "\<And>i. i < 5 \<Longrightarrow> \<exists>n h. mgN m (ns ! i) = Some n \<and> PreimageHash C (s ! i) = Inr h"
  shows "\<exists>ps. send_payments C b amount m ns s = Inr ps"
proof -
  let ?p = "\<lambda>i. (ndPayChan (the (mgN m (ns ! i))), PayChan_Send amount (sID (s ! i)) (projr (PreimageHash C (s ! i))) (buChan b i))"
  have "send_payments C b amount m ns s = Inr (map ?p [0..<5])"
    unfolding send_payments_def by (rule rmap_Inr) (use assms in \<open>fastforce simp: node_at_def\<close>)
  then show ?thesis by blast
qed

lemma shop_payments:
  "\<exists>e1 s ps. buy_payments shop_env shop_purchase 1000 (demo_engine\<lparr>enMgr := shop_mgr\<rparr>) = Some (Inr (e1, replicate 5 1, 5, s, ps))"
proof -
  let ?m = "shop_mgr\<lparr>mgCache := [[101] \<mapsto> empty_circuit]\<rparr>"
  obtain s where s: "new_sessions demo_ops shop_purchase = Inr s" using shop_sessions by blast
  have ret: "rbind (GetSessionsAtHop 5 ?m) (\<lambda>hs. index_expr (shuffled (buDraw shop_purchase) hs) 0) = Inr 5"
    by (simp add: GetSessionsAtHop_def shop_mgr_def sess_at_def demo_sess_def shuffled_def index_expr_def)
  obtain ps where "send_payments demo_ops shop_purchase 1000 ?m (replicate 5 1) s = Inr ps"
  proof (rule exE [OF send_payments_returns])
    fix i :: nat assume i: "i < 5"
    then have "sHeader (s ! i) \<noteq> None \<and> sPayload (s ! i) \<noteq> None" using new_sessions_keys [OF s] by simp
    moreover have "mgN ?m 1 = Some (demo_node 101)" by (simp add: shop_mgr_def demo_mgr_def)
    ultimately show "\<exists>n h. mgN ?m (replicate 5 1 ! i) = Some n \<and> PreimageHash demo_ops (s ! i) = Inr h"
      using i by (auto simp: PreimageHash_def)
  qed
  moreover have "rmap (case_option (Inl err) Inr) (replicate 5 (Some x)) = Inr (replicate 5 x)" for err and x :: nat
    by (simp add: numeral_eq_Suc)
  ultimately show ?thesis
    unfolding buy_payments_def shop_circuit using s ret by (simp add: shop_env_def demo_env_def)
qed

theorem purchase_pays_and_panics_witness:
  "\<exists>e1 s ps. buy_payments shop_env shop_purchase 1000 (demo_engine\<lparr>enMgr := shop_mgr\<rparr>) = Some (Inr (e1, replicate 5 1, 5, s, ps)) \<and>
     length ps = 5 \<and> (\<exists>p. BuyNewSessions shop_env shop_purchase (GoTime 0 0) 0 1000 7 (demo_engine\<lparr>enMgr := shop_mgr\<rparr>) =
       Some (Inl (Panic p)))"
proof -
  have "length (evNonces shop_env) = 6" "await_confirms 5 (buConfirms shop_purchase)"
    by (simp_all add: shop_env_def shop_purchase_def upt_rec numeral_eq_Suc)
  then show ?thesis using shop_payments purchase_pays_and_panics by (metis (no_types, lifting))
qed

end
