(* ===== verification/Clients_Acct.thy ===== *)
theory Clients_Acct
  imports Clients_Props
begin

text \<open>
  The accounting of a request. The message of \<^verbatim>\<open>MakeExit\<close> has a reverse and a crypt for each of the six sessions of a circuit, with
  the request after the third. \<^verbatim>\<open>PostAcctOnion\<close> finds the session of each crypt by its header key and notes what to charge.
\<close>

section \<open>The session of a crypt\<close>

definition layer_for :: "mgr \<Rightarrow> nat \<Rightarrow> int \<Rightarrow> onion \<Rightarrow> bool" where
  "layer_for m r sq x \<longleftrightarrow> (\<exists>c. x = OCrypt c OEnd \<and> cToHeaderPub c = Some (kPub (the (sdHeader (the (mgS m r))))) \<and>
     cDepth c = sq \<and> length (cIV c) = 16 \<and> cFrom c \<noteq> None \<and> cToPayloadPub c \<noteq> None)"

text \<open>The bytes of a header key are those of its public key, as \<^verbatim>\<open>MakeKeys\<close> sets them.\<close>

definition headers_match :: "crypto_ops \<Rightarrow> mgr \<Rightarrow> bool" where
  "headers_match C m \<longleftrightarrow> (\<forall>r\<in>set (mgSessions m). header_of m r = Pub_ToBytes C (kPub (the (sdHeader (the (mgS m r))))))"

lemma find_by_header:
  assumes "mgr_ok m" and "headers_match C m" and "r \<in> set (mgSessions m)"
  shows "FindSessionByHeaderPub C (kPub (the (sdHeader (the (mgS m r))))) m = Inr (Some r)"
proof -
  let ?k = "kPub (the (sdHeader (the (mgS m r))))"
  have "sess_test m (\<lambda>s. rbind (deref (sdHeader s)) (\<lambda>h. Inr (Pub_Equals C (kPub h) ?k))) x = Inr (header_of m x = header_of m r)"
    if "x \<in> set (mgSessions m)" for x
    using mgr_okD(1) [OF assms(1) that] assms(2,3) that
    by (auto simp: sess_test_def sess_at_def headers_match_def Pub_Equals_def elim!: sess_okE)
  then have "FindSessionByHeaderPub C ?k m = Inr (find (\<lambda>x. header_of m x = header_of m r) (mgSessions m))"
    unfolding FindSessionByHeaderPub_def by (intro find_res_find) simp
  moreover have "find (\<lambda>x. header_of m x = header_of m r) (mgSessions m) = Some r"
    using mgr_okD(3) [OF assms(1)] assms(3) by (rule find_unique)
  ultimately show ?thesis by simp
qed

lemma layer_accounted:
  assumes "mgr_ok (enMgr e)" and "headers_match (evC ev) (enMgr e)" and "r \<in> set (mgSessions (enMgr e))" and "layer_for (enMgr e) r sq x"
  shows "onion_Account ev x None lst d e = Some (Inr (False, Some r, (if lst
    then d\<lparr>seSessions := seSessions d @ [r], seRet := header_of (enMgr e) r, seBillable := seBillable d @ [header_of (enMgr e) r]\<rparr>
    else d\<lparr>seSessions := seSessions d @ [r]\<rparr>), e))"
  using assms(4) find_by_header [OF assms(1-3)] header_bytes_ok [OF mgr_okD(1) [OF assms(1,3)]]
  by (auto simp: layer_for_def onion_Account_def crypt_Account_def session_header_def)

lemma bill_is: "sess_ok m r \<Longrightarrow> bill (Some r) m d = Inr (d\<lparr>seBillable := seBillable d @ [header_of m r]\<rparr>)"
  by (simp add: bill_def session_header_def header_bytes_ok)

text \<open>A layer of a routing header: the crypt of a session, followed by a reverse, bills the session.\<close>

lemma relay_layer_accounted:
  assumes "mgr_ok (enMgr e)" and "headers_match (evC ev) (enMgr e)" and "r \<in> set (mgSessions (enMgr e))" and "layer_for (enMgr e) r sq x"
  shows "account_skins ev False (x # OReverse a y # xs) d e = account_skins ev False (OReverse a y # xs)
    (d\<lparr>seSessions := seSessions d @ [r], seBillable := seBillable d @ [header_of (enMgr e) r]\<rparr>) e"
proof -
  obtain c where c: "x = OCrypt c OEnd" using assms(4) by (auto simp: layer_for_def)
  show ?thesis
    using layer_accounted [OF assms] mgr_okD(1) [OF assms(1,3)] by (simp add: c onion_Account_def reverse_Account_def bill_is)
qed

lemma account_reverse [simp]: "account_skins ev False (OReverse a y # xs) d e = account_skins ev False xs d e"
  by simp

section \<open>The shape of a request\<close>

definition exit_point_ok :: "nat option exit_point \<Rightarrow> bool" where
  "exit_point_ok ep \<longleftrightarrow> length (epKeys ep) = 3 \<and> length (epReturnPubs ep) = 3 \<and> ivs_ok (epNonces ep)"

lemma exit_New_ok:
  assumes "exit_point_ok ep" and "crypto_laws C" and "length i = 8" and "length payload < 2 ^ 32"
  obtains x where "exit_New C i port payload ep = OExit x OEnd" and "exit_ok x" and "xBytes x = payload" and "xID x = i" and "xPort x = port"
  using assms by (auto simp: exit_New_def exit_ok_def exit_point_ok_def hashes_ok_def GenCiphers_def split_beta)

lemma ReverseCrypt_shape:
  assumes "Skins_ReverseCrypt ev m (Some r) (Some k) n sq p sk = Inr sk'" and "length n = 16"
  shows "\<exists>x. sk' = sk @ [OReverse None OEnd, x] \<and> layer_for m r sq x"
  using assms
  by (auto simp: Skins_ReverseCrypt_def rbind_eq_Inr session_keys_def sess_at_def Skins_Crypt_def Skins_Reverse_def reverse_New_def
      crypt_New_def layer_for_def deref_eq_Inr dest!: PickAddress_nil)

lemma RoutingHeader_shape:
  assumes "Skins_RoutingHeader ev m r p sk = Inr sk'" and "rtSessions r = [Some a, Some b, Some c]"
    and "length (rtNonces r) = 3" and "\<forall>n\<in>set (rtNonces r). length n = 16"
  shows "\<exists>x y z. sk' = sk @ [OReverse None OEnd, x, OReverse None OEnd, y, OReverse None OEnd, z] \<and>
    layer_for m a 3 x \<and> layer_for m b 2 y \<and> layer_for m c 1 z"
proof -
  have n: "length (rtNonces r ! k) = 16" if "k < 3" for k using assms(3,4) that by simp
  obtain sk1 sk2 where "Skins_ReverseCrypt ev m (Some a) (Some (rtKeys r ! 0)) (rtNonces r ! 0) 3 p sk = Inr sk1"
    "Skins_ReverseCrypt ev m (Some b) (Some (rtKeys r ! 1)) (rtNonces r ! 1) 2 p sk1 = Inr sk2"
    "Skins_ReverseCrypt ev m (Some c) (Some (rtKeys r ! 2)) (rtNonces r ! 2) 1 p sk2 = Inr sk'"
    using assms(1,2) by (auto simp: Skins_RoutingHeader_def elim!: rbind_InrE)
  from this [THEN ReverseCrypt_shape] show ?thesis using n by fastforce
qed

lemma GetHeaders_sessions:
  assumes "GetHeaders C m n (Some alice) (Some bob) [Some c0, Some c1, c2, Some c3, Some c4] ks = Inr (h, ks')"
  shows "rtSessions (hdrForward h) = [Some c0, Some c1, Some bob]" "rtSessions (hdrReturn h) = [Some c3, Some c4, Some alice]"
    "rtNonces (hdrForward h) = take 3 n" "rtNonces (hdrReturn h) = take 3 (drop 3 n)"
    "length (rtKeys (hdrReturn h)) = 3" "length (hdrReturnPubs h) = 3"
  using assms by (auto simp: GetHeaders_def rbind_eq_Inr Let_def case_prod_beta Next3_def NextN_iterates)

lemma request_shape:
  assumes "make_request ev m (Some alice) (Some bob) [Some c0, Some c1, c2, Some c3, Some c4] ks p core = Inr (sk, ks')"
    and "\<And>ep ks sk. fst (core ep ks sk) = sk @ [q ep]"
    and "length (evNonces ev) = 6" and "\<forall>n\<in>set (evNonces ev). length n = 16"
  shows "\<exists>ep x0 x1 x2 x3 x4 x5. sk = [OReverse None OEnd, x0, OReverse None OEnd, x1, OReverse None OEnd, x2, q ep,
      OReverse None OEnd, x3, OReverse None OEnd, x4, OReverse None OEnd, x5] \<and>
    exit_point_ok ep \<and> layer_for m c0 3 x0 \<and> layer_for m c1 2 x1 \<and> layer_for m bob 1 x2 \<and>
    layer_for m c3 3 x3 \<and> layer_for m c4 2 x4 \<and> layer_for m alice 1 x5"
proof -
  obtain h ks1 sk0 where gh: "GetHeaders (evC ev) m (evNonces ev) (Some alice) (Some bob) [Some c0, Some c1, c2, Some c3, Some c4] ks = Inr (h, ks1)"
    and sk0: "Skins_RoutingHeader ev m (hdrForward h) p [] = Inr sk0" and sk: "Skins_RoutingHeader ev m (hdrReturn h) p (sk0 @ [q (ExitPoint h)]) = Inr sk"
    using assms(1) unfolding make_request_def by (auto simp: Let_def case_prod_beta assms(2) elim!: rbind_InrE)
  note h = GetHeaders_sessions [OF gh]
  have "\<forall>n\<in>set (rtNonces (hdrForward h)). length n = 16" "\<forall>n\<in>set (rtNonces (hdrReturn h)). length n = 16"
    using assms(4) h(3,4) by (auto dest!: in_set_takeD in_set_dropD)
  moreover have "length (rtNonces (hdrForward h)) = 3" "length (rtNonces (hdrReturn h)) = 3" using assms(3) h(3,4) by simp_all
  moreover have "exit_point_ok (ExitPoint h)" using h calculation by (auto simp: exit_point_ok_def ExitPoint_def ivs_ok_def)
  ultimately show ?thesis
    using RoutingHeader_shape [OF sk0 h(1)] RoutingHeader_shape [OF sk h(2)] by auto
qed

section \<open>The accounting\<close>

text \<open>\<^verbatim>\<open>Exit.Account\<close> works when the first service of the node is the one asked for: the mutex is free again after it.\<close>

lemma exit_accounted:
  assumes "sess_ok (enMgr e) r" and "sdNode (the (mgS (enMgr e) r)) = Some nr" and "nr \<notin> set (enLocked e)"
    and "ndServices (the (mgN (enMgr e) nr)) = sv # svs" and "svcPort sv = xPort x"
  shows "onion_Account ev (OExit x y) (Some r) False d e = Some (Inr (True, None,
    d\<lparr>sePort := xPort x, sePostAcct := sePostAcct d @ [AcctExit r 0 (length (seB d))],
      seBillable := seBillable d @ [header_of (enMgr e) r], seID := xID x\<rparr>, e))"
proof -
  obtain sd n where sd: "mgS (enMgr e) r = Some sd" and n: "mgN (enMgr e) nr = Some n" using assms(1,2) by (auto simp: sess_ok_def)
  have free: "filter (\<lambda>x. x \<noteq> nr) (enLocked e) = enLocked e" using assms(3) by (auto intro: filter_True)
  have "zip [0..<length (ndServices n)] (ndServices n) = (0, sv) # zip [1..<Suc (length svs)] svs"
    using assms(4) n by (simp add: upt_rec)
  then show ?thesis
    using assms sd n free
    by (simp add: onion_Account_def exit_Account_def sess_at_def node_at_def lock_node_def unlock_node_def bill_is)
qed

text \<open>Such a message can be encoded.\<close>

lemma layer_crypt_ok:
  assumes "layer_for m r sq x"
  shows "\<exists>c. x = OCrypt c OEnd \<and> (\<forall>n. 1 \<le> sq \<and> (sq - 1) * 84 \<le> int n \<longrightarrow> crypt_ok c n)"
  using assms by (auto simp: layer_for_def crypt_ok_def)

lemma request_encodes:
  assumes "exit_ok x" and "layer_for m c0 3 x0" "layer_for m c1 2 x1" "layer_for m c2 1 x2" "layer_for m c3 3 x3" "layer_for m c4 2 x4"
    "layer_for m c5 1 x5"
  shows "\<exists>sp. encode_all ev [OReverse None OEnd, x0, OReverse None OEnd, x1, OReverse None OEnd, x2, OExit x OEnd,
    OReverse None OEnd, x3, OReverse None OEnd, x4, OReverse None OEnd, x5] = Inr sp \<and> length (sb sp) = 678 + length (xBytes x)"
proof -
  obtain b0 b1 b2 b3 b4 b5 where x: "x0 = OCrypt b0 OEnd" "x1 = OCrypt b1 OEnd" "x2 = OCrypt b2 OEnd" "x3 = OCrypt b3 OEnd" "x4 = OCrypt b4 OEnd"
    "x5 = OCrypt b5 OEnd" and ok: "\<And>n. 168 \<le> n \<Longrightarrow> crypt_ok b0 n" "\<And>n. 84 \<le> n \<Longrightarrow> crypt_ok b1 n" "\<And>n. crypt_ok b2 n"
    "\<And>n. 168 \<le> n \<Longrightarrow> crypt_ok b3 n" "\<And>n. 84 \<le> n \<Longrightarrow> crypt_ok b4 n" "\<And>n. crypt_ok b5 n"
    using assms(2-) [THEN layer_crypt_ok] by auto
  let ?o = "OReverse None (OCrypt b0 (OReverse None (OCrypt b1 (OReverse None (OCrypt b2 (OExit x (OReverse None (OCrypt b3
      (OReverse None (OCrypt b4 (OReverse None (OCrypt b5 OEnd))))))))))))"
  have "onion_ok C M dp ?o" for C M dp using assms(1) ok by simp
  moreover have "onion_Len ?o = Inr (678 + length (xBytes x))" by (simp add: exit_Len_def)
  ultimately show ?thesis
    using Codec_Encode_onion [of "evC ev" "evM ev" "evPort ev" ?o] unfolding encode_all_def x
    by (fastforce simp: Assemble_def simp del: onion_Len.simps onion_Encode.simps)
qed


section \<open>A circuit of six sessions\<close>

definition exit_node :: node where
  "exit_node = (demo_node 101)\<lparr>ndServices := [\<lparr>svcPort = 80, svcRelayRate = 10, svcTransport = 3\<rparr>]\<rparr>"

definition exit_mgr :: mgr where
  "exit_mgr = demo_mgr\<lparr>mgS := [0 \<mapsto> demo_sess 10 1 0, 1 \<mapsto> demo_sess 20 1 1, 2 \<mapsto> demo_sess 30 1 2, 3 \<mapsto> demo_sess 40 1 3,
     4 \<mapsto> demo_sess 50 1 4, 5 \<mapsto> demo_sess 60 1 5], mgN := (mgN demo_mgr)(1 \<mapsto> exit_node), mgSessions := [0, 1, 2, 3, 4, 5],
     mgCache := Map.empty\<rparr>"

lemma exit_mgr_ok: "mgr_ok exit_mgr" "headers_match demo_ops exit_mgr"
proof -
  have s: "mgSessions exit_mgr = [0, 1, 2, 3, 4, 5]" "mgNodes exit_mgr = [0, 1, 2]" "mgCache exit_mgr = Map.empty"
    by (simp_all add: exit_mgr_def demo_mgr_def)
  have hd: "map (header_of exit_mgr) [0, 1, 2, 3, 4, 5] = map (\<lambda>b. kBytes (demo_keys b)) [10, 20, 30, 40, 50, 60]"
    by (simp add: header_of_def exit_mgr_def demo_sess_def)
  have "sess_ok exit_mgr r" if "r \<in> set [0, 1, 2, 3, 4, 5]" for r
    using that by (auto simp: sess_ok_def exit_mgr_def demo_mgr_def demo_sess_def)
  moreover have "distinct (map (header_of exit_mgr) [0, 1, 2, 3, 4, 5])" unfolding hd by (simp add: demo_keys_inj)
  moreover have "\<forall>r\<in>set [0, 1, 2]. mgN exit_mgr r \<noteq> None" by (simp add: exit_mgr_def demo_mgr_def)
  ultimately show "mgr_ok exit_mgr" unfolding mgr_ok_def s by simp
  show "headers_match demo_ops exit_mgr"
    unfolding headers_match_def s by (simp add: header_of_def exit_mgr_def demo_sess_def demo_keys_def)
qed

lemma exit_request_built:
  "\<exists>sk ks'. MakeExit shop_env exit_mgr 80 [1, 2, 3] (replicate 8 7) (Some 5) (Some 2) [Some 0, Some 1, Some 2, Some 3, Some 4] ks 1 = Inr (sk, ks')"
proof -
  have n: "session_node r exit_mgr = Inr exit_node" "session_keys exit_mgr (Some r) = Inr (demo_keys (of_nat (10 * Suc r)), demo_keys (of_nat (10 * Suc r) + 1))"
    "payload_pub exit_mgr (Some r) = Inr (kPub (demo_keys (of_nat (10 * Suc r) + 1)))" if "r \<in> {0, 1, 2, 3, 4, 5}" for r
    using that by (auto simp: session_node_def session_keys_def payload_pub_def node_of_def sess_at_def node_at_def exit_mgr_def demo_sess_def)
  have a: "PickAddress (evAddKey shop_env) exit_node 1 = Inr None"
    by (simp add: PickAddress_def gather_addresses_def exit_node_def demo_node_def with_key_def IP4_def IP6_def)
  let ?c = "\<lambda>r k n sq. crypt_New (Some (kPub (demo_keys (of_nat (10 * Suc r))))) (Some (kPub (demo_keys (of_nat (10 * Suc r) + 1)))) (Some k) n sq"
  have rc: "Skins_ReverseCrypt shop_env exit_mgr (Some r) (Some k) n sq 1 sk = Inr (sk @ [reverse_New None, ?c r k n sq])"
    if "r \<in> {0, 1, 2, 3, 4, 5}" for r k n sq sk
    using n [OF that] a by (simp add: Skins_ReverseCrypt_def Skins_Crypt_def Skins_Reverse_def)
  show ?thesis
    unfolding MakeExit_def make_request_def GetHeaders_def Skins_RoutingHeader_def
    by (simp add: Let_def case_prod_beta n(3) rc Skins_Exit_def ExitPoint_def)
qed


end
