(* ===== verification/Dispatcher.thy ===== *)
theory Dispatcher
  imports Packet_Split Engine Shuffle
begin

text \<open>
  The dispatcher of a connection, \<^verbatim>\<open>pkg/engine/dispatcher/dispatcher.go\<close>: it splits messages into packets, gathers received
  packets until a message can be joined, changes keys and keeps the accounts of a connection. Floating point numbers are their
  64 bits, and the operations on them a parameter; a moving average of the package \<^verbatim>\<open>ewma\<close> is the list of the values
  added to it, and what \<^verbatim>\<open>Value\<close> makes of them a parameter. The counters are big integers, so natural numbers here.
  The clock is read in the order of the code: \<open>clk i\<close> is what the \<open>i\<close>-th call of \<^verbatim>\<open>time.Now\<close> returns.
\<close>

section \<open>Numbers and times\<close>

type_synonym f64 = "64 word"

datatype average_event = AddValue f64 | SetValue f64

type_synonym average = "average_event list"

record float_ops =
  fo_int :: "int \<Rightarrow> f64"
  fo_mul :: "f64 \<Rightarrow> f64 \<Rightarrow> f64"
  fo_div :: "f64 \<Rightarrow> f64 \<Rightarrow> f64"
  fo_add :: "f64 \<Rightarrow> f64 \<Rightarrow> f64"
  fo_byte :: "f64 \<Rightarrow> byte"
  fo_duration :: "f64 \<Rightarrow> u64"
  fo_value :: "average \<Rightarrow> f64"

definition UnixNano :: "gotime \<Rightarrow> u64" where
  "UnixNano t = t_unix t * 1000000000 + of_nat (t_nsec t)"

definition nanos :: "gotime \<Rightarrow> int" where
  "nanos t = sint (t_unix t) * 1000000000 + int (t_nsec t)"

text \<open>\<^verbatim>\<open>t.Sub(u)\<close> is the difference, held within the range of a duration.\<close>

definition sub_time :: "int \<Rightarrow> int \<Rightarrow> int" where
  "sub_time t u = max (- (2 ^ 63)) (min (2 ^ 63 - 1) (t - u))"

section \<open>State\<close>

record tx_record =
  txID :: bytes
  txHash :: bytes
  txFirst :: gotime
  txLast :: gotime
  txSize :: nat
  txPing :: u64

record completion =
  cmID :: bytes
  cmTime :: gotime

text \<open>The connection is its MTU, the key of the remote side and what was sent on it. The duplex channel is the messages
  passed to the receiver and the messages handed in for sending.\<close>

record dispatcher =
  dParity :: u32
  dDataSent :: nat
  dDataReceived :: nat
  dTotalSent :: nat
  dTotalReceived :: nat
  dErrorEWMA :: average
  dPing :: average
  dPingDivergence :: average
  dReceiver :: "bytes list"
  dSender :: "bytes list"
  dDone :: "completion list"
  dPendingInbound :: "rx_record list"
  dPendingOutbound :: "tx_record list"
  dPartials :: "bytes \<rightharpoonup> packet option list"
  dPrv :: "prv list"
  dLastRekey :: nat
  dKs :: keyset
  dMTU :: int
  dRemoteKey :: "pub option"
  dConnSent :: "bytes list"
  dRekeying :: bool
  dLocked :: bool
  dReady :: bool

text \<open>What a call takes from its surroundings: the packages it calls and its random draws.\<close>

record dispatch_env =
  deEv :: engine_env
  deR :: rs_ops
  deF :: float_ops
  dePad :: "bytes option"
  deNonce :: "nat \<Rightarrow> bytes"
  deBlind :: "nat \<Rightarrow> bytes"
  deShuffle :: "nat \<Rightarrow> nat"
  deID :: bytes
  deGen :: "prv res"

definition DefaultStartingParity :: u32 where "DefaultStartingParity = 64"
definition DefaultDispatcherRekey :: nat where "DefaultDispatcherRekey = 2 ^ 20"
definition TimeoutPingCount :: u64 where "TimeoutPingCount = 10"

section \<open>Locking and logged errors\<close>

text \<open>The mutex is not reentrant: with it locked, a further \<^verbatim>\<open>Lock\<close> never returns.\<close>

definition Mx :: "(dispatcher \<Rightarrow> ('a \<times> dispatcher) run) \<Rightarrow> dispatcher \<Rightarrow> ('a \<times> dispatcher) run" where
  "Mx f d = (if dLocked d then None
     else obind (f (d\<lparr>dLocked := True\<rparr>)) (\<lambda>(r, d1). Some (Inr (r, d1\<lparr>dLocked := False\<rparr>))))"

text \<open>\<^verbatim>\<open>if x, e = ...; fails(e) { return }\<close>: an error ends the function with the state \<open>d\<close>, a panic goes on.\<close>

definition unless_error :: "'a run \<Rightarrow> 'b \<Rightarrow> ('a \<Rightarrow> 'b run) \<Rightarrow> 'b run" where
  "unless_error m d f = (case m of
      None \<Rightarrow> None
    | Some (Inl (Error _)) \<Rightarrow> Some (Inr d)
    | Some (Inl (Panic p)) \<Rightarrow> Some (Inl (Panic p))
    | Some (Inr x) \<Rightarrow> f x)"

section \<open>Handling a message\<close>

definition GetRxRecordAndPartials :: "bytes \<Rightarrow> dispatcher \<Rightarrow> rx_record option \<times> packet option list" where
  "GetRxRecordAndPartials i d =
     (find (\<lambda>v. rxID v = i) (dPendingInbound d), case dPartials d i of None \<Rightarrow> [] | Some ps \<Rightarrow> ps)"

text \<open>The receive records are shared by pointer; their identifiers differ, so an update is one by identifier.\<close>

definition update_rx :: "bytes \<Rightarrow> (rx_record \<Rightarrow> rx_record) \<Rightarrow> dispatcher \<Rightarrow> dispatcher" where
  "update_rx i f d = d\<lparr>dPendingInbound := map (\<lambda>v. if rxID v = i then f v else v) (dPendingInbound d)\<rparr>"

definition account_ack :: "float_ops \<Rightarrow> rx_record \<Rightarrow> tx_record \<Rightarrow> dispatcher \<Rightarrow> dispatcher" where
  "account_ack F r pending d =
     (let sent = (if rxHash r = txHash pending then dDataSent d + txSize pending else dDataSent d);
          err = (if int (txSize pending) \<ge> dMTU d - int Overhead
                 then dErrorEWMA d @ [AddValue (fo_div F (fo_int F (int (txSize pending))) (fo_int F (uint (rxReceived r))))]
                 else dErrorEWMA d);
          tot = UnixNano (txLast pending) - UnixNano (txFirst pending);
          dv = dPingDivergence d @ [AddValue (fo_div F (fo_int F (sint (rxPing r))) (fo_int F (sint tot)))];
          pv = fo_mul F (fo_mul F (fo_int F (uint (dParity d))) (fo_value F dv)) (fo_add F (fo_int F 1) (fo_value F err)) in
      d\<lparr>dDataSent := sent, dErrorEWMA := err, dPingDivergence := dv, dParity := ucast (fo_byte F pv)\<rparr>)"

text \<open>The loop over the pending messages leaves with \<^verbatim>\<open>break\<close> at the acknowledged one: the list of those before it is
  what stays pending.\<close>

fun ack_loop :: "float_ops \<Rightarrow> rx_record \<Rightarrow> tx_record list \<Rightarrow> tx_record list \<Rightarrow> dispatcher \<Rightarrow> tx_record list \<times> dispatcher" where
  "ack_loop F r [] tmp d = (tmp, d)"
| "ack_loop F r (pending # rest) tmp d =
     (if txID pending = rxID r then (tmp, account_ack F r pending d)
      else ack_loop F r rest (tmp @ [pending]) d)"

definition handle_newkey :: "crypto_ops \<Rightarrow> pub option \<Rightarrow> dispatcher \<Rightarrow> dispatcher res" where
  "handle_newkey C k d =
     rbind (deref (dRemoteKey d)) (\<lambda>remote. rbind (deref k) (\<lambda>new.
       if Pub_Equals C remote new then Inr d else Inr (d\<lparr>dRemoteKey := Some new\<rparr>)))"

definition handle_ack :: "float_ops \<Rightarrow> rx_record \<Rightarrow> dispatcher \<Rightarrow> dispatcher" where
  "handle_ack F r d = (let (tmp, d1) = ack_loop F r (dPendingOutbound d) [] d in d1\<lparr>dPendingOutbound := tmp\<rparr>)"

definition handle_decoded :: "dispatch_env \<Rightarrow> message \<Rightarrow> dispatcher \<Rightarrow> dispatcher res" where
  "handle_decoded de x d = (case x of
      MNewKey p \<Rightarrow> handle_newkey (evC (deEv de)) p d
    | MAcknowledge r \<Rightarrow> Inr (handle_ack (deF de) r d)
    | MPacked b \<Rightarrow> Inr (d\<lparr>dReceiver := dReceiver d @ [b]\<rparr>)
    | _ \<Rightarrow> Inr d)"

definition Handle :: "dispatch_env \<Rightarrow> bytes \<Rightarrow> bytes \<Rightarrow> dispatcher \<Rightarrow> dispatcher run" where
  "Handle de m i d =
     (if \<exists>c\<in>set (dDone d). cmID c = i then Some (Inr d)
      else
      let C = evC (deEv de);
          d1 = update_rx i (\<lambda>v. v\<lparr>rxHash := copy_to (rxHash v) (Single C m)\<rparr>) d in
      obind (Some (Recognise (evReg (deEv de)) (NewFrom m))) (\<lambda>(k, s).
      case k of
        None \<Rightarrow> Some (Inr d1)
      | Some kind \<Rightarrow>
          unless_error (Some (codec_Decode (deEv de) kind s)) d1 (\<lambda>(x, s1). Some (handle_decoded de x d1))))"

definition HandlePing :: "float_ops \<Rightarrow> u64 \<Rightarrow> dispatcher \<Rightarrow> (bool \<times> dispatcher) run" where
  "HandlePing F rtt d = Mx (\<lambda>d. Some (Inr (False, d\<lparr>dPing := dPing d @ [AddValue (fo_int F (sint rtt))]\<rparr>))) d"

section \<open>Sending\<close>

text \<open>A nil key is met when the first packet is encrypted, so after the test for an empty message.\<close>

definition split_message :: "dispatch_env \<Rightarrow> bytes \<Rightarrow> dispatcher \<Rightarrow> (int \<times> bytes list \<times> keyset) run" where
  "split_message de m d = (case dRemoteKey d of
      None \<Rightarrow> Some (Inl (if m = [] then Error ''cannot encode empty bytes'' else nil_panic))
    | Some k \<Rightarrow>
        map_option (\<lambda>r. rbind r (\<lambda>(pieces, packets, ks). Inr (pieces, shuffled (deShuffle de) packets, ks)))
          (SplitToPackets (evC (deEv de)) (deR de) (dePad de) (deNonce de) (deBlind de)
             \<lparr>ppID = deID de, ppTo = k, ppFrom = Prv 0, ppParity = uint (dParity d), ppSeq = 0, ppLength = int (length m), ppData = m\<rparr>
             (dMTU d) (dKs d)))"

definition new_tx :: "dispatch_env \<Rightarrow> (nat \<Rightarrow> gotime) \<Rightarrow> bytes \<Rightarrow> dispatcher \<Rightarrow> tx_record" where
  "new_tx de clk m d = \<lparr>txID = deID de, txHash = Single (evC (deEv de)) m, txFirst = clk 0, txLast = clk 1, txSize = length m,
     txPing = fo_duration (deF de) (fo_value (deF de) (dPing d))\<rparr>"

definition ReKey :: "dispatch_env \<Rightarrow> (nat \<Rightarrow> gotime) \<Rightarrow> dispatcher \<Rightarrow> dispatcher run" where
  "ReKey de clk d0 =
     (let d = d0\<lparr>dLastRekey := dTotalReceived d0\<rparr> in
      if dRekeying d then Some (Inr d)
      else
      unless_error (Some (deGen de)) d (\<lambda>prv.
      let C = evC (deEv de); s0 = New newkey_Len in
      unless_error (Some (newkey_Encode C (DerivePub C (Some prv)) s0)) d (\<lambda>keyMsg.
      let m = sb keyMsg in
      unless_error (split_message de m d) d (\<lambda>(pieces, packets, ks).
      let keys = dPrv d @ [prv] in
      Some (Inr (d\<lparr>dKs := ks, dConnSent := dConnSent d @ packets, dLastRekey := dTotalReceived d,
        dTotalSent := dTotalSent d + sum_list (map length packets),
        dPendingOutbound := dPendingOutbound d @ [new_tx de clk m d],
        dPrv := (if length keys > 32 then take 32 keys else keys)\<rparr>))))))"

definition SendToConn :: "dispatch_env \<Rightarrow> (nat \<Rightarrow> gotime) \<Rightarrow> bytes \<Rightarrow> dispatcher \<Rightarrow> (int option \<times> dispatcher) run" where
  "SendToConn de clk m d =
     unless_error (split_message de m d) (None, d) (\<lambda>(pieces, packets, ks).
       let d1 = d\<lparr>dKs := ks, dConnSent := dConnSent d @ packets\<rparr> in
       obind (Mx (\<lambda>d. Some (Inr ((), d\<lparr>dTotalSent := dTotalSent d + sum_list (map length packets),
                dPendingOutbound := dPendingOutbound d @ [new_tx de clk m d]\<rparr>))) d1) (\<lambda>(_, d2).
       Some (Inr (Some pieces, d2))))"

section \<open>Receiving\<close>

text \<open>The search runs from the newest key to the oldest and does not stop at a match.\<close>

definition find_key :: "crypto_ops \<Rightarrow> bytes \<Rightarrow> prv list \<Rightarrow> prv option" where
  "find_key C to keys = foldr (\<lambda>k prv. if Match C to (Pub_ToBytes C (prv_pub C k)) then Some k else prv) keys None"

definition seg_count_for :: "packet \<Rightarrow> dispatcher \<Rightarrow> int res" where
  "seg_count_for p d = rbind (go_div (uint (pLength p)) (dMTU d)) (\<lambda>q. rbind (go_mod (uint (pLength p)) (dMTU d)) (\<lambda>r.
     Inr (if r > 0 then q + 1 else q)))"

definition partials :: "bytes \<Rightarrow> dispatcher \<Rightarrow> packet option list" where
  "partials i d = (case dPartials d i of None \<Rightarrow> [] | Some ps \<Rightarrow> ps)"

text \<open>The first closure counts the bytes and changes the key once \<^verbatim>\<open>DefaultDispatcherRekey\<close> bytes were received.\<close>

definition count_received :: "dispatch_env \<Rightarrow> (nat \<Rightarrow> gotime) \<Rightarrow> nat \<Rightarrow> dispatcher \<Rightarrow> (bool \<times> dispatcher) run" where
  "count_received de clk n d =
     (let d1 = d\<lparr>dTotalReceived := dTotalReceived d + n\<rparr> in
      if (dTotalReceived d1 - dLastRekey d1) mod 2 ^ 64 > DefaultDispatcherRekey
      then obind (ReKey de clk (d1\<lparr>dLastRekey := dTotalReceived d1\<rparr>)) (\<lambda>d2. Some (Inr (False, d2)))
      else Some (Inr (False, d1)))"

text \<open>The second closure files the packet, and tells whether it belongs to a message that is complete.\<close>

definition file_record :: "float_ops \<Rightarrow> (nat \<Rightarrow> gotime) \<Rightarrow> packet \<Rightarrow> nat \<Rightarrow> dispatcher \<Rightarrow> dispatcher" where
  "file_record F clk p n d =
     (let i = pID p in
      case fst (GetRxRecordAndPartials i d) of
        Some rxr \<Rightarrow> update_rx i (\<lambda>v. v\<lparr>rxReceived := rxReceived v + of_nat n, rxLast := clk 0\<rparr>)
          (d\<lparr>dPartials := (dPartials d)(i \<mapsto> partials i d @ [Some p])\<rparr>)
      | None \<Rightarrow> d\<lparr>dPendingInbound := dPendingInbound d @ [\<lparr>rxID = i, rxHash = replicate sha256_Len 0, rxFirst = clk 0, rxLast = clk 1,
             rxSize = ucast (pLength p), rxReceived = of_nat n, rxPing = fo_duration F (fo_value F (dPing d))\<rparr>],
           dPartials := (dPartials d)(i \<mapsto> [Some p])\<rparr>)"

definition file_packet :: "float_ops \<Rightarrow> (nat \<Rightarrow> gotime) \<Rightarrow> packet \<Rightarrow> nat \<Rightarrow> dispatcher \<Rightarrow> (bool \<times> dispatcher) run" where
  "file_packet F clk p n d =
     (let d1 = file_record F clk p n d in
      if \<exists>c\<in>set (dDone d1). cmID c = pID p then
        Some (rbind (seg_count_for p d1) (\<lambda>n. Inr (int (length (partials (pID p) d1)) \<ge> n, d1)))
      else Some (Inr (False, d1)))"

text \<open>The third closure joins what there is. An error is logged and the closure returns false, like the case without one.\<close>

definition join_message :: "dispatch_env \<Rightarrow> bytes \<Rightarrow> dispatcher \<Rightarrow> (bytes \<times> dispatcher) run" where
  "join_message de i d = obind (Some (JoinPackets_results (evC (deEv de)) (deR de) (partials i d))) (\<lambda>(pkts, msg, e).
     let d1 = d\<lparr>dPartials := (dPartials d)(i \<mapsto> pkts)\<rparr> in
     case e of
       Some _ \<Rightarrow> Some (Inr (msg, d1))
     | None \<Rightarrow> Some (Inr (msg, d1\<lparr>dDataReceived := dDataReceived d1 + length msg,
         dTotalReceived := dTotalReceived d1 + sum_list (map (\<lambda>v. length (pData v) + Packet_GetOverhead v) (List.map_filter id pkts))\<rparr>)))"

definition RecvFromConn :: "dispatch_env \<Rightarrow> (nat \<Rightarrow> gotime) \<Rightarrow> bytes \<Rightarrow> dispatcher \<Rightarrow> dispatcher run" where
  "RecvFromConn de clk m d =
     (let C = evC (deEv de) in
      unless_error (Some (GetKeysFromPacket C m)) d (\<lambda>(from, to, iv).
      unless_error (Some (rbind (deref (find_key C to (dPrv d))) (\<lambda>prv. DecodePacket C (nanos (clk 0)) m from prv iv))) d (\<lambda>(p, _).
      obind (Mx (count_received de (\<lambda>j. clk (1 + j)) (length m)) d) (\<lambda>(_, d1).
      obind (Mx (file_packet (deF de) (\<lambda>j. clk (3 + j)) p (length m)) d1) (\<lambda>(skip, d2).
      if skip then Some (Inr d2)
      else
      obind (Some (seg_count_for p d2)) (\<lambda>segCount.
      if int (length (partials (pID p) d2)) > segCount then
        obind (Mx (join_message de (pID p)) d2) (\<lambda>(msg, d3). Handle de msg (pID p) d3)
      else Some (Inr d2)))))))"

section \<open>Garbage collection and acknowledgements\<close>

text \<open>The loop over \<^verbatim>\<open>Done\<close> indexes the pending records with the index of the completion.\<close>

fun gc_done :: "rx_record list \<Rightarrow> nat \<Rightarrow> completion list \<Rightarrow> completion list res" where
  "gc_done rs i [] = Inr []"
| "gc_done rs i (c # cs) = rbind (index_expr rs (int i)) (\<lambda>r. rbind (gc_done rs (Suc i) cs) (\<lambda>tmpD.
     Inr (if rxID r = cmID c then tmpD else c # tmpD)))"

definition gc_partial :: "float_ops \<Rightarrow> (nat \<Rightarrow> gotime) \<Rightarrow> bytes \<Rightarrow> rx_record list \<times> dispatcher \<Rightarrow> (rx_record list \<times> dispatcher) res" where
  "gc_partial F clk i st = (case st of (rxr, d) \<Rightarrow>
     let dp = List.map_filter id (partials i d) in
     if partials i d = [] then Inr (rxr, d)
     else rbind (index_expr dp 0) (\<lambda>p0.
       let newest = foldl (\<lambda>n ts. if n < pTime ts then pTime ts else n) (pTime p0) dp in
       if sub_time newest (nanos (clk 0)) > sint (fo_duration F (fo_value F (dPing d)) * TimeoutPingCount) then
         let tmpR = filter (\<lambda>r. rxID r \<noteq> pID p0) (dPendingInbound d) in
         rbind (gc_done tmpR 0 (dDone d)) (\<lambda>tmpD.
           Inr (rxr @ filter (\<lambda>r. rxID r = pID p0) (dPendingInbound d),
                d\<lparr>dPartials := (dPartials d)(i := None), dPendingInbound := tmpR, dDone := tmpD\<rparr>))
       else Inr (rxr, d)))"

definition encode_ack :: "rx_record \<Rightarrow> bytes res" where
  "encode_ack r = rbind (acknowledge_Encode r (New acknowledge_Len)) (\<lambda>s. Inr (sb s))"

fun send_acks :: "rx_record list \<Rightarrow> dispatcher \<Rightarrow> dispatcher run" where
  "send_acks [] d = Some (Inr d)"
| "send_acks (r # rs) d = obind (unless_error (Some (encode_ack r)) d (\<lambda>b. Some (Inr (d\<lparr>dSender := dSender d @ [b]\<rparr>))))
     (send_acks rs)"

text \<open>\<open>ord\<close> is the order in which the range over \<^verbatim>\<open>Partials\<close> visits its keys; the clock is read anew for each.\<close>

definition RunGC :: "float_ops \<Rightarrow> (nat \<Rightarrow> nat \<Rightarrow> gotime) \<Rightarrow> bytes list \<Rightarrow> dispatcher \<Rightarrow> dispatcher run" where
  "RunGC F clk ord d =
     obind (Some (rfold (\<lambda>(j, i). gc_partial F (clk j) i) (enumerate 0 ord) ([], d))) (\<lambda>(rxr, d1). send_acks rxr d1)"

definition ack_pending :: "rx_record \<Rightarrow> dispatcher \<Rightarrow> (bool \<times> dispatcher) run" where
  "ack_pending rxr d =
     obind (ofold (\<lambda>v d. if rxID rxr \<noteq> rxID v then Some (Inr d)
              else obind (Some (encode_ack rxr)) (\<lambda>b. Some (Inr (d\<lparr>dSender := dSender d @ [b]\<rparr>)))) (dPendingInbound d) d) (\<lambda>d1.
     Some (Inr (False, d1\<lparr>dPendingInbound := filter (\<lambda>v. rxID rxr \<noteq> rxID v) (dPendingInbound d)\<rparr>)))"

text \<open>\<^verbatim>\<open>SendAck\<close> locks the mutex and then runs a closure with \<^verbatim>\<open>Mx\<close>.\<close>

definition SendAck :: "rx_record \<Rightarrow> dispatcher \<Rightarrow> (bool \<times> dispatcher) run" where
  "SendAck rxr d = Mx (Mx (ack_pending rxr)) d"

section \<open>Start and events\<close>

definition empty_dispatcher :: "keyset \<Rightarrow> int \<Rightarrow> dispatcher" where
  "empty_dispatcher ks mtu = \<lparr>dParity = 0, dDataSent = 0, dDataReceived = 0, dTotalSent = 0, dTotalReceived = 0, dErrorEWMA = [],
     dPing = [], dPingDivergence = [], dReceiver = [], dSender = [], dDone = [], dPendingInbound = [], dPendingOutbound = [],
     dPartials = Map.empty, dPrv = [], dLastRekey = 0, dKs = ks, dMTU = mtu, dRemoteKey = None, dConnSent = [], dRekeying = False,
     dLocked = False, dReady = False\<rparr>"

text \<open>The raw keys come from the libp2p connection. The result also tells whether the goroutine was started.\<close>

definition NewDispatcher ::
  "dispatch_env \<Rightarrow> (nat \<Rightarrow> gotime) \<Rightarrow> bytes res \<Rightarrow> bytes res \<Rightarrow> int \<Rightarrow> keyset \<Rightarrow> (bool \<times> dispatcher) run" where
  "NewDispatcher de clk prk fpk mtu ks =
     (let C = evC (deEv de); F = deF de; d = empty_dispatcher ks mtu in
      unless_error (Some prk) (False, d) (\<lambda>rprk.
      let d1 = d\<lparr>dPrv := [PrvKeyFromBytes C rprk]\<rparr> in
      unless_error (Some fpk) (False, d1) (\<lambda>rpk.
      unless_error (Some (PubFromBytes C rpk)) (False, d1) (\<lambda>pk.
      let d2 = d1\<lparr>dRemoteKey := Some pk, dPingDivergence := [SetValue (fo_int F 1)], dErrorEWMA := [SetValue (fo_int F 0)],
                  dParity := DefaultStartingParity\<rparr> in
      obind (Mx (\<lambda>d. obind (ReKey de clk d) (\<lambda>d. Some (Inr (False, d)))) d2) (\<lambda>(_, d3).
      Some (Inr (True, d3\<lparr>dReady := True\<rparr>)))))))"

datatype dispatch_event = EvTick "bytes list" | EvPing u64 | EvReceive bytes | EvSend bytes

text \<open>One turn of the goroutine. Before the dispatcher is ready a tick is only taken and messages for sending wait.\<close>

definition dispatch_step :: "dispatch_env \<Rightarrow> (nat \<Rightarrow> nat \<Rightarrow> gotime) \<Rightarrow> dispatch_event \<Rightarrow> dispatcher \<Rightarrow> dispatcher run" where
  "dispatch_step de clk ev d = (case ev of
      EvTick ord \<Rightarrow> if dReady d then RunGC (deF de) clk ord d else Some (Inr d)
    | EvPing rtt \<Rightarrow> obind (HandlePing (deF de) rtt d) (\<lambda>(_, d). Some (Inr d))
    | EvReceive m \<Rightarrow> RecvFromConn de (clk 0) m d
    | EvSend m \<Rightarrow> if dReady d then obind (SendToConn de (clk 0) m d) (\<lambda>(_, d). Some (Inr d)) else Some (Inr d))"

end
