(* ===== verification/Dispatcher_Props.thy ===== *)
theory Dispatcher_Props
  imports Dispatcher
begin

text \<open>
  The dispatcher keeps its books: what is pending, what an acknowledgement does to it, which keys it can still use, and what
  it never does (collect garbage, acknowledge). The invariant is over every state the goroutine reaches from
  \<^verbatim>\<open>NewDispatcher\<close>, with a clock that does not run backwards.
\<close>

section \<open>Library\<close>

lemma unless_error_simps [simp]:
  "unless_error None d f = None" "unless_error (Some (Inr x)) d f = f x"
  "unless_error (Some (Inl (Error e))) d f = Some (Inr d)" "unless_error (Some (Inl (Panic p))) d f = Some (Inl (Panic p))"
  by (simp_all add: unless_error_def)

lemma unless_error_InrE:
  assumes "unless_error m d f = Some (Inr y)"
  obtains x where "m = Some (Inr x)" and "f x = Some (Inr y)" | e where "m = Some (Inl (Error e))" and "y = d"
  using assms by (auto simp: unless_error_def split: option.splits sum.splits go_error.splits)

lemma Mx_InrE:
  assumes "Mx f d = Some (Inr (r, d'))"
  obtains d1 where "f (d\<lparr>dLocked := True\<rparr>) = Some (Inr (r, d1))" and "d' = d1\<lparr>dLocked := False\<rparr>" and "\<not> dLocked d"
  using assms by (auto simp: Mx_def split: if_splits elim!: obind_InrE)

lemma Mx_free: "\<not> dLocked d \<Longrightarrow> f (d\<lparr>dLocked := True\<rparr>) = Some (Inr (r, d1)) \<Longrightarrow> Mx f d = Some (Inr (r, d1\<lparr>dLocked := False\<rparr>))"
  by (simp add: Mx_def)

lemma ack_loop_eq:
  "ack_loop F r ps tmp d = (tmp @ takeWhile (\<lambda>x. txID x \<noteq> rxID r) ps,
     case find (\<lambda>x. txID x = rxID r) ps of None \<Rightarrow> d | Some t \<Rightarrow> account_ack F r t d)"
  by (induction ps arbitrary: tmp) auto

section \<open>Acknowledgements\<close>

lemma update_rx_fields [simp]:
  "dPendingOutbound (update_rx i f d) = dPendingOutbound d" "dDataSent (update_rx i f d) = dDataSent d"
  "dReceiver (update_rx i f d) = dReceiver d" "dRemoteKey (update_rx i f d) = dRemoteKey d" "dDone (update_rx i f d) = dDone d"
  "dSender (update_rx i f d) = dSender d" "dPartials (update_rx i f d) = dPartials d" "dPrv (update_rx i f d) = dPrv d"
  "dTotalReceived (update_rx i f d) = dTotalReceived d" "dLastRekey (update_rx i f d) = dLastRekey d"
  "dLocked (update_rx i f d) = dLocked d" "dRekeying (update_rx i f d) = dRekeying d" "dParity (update_rx i f d) = dParity d"
  "dMTU (update_rx i f d) = dMTU d" "dPing (update_rx i f d) = dPing d" "dReady (update_rx i f d) = dReady d"
  by (simp_all add: update_rx_def)

lemma account_ack_fields [simp]:
  "dPendingOutbound (account_ack F r t d) = dPendingOutbound d" "dReceiver (account_ack F r t d) = dReceiver d"
  "dDataSent (account_ack F r t d) = dDataSent d + (if txHash t = rxHash r then txSize t else 0)"
  "dDone (account_ack F r t d) = dDone d" "dSender (account_ack F r t d) = dSender d" "dPartials (account_ack F r t d) = dPartials d"
  "dPrv (account_ack F r t d) = dPrv d" "dTotalReceived (account_ack F r t d) = dTotalReceived d"
  "dLastRekey (account_ack F r t d) = dLastRekey d" "dLocked (account_ack F r t d) = dLocked d"
  "dRekeying (account_ack F r t d) = dRekeying d" "dRemoteKey (account_ack F r t d) = dRemoteKey d"
  "dPendingInbound (account_ack F r t d) = dPendingInbound d" "dReady (account_ack F r t d) = dReady d"
  "dPing (account_ack F r t d) = dPing d" "dMTU (account_ack F r t d) = dMTU d"
  by (auto simp: account_ack_def Let_def)

lemma account_ack_parity: "dParity (account_ack F r t d) < 256"
proof -
  have "(ucast x :: u32) < 256" for x :: byte
    using unsigned_less [of x, where ?'a = nat] by (simp add: word_less_nat_alt unsigned_ucast_eq take_bit_nat_eq_self)
  then show ?thesis by (simp add: account_ack_def Let_def)
qed

text \<open>C32: An acknowledgement that arrives is accounted for: when it names a pending message and carries the hash of what was sent,
  its size is added to the data sent, and the parity is set to a value below 256. Everything that was sent after the
  acknowledged message is dropped from the pending list with it, so its own acknowledgement will find nothing.\<close>

theorem acknowledgement_accounted:
  assumes "rx_ok r" and "KAcknowledge \<in> set ks" and "evReg (deEv de) = registry_of ks" and "dDone d = []"
    and "Codec_Encode acknowledge_Len (acknowledge_Encode r) = Inr s" and "dPendingOutbound d = pre @ t # post"
    and "rxID r \<notin> txID ` set pre" and "txID t = rxID r"
  shows "\<exists>d'. Handle de (sb s) i d = Some (Inr d') \<and> dPendingOutbound d' = pre \<and> dParity d' < 256 \<and>
     dDataSent d' = dDataSent d + (if txHash t = rxHash r then txSize t else 0) \<and> dReceiver d' = dReceiver d"
proof -
  obtain s1 s2 where s: "Recognise (registry_of ks) (NewFrom (sb s)) = Inr (Some KAcknowledge, s1)" "acknowledge_Decode s1 = Inr (r, s2)"
    using acknowledge_roundtrip [OF assms(1,2)] assms(5) by auto
  have "find (\<lambda>x. txID x = rxID r) (pre @ t # post) = Some t" "takeWhile (\<lambda>x. txID x \<noteq> rxID r) (pre @ t # post) = pre"
    using assms(7,8) by (induction pre) auto
  then show ?thesis
    using assms(3,4,6) s by (simp add: Handle_def Let_def codec_Decode_def rmap_fst_def handle_decoded_def handle_ack_def ack_loop_eq account_ack_parity)
qed

section \<open>Keys\<close>

lemma find_key_None: "find_key C to keys = None \<longleftrightarrow> (\<forall>k\<in>set keys. \<not> Match C to (Pub_ToBytes C (prv_pub C k)))"
  by (induction keys) (auto simp: find_key_def)

lemma find_key_Some: "find_key C to keys = Some k \<Longrightarrow> k \<in> set keys \<and> Match C to (Pub_ToBytes C (prv_pub C k))"
  by (induction keys) (auto simp: find_key_def split: if_splits)

lemma unknown_key_panics:
  assumes "GetKeysFromPacket (evC (deEv de)) m = Inr (sender, to, iv)"
    and "\<forall>q\<in>set (dPrv d). \<not> Match (evC (deEv de)) to (Pub_ToBytes (evC (deEv de)) (prv_pub (evC (deEv de)) q))"
  shows "RecvFromConn de clk m d = Some (Inl nil_panic)"
  using assms find_key_None [of "evC (deEv de)" to "dPrv d"] by (simp add: RecvFromConn_def nil_panic_def)

lemma ReKey_result:
  assumes "ReKey de clk d = Some (Inr d')"
  obtains "d' = d\<lparr>dLastRekey := dTotalReceived d\<rparr>"
  | k s pieces packets ks where "deGen de = Inr k" and "\<not> dRekeying d"
    and "newkey_Encode (evC (deEv de)) (Some (prv_pub (evC (deEv de)) k)) (New newkey_Len) = Inr s"
    and "split_message de (sb s) d = Some (Inr (pieces, packets, ks))"
    and "d' = d\<lparr>dKs := ks, dConnSent := dConnSent d @ packets, dLastRekey := dTotalReceived d,
        dTotalSent := dTotalSent d + sum_list (map length packets),
        dPendingOutbound := dPendingOutbound d @ [new_tx de clk (sb s) d], dPrv := take 32 (dPrv d @ [k])\<rparr>"
proof -
  have "split_message de m (d\<lparr>dLastRekey := n\<rparr>) = split_message de m d" for m n by (cases "dRemoteKey d") (simp_all add: split_message_def)
  then show thesis
    using assms that unfolding ReKey_def Let_def
    by (auto simp: new_tx_def DerivePub_def split: if_splits elim!: unless_error_InrE)
qed

text \<open>C40: A dispatcher with 32 keys announces keys it does not keep. \<^verbatim>\<open>ReKey\<close> sends the new public key to the other
  side, but the list is cut to its 32 oldest keys, so that the new one is lost; and the first packet the other side
  sends to the new key makes \<^verbatim>\<open>RecvFromConn\<close> panic, unless its cloak happens to match an old key.\<close>

theorem rekey_forgets_new_key:
  assumes "length (dPrv d) = 32" and "deGen de = Inr k" and "ReKey de clk d = Some (Inr d')" and "dConnSent d' \<noteq> dConnSent d"
    and "C = evC (deEv de)" and "GetKeysFromPacket C m = Inr (sender, GetCloak C b (prv_pub C k), iv)"
    and "\<forall>q\<in>set (dPrv d). \<not> Match C (GetCloak C b (prv_pub C k)) (Pub_ToBytes C (prv_pub C q))"
  shows "dPrv d' = dPrv d \<and>
     (\<exists>s pieces packets ks. newkey_Encode C (Some (prv_pub C k)) (New newkey_Len) = Inr s \<and>
        split_message de (sb s) d = Some (Inr (pieces, packets, ks)) \<and> dConnSent d' = dConnSent d @ packets) \<and>
     RecvFromConn de clk m d' = Some (Inl nil_panic)"
  using assms(3)
proof (cases rule: ReKey_result)
  case (2 k' s pieces packets ks)
  then have "dPrv d' = dPrv d" using assms(1) by simp
  then show ?thesis
    using 2 assms(2,5) unknown_key_panics [of de m sender "GetCloak C b (prv_pub C k)" iv d'] assms(6,7) by auto
qed (use assms(4) in simp)

section \<open>Joined packets are received packets\<close>

lemma discard_loop_result:
  "discard_loop i ds ps = Inr ps' \<Longrightarrow> set ps' \<subseteq> set ps \<and> length ps' + length ds = length ps"
proof (induction i ds ps arbitrary: ps' rule: discard_loop.induct)
  case (2 i d ds ps)
  from 2(2) obtain q where q: "RemovePacket ps (d - int i) = Inr q" "discard_loop (Suc i) ds q = Inr ps'"
    by (auto simp: rbind_eq_Inr)
  have "set q \<subseteq> set ps" "length ps = Suc (length q)"
    using q(1) by (auto simp: RemovePacket_def rbind_eq_Inr slice_expr_def split: if_splits dest!: in_set_takeD in_set_dropD)
  then show ?case using 2(1) [OF q(2)] by auto
qed simp

lemma common_loop_length:
  "common_loop C packets l red sq ds rest = Inr ds' \<Longrightarrow> length ds' \<le> length ds + length rest"
proof (induction rest arbitrary: sq ds)
  case (Cons p rest)
  then show ?case by (fastforce simp: rbind_eq_Inr split: if_splits dest!: Cons.IH)
qed simp

lemma collate_members:
  "collate ps pkts = Inr out \<Longrightarrow> Some p \<in> set out \<Longrightarrow> p \<in> set ps \<or> Some p \<in> set pkts"
  "collate ps pkts = Inr out \<Longrightarrow> Some p \<in> set pkts \<or> ps \<noteq> [] \<Longrightarrow> \<exists>p. Some p \<in> set out"
proof (induction ps arbitrary: p pkts)
  case (Cons q ps)
  {
    case 1
    then show ?case
      using Cons.IH(1) by (auto simp: rbind_eq_Inr set_index_def split: if_splits dest!: set_update_subset_insert [THEN subsetD])
  next
    case 2
    then obtain k where "k < length pkts" "collate ps (pkts[k := Some q]) = Inr out"
      by (auto simp: rbind_eq_Inr set_index_def uint_nat simp del: of_nat_unat split: if_splits)
    then show ?case using Cons.IH(2) [of "pkts[k := Some q]" q] set_update_memI by metis
  }
qed auto

lemma map_filter_id_set [simp]: "p \<in> set (List.map_filter id ps) \<longleftrightarrow> Some p \<in> set ps"
  by (induction ps) (auto simp: List.map_filter_simps split: option.splits)

lemma join_plan_packets:
  assumes "join_plan C ps = Inr (packets, plan, n)"
  shows "packets \<noteq> [] \<and> (\<forall>p\<in>set packets. Some p \<in> set ps)"
proof -
  let ?s = "sort_key pSeq (List.map_filter id ps)"
  obtain l red sq ds where c: "common_loop C ?s l red sq [] (tl ?s) = Inr ds" "discard_loop 0 ds ?s = Inr packets" "?s \<noteq> []"
    using assms by (auto simp: join_plan_def Let_def rbind_eq_Inr index_expr_def split: if_splits)
  have "length ?s = Suc (length (tl ?s))" using c(3) by (cases ?s) simp_all
  then have "0 < length packets"
    using common_loop_length [OF c(1)] conjunct2 [OF discard_loop_result [OF c(2)]] by (auto simp del: length_0_conv simp flip: length_greater_0_conv)
  then show ?thesis using discard_loop_result [OF c(2)] by auto
qed

lemma results_members:
  assumes "JoinPackets_results C R ps = Inr (c, m, e)"
  shows "(\<forall>p. Some p \<in> set c \<longrightarrow> Some p \<in> set ps) \<and> (c \<noteq> [] \<longrightarrow> (\<exists>p. Some p \<in> set c))"
proof (cases "join_plan C ps")
  case (Inr pl)
  obtain packets plan n where "pl = (packets, plan, n)" by (cases pl)
  note pl = Inr [unfolded this]
  consider "c = []" | "collate packets (replicate (nat n) None) = Inr c"
    using assms pl by (auto simp: JoinPackets_results_def rbind_eq_Inr split: if_splits)
  then show ?thesis
  proof cases
    case 2
    then show ?thesis using collate_members [OF 2] join_plan_packets [OF pl] by fastforce
  qed simp
qed (use assms in \<open>auto simp: JoinPackets_results_def split: go_error.splits\<close>)

section \<open>The invariant\<close>

definition partial_ok :: "int \<Rightarrow> bytes \<Rightarrow> packet option list \<Rightarrow> bool" where
  "partial_ok now i ps \<longleftrightarrow> (\<forall>p. Some p \<in> set ps \<longrightarrow> pID p = i \<and> pTime p \<le> now) \<and> (ps \<noteq> [] \<longrightarrow> (\<exists>p. Some p \<in> set ps))"

text \<open>The packets of a message are filed under its identifier, each message in progress has one record, the counters are in
  order, there are one to 32 keys, and nothing was completed or acknowledged.\<close>

definition dispatcher_ok :: "int \<Rightarrow> dispatcher \<Rightarrow> bool" where
  "dispatcher_ok now d \<longleftrightarrow> dDone d = [] \<and> dSender d = [] \<and> \<not> dRekeying d \<and> dPrv d \<noteq> [] \<and> length (dPrv d) \<le> 32 \<and>
     dLastRekey d \<le> dTotalReceived d \<and> dParity d < 256 \<and> dRemoteKey d \<noteq> None \<and> distinct (map rxID (dPendingInbound d)) \<and>
     (\<forall>i ps. dPartials d i = Some ps \<longrightarrow> i \<in> rxID ` set (dPendingInbound d) \<and> partial_ok now i ps)"

lemma dispatcher_ok_unlocked [simp]: "dispatcher_ok now (d\<lparr>dLocked := b\<rparr>) = dispatcher_ok now d"
  by (simp add: dispatcher_ok_def)

lemma dispatcher_ok_later: "dispatcher_ok now d \<Longrightarrow> now \<le> now' \<Longrightarrow> dispatcher_ok now' d"
  unfolding dispatcher_ok_def partial_ok_def by (meson order_trans)

lemma ReKey_ok: "ReKey de clk d = Some (Inr d') \<Longrightarrow> dispatcher_ok now (d\<lparr>dLastRekey := dTotalReceived d\<rparr>) \<Longrightarrow>
    dispatcher_ok now d' \<and> dLocked d' = dLocked d"
  by (erule ReKey_result) (auto simp: dispatcher_ok_def)

lemma update_rx_ids [simp]: "(\<And>v. rxID (f v) = rxID v) \<Longrightarrow> map rxID (dPendingInbound (update_rx i f d)) = map rxID (dPendingInbound d)"
  by (auto simp: update_rx_def)

lemma update_rx_pending [simp]:
  assumes "\<And>v. rxID (f v) = rxID v"
  shows "rxID ` set (dPendingInbound (update_rx i f d)) = rxID ` set (dPendingInbound d)"
  using update_rx_ids [of f i d] assms by (metis list.set_map)

lemma update_rx_ok [simp]:
  assumes "\<And>v. rxID (f v) = rxID v"
  shows "dispatcher_ok now (update_rx i f d) = dispatcher_ok now d"
  using assms by (simp add: dispatcher_ok_def)

lemma handle_ack_ok: "dispatcher_ok now d \<Longrightarrow> dispatcher_ok now (handle_ack F r d) \<and> dLocked (handle_ack F r d) = dLocked d"
  by (auto simp: handle_ack_def ack_loop_eq dispatcher_ok_def account_ack_parity split: option.splits)

lemma handle_newkey_result: "handle_newkey C k d = Inr d' \<Longrightarrow> d' = d \<or> (\<exists>new. d' = d\<lparr>dRemoteKey := Some new\<rparr>)"
  by (cases "dRemoteKey d"; cases k) (auto simp: handle_newkey_def split: if_splits)

lemma handle_decoded_ok:
  assumes "handle_decoded de x d = Inr d'" and "dispatcher_ok now d"
  shows "dispatcher_ok now d' \<and> dLocked d' = dLocked d"
proof (cases x)
  case (MNewKey k)
  then have "d' = d \<or> (\<exists>new. d' = d\<lparr>dRemoteKey := Some new\<rparr>)"
    using assms(1) by (auto simp: handle_decoded_def dest: handle_newkey_result)
  then show ?thesis using assms(2) by (auto simp: dispatcher_ok_def)
next
  case (MPacked b)
  then show ?thesis using assms by (auto simp: handle_decoded_def dispatcher_ok_def)
qed (use assms handle_ack_ok in \<open>auto simp: handle_decoded_def\<close>)

lemma Handle_ok:
  assumes "Handle de m i d = Some (Inr d')" and "dispatcher_ok now d"
  shows "dispatcher_ok now d' \<and> dLocked d' = dLocked d"
proof -
  let ?d = "update_rx i (\<lambda>v. v\<lparr>rxHash := copy_to (rxHash v) (Single (evC (deEv de)) m)\<rparr>) d"
  have "d' = ?d \<or> (\<exists>x. handle_decoded de x ?d = Inr d')"
    using assms by (auto simp: Handle_def Let_def dispatcher_ok_def split: option.splits elim!: obind_InrE unless_error_InrE)
  then show ?thesis using assms(2) handle_decoded_ok [of de _ ?d d' now] by auto
qed

lemma file_packet_ok:
  assumes "file_packet F clk p n d = Some (Inr (b, d'))" and "dispatcher_ok now d" and "pTime p \<le> now"
  shows "dispatcher_ok now d' \<and> dLocked d' = dLocked d \<and> \<not> b"
proof (cases "find (\<lambda>v. rxID v = pID p) (dPendingInbound d)")
  case None
  then have "pID p \<notin> rxID ` set (dPendingInbound d)" by (auto simp: find_None_iff_all)
  then show ?thesis
    using assms None by (auto simp: file_packet_def file_record_def GetRxRecordAndPartials_def Let_def dispatcher_ok_def partial_ok_def split: if_splits)
next
  case (Some r)
  then have r: "pID p \<in> rxID ` set (dPendingInbound d)" by (auto dest!: find_Some_in_set intro: rev_image_eqI)
  have "dispatcher_ok now (d\<lparr>dPartials := (dPartials d)(pID p \<mapsto> partials (pID p) d @ [Some p])\<rparr>)"
    using assms(2,3) r by (auto simp: dispatcher_ok_def partial_ok_def partials_def split: option.splits dest!: sym [of "Some _"])
  then show ?thesis
    using assms(1,2) Some by (auto simp: file_packet_def file_record_def GetRxRecordAndPartials_def Let_def dispatcher_ok_def [of now d])
qed

lemma join_message_ok:
  assumes "join_message de i d = Some (Inr (m, d'))" and "dispatcher_ok now d" and "dPartials d i \<noteq> None"
  shows "dispatcher_ok now d' \<and> dLocked d' = dLocked d"
proof -
  obtain c e ps where c: "JoinPackets_results (evC (deEv de)) (deR de) ps = Inr (c, m, e)" "dPartials d i = Some ps"
    and d': "d' = d\<lparr>dPartials := (dPartials d)(i \<mapsto> c)\<rparr> \<or> (\<exists>n k. d' = d\<lparr>dPartials := (dPartials d)(i \<mapsto> c), dDataReceived := n,
        dTotalReceived := dTotalReceived d + k\<rparr>)"
    using assms(1,3) by (auto simp: join_message_def Let_def partials_def split: option.splits elim!: obind_InrE) blast
  have "i \<in> rxID ` set (dPendingInbound d)" "partial_ok now i c"
    using assms(2) c(2) results_members [OF c(1)] by (auto simp: dispatcher_ok_def partial_ok_def)
  then have "dispatcher_ok now (d\<lparr>dPartials := (dPartials d)(i \<mapsto> c)\<rparr>)"
    using assms(2) by (auto simp: dispatcher_ok_def)
  then show ?thesis using d' by (auto simp: dispatcher_ok_def)
qed

lemma count_received_ok:
  assumes "count_received de clk n d = Some (Inr (b, d'))" and "dispatcher_ok now d"
  shows "dispatcher_ok now d' \<and> dLocked d' = dLocked d"
proof -
  have "dispatcher_ok now (d\<lparr>dTotalReceived := dTotalReceived d + n\<rparr>)"
    "dispatcher_ok now (d\<lparr>dTotalReceived := dTotalReceived d + n, dLastRekey := dTotalReceived d + n\<rparr>)"
    using assms(2) by (simp_all add: dispatcher_ok_def)
  then show ?thesis
    using assms(1) ReKey_ok [of de clk "d\<lparr>dTotalReceived := dTotalReceived d + n, dLastRekey := dTotalReceived d + n\<rparr>" d' now]
    by (auto simp: count_received_def Let_def split: if_splits elim!: obind_InrE)
qed

lemma file_packet_files: "file_packet F clk p n d = Some (Inr (b, d')) \<Longrightarrow> dPartials d' (pID p) \<noteq> None"
  by (auto simp: file_packet_def file_record_def Let_def rbind_eq_Inr split: if_splits option.splits)

lemma DecodePacket_time: "DecodePacket C now m k prv iv = Inr (p, m') \<Longrightarrow> pTime p = now"
  by (auto simp: DecodePacket_def Let_def rbind_eq_Inr split: if_splits prod.splits)

lemma Mx_ok:
  assumes "Mx f d = Some (Inr (r, d'))" and "\<And>d1. f (d\<lparr>dLocked := True\<rparr>) = Some (Inr (r, d1)) \<Longrightarrow> P (d1\<lparr>dLocked := False\<rparr>)"
  shows "P d' \<and> \<not> dLocked d'"
  using assms by (auto elim!: Mx_InrE)

lemma RecvFromConn_ok:
  assumes run: "RecvFromConn de clk m d = Some (Inr d')" and ok: "dispatcher_ok now d" "\<not> dLocked d"
    and now: "now \<le> now'" "\<forall>j. nanos (clk j) \<le> now'"
  shows "dispatcher_ok now' d' \<and> \<not> dLocked d'"
proof -
  let ?C = "evC (deEv de)"
  have ok': "dispatcher_ok now' d" using dispatcher_ok_later ok(1) now(1) by blast
  consider "d' = d" | p d1 b d2 skip where "pTime p = nanos (clk 0)"
    "Mx (count_received de (\<lambda>j. clk (1 + j)) (length m)) d = Some (Inr (b, d1))"
    "Mx (file_packet (deF de) (\<lambda>j. clk (3 + j)) p (length m)) d1 = Some (Inr (skip, d2))"
    "d' = d2 \<or> (\<exists>msg d3. Mx (join_message de (pID p)) d2 = Some (Inr (msg, d3)) \<and> Handle de msg (pID p) d3 = Some (Inr d'))"
    using run unfolding RecvFromConn_def Let_def
    by (auto simp: rbind_eq_Inr dest!: DecodePacket_time split: if_splits elim!: unless_error_InrE obind_InrE)
  then show ?thesis
  proof cases
    case (2 p d1 b d2 skip)
    have d1: "dispatcher_ok now' d1 \<and> \<not> dLocked d1"
      using 2(2) by (rule Mx_ok) (use ok' count_received_ok in auto)
    have d2: "(dispatcher_ok now' d2 \<and> dPartials d2 (pID p) \<noteq> None) \<and> \<not> dLocked d2"
      using 2(3) by (rule Mx_ok) (use d1 2(1) now(2) file_packet_ok file_packet_files in fastforce)
    show ?thesis
    proof (cases "d' = d2")
      case False
      then obtain msg d3 where d3: "Mx (join_message de (pID p)) d2 = Some (Inr (msg, d3))" "Handle de msg (pID p) d3 = Some (Inr d')"
        using 2(4) by blast
      have "dispatcher_ok now' d3 \<and> \<not> dLocked d3"
        using d3(1) by (rule Mx_ok) (use d2 join_message_ok in fastforce)
      then show ?thesis using Handle_ok [OF d3(2)] by blast
    qed (use d2 in simp)
  qed (use ok ok' in simp)
qed

section \<open>Nothing is collected\<close>

text \<open>A round trip time is not negative, and ten of them fit into a duration.\<close>

definition ping_laws :: "float_ops \<Rightarrow> bool" where
  "ping_laws F \<longleftrightarrow> (\<forall>a. 0 \<le> sint (fo_duration F (fo_value F a) * TimeoutPingCount))"

lemma newest_bound: "(\<forall>p\<in>set ps. pTime p \<le> b) \<Longrightarrow> t \<le> b \<Longrightarrow> foldl (\<lambda>n ts. if n < pTime ts then pTime ts else n) t ps \<le> b"
  by (induction ps arbitrary: t) auto

lemma gc_partial_idle:
  assumes "dispatcher_ok now d" and "ping_laws F" and "now \<le> nanos (clk 0)"
  shows "gc_partial F clk i (rs, d) = Inr (rs, d)"
proof (cases "partials i d = []")
  case False
  let ?dp = "List.map_filter id (partials i d)"
  have ok: "partial_ok now i (partials i d)" using assms(1) False by (auto simp: dispatcher_ok_def partials_def split: option.splits)
  then obtain p0 where "p0 \<in> set ?dp" using False by (auto simp: partial_ok_def)
  then have ix: "index_expr ?dp 0 = Inr (?dp ! 0)" "?dp ! 0 \<in> set ?dp" by (cases ?dp; simp add: index_expr_def)+
  have "\<forall>p\<in>set ?dp. pTime p \<le> nanos (clk 0)" using ok assms(3) by (fastforce simp: partial_ok_def)
  from newest_bound [OF this] ix(2) this
  have "foldl (\<lambda>n ts. if n < pTime ts then pTime ts else n) (pTime (?dp ! 0)) ?dp \<le> nanos (clk 0)" by blast
  then have "sub_time (foldl (\<lambda>n ts. if n < pTime ts then pTime ts else n) (pTime (?dp ! 0)) ?dp) (nanos (clk 0)) \<le> 0"
    by (simp add: sub_time_def)
  moreover have "0 \<le> sint (fo_duration F (fo_value F (dPing d)) * TimeoutPingCount)" using assms(2) by (simp add: ping_laws_def)
  ultimately show ?thesis using ix(1) False by (simp add: gc_partial_def Let_def)
qed (simp add: gc_partial_def Let_def)

lemma RunGC_idle:
  assumes "dispatcher_ok now d" and "ping_laws F" and "\<forall>j k. now \<le> nanos (clk j k)"
  shows "RunGC F clk ord d = Some (Inr d)"
proof -
  have "rfold (\<lambda>(j, i). gc_partial F (clk j) i) xs ([], d) = Inr ([], d)" for xs :: "(nat \<times> bytes) list"
    by (induction xs) (use assms gc_partial_idle in auto)
  then show ?thesis by (simp add: RunGC_def)
qed

section \<open>Reachable states\<close>

text \<open>The states of the goroutine, with the time: each turn reads its clock between the last turn and its own end, has its own
  random draws, and takes any event. The floating point operations stay the same.\<close>

inductive dispatcher_reach :: "float_ops \<Rightarrow> int \<Rightarrow> dispatcher \<Rightarrow> bool" for F where
  start: "NewDispatcher de clk prk fpk mtu ks = Some (Inr (True, d)) \<Longrightarrow> dispatcher_reach F now d"
| turn: "dispatcher_reach F now d \<Longrightarrow> dispatch_step de clk ev d = Some (Inr d') \<Longrightarrow> deF de = F \<Longrightarrow>
    \<forall>j k. now \<le> nanos (clk j k) \<and> nanos (clk j k) \<le> now' \<Longrightarrow> dispatcher_reach F now' d'"

inductive_cases dispatcher_reachE: "dispatcher_reach F now d"

lemma SendToConn_ok:
  assumes "SendToConn de clk m d = Some (Inr (r, d'))" and "dispatcher_ok now d" and "\<not> dLocked d"
  shows "dispatcher_ok now d' \<and> \<not> dLocked d'"
  using assms by (auto simp: SendToConn_def Let_def dispatcher_ok_def elim!: unless_error_InrE obind_InrE Mx_InrE)

lemma NewDispatcher_ok:
  assumes "NewDispatcher de clk prk fpk mtu ks = Some (Inr (True, d))"
  shows "dispatcher_ok now d \<and> \<not> dLocked d"
proof -
  obtain rprk pk d3 b where
    m: "Mx (\<lambda>d. obind (ReKey de clk d) (\<lambda>d. Some (Inr (False, d)))) (empty_dispatcher ks mtu\<lparr>dPrv := [PrvKeyFromBytes (evC (deEv de)) rprk],
        dRemoteKey := Some pk, dPingDivergence := [SetValue (fo_int (deF de) 1)], dErrorEWMA := [SetValue (fo_int (deF de) 0)],
        dParity := DefaultStartingParity\<rparr>) = Some (Inr (b, d3))" and d: "d = d3\<lparr>dReady := True\<rparr>"
    using assms unfolding NewDispatcher_def Let_def by (elim unless_error_InrE obind_InrE) (auto split: prod.splits)
  then obtain d2 where d2: "dispatcher_ok now d2" "Mx (\<lambda>d. obind (ReKey de clk d) (\<lambda>d. Some (Inr (False, d)))) d2 = Some (Inr (b, d3))"
    by (force simp: dispatcher_ok_def empty_dispatcher_def DefaultStartingParity_def)
  have ok: "dispatcher_ok now (d2\<lparr>dLastRekey := dTotalReceived d2\<rparr>)" using d2(1) by (simp add: dispatcher_ok_def)
  obtain d4 where "ReKey de clk (d2\<lparr>dLocked := True\<rparr>) = Some (Inr d4)" "d3 = d4\<lparr>dLocked := False\<rparr>"
    using d2(2) by (auto elim!: Mx_InrE obind_InrE)
  moreover have "dispatcher_ok now (d2\<lparr>dLocked := True, dLastRekey := dTotalReceived d2\<rparr>)" using ok by (simp add: dispatcher_ok_def)
  ultimately show ?thesis using ReKey_ok [of de clk "d2\<lparr>dLocked := True\<rparr>" d4 now] d by (simp add: dispatcher_ok_def)
qed

lemma reach_ok:
  assumes "dispatcher_reach F now d" and "ping_laws F"
  shows "dispatcher_ok now d \<and> \<not> dLocked d"
  using assms
proof (induction rule: dispatcher_reach.induct)
  case (turn now d de clk ev d' now')
  have ok: "dispatcher_ok now d" "\<not> dLocked d" and le: "now \<le> now'" using turn by (auto intro: order_trans)
  note ok' = dispatcher_ok_later [OF ok(1) le]
  show ?case
  proof (cases ev)
    case (EvTick ord)
    then show ?thesis using turn(2-4,6) ok ok' RunGC_idle [OF ok(1), of F clk ord] by (auto simp: dispatch_step_def split: if_splits)
  next
    case (EvPing rtt)
    then show ?thesis using turn(2) ok ok' by (auto simp: dispatch_step_def HandlePing_def dispatcher_ok_def elim!: obind_InrE Mx_InrE)
  next
    case (EvReceive m)
    then show ?thesis using turn(2,4) RecvFromConn_ok [OF _ ok le, of de "clk 0" m d'] by (simp add: dispatch_step_def)
  next
    case (EvSend m)
    then show ?thesis using turn(2) ok ok' SendToConn_ok by (auto simp: dispatch_step_def split: if_splits elim!: obind_InrE)
  qed
qed (rule NewDispatcher_ok)



end
