(* ===== verification/Dispatcher_Deliver.thy ===== *)
theory Dispatcher_Deliver
  imports Dispatcher_Props Engine_Thms
begin

text \<open>
  Two dispatchers: what one sends with \<^verbatim>\<open>SendToConn\<close> arrives, packet by packet and in any order, at \<^verbatim>\<open>RecvFromConn\<close> of the other.
  How often the message is delivered, and for which sizes the receiver panics instead.
\<close>

section \<open>Packets on the wire\<close>

text \<open>A frame for the key \<open>to\<close> that holds the packet \<open>p\<close>, whatever the time of its arrival.\<close>

definition framed :: "crypto_ops \<Rightarrow> prv \<Rightarrow> bytes \<Rightarrow> packet \<Rightarrow> bool" where
  "framed C to w p \<longleftrightarrow> length w = length (pData p) + 76 \<and>
     (\<exists>sender b iv. GetKeysFromPacket C w = Inr (sender, GetCloak C b (prv_pub C to), iv) \<and>
        (\<forall>now. \<exists>d. DecodePacket C now w sender to iv = Inr (p\<lparr>pTime := now\<rparr>, d)))"

lemma EncodePacket_framed:
  assumes "crypto_laws C" and "length nonc = 16" and "params_ok ep" and "ppTo ep = prv_pub C to"
    and "valid_pub C (prv_pub C (ppFrom ep))" and "EncodePacket C nonc blind ep = Inr w"
  shows "framed C to w (packet_of ep t)"
proof -
  let ?F = "frame_rest C nonc blind ep"
  have w: "w = take 4 (Single C ?F) @ ?F"
    using EncodePacket_eq [OF assms(1,2), of ep blind] assms(3,6) by (simp add: params_ok_def)
  have "length w = length (ppData ep) + 76"
    using assms(1-3) by (simp add: w frame_rest_def params_ok_def)
  moreover have "\<exists>d. DecodePacket C now w (prv_pub C (ppFrom ep)) to (replicate 16 0) = Inr (packet_of ep now, d)" for now
    unfolding w using assms by (intro DecodePacket_frame) simp_all
  moreover have "packet_of ep now = (packet_of ep t)\<lparr>pTime := now\<rparr>" for now by (simp add: packet_of_def)
  ultimately show ?thesis
    using GetKeysFromPacket_frame [OF assms(1,2,5), of blind] assms(4) unfolding framed_def w by (auto simp: packet_of_def)
qed

lemma encode_loop_framed:
  assumes "crypto_laws C" and "\<forall>i. length (nonc i) = 16" and "\<forall>k. valid_pub C (prv_pub C k)"
    and "ppTo pp = prv_pub C to" and "params_ok (pp\<lparr>ppSeq := 0\<rparr>)" and "i + length ds \<le> 2 ^ 16"
    and "encode_loop C nonc blind pp ks i ds = Inr (wire, ks')"
  shows "list_all2 (framed C to) wire (map2 (shard_packet pp t) [i..<i + length ds] ds)"
  using assms(6,7)
proof (induction ds arbitrary: i ks wire)
  case (Cons d ds)
  obtain k ks1 where k: "Next C ks = (k, ks1)" by force
  let ?ep = "pp\<lparr>ppData := d, ppSeq := int i, ppFrom := k\<rparr>"
  obtain w wire' where w: "EncodePacket C (nonc i) (blind i) ?ep = Inr w" "wire = w # wire'"
    "encode_loop C nonc blind pp ks1 (Suc i) ds = Inr (wire', ks')"
    using Cons.prems(2) k by (auto simp: Let_def rbind_eq_Inr)
  have "params_ok ?ep" using assms(5) Cons.prems(1) by (simp add: params_ok_def)
  then have "framed C to w (packet_of ?ep t)" using w(1) assms(1-4) by (intro EncodePacket_framed) simp_all
  moreover have "packet_of ?ep t = shard_packet pp t i d" by (simp add: packet_of_def shard_packet_def)
  ultimately show ?case
    using Cons.IH [OF _ w(3)] Cons.prems(1) w(2) by (simp add: upt_conv_Cons del: upt_Suc)
qed simp

lemma shuffled_map: "shuffled d (map f xs) = map f (shuffled d xs)"
proof -
  have "\<forall>i\<in>set is. i < length xs \<Longrightarrow> fold (\<lambda>i ys. swap_at i (d i mod Suc i) ys) is (map f xs) =
      map f (fold (\<lambda>i ys. swap_at i (d i mod Suc i) ys) is xs)" for "is"
  proof (induction "is" arbitrary: xs)
    case (Cons i "is")
    have "d i mod Suc i < length xs" using Cons.prems mod_less_divisor [of "Suc i" "d i"] by (auto intro: le_less_trans [of _ i] simp: less_Suc_eq_le simp del: mod_less_divisor)
    then have "swap_at i (d i mod Suc i) (map f xs) = map f (swap_at i (d i mod Suc i) xs)"
      using Cons.prems by (simp add: swap_at_def map_update)
    then show ?case using Cons by simp
  qed simp
  then show ?thesis by (simp add: shuffled_def)
qed

lemma list_all2_shuffled:
  assumes "list_all2 P xs ys" shows "list_all2 P (shuffled d xs) (shuffled d ys)"
proof -
  have xy: "xs = map fst (zip xs ys)" "ys = map snd (zip xs ys)" using assms by (simp_all add: list_all2_lengthD)
  have "\<forall>(x, y)\<in>set (shuffled d (zip xs ys)). P x y" using assms by (simp add: list_all2_iff)
  then have "list_all2 P (map fst (shuffled d (zip xs ys))) (map snd (shuffled d (zip xs ys)))"
    unfolding list_all2_map1 list_all2_map2 by (auto intro!: list.rel_refl_strong)
  then show ?thesis using xy by (metis shuffled_map)
qed

section \<open>A packed onion\<close>

lemma packed_roundtrip:
  assumes "Codec_Encode (packed_Len b) (packed_Encode b) = Inr s" and "KOnion \<in> set ks" and "length b < 2 ^ 32"
  shows "length (sb s) = 8 + length b \<and>
     (\<exists>s1 s2. Recognise (registry_of ks) (NewFrom (sb s)) = Inr (Some KOnion, s1) \<and> packed_Decode s1 = Inr (b, s2))"
proof -
  have w: "writes (packed_Encode b) (bytes_of_string (magic_of KOnion) @ bytes_image b)"
    unfolding packed_Encode_def [abs_def] by (auto simp: magic_of_def intro!: writes_intros)
  have "reads ReadBytes (bytes_image b) b" using assms(3) by (rule reads_Bytes)
  moreover have "length (bytes_image b) = 4 + length b" by (simp add: bytes_image_def)
  ultimately show ?thesis
    using guarded_roundtrip [OF w _ assms(2), of ReadBytes b "packed_Len b" "packed_Len []"] assms(1)
    unfolding packed_Decode_def by (fastforce simp: packed_Len_def)
qed

section \<open>The packets a receiver keeps\<close>

text \<open>The packets of a list with gaps.\<close>

abbreviation present :: "packet option list \<Rightarrow> packet list" where
  "present c \<equiv> List.map_filter id c"

lemma present_snoc: "present (c @ [x]) = present c @ (case x of None \<Rightarrow> [] | Some p \<Rightarrow> [p])"
  by (cases x) (simp_all add: List.map_filter_def)

lemma distinct_by_index:
  "(\<forall>j<length c. \<forall>p. c ! j = Some p \<longrightarrow> unat (pSeq p) = j) \<Longrightarrow> distinct (map pSeq (present c))"
proof (induction c rule: rev_induct)
  case (snoc x c)
  define f where "f = present c"
  have c: "\<forall>j<length c. \<forall>p. c ! j = Some p \<longrightarrow> unat (pSeq p) = j"
  proof (intro allI impI)
    fix j p assume "j < length c" "c ! j = Some p"
    then show "unat (pSeq p) = j" using snoc.prems [rule_format, of j p] by (simp add: nth_append)
  qed
  have d: "distinct (map pSeq f)" using snoc.IH [OF c] by (simp only: f_def)
  have less: "unat (pSeq p) < length c" if "p \<in> set f" for p
  proof -
    have "Some p \<in> set c" using that unfolding f_def by simp
    then show ?thesis using c by (auto simp: in_set_conv_nth)
  qed
  show ?case
  proof (cases x)
    case (Some q)
    then have "unat (pSeq q) = length c" using snoc.prems [rule_format, of "length c" q] by simp
    then have "pSeq q \<notin> pSeq ` set f" using less by fastforce
    then show ?thesis using d unfolding Some present_snoc f_def [symmetric] by simp
  next
    case None
    show ?thesis using d unfolding None present_snoc f_def [symmetric] by simp
  qed
qed (simp add: List.map_filter_simps)

lemma collate_packets:
  assumes "packets_for shards L P ps" and "collate (sort_key pSeq ps) (replicate (length shards) None) = Inr c"
  shows "length c = length shards" and "packets_for shards L P (present c)" and "set (present c) = set ps"
proof -
  let ?sp = "sort_key pSeq ps"
  have sp: "packets_for shards L P ?sp" using packets_for_sorted [OF assms(1)] .
  then have "distinct (map pSeq ?sp)" "\<forall>p\<in>set ?sp. unat (pSeq p) < length (replicate (length shards) (None :: packet option))"
    by (auto simp: packets_for_def)
  from collate_result [OF this] have c: "length c = length shards" "\<forall>p\<in>set ps. c ! unat (pSeq p) = Some p"
    "\<And>i. i \<notin> (\<lambda>p. unat (pSeq p)) ` set ps \<Longrightarrow> c ! i = replicate (length shards) None ! i"
    using assms(2) by auto
  have at: "p \<in> set ps \<and> unat (pSeq p) = j" if "j < length c" "c ! j = Some p" for j p
  proof (cases "j \<in> (\<lambda>p. unat (pSeq p)) ` set ps")
    case True
    then show ?thesis using c(2) that(2) by auto
  qed (use c(1,3) that in auto)
  have small: "unat (pSeq p) < length c" if "p \<in> set ps" for p using assms(1) that c(1) by (simp add: packets_for_def)
  have "p \<in> set (present c) \<longleftrightarrow> p \<in> set ps" for p
    unfolding map_filter_id_set in_set_conv_nth [of "Some p"] using at small c(2) by blast
  then show set: "set (present c) = set ps" by blast
  have "distinct (map pSeq (present c))" using distinct_by_index [of c] at by blast
  moreover have "present c \<noteq> []" using set assms(1) by (metis packets_for_def set_empty)
  ultimately show "packets_for shards L P (present c)" using assms(1) unfolding packets_for_def set by blast
  show "length c = length shards" by (rule c(1))
qed

section \<open>One packet\<close>

definition receiver_ready :: "crypto_ops \<Rightarrow> prv \<Rightarrow> int \<Rightarrow> dispatcher \<Rightarrow> bool" where
  "receiver_ready C to mtu d \<longleftrightarrow> \<not> dLocked d \<and> dDone d = [] \<and> dMTU d = mtu \<and> to \<in> set (dPrv d) \<and>
     (\<forall>b. \<forall>k\<in>set (dPrv d). Match C (GetCloak C b (prv_pub C to)) (Pub_ToBytes C (prv_pub C k)) \<longrightarrow> k = to)"

lemma find_key_ready:
  assumes "receiver_ready C to mtu d" and "crypto_laws C"
  shows "find_key C (GetCloak C b (prv_pub C to)) (dPrv d) = Some to"
proof -
  have "Match C (GetCloak C b (prv_pub C to)) (Pub_ToBytes C (prv_pub C to))" using assms(2) by (rule Match_GetCloak)
  then have "find_key C (GetCloak C b (prv_pub C to)) (dPrv d) \<noteq> None"
    using assms(1) unfolding find_key_None receiver_ready_def by blast
  then obtain k where k: "find_key C (GetCloak C b (prv_pub C to)) (dPrv d) = Some k" by blast
  then have "k = to" using assms(1) find_key_Some [OF k] unfolding receiver_ready_def by blast
  then show ?thesis using k by simp
qed

lemma unlock_unlocked: "\<not> dLocked d \<Longrightarrow> d\<lparr>dLocked := False\<rparr> = d"
  by (cases d) simp

lemma file_record_fields [simp]:
  "dReceiver (file_record F clk p n d) = dReceiver d" "dDone (file_record F clk p n d) = dDone d"
  "dPrv (file_record F clk p n d) = dPrv d" "dMTU (file_record F clk p n d) = dMTU d"
  "dLastRekey (file_record F clk p n d) = dLastRekey d" "dTotalReceived (file_record F clk p n d) = dTotalReceived d"
  "dLocked (file_record F clk p n d) = dLocked d"
  by (simp_all add: file_record_def Let_def split: option.splits)

lemma file_record_partials:
  "partials (pID p) (file_record F clk p n d) =
     (if pID p \<in> rxID ` set (dPendingInbound d) then partials (pID p) d else []) @ [Some p]"
  "pID p \<in> rxID ` set (dPendingInbound (file_record F clk p n d))"
proof -
  let ?r = "find (\<lambda>v. rxID v = pID p) (dPendingInbound d)"
  have r: "?r = None \<longleftrightarrow> pID p \<notin> rxID ` set (dPendingInbound d)"
    by (fastforce simp: find_None_iff_all image_iff)
  show "partials (pID p) (file_record F clk p n d) =
     (if pID p \<in> rxID ` set (dPendingInbound d) then partials (pID p) d else []) @ [Some p]"
    using r by (cases ?r) (simp_all add: file_record_def Let_def GetRxRecordAndPartials_def partials_def)
  show "pID p \<in> rxID ` set (dPendingInbound (file_record F clk p n d))"
    using r by (cases ?r) (simp_all add: file_record_def Let_def GetRxRecordAndPartials_def)
qed

lemma file_record_lock: "file_record F clk p n (d\<lparr>dLocked := b\<rparr>) = (file_record F clk p n d)\<lparr>dLocked := b\<rparr>"
  by (simp add: file_record_def Let_def GetRxRecordAndPartials_def partials_def update_rx_def split: option.splits)

text \<open>The number of packets the receiver waits for.\<close>

definition waits_for :: "int \<Rightarrow> int \<Rightarrow> int" where
  "waits_for len mtu = (if len mod mtu > 0 then len div mtu + 1 else len div mtu)"

lemma recv_step:
  fixes clk :: "nat \<Rightarrow> gotime"
  assumes "framed C to w p" and "receiver_ready C to mtu d" and "crypto_laws C" and "evC (deEv de) = C" and "0 < mtu"
    and "dTotalReceived d + length w \<le> dLastRekey d + 2 ^ 20"
  defines "d2 \<equiv> file_record (deF de) (\<lambda>j. clk (3 + j)) (p\<lparr>pTime := nanos (clk 0)\<rparr>) (length w)
      (d\<lparr>dTotalReceived := dTotalReceived d + length w\<rparr>)"
  shows "RecvFromConn de clk w d =
    (if int (length (partials (pID p) d2)) > waits_for (uint (pLength p)) mtu then
       obind (join_message de (pID p) (d2\<lparr>dLocked := True\<rparr>)) (\<lambda>(msg, d3). Handle de msg (pID p) (d3\<lparr>dLocked := False\<rparr>))
     else Some (Inr d2))"
proof -
  let ?q = "p\<lparr>pTime := nanos (clk 0)\<rparr>"
  have rd: "\<not> dLocked d" "dDone d = []" "dMTU d = mtu" using assms(2) by (simp_all add: receiver_ready_def)
  obtain sender b iv m' where fr: "GetKeysFromPacket C w = Inr (sender, GetCloak C b (prv_pub C to), iv)"
    "DecodePacket C (nanos (clk 0)) w sender to iv = Inr (?q, m')"
    using assms(1) unfolding framed_def by blast
  have "(dTotalReceived d + length w - dLastRekey d) mod 2 ^ 64 \<le> dTotalReceived d + length w - dLastRekey d" by (rule mod_less_eq_dividend)
  also have "\<dots> \<le> DefaultDispatcherRekey" using assms(6) by (simp add: DefaultDispatcherRekey_def)
  finally have cnt: "Mx (count_received de (\<lambda>j. clk (1 + j)) (length w)) d =
      Some (Inr (False, d\<lparr>dTotalReceived := dTotalReceived d + length w\<rparr>))"
    using rd(1) by (simp add: Mx_def count_received_def Let_def unlock_unlocked)
  have filed: "Mx (file_packet (deF de) (\<lambda>j. clk (3 + j)) ?q (length w)) (d\<lparr>dTotalReceived := dTotalReceived d + length w\<rparr>) =
      Some (Inr (False, d2))"
    using rd by (simp add: Mx_def file_packet_def Let_def file_record_lock unlock_unlocked d2_def del: One_nat_def)
  have seg: "seg_count_for ?q d2 = Inr (waits_for (uint (pLength p)) mtu)"
    using rd(3) assms(5) by (simp add: seg_count_for_def waits_for_def d2_def)
  have join: "obind (Mx (join_message de (pID p)) d2) f =
      obind (join_message de (pID p) (d2\<lparr>dLocked := True\<rparr>)) (\<lambda>(msg, d3). f (msg, d3\<lparr>dLocked := False\<rparr>))" for f :: "bytes \<times> dispatcher \<Rightarrow> dispatcher run"
    using rd(1) by (auto simp: Mx_def d2_def obind_def split: option.splits sum.splits)
  show ?thesis
    unfolding RecvFromConn_def Let_def assms(4) fr(1) unless_error_simps prod.case find_key_ready [OF assms(2,3)] deref_simps rbind_Inr fr(2) cnt
      obind_simps filed if_False packet.simps
    using seg join by (simp add: case_prod_beta)
qed

section \<open>Joining and handing on\<close>

text \<open>What a received packet leaves alone.\<close>

definition same_link :: "dispatcher \<Rightarrow> dispatcher \<Rightarrow> bool" where
  "same_link d d' \<longleftrightarrow> dPrv d' = dPrv d \<and> dMTU d' = dMTU d \<and> dDone d' = dDone d \<and> dLastRekey d' = dLastRekey d \<and> dLocked d' = dLocked d"

lemma same_link_trans: "same_link a b \<Longrightarrow> same_link b c \<Longrightarrow> same_link a c"
  by (simp add: same_link_def)

lemma same_link_ready: "same_link d d' \<Longrightarrow> receiver_ready C to mtu d \<Longrightarrow> receiver_ready C to mtu d'"
  by (simp add: same_link_def receiver_ready_def)

lemma join_and_handle:
  assumes "evC (deEv de) = C" and "deR de = R" and "evReg (deEv de) = reg" and "dDone d = []" and "\<not> dLocked d"
    and "JoinPackets C R (partials i d) = Inr (c, m)" and "Recognise reg (NewFrom m) = Inr (Some KOnion, s1)" and "packed_Decode s1 = Inr (b, s2)"
  shows "\<exists>d'. obind (join_message de i (d\<lparr>dLocked := True\<rparr>)) (\<lambda>(msg, d3). Handle de msg i (d3\<lparr>dLocked := False\<rparr>)) = Some (Inr d') \<and>
     dReceiver d' = dReceiver d @ [b] \<and> partials i d' = c \<and> same_link d d' \<and>
     rxID ` set (dPendingInbound d') = rxID ` set (dPendingInbound d) \<and>
     dTotalReceived d' = dTotalReceived d + sum_list (map (\<lambda>v. length (pData v) + Packet_GetOverhead v) (present c))"
proof -
  let ?n = "sum_list (map (\<lambda>v. length (pData v) + Packet_GetOverhead v) (present c))"
  define d1 where "d1 = d\<lparr>dPartials := (dPartials d)(i \<mapsto> c), dDataReceived := dDataReceived d + length m,
    dTotalReceived := dTotalReceived d + ?n\<rparr>"
  let ?h = "\<lambda>v. v\<lparr>rxHash := copy_to (rxHash v) (Single C m)\<rparr>"
  have "partials i (d\<lparr>dLocked := True\<rparr>) = partials i d" by (simp add: partials_def)
  then have join: "join_message de i (d\<lparr>dLocked := True\<rparr>) = Some (Inr (m, d1\<lparr>dLocked := True\<rparr>))"
    using JoinPackets_results_ok [OF assms(6)] assms(1,2) unfolding join_message_def Let_def d1_def by simp
  have d1: "dDone d1 = []" "\<not> dLocked d1" "partials i d1 = c" "same_link d d1" "dPendingInbound d1 = dPendingInbound d"
    "dTotalReceived d1 = dTotalReceived d + ?n" "dReceiver d1 = dReceiver d"
    using assms(4,5) by (simp_all add: d1_def same_link_def partials_def)
  have handle: "Handle de m i d1 = Some (Inr ((update_rx i ?h d1)\<lparr>dReceiver := dReceiver d @ [b]\<rparr>))"
    using assms(1,3,7,8) d1 by (simp add: Handle_def Let_def codec_Decode_def rmap_fst_def handle_decoded_def)
  show ?thesis
    using join handle d1 by (simp add: unlock_unlocked same_link_def partials_def)
qed

section \<open>Gathering the packets of a message\<close>

definition shard_of :: "bytes list \<Rightarrow> int \<Rightarrow> int \<Rightarrow> bytes \<Rightarrow> packet \<Rightarrow> bool" where
  "shard_of shards L P i p \<longleftrightarrow> pID p = i \<and> unat (pSeq p) < length shards \<and> pData p = shards ! unat (pSeq p) \<and>
     uint (pLength p) = L \<and> uint (pParity p) = P"

text \<open>The receiver has got the packets \<open>qs\<close>. It keeps the first \<open>wait\<close> of them as they come, and afterwards a list with a place
  for each packet. Once it has all it keeps none.\<close>

definition gathered :: "bytes list \<Rightarrow> int \<Rightarrow> int \<Rightarrow> bytes \<Rightarrow> int \<Rightarrow> packet list \<Rightarrow> dispatcher \<Rightarrow> bool" where
  "gathered shards L P i wait qs d \<longleftrightarrow>
     (if qs = [] then i \<notin> rxID ` set (dPendingInbound d)
      else i \<in> rxID ` set (dPendingInbound d) \<and>
        (length qs < length shards \<longrightarrow>
           length (partials i d) = (if int (length qs) \<le> wait then length qs else length shards) \<and>
           packets_for shards L P (present (partials i d)) \<and> pSeq ` set (present (partials i d)) = pSeq ` set qs))"

lemma arrived_all:
  assumes "packets_for shards L P ps" and "DStart s = 0" and "PEnd s = int (length shards)"
  shows "arrived ps s = length ps"
proof -
  let ?S = "(\<lambda>p. uint (pSeq p)) ` set ps"
  have "set (filter (\<lambda>i. i \<in> ?S) [DStart s..PEnd s - 1]) = ?S"
    using assms by (auto simp: packets_for_def uint_nat simp del: of_nat_unat)
  then have "arrived ps s = card ?S"
    unfolding arrived_def by (metis distinct_card distinct_filter distinct_upto)
  also have "?S = uint ` set (map pSeq ps)" by (simp add: image_image)
  also have "card \<dots> = length (map pSeq ps)"
    using assms(1) by (subst card_image) (auto simp: packets_for_def inj_on_def distinct_card intro: unsigned_word_eqI simp del: set_map)
  finally show ?thesis by simp
qed

text \<open>The packets that are there once another one is filed.\<close>

lemma gathered_next:
  assumes "gathered shards L P i wait qs d" and "length qs < length shards" and "shard_of shards L P i p" and "pSeq p \<notin> pSeq ` set qs"
    and "distinct (map pSeq qs)"
  defines "ps \<equiv> (if i \<in> rxID ` set (dPendingInbound d) then partials i d else []) @ [Some p]"
  shows "packets_for shards L P (present ps)" and "pSeq ` set (present ps) = pSeq ` set (qs @ [p])"
    and "length (present ps) = Suc (length qs)"
    and "0 \<le> wait \<Longrightarrow> length ps = Suc (if int (length qs) \<le> wait then length qs else length shards)"
proof -
  define f where "f = present (if i \<in> rxID ` set (dPendingInbound d) then partials i d else [])"
  have f: "f = [] \<and> qs = [] \<or> packets_for shards L P f \<and> pSeq ` set f = pSeq ` set qs"
    using assms(1,2) by (auto simp: gathered_def f_def List.map_filter_simps split: if_splits)
  have eq: "present ps = f @ [p]" unfolding ps_def f_def present_snoc by simp
  have "pSeq p \<notin> pSeq ` set f" using f assms(4) by auto
  then show pf: "packets_for shards L P (present ps)"
    using f assms(3) unfolding eq by (auto simp: packets_for_def shard_of_def)
  show seqs: "pSeq ` set (present ps) = pSeq ` set (qs @ [p])" using f unfolding eq by auto
  have "length (present ps) = card (pSeq ` set (present ps))"
    using pf distinct_card [of "map pSeq (present ps)"] unfolding packets_for_def by (simp only: length_map set_map)
  also have "\<dots> = length (map pSeq (qs @ [p]))"
    unfolding seqs using assms(4,5) distinct_card [of "map pSeq (qs @ [p])"] by simp
  finally show "length (present ps) = Suc (length qs)" by simp
  show "length ps = Suc (if int (length qs) \<le> wait then length qs else length shards)" if "0 \<le> wait"
    using assms(1,2) that by (auto simp: gathered_def ps_def split: if_splits)
qed

text \<open>What is fixed for one message: the coder, the plan of one section with parity, the shards and the bytes they make.\<close>

definition one_section :: "crypto_ops \<Rightarrow> rs_ops \<Rightarrow> nat \<Rightarrow> bytes list \<Rightarrow> int \<Rightarrow> int \<Rightarrow> segment \<Rightarrow> bytes \<Rightarrow> bool" where
  "one_section C R ss shards L P sec m \<longleftrightarrow> 0 < ss \<and> 0 \<le> L \<and> 0 < P \<and> P < 256 \<and> NewSegments L (int ss) 0 P = Inr [sec] \<and> plan_coder R [sec] \<and>
     DStart sec = 0 \<and> PEnd sec = int (length shards) \<and> (\<forall>x\<in>set shards. length x = ss) \<and>
     \<not> (seg_total L (int ss) mod (256 - P) = 0 \<and> seg_total L (int ss) div (256 - P) > 1) \<and>
     (\<exists>segs. coded R ss [sec] segs shards \<and> m = take (length (concat segs) - (ss - nat (L mod int ss))) (concat segs))"

lemma one_section_joins:
  assumes "one_section C R ss shards L P sec m" and "packets_for shards L P (present ps)" and "DEnd sec \<le> int (length (present ps))"
  shows "\<exists>c. JoinPackets C R ps = Inr (c, m) \<and>
     (if length (present ps) = length shards then c = []
      else length c = length shards \<and> packets_for shards L P (present c) \<and> set (present c) = set (present ps))"
proof -
  note sec = assms(1) [unfolded one_section_def]
  obtain segs where segs: "coded R ss [sec] segs shards" "m = take (length (concat segs) - (ss - nat (L mod int ss))) (concat segs)"
    using sec by blast
  have "arrived (present ps) sec = length (present ps)" using sec arrived_all [OF assms(2)] by blast
  then have "\<forall>s\<in>set [sec]. DEnd s - DStart s \<le> int (arrived (present ps) s)" using sec assms(3) by simp
  then obtain c where c: "JoinPackets C R ps = Inr (c, m)"
    using JoinPackets_coded [OF assms(2) refl, of ss "[sec]" R segs C] sec segs by auto
  have base: "JoinPackets C R ps = (if length shards = length (present ps) then
        rbind (rfold (join_complete (sort_key pSeq (present ps))) [sec] []) (\<lambda>msg. Inr ([], msg))
      else rbind (collate (sort_key pSeq (present ps)) (replicate (length shards) None)) (\<lambda>pkts.
        rbind (rfold (join_section R pkts) [sec] []) (\<lambda>msg. Inr (pkts, msg))))"
    using JoinPackets_base [OF assms(2) refl, of ss "[sec]" C R] sec by simp
  show ?thesis
  proof (cases "length (present ps) = length shards")
    case True
    then have "c = []" using c base by (auto simp: rbind_eq_Inr)
    then show ?thesis using c True by simp
  next
    case False
    then have "collate (sort_key pSeq (present ps)) (replicate (length shards) None) = Inr c"
      using c unfolding base by (auto simp: rbind_eq_Inr)
    then show ?thesis using c False collate_packets [OF assms(2)] by auto
  qed
qed

lemma sum_list_bound: "\<forall>x\<in>set xs. f x \<le> (k :: nat) \<Longrightarrow> sum_list (map f xs) \<le> length xs * k"
  by (induction xs) auto

lemma length_present: "length (present c) \<le> length c"
  unfolding List.map_filter_def by (metis length_filter_le length_map)

lemma kept_size:
  assumes "packets_for shards L P (present c)" and "\<forall>x\<in>set shards. length x = ss" and "length c \<le> length shards"
  shows "sum_list (map (\<lambda>v. length (pData v) + Packet_GetOverhead v) (present c)) \<le> length shards * (ss + 61)"
proof -
  have "length (pData v) + Packet_GetOverhead v \<le> ss + 61" if "v \<in> set (present c)" for v
    using assms(1,2) that unfolding packets_for_def Packet_GetOverhead_def Overhead_val by (metis nth_mem order_refl)
  then have "sum_list (map (\<lambda>v. length (pData v) + Packet_GetOverhead v) (present c)) \<le> length (present c) * (ss + 61)"
    by (intro sum_list_bound) blast
  also have "\<dots> \<le> length shards * (ss + 61)" using length_present [of c] assms(3) by (intro mult_le_mono1) simp
  finally show ?thesis .
qed

definition fits :: "nat \<Rightarrow> nat \<Rightarrow> nat \<Rightarrow> dispatcher \<Rightarrow> bool" where
  "fits ss n k d \<longleftrightarrow> dTotalReceived d + k * (ss + 76 + n * (ss + 61)) \<le> dLastRekey d + 2 ^ 20"

lemma shard_of_time [simp]: "shard_of shards L P i (p\<lparr>pTime := t\<rparr>) = shard_of shards L P i p"
  by (simp add: shard_of_def)

text \<open>The state \<open>d2\<close> in which the packet is filed.\<close>

lemma recv_files:
  fixes clk :: "nat \<Rightarrow> gotime"
  assumes sec: "one_section C R ss shards L P sec m" and laws: "crypto_laws C" and env: "evC (deEv de) = C"
    and wait: "wait = waits_for L mtu" "0 < mtu"
    and st: "receiver_ready C to mtu d" "gathered shards L P i wait qs d" "fits ss (length shards) (Suc k) d"
    and p: "framed C to w p" "shard_of shards L P i p" "pSeq p \<notin> pSeq ` set qs" "distinct (map pSeq qs)" "length qs < length shards"
  obtains d2 where "RecvFromConn de clk w d =
      (if int (length (partials i d2)) > wait then
         obind (join_message de i (d2\<lparr>dLocked := True\<rparr>)) (\<lambda>(msg, d3). Handle de msg i (d3\<lparr>dLocked := False\<rparr>))
       else Some (Inr d2))"
    and "same_link d d2" and "dReceiver d2 = dReceiver d" and "dTotalReceived d2 = dTotalReceived d + (ss + 76)" and "dDone d2 = []"
    and "\<not> dLocked d2" and "i \<in> rxID ` set (dPendingInbound d2)"
    and "packets_for shards L P (present (partials i d2))" and "pSeq ` set (present (partials i d2)) = pSeq ` set (qs @ [p])"
    and "length (present (partials i d2)) = Suc (length qs)"
    and "length (partials i d2) = Suc (if int (length qs) \<le> wait then length qs else length shards)"
proof -
  define q where "q = p\<lparr>pTime := nanos (clk 0)\<rparr>"
  define d2 where "d2 = file_record (deF de) (\<lambda>j. clk (3 + j)) q (length w) (d\<lparr>dTotalReceived := dTotalReceived d + length w\<rparr>)"
  have q: "shard_of shards L P i q" "pSeq q = pSeq p" "pID q = i" using p(2) by (simp_all add: q_def shard_of_def)
  have ss: "0 < ss" "\<forall>x\<in>set shards. length x = ss" using sec by (simp_all add: one_section_def)
  have len: "length w = ss + 76" "pLength p = pLength q" "uint (pLength q) = L" "pID p = i"
    using p(1,2) ss(2) q(1) by (simp_all add: framed_def shard_of_def q_def)
  have w0: "0 \<le> wait" using sec wait(1,2) by (simp add: waits_for_def one_section_def pos_imp_zdiv_nonneg_iff)
  have step: "RecvFromConn de clk w d =
    (if int (length (partials i d2)) > wait then
       obind (join_message de i (d2\<lparr>dLocked := True\<rparr>)) (\<lambda>(msg, d3). Handle de msg i (d3\<lparr>dLocked := False\<rparr>))
     else Some (Inr d2))"
  proof -
    have "dTotalReceived d + length w \<le> dLastRekey d + 2 ^ 20" using st(3) unfolding fits_def mult_Suc len(1) by linarith
    from recv_step [OF p(1) st(1) laws env wait(2) this, of clk, folded q_def, folded d2_def]
    show ?thesis unfolding wait(1) len by (simp only: q_def)
  qed
  have ps: "partials i d2 = (if i \<in> rxID ` set (dPendingInbound d) then partials i d else []) @ [Some q]"
    "i \<in> rxID ` set (dPendingInbound d2)"
    using file_record_partials [of q "deF de" "\<lambda>j. clk (3 + j)" "length w" "d\<lparr>dTotalReceived := dTotalReceived d + length w\<rparr>"] q(3)
    by (simp_all add: d2_def partials_def)
  have d2: "same_link d d2" "dReceiver d2 = dReceiver d" "dTotalReceived d2 = dTotalReceived d + (ss + 76)" "dDone d2 = []" "\<not> dLocked d2"
    using st(1) len(1) by (simp_all add: d2_def same_link_def receiver_ready_def)
  note nxt = gathered_next [OF st(2) p(5) q(1) _ p(4), folded ps(1), unfolded q(2), OF p(3)]
  have "pSeq ` set (present (partials i d2)) = pSeq ` set (qs @ [p])" using nxt(2) q(2) by simp
  then show thesis using that [OF step d2 ps(2)] nxt(1,3) nxt(4) [OF w0] by blast
qed

lemma recv_gather:
  fixes clk :: "nat \<Rightarrow> gotime"
  assumes sec: "one_section C R ss shards L P sec m" and laws: "crypto_laws C"
    and env: "evC (deEv de) = C" "deR de = R" "evReg (deEv de) = reg"
    and msg: "Recognise reg (NewFrom m) = Inr (Some KOnion, s1)" "packed_Decode s1 = Inr (b, s2)"
    and wait: "wait = waits_for L mtu" "0 < mtu" "wait \<le> int (length qs) \<Longrightarrow> DEnd sec \<le> wait + 1" "wait < int (length shards)"
    and st: "receiver_ready C to mtu d" "gathered shards L P i wait qs d" "fits ss (length shards) (Suc k) d"
    and p: "framed C to w p" "shard_of shards L P i p" "pSeq p \<notin> pSeq ` set qs" "distinct (map pSeq qs)" "length qs < length shards"
  shows "\<exists>d'. RecvFromConn de clk w d = Some (Inr d') \<and> same_link d d' \<and> gathered shards L P i wait (qs @ [p]) d' \<and>
     fits ss (length shards) k d' \<and> dReceiver d' = dReceiver d @ (if int (length qs) \<ge> wait then [b] else [])"
proof -
  from recv_files [OF sec laws env(1) wait(1,2) st p, of clk] obtain d2 where step: "RecvFromConn de clk w d =
      (if int (length (partials i d2)) > wait then
         obind (join_message de i (d2\<lparr>dLocked := True\<rparr>)) (\<lambda>(msg, d3). Handle de msg i (d3\<lparr>dLocked := False\<rparr>))
       else Some (Inr d2))"
    and d2: "same_link d d2" "dReceiver d2 = dReceiver d" "dTotalReceived d2 = dTotalReceived d + (ss + 76)" "dDone d2 = []" "\<not> dLocked d2"
      "i \<in> rxID ` set (dPendingInbound d2)"
    and nxt: "packets_for shards L P (present (partials i d2))" "pSeq ` set (present (partials i d2)) = pSeq ` set (qs @ [p])"
      "length (present (partials i d2)) = Suc (length qs)"
      "length (partials i d2) = Suc (if int (length qs) \<le> wait then length qs else length shards)" by blast
  have fit: "dTotalReceived d + (ss + 76) + length shards * (ss + 61) + k * (ss + 76 + length shards * (ss + 61)) \<le> dLastRekey d + 2 ^ 20"
    using st(3) by (simp add: fits_def)
  show ?thesis
  proof (cases "int (length qs) \<ge> wait")
    case False
    then have "RecvFromConn de clk w d = Some (Inr d2)" using step nxt(4) by simp
    moreover have "gathered shards L P i wait (qs @ [p]) d2"
      using False nxt(1,2,4) d2(6) by (simp add: gathered_def del: map_filter_id_set)
    moreover have "fits ss (length shards) k d2" using fit d2 by (simp add: fits_def same_link_def)
    ultimately show ?thesis using d2 False by auto
  next
    case True
    have "DEnd sec \<le> int (length (present (partials i d2)))" using True wait(3) [OF True] nxt(3) by simp
    from one_section_joins [OF sec nxt(1) this] obtain c where c: "JoinPackets C R (partials i d2) = Inr (c, m)"
      "if length (present (partials i d2)) = length shards then c = []
       else length c = length shards \<and> packets_for shards L P (present c) \<and> set (present c) = set (present (partials i d2))" by blast
    obtain d' where d': "obind (join_message de i (d2\<lparr>dLocked := True\<rparr>)) (\<lambda>(msg, d3). Handle de msg i (d3\<lparr>dLocked := False\<rparr>)) = Some (Inr d')"
      "dReceiver d' = dReceiver d2 @ [b]" "partials i d' = c" "same_link d2 d'"
      "rxID ` set (dPendingInbound d') = rxID ` set (dPendingInbound d2)"
      "dTotalReceived d' = dTotalReceived d2 + sum_list (map (\<lambda>v. length (pData v) + Packet_GetOverhead v) (present c))"
      using join_and_handle [OF env d2(4,5) c(1) msg] by blast
    have "int (length (partials i d2)) > wait" using True wait(4) nxt(4) by simp
    then have run: "RecvFromConn de clk w d = Some (Inr d')" using step d'(1) by simp
    have "sum_list (map (\<lambda>v. length (pData v) + Packet_GetOverhead v) (present c)) \<le> length shards * (ss + 61)"
    proof (cases "c = []")
      case False
      then show ?thesis using c(2) sec by (intro kept_size [of shards L P]) (simp_all add: one_section_def split: if_splits)
    qed (simp add: List.map_filter_simps)
    then have "fits ss (length shards) k d'" using fit d2(1,3) d'(4,6) by (simp add: fits_def same_link_def)
    moreover have "gathered shards L P i wait (qs @ [p]) d'"
      unfolding gathered_def using True c(2) nxt(2,3) d2(6) d'(3,5) by (simp del: map_filter_id_set)
    ultimately show ?thesis using run d'(2,4) d2(1,2) True same_link_trans [OF d2(1) d'(4)] by auto
  qed
qed

text \<open>The packets arrive one after the other, each received with its own environment and clock.\<close>

definition receive_all :: "(nat \<Rightarrow> dispatch_env) \<Rightarrow> (nat \<Rightarrow> nat \<Rightarrow> gotime) \<Rightarrow> bytes list \<Rightarrow> dispatcher \<Rightarrow> dispatcher run" where
  "receive_all env clk ws d = ofold (\<lambda>(j, w). RecvFromConn (env j) (clk j) w) (enumerate 0 ws) d"

lemma recv_gathers:
  assumes sec: "one_section C R ss shards L P sec m" and laws: "crypto_laws C"
    and env: "\<forall>j. evC (deEv (env j)) = C \<and> deR (env j) = R \<and> evReg (deEv (env j)) = reg"
    and msg: "Recognise reg (NewFrom m) = Inr (Some KOnion, s1)" "packed_Decode s1 = Inr (b, s2)"
    and wait: "wait = waits_for L mtu" "0 < mtu" "wait < int (length shards)"
  shows "list_all2 (framed C to) ws ps \<Longrightarrow> \<forall>p\<in>set ps. shard_of shards L P i p \<Longrightarrow> distinct (map pSeq (qs @ ps)) \<Longrightarrow>
    length (qs @ ps) \<le> length shards \<Longrightarrow> receiver_ready C to mtu d \<Longrightarrow> gathered shards L P i wait qs d \<Longrightarrow>
    fits ss (length shards) (length ps + n) d \<Longrightarrow> int (length (qs @ ps)) \<le> wait \<or> DEnd sec \<le> wait + 1 \<Longrightarrow>
    \<exists>d'. ofold (\<lambda>(j, w). RecvFromConn (env j) (clk j) w) (enumerate k ws) d = Some (Inr d') \<and> same_link d d' \<and>
      gathered shards L P i wait (qs @ ps) d' \<and> fits ss (length shards) n d' \<and>
      dReceiver d' = dReceiver d @ replicate (length (filter (\<lambda>j. wait \<le> int j) [length qs..<length (qs @ ps)])) b"
proof (induction ws arbitrary: ps qs d k)
  case (Cons w ws)
  from Cons.prems(1) obtain p ps' where p: "ps = p # ps'" "framed C to w p" "list_all2 (framed C to) ws ps'"
    by (auto simp: list_all2_Cons1)
  have e: "evC (deEv (env k)) = C" "deR (env k) = R" "evReg (deEv (env k)) = reg" using env by auto
  have "shard_of shards L P i p" "pSeq p \<notin> pSeq ` set qs" "distinct (map pSeq qs)" "length qs < length shards"
    "fits ss (length shards) (Suc (length ps' + n)) d" "wait \<le> int (length qs) \<Longrightarrow> DEnd sec \<le> wait + 1"
    using Cons.prems p(1) by auto
  from recv_gather [OF sec laws e msg wait(1,2) this(6) wait(3) Cons.prems(5,6) this(5) p(2) this(1-4), of "clk k"]
  obtain d1 where d1: "RecvFromConn (env k) (clk k) w d = Some (Inr d1)" "same_link d d1" "gathered shards L P i wait (qs @ [p]) d1"
    "fits ss (length shards) (length ps' + n) d1" "dReceiver d1 = dReceiver d @ (if int (length qs) \<ge> wait then [b] else [])" by blast
  have "\<exists>d'. ofold (\<lambda>(j, w). RecvFromConn (env j) (clk j) w) (enumerate (Suc k) ws) d1 = Some (Inr d') \<and> same_link d1 d' \<and>
      gathered shards L P i wait ((qs @ [p]) @ ps') d' \<and> fits ss (length shards) n d' \<and>
      dReceiver d' = dReceiver d1 @ replicate (length (filter (\<lambda>j. wait \<le> int j) [length (qs @ [p])..<length ((qs @ [p]) @ ps')])) b"
    using Cons.prems p(1) d1(3,4) by (intro Cons.IH [OF p(3)] same_link_ready [OF d1(2)]) auto
  moreover have "[length qs..<length (qs @ ps)] = length qs # [length (qs @ [p])..<length ((qs @ [p]) @ ps')]"
    using p(1) by (simp add: upt_conv_Cons del: upt_Suc)
  ultimately show ?case using d1(1,5) same_link_trans [OF d1(2)] p(1) by (fastforce simp del: upt_Suc)
qed (auto simp: list_all2_Nil same_link_def)

section \<open>What is sent\<close>

lemma waits_less:
  assumes "0 \<le> L" and "0 < ss" and "section_ok P ss sec" and "0 < P" and "DStart sec = 0" and "DEnd sec = seg_total L ss"
  shows "waits_for L (ss + 76) < PEnd sec"
proof -
  have "L div (ss + 76) \<le> L div ss" using assms(1,2) by (intro zdiv_mono2) simp_all
  then have "waits_for L (ss + 76) \<le> seg_total L ss" by (simp add: waits_for_def seg_total_def)
  moreover have "DEnd sec < PEnd sec" using assms(3,4) by (simp add: section_ok_def)
  ultimately show ?thesis using assms(6) by simp
qed

text \<open>The packets that \<^verbatim>\<open>SendToConn\<close> puts on the connection, for a message of one section.\<close>

lemma SendToConn_framed:
  assumes "crypto_laws C" and "\<forall>i. length (deNonce de i) = 16" and "\<forall>k. valid_pub C (prv_pub C k)" and "length (deID de) = 8"
    and "evC (deEv de) = C" and "dRemoteKey a = Some (prv_pub C to)" and "\<not> dLocked a" and "0 < dParity a" and "dParity a < 256"
    and "dMTU a = int ss + 76" and "0 < ss" and "m \<noteq> []" and "length m < 2 ^ 32" and "plan_exact (length m) ss (uint (dParity a))"
    and "NewSegments (int (length m)) (int ss) 0 (uint (dParity a)) = Inr [sec]" and "plan_coder (deR de) [sec]" and "PEnd sec \<le> 2 ^ 16"
  shows "\<exists>a' wire pk shards. SendToConn de clk m a = Some (Inr (Some (DEnd sec), a')) \<and> dConnSent a' = dConnSent a @ wire \<and>
     list_all2 (framed C to) wire pk \<and> distinct (map pSeq pk) \<and> length pk = length shards \<and> int (length shards) = PEnd sec \<and>
     (\<forall>p\<in>set pk. shard_of shards (int (length m)) (uint (dParity a)) (deID de) p) \<and>
     one_section C (deR de) ss shards (int (length m)) (uint (dParity a)) sec m \<and>
     waits_for (int (length m)) (int ss + 76) < int (length shards)"
proof -
  let ?P = "uint (dParity a)" and ?L = "int (length m)"
  let ?pp = "\<lparr>ppID = deID de, ppTo = prv_pub C to, ppFrom = Prv 0, ppParity = ?P, ppSeq = 0, ppLength = ?L, ppData = m\<rparr>"
  have P: "0 < ?P" "?P < 256" using assms(8,9) by (simp_all add: word_less_def)
  have ok: "params_ok (?pp\<lparr>ppSeq := 0, ppLength := int (length (ppData ?pp))\<rparr>)" using assms(4,13) P by (simp add: params_ok_def)
  have nd: "\<not> ss dvd length (ppData ?pp)" and ex: "\<not> (seg_total ?L (int ss) mod (256 - ?P) = 0 \<and> seg_total ?L (int ss) div (256 - ?P) > 1)"
    using assms(14) by (simp_all add: plan_exact_def)
  obtain segs shards wire ks' where w: "SplitToPackets C (deR de) (dePad de) (deNonce de) (deBlind de) ?pp (dMTU a) (dKs a) = Some (Inr (DEnd sec, wire, ks'))"
    "coded (deR de) ss [sec] segs shards" "length wire = length shards"
    "take (length (concat segs) - (ss - nat (?L mod int ss))) (concat segs) = m"
    "encode_loop C (deNonce de) (deBlind de) ?pp (dKs a) 0 shards = Inr (wire, ks')"
    using SplitToPackets_received [OF assms(1-3), of ?pp to "dMTU a" ss "[sec]" "deR de" "dePad de" "deBlind de" "dKs a" 0]
      assms(10-12,15-17) ok nd by auto
  have pl: "contiguous 0 [sec]" "section_ok ?P (int ss) sec" "DEnd sec - DStart sec = seg_total ?L (int ss)"
    using NewSegments_plan [of ?L "int ss" ?P "int ss" 0] P assms(11,15) by auto
  then have ds: "DStart sec = 0" and pe: "int (length shards) = PEnd sec" using coded_length [OF w(2) pl(1)] by simp_all
  let ?pk = "map2 (shard_packet ?pp 0) [0..<length shards] shards"
  have small: "length shards \<le> 2 ^ 16" using pe assms(17) by simp
  have fr: "list_all2 (framed C to) wire ?pk"
    using encode_loop_framed [OF assms(1-3) _ _ _ w(5), of to 0] ok small by (simp add: params_ok_def)
  have ne: "shards \<noteq> []" using pe pl(2) ds by (auto simp: section_ok_def)
  have "map (\<lambda>i. ?pk ! i) [0..<length shards] = ?pk" by (intro nth_equalityI) simp_all
  then have pf: "packets_for shards ?L ?P ?pk"
    using selected_packets(1) [of "[0..<length shards]" shards ?pp 0] ok small ne by simp
  have ids: "\<forall>p\<in>set ?pk. pID p = deID de" by (auto simp: set_zip shard_packet_def)
  let ?wire = "shuffled (deShuffle de) wire" and ?pk' = "shuffled (deShuffle de) ?pk"
  have "list_all2 (framed C to) ?wire ?pk'" using fr by (rule list_all2_shuffled)
  moreover have "distinct (map pSeq ?pk')"
  proof -
    have "distinct (shuffled (deShuffle de) (map pSeq ?pk))" using pf unfolding packets_for_def by (simp only: distinct_shuffled)
    then show ?thesis by (simp only: shuffled_map)
  qed
  moreover have "\<forall>p\<in>set ?pk'. shard_of shards ?L ?P (deID de) p"
    using pf ids unfolding packets_for_def shard_of_def set_shuffled by blast
  moreover have "one_section C (deR de) ss shards ?L ?P sec m"
    unfolding one_section_def using P assms(11,15,16) ds pe ex w(2,4) coded_uniform [OF w(2)] by auto
  moreover have "waits_for ?L (int ss + 76) < int (length shards)"
    unfolding pe using waits_less [of ?L "int ss" ?P sec] pl(2,3) P(1) assms(11) ds by simp
  moreover have "split_message de m a = Some (Inr (DEnd sec, ?wire, ks'))" using assms(5,6) w(1) by (simp add: split_message_def)
  then obtain a' where "SendToConn de clk m a = Some (Inr (Some (DEnd sec), a'))" "dConnSent a' = dConnSent a @ ?wire"
    using assms(7) by (simp add: SendToConn_def Let_def Mx_def)
  moreover have "length ?pk' = length shards" by simp
  ultimately show ?thesis using pe by (intro exI [of _ a'] exI [of _ ?wire] exI [of _ ?pk'] exI [of _ shards] conjI) assumption+
qed

section \<open>Delivery\<close>

lemma list_all2_select:
  "list_all2 Q xs ys \<Longrightarrow> set ixs \<subseteq> {..<length xs} \<Longrightarrow> list_all2 Q (map (nth xs) ixs) (map (nth ys) ixs)"
  by (auto simp: list_all2_conv_all_nth subset_iff)

lemma distinct_select:
  assumes "distinct (map f xs)" and "distinct ixs" and "set ixs \<subseteq> {..<length xs}"
  shows "distinct (map f (map (nth xs) ixs))"
proof -
  have "map f (map (nth xs) ixs) = map (nth (map f xs)) ixs" using assms(3) by auto
  moreover have "inj_on (nth (map f xs)) (set ixs)" using assms(1,3) by (intro inj_on_nth) auto
  ultimately show ?thesis using assms(2) by (simp add: distinct_map del: map_map)
qed

lemma selected_copies:
  assumes "0 \<le> wait" shows "length (filter (\<lambda>j. wait \<le> int j) [0..<n]) = n - nat wait"
  using assms by (induction n) auto


section \<open>Messages too long for the receiver\<close>

lemma length_filter_snd: "length ys = length xs \<Longrightarrow> length (map fst (filter snd (zip xs ys))) = length (filter id ys)"
  by (induction ys xs rule: list_induct2) auto

lemma join_section_lost:
  assumes "DStart s = 0" and "0 \<le> DEnd s" and "DEnd s \<le> PEnd s" and "PEnd s = int (length pkts)"
    and "int (length (present pkts)) < DEnd s"
  shows "join_section R pkts s msg = Inl (Error ''too many lost to recover in section'')"
proof -
  let ?h = "\<lambda>x :: packet option. x \<noteq> None"
  obtain n where n: "DEnd s = int n" "n \<le> length pkts" using assms(2-4) by (metis nonneg_int_cases of_nat_le_iff)
  have have1: "rmap (is_have pkts) (map int xs) = Inr (map (\<lambda>i. ?h (pkts ! i)) xs)" if "\<forall>i\<in>set xs. i < length pkts" for xs
    using that by (induction xs) (simp_all add: is_have_def index_expr_def)
  have d: "rmap (is_have pkts) [0..int n - 1] = Inr (map ?h (take n pkts))"
    using have1 [of "[0..<n]"] upto_map_int [of 0 n] n(2) by (auto simp: take_map [symmetric] map_nth intro!: nth_equalityI)
  have p: "rmap (is_have pkts) [int n..int (length pkts) - 1] = Inr (map ?h (drop n pkts))"
    using have1 [of "[n..<length pkts]"] upto_map_int [of n "length pkts"] by (auto intro!: nth_equalityI)
  have cnt: "length (filter id (map ?h xs)) = length (present xs)" for xs
    by (induction xs) (auto simp: List.map_filter_def)
  have "length (present (take n pkts)) + length (present (drop n pkts)) = length (present pkts)"
    unfolding List.map_filter_def length_map by (metis append_take_drop_id filter_append length_append)
  then have few: "int (length (present (take n pkts)) + length (present (drop n pkts))) < int n" using assms(5) n by simp
  have l: "length (map ?h (take n pkts)) = length [0..int n - 1]" "length (map ?h (drop n pkts)) = length [int n..int (length pkts) - 1]"
    using n(2) by simp_all
  have "length (map fst (filter snd (zip [0..int n - 1] (map ?h (take n pkts))))) = length (present (take n pkts))"
    "length (map fst (filter snd (zip [int n..int (length pkts) - 1] (map ?h (drop n pkts))))) = length (present (drop n pkts))"
    unfolding length_filter_snd [OF l(1)] length_filter_snd [OF l(2)] cnt by (rule refl)+
  then show ?thesis
    unfolding join_section_def Let_def assms(1,4) n(1) d p rbind_Inr diff_zero using few by (simp only: if_True)
qed

lemma few_fail:
  assumes "one_section C R ss shards L P sec m" and "packets_for shards L P (present ps)" and "int (length (present ps)) < DEnd sec"
  shows "\<exists>c e. JoinPackets_results C R ps = Inr (c, [], Some e)"
proof -
  note sec = assms(1) [unfolded one_section_def]
  have ok: "section_ok P (int ss) sec" using NewSegments_plan [of L "int ss" P "int ss" 0] sec by auto
  then have b: "0 \<le> DEnd sec" "DEnd sec \<le> PEnd sec" using sec by (auto simp: section_ok_def)
  have plan: "join_plan C ps = Inr (sort_key pSeq (present ps), [sec], int (length shards))"
    using join_plan_base [OF assms(2) refl, of ss "[sec]" C] sec by simp
  have ne: "int (length shards) \<noteq> int (length (present ps))" using b sec assms(3) by simp
  obtain c where c: "collate (sort_key pSeq (present ps)) (replicate (length shards) None) = Inr c"
    using collate_received [OF packets_for_sorted [OF assms(2)]] by metis
  note cp = collate_packets [OF assms(2) c]
  have "distinct (present c)" "distinct (present ps)" using cp(2) assms(2) unfolding packets_for_def distinct_map by blast+
  then have "length (present c) = length (present ps)" using cp(3) by (metis distinct_card)
  then have "join_section R c sec [] = Inl (Error ''too many lost to recover in section'')"
    using sec b cp(1) assms(3) by (intro join_section_lost) simp_all
  then show ?thesis using ne c by (simp add: JoinPackets_results_def plan)
qed

lemma empty_message_panics: "\<exists>p. Recognise reg (NewFrom []) = Inl (Panic p)"
  by (simp add: Recognise_def ReadMagic_def NewFrom_def Load_def get_field_def slice_expr_def bounds_panic_def)

lemma recv_fails:
  fixes clk :: "nat \<Rightarrow> gotime"
  assumes sec: "one_section C R ss shards L P sec m" and laws: "crypto_laws C" and env: "evC (deEv de) = C" "deR de = R"
    and wait: "wait = waits_for L mtu" "0 < mtu" "int (length qs) = wait" "wait + 1 < DEnd sec"
    and st: "receiver_ready C to mtu d" "gathered shards L P i wait qs d" "fits ss (length shards) (Suc k) d"
    and p: "framed C to w p" "shard_of shards L P i p" "pSeq p \<notin> pSeq ` set qs" "distinct (map pSeq qs)" "length qs < length shards"
  shows "\<exists>x. RecvFromConn de clk w d = Some (Inl (Panic x))"
proof -
  from recv_files [OF sec laws env(1) wait(1,2) st p, of clk] obtain d2 where step: "RecvFromConn de clk w d =
      (if int (length (partials i d2)) > wait then
         obind (join_message de i (d2\<lparr>dLocked := True\<rparr>)) (\<lambda>(msg, d3). Handle de msg i (d3\<lparr>dLocked := False\<rparr>))
       else Some (Inr d2))"
    and d2: "dDone d2 = []"
    and nxt: "packets_for shards L P (present (partials i d2))" "length (present (partials i d2)) = Suc (length qs)"
      "length (partials i d2) = Suc (if int (length qs) \<le> wait then length qs else length shards)" by this
  have "int (length (present (partials i d2))) < DEnd sec" using nxt(2) wait(3,4) by simp
  from few_fail [OF sec nxt(1) this] obtain c e where c: "JoinPackets_results C R (partials i d2) = Inr (c, [], Some e)" by blast
  obtain x where x: "Recognise (evReg (deEv de)) (NewFrom []) = Inl (Panic x)" using empty_message_panics by blast
  have "partials i (d2\<lparr>dLocked := True\<rparr>) = partials i d2" by (simp add: partials_def)
  then have "join_message de i (d2\<lparr>dLocked := True\<rparr>) = Some (Inr ([], d2\<lparr>dLocked := True, dPartials := (dPartials d2)(i \<mapsto> c)\<rparr>))"
    unfolding join_message_def Let_def using c env by simp
  moreover have "Handle de [] i d3 = Some (Inl (Panic x))" if "dDone d3 = []" for d3
    unfolding Handle_def Let_def x by (simp add: that)
  ultimately show ?thesis using step nxt(3) wait(3) d2 by auto
qed

lemma ofold_append: "ofold f (xs @ ys) s = obind (ofold f xs s) (ofold f ys)"
proof (induction xs arbitrary: s)
  case (Cons x xs)
  then show ?case by (cases "f x s") (auto simp: obind_def split: sum.splits)
qed simp

text \<open>C29: A long message crashes its receiver. Let the packets of a message again form one section, but let there be at least two more data
  segments than the receiver waits for: with the standard MTU of 1382 bytes this is so from about 24 kilobytes on. Whichever
  packets arrive, the next one after the first \<open>L / MTU\<close> (rounded up) makes \<^verbatim>\<open>RecvFromConn\<close> panic: it
  joins too early, drops the error of \<^verbatim>\<open>JoinPackets\<close> and hands the empty message to \<^verbatim>\<open>Handle\<close>.\<close>

theorem long_message_panics:
  assumes "crypto_laws C" and "\<forall>k. valid_pub C (prv_pub C k)" and "KOnion \<in> set ks"
    and "evC (deEv de) = C" and "\<forall>i. length (deNonce de i) = 16" and "length (deID de) = 8"
    and "\<forall>j. evC (deEv (env j)) = C \<and> deR (env j) = deR de \<and> evReg (deEv (env j)) = registry_of ks"
    and "Codec_Encode (packed_Len b) (packed_Encode b) = Inr s" and "length b < 2 ^ 31"
    and "dRemoteKey a = Some (prv_pub C to)" and "\<not> dLocked a" and "0 < dParity a" and "dParity a < 256"
    and "dMTU a = int ss + 76" and "0 < ss" and "plan_exact (length (sb s)) ss (uint (dParity a))"
    and "NewSegments (int (length (sb s))) (int ss) 0 (uint (dParity a)) = Inr [sec]" and "plan_coder (deR de) [sec]" and "PEnd sec \<le> 2 ^ 16"
    and "wait = waits_for (int (length (sb s))) (int ss + 76)" and "wait + 1 < DEnd sec"
    and "receiver_ready C to (int ss + 76) r" and "deID de \<notin> rxID ` set (dPendingInbound r)" and "fits ss (nat (PEnd sec)) (nat (PEnd sec)) r"
  shows "\<exists>a' wire. SendToConn de clk (sb s) a = Some (Inr (Some (DEnd sec), a')) \<and> dConnSent a' = dConnSent a @ wire \<and>
     int (length wire) = PEnd sec \<and>
     (\<forall>ixs. distinct ixs \<and> set ixs \<subseteq> {..<length wire} \<and> int (length ixs) = wait + 1 \<longrightarrow>
        (\<exists>x. receive_all env clk' (map (nth wire) ixs) r = Some (Inl (Panic x))))"
proof -
  let ?m = "sb s" and ?P = "uint (dParity a)"
  obtain s1 s2 where m: "length ?m = 8 + length b" "Recognise (registry_of ks) (NewFrom ?m) = Inr (Some KOnion, s1)" "packed_Decode s1 = Inr (b, s2)"
    using packed_roundtrip [OF assms(8,3)] assms(9) by auto
  have ml: "?m \<noteq> []" "length ?m < 2 ^ 32" using m(1) assms(9) by auto
  obtain a' wire pk shards where a: "SendToConn de clk ?m a = Some (Inr (Some (DEnd sec), a'))" "dConnSent a' = dConnSent a @ wire"
    and fr: "list_all2 (framed C to) wire pk" "distinct (map pSeq pk)" "length pk = length shards" "int (length shards) = PEnd sec"
      "\<forall>p\<in>set pk. shard_of shards (int (length ?m)) ?P (deID de) p" "one_section C (deR de) ss shards (int (length ?m)) ?P sec ?m"
      "waits_for (int (length ?m)) (int ss + 76) < int (length shards)"
    using SendToConn_framed [OF assms(1,5,2,6,4,10-15) ml assms(16-19), of clk] by blast
  have len: "length wire = length shards" using fr(1,3) by (simp add: list_all2_lengthD)
  have "\<exists>x. receive_all env clk' (map (nth wire) ixs) r = Some (Inl (Panic x))"
    if ix: "distinct ixs" "set ixs \<subseteq> {..<length wire}" "int (length ixs) = wait + 1" for ixs
  proof -
    have "0 \<le> wait" using assms(15,20) by (simp add: waits_for_def pos_imp_zdiv_nonneg_iff)
    then have "length ixs \<noteq> 0" using ix(3) by linarith
    then obtain js j where js: "ixs = js @ [j]" by (cases ixs rule: rev_cases) auto
    let ?qs = "map (nth pk) js" and ?p = "pk ! j"
    have fits: "fits ss (length shards) (length ?qs + Suc 0) r"
    proof -
      have "length ixs \<le> length shards" using ix(3) fr(7) assms(20) by linarith
      from mult_le_mono1 [OF this, of "ss + 76 + length shards * (ss + 61)"] show ?thesis
        using assms(24) fr(4) [symmetric] unfolding fits_def js by simp
    qed
    have sh: "\<forall>p\<in>set (?qs @ [?p]). shard_of shards (int (length ?m)) ?P (deID de) p" using fr(3,5) ix(2) len js by (auto intro!: nth_mem)
    have dist: "distinct (map pSeq (?qs @ [?p]))" using distinct_select [OF fr(2) ix(1)] ix(2) len fr(3) js by simp
    have e: "evC (deEv (env k)) = C" "deR (env k) = deR de" for k using assms(7) by auto
    have lq: "int (length ?qs) = wait" "length ?qs < length shards" using ix(3) js fr(7) assms(20) by auto
    have "gathered shards (int (length ?m)) ?P (deID de) wait [] r" using assms(23) by (simp add: gathered_def)
    moreover have "list_all2 (framed C to) (map (nth wire) js) ?qs" using list_all2_select [OF fr(1), of js] ix(2) js by simp
    moreover have "0 < int ss + 76" by simp
    ultimately obtain d1 where d1: "ofold (\<lambda>(j, w). RecvFromConn (env j) (clk' j) w) (enumerate 0 (map (nth wire) js)) r = Some (Inr d1)"
      "same_link r d1" "gathered shards (int (length ?m)) ?P (deID de) wait ?qs d1" "fits ss (length shards) (Suc 0) d1"
      using recv_gathers [OF fr(6) assms(1,7) m(2,3) assms(20) _ fr(7) [folded assms(20)], where qs = "[]" and ps = ?qs and n = "Suc 0" and k = 0
          and ws = "map (nth wire) js" and to = to and i = "deID de" and d = r and clk = clk'] assms(22) sh dist lq fits by auto
    have "framed C to (wire ! j) ?p" using fr(1) ix(2) js by (simp add: list_all2_conv_all_nth)
    then have "\<exists>x. RecvFromConn (env (length js)) (clk' (length js)) (wire ! j) d1 = Some (Inl (Panic x))"
      using sh dist by (intro recv_fails [OF fr(6) assms(1) e assms(20) _ lq(1) assms(21) same_link_ready [OF d1(2) assms(22)] d1(3,4)]) (use lq in auto)
    then show ?thesis
      using d1(1) by (auto simp: receive_all_def js enumerate_append_eq ofold_append)
  qed
  then show ?thesis using a len fr(4) by auto
qed

end
