(* ===== verification/Dispatcher_Demo.thy ===== *)
theory Dispatcher_Demo
  imports Dispatcher_Deliver
begin

text \<open>
  A small pair of dispatchers on which the theorems about dispatchers apply: the demonstration primitives of the theories they are
  built on, floating point numbers that are integers, and a round trip time that is always the same.
\<close>

definition demo_floats :: float_ops where
  "demo_floats = \<lparr>fo_int = word_of_int, fo_mul = (*), fo_div = (\<lambda>a b. if b = 0 then 0 else a div b), fo_add = (+), fo_byte = ucast,
     fo_duration = (\<lambda>x. x), fo_value = (\<lambda>_. 20)\<rparr>"

definition demo_dispatch :: dispatch_env where
  "demo_dispatch = \<lparr>deEv = demo_env, deR = demo_rs, deF = demo_floats, dePad = None, deNonce = (\<lambda>_. replicate 16 9), deBlind = (\<lambda>_. []),
     deShuffle = (\<lambda>_. 0), deID = replicate 8 7, deGen = Inr (Prv 3)\<rparr>"

definition demo_link :: "int \<Rightarrow> prv list \<Rightarrow> dispatcher" where
  "demo_link mtu keys = (empty_dispatcher \<lparr>Base = Prv 1, Increment = Prv 1\<rparr> mtu)
     \<lparr>dPrv := keys, dParity := 1, dRemoteKey := Some (prv_pub demo_ops (Prv 5))\<rparr>"

lemmas demo_dispatch_simps [simp] =
  demo_dispatch_def demo_env_def

lemma demo_ping_laws: "ping_laws demo_floats"
  by (simp add: ping_laws_def demo_floats_def TimeoutPingCount_def)

lemma demo_link_fields [simp]:
  "dLocked (demo_link mtu ks) = False" "dDone (demo_link mtu ks) = []" "dMTU (demo_link mtu ks) = mtu" "dPrv (demo_link mtu ks) = ks"
  "dParity (demo_link mtu ks) = 1" "dRemoteKey (demo_link mtu ks) = Some (prv_pub demo_ops (Prv 5))" "dPendingInbound (demo_link mtu ks) = []"
  "dTotalReceived (demo_link mtu ks) = 0" "dLastRekey (demo_link mtu ks) = 0" "dReceiver (demo_link mtu ks) = []"
  "dConnSent (demo_link mtu ks) = []" "dRekeying (demo_link mtu ks) = False"
  by (simp_all add: demo_link_def empty_dispatcher_def)

lemma demo_ready: "receiver_ready demo_ops (Prv 5) mtu (demo_link mtu [Prv 5])"
  by (simp add: receiver_ready_def)

lemma demo_plan_coder: "0 < d \<Longrightarrow> DStart s = 0 \<Longrightarrow> DEnd s = int d \<Longrightarrow> PEnd s = int d + 1 \<Longrightarrow> plan_coder demo_rs [s]"
  using demo_rs_code [of d] by (simp add: plan_coder_def)

lemma demo_packed: "\<exists>s. Codec_Encode (packed_Len b) (packed_Encode b) = Inr s \<and> length (sb s) = 8 + length b" if "length b < 2 ^ 31"
proof -
  have w: "writes (packed_Encode b) (bytes_of_string (magic_of KOnion) @ bytes_image b)"
    unfolding packed_Encode_def [abs_def] by (auto simp: magic_of_def intro!: writes_intros)
  have "reads ReadBytes (bytes_image b) b" using that by (intro reads_Bytes) simp
  moreover have "length (bytes_image b) = 4 + length b" by (simp add: bytes_image_def)
  ultimately show ?thesis
    using guarded_roundtrip [OF w, of ReadBytes b all_kinds "packed_Len b" "packed_Len []"]
    by (auto simp: packed_Len_def all_kinds_def)
qed


theorem long_message_panics_witness:
  "\<exists>s a' wire x. Codec_Encode (packed_Len [42]) (packed_Encode [42]) = Inr s \<and>
     SendToConn demo_dispatch (\<lambda>_. GoTime 0 0) (sb s) (demo_link 80 [Prv 5]) = Some (Inr (Some 3, a')) \<and> dConnSent a' = wire \<and>
     receive_all (\<lambda>_. demo_dispatch) (\<lambda>_ _. GoTime 0 0) (map (nth wire) [3, 1]) (demo_link 80 [Prv 5]) = Some (Inl (Panic x))"
proof -
  let ?sec = "\<lparr>DStart = 0, DEnd = 3, PEnd = 4, SLen = 4, Last = 1\<rparr>"
  obtain s where s: "Codec_Encode (packed_Len [42]) (packed_Encode [42]) = Inr s" "length (sb s) = 9" using demo_packed [of "[42]"] by auto
  have plan: "NewSegments 9 4 0 1 = Inr [?sec]" by (simp add: NewSegments_def)
  have "\<exists>a' wire. SendToConn demo_dispatch (\<lambda>_. GoTime 0 0) (sb s) (demo_link 80 [Prv 5]) = Some (Inr (Some (DEnd ?sec), a')) \<and>
     dConnSent a' = dConnSent (demo_link 80 [Prv 5]) @ wire \<and> int (length wire) = PEnd ?sec \<and>
     (\<forall>ixs. distinct ixs \<and> set ixs \<subseteq> {..<length wire} \<and> int (length ixs) = 1 + 1 \<longrightarrow>
        (\<exists>x. receive_all (\<lambda>_. demo_dispatch) (\<lambda>_ _. GoTime 0 0) (map (nth wire) ixs) (demo_link 80 [Prv 5]) = Some (Inl (Panic x))))"
    by (rule long_message_panics [where C = demo_ops and ks = all_kinds and b = "[42]" and ss = 4 and to = "Prv 5" and s = s])
      (use s plan demo_valid_derived demo_ready [of 80] demo_plan_coder [of 3 ?sec]
       in \<open>simp_all add: all_kinds_def plan_exact_def seg_total_def waits_for_def fits_def\<close>)
  then obtain a' wire where w: "SendToConn demo_dispatch (\<lambda>_. GoTime 0 0) (sb s) (demo_link 80 [Prv 5]) = Some (Inr (Some 3, a'))"
    "dConnSent a' = wire" "length wire = 4"
    "\<And>ixs. distinct ixs \<Longrightarrow> set ixs \<subseteq> {..<4} \<Longrightarrow> length ixs = 2 \<Longrightarrow>
       \<exists>x. receive_all (\<lambda>_. demo_dispatch) (\<lambda>_ _. GoTime 0 0) (map (nth wire) ixs) (demo_link 80 [Prv 5]) = Some (Inl (Panic x))"
    by (auto simp del: demo_dispatch_simps)
  from w(4) [of "[3, 1]"] obtain x where
    "receive_all (\<lambda>_. demo_dispatch) (\<lambda>_ _. GoTime 0 0) (map (nth wire) [3, 1]) (demo_link 80 [Prv 5]) = Some (Inl (Panic x))" by auto
  then show ?thesis using s(1) w(1,2) by blast
qed

text \<open>A change of key: the message of 37 bytes and its parity make two packets.\<close>

lemma newkey_encodes:
  assumes "crypto_laws C" shows "\<exists>s. newkey_Encode C (Some k) (New newkey_Len) = Inr s \<and> length (sb s) = 37"
proof -
  have "writes (newkey_Encode C (Some k)) (bytes_of_string ''newK'' @ Pub_ToBytes C k)"
    using assms unfolding newkey_Encode_def [abs_def] by (auto intro!: writes_intros)
  moreover have l: "length (bytes_of_string ''newK'' @ Pub_ToBytes C k) = newkey_Len" using assms by (simp add: newkey_Len_def)
  moreover have "length (bytes_of_string ''newK'' @ Pub_ToBytes C k) \<le> length (replicate newkey_Len (0 :: byte))" unfolding l by simp
  ultimately obtain s where "newkey_Encode C (Some k) (New newkey_Len) = Inr s"
      "splice_at s ([] @ bytes_of_string ''newK'' @ Pub_ToBytes C k)
         (drop (length (bytes_of_string ''newK'' @ Pub_ToBytes C k)) (replicate newkey_Len 0))"
    using writes_at [OF _ splice_at_New] by blast
  then show ?thesis unfolding l by (simp add: newkey_Len_def splice_at_def assms)
qed

lemma SendToConn_split:
  assumes "SendToConn de clk m a = Some (Inr (Some n, a'))"
  shows "\<exists>packets ks. split_message de m a = Some (Inr (n, packets, ks)) \<and> dConnSent a' = dConnSent a @ packets"
  using assms by (auto simp: SendToConn_def Let_def elim!: unless_error_InrE obind_InrE Mx_InrE)

lemma demo_rekey:
  assumes "dRemoteKey a = Some (prv_pub demo_ops q)" and "dMTU a = 116" and "\<not> dRekeying a" and "dParity a = 1 \<or> dParity a = 64"
  shows "\<exists>d'. ReKey demo_dispatch clk a = Some (Inr d') \<and> dConnSent d' \<noteq> dConnSent a"
proof -
  let ?sec = "\<lparr>DStart = 0, DEnd = 1, PEnd = 2, SLen = 40, Last = 37\<rparr>"
  obtain s where s: "newkey_Encode demo_ops (Some (prv_pub demo_ops (Prv 3))) (New newkey_Len) = Inr s" "length (sb s) = 37"
    using newkey_encodes [of demo_ops] by auto
  have plan: "NewSegments 37 40 0 1 = Inr [?sec]" "NewSegments 37 40 0 64 = Inr [?sec]" by (simp_all add: NewSegments_def)
  let ?a = "a\<lparr>dLocked := False\<rparr>"
  have "\<exists>a' wire pk shards. SendToConn demo_dispatch clk (sb s) ?a = Some (Inr (Some (DEnd ?sec), a')) \<and> dConnSent a' = dConnSent ?a @ wire \<and>
     list_all2 (framed demo_ops q) wire pk \<and> distinct (map pSeq pk) \<and> length pk = length shards \<and> int (length shards) = PEnd ?sec \<and>
     (\<forall>p\<in>set pk. shard_of shards (int (length (sb s))) (uint (dParity ?a)) (deID demo_dispatch) p) \<and>
     one_section demo_ops (deR demo_dispatch) 40 shards (int (length (sb s))) (uint (dParity ?a)) ?sec (sb s) \<and>
     waits_for (int (length (sb s))) (int 40 + 76) < int (length shards)"
    by (rule SendToConn_framed)
      (use assms s plan demo_valid_derived demo_plan_coder [of 1 ?sec] in \<open>auto simp: plan_exact_def seg_total_def\<close>)
  then obtain a' wire where "SendToConn demo_dispatch clk (sb s) ?a = Some (Inr (Some 1, a'))" "dConnSent a' = dConnSent ?a @ wire" "wire \<noteq> []"
    by (fastforce dest!: list_all2_lengthD simp del: demo_dispatch_simps)
  then obtain packets ks where "split_message demo_dispatch (sb s) ?a = Some (Inr (1, packets, ks))" "packets \<noteq> []"
    using SendToConn_split by (metis append_Nil2 same_append_eq)
  moreover have "split_message demo_dispatch (sb s) (a\<lparr>dLastRekey := n\<rparr>) = split_message demo_dispatch (sb s) ?a" for n
    by (cases "dRemoteKey a") (simp_all add: split_message_def)
  ultimately show ?thesis using assms(3) s(1) by (simp add: ReKey_def Let_def DerivePub_def)
qed

theorem rekey_forgets_new_key_witness:
  "\<exists>d' m. ReKey demo_dispatch (\<lambda>_. GoTime 0 0) (demo_link 116 (replicate 32 (Prv 5))) = Some (Inr d') \<and> dPrv d' = replicate 32 (Prv 5) \<and>
     RecvFromConn demo_dispatch (\<lambda>_. GoTime 0 0) m d' = Some (Inl nil_panic)"
proof -
  let ?d = "demo_link 116 (replicate 32 (Prv 5))" and ?ep = "demo_params\<lparr>ppTo := prv_pub demo_ops (Prv 3)\<rparr>"
  obtain d' where d': "ReKey demo_dispatch (\<lambda>_. GoTime 0 0) ?d = Some (Inr d')" "dConnSent d' \<noteq> dConnSent ?d"
    using demo_rekey [of ?d] by (auto simp del: demo_dispatch_simps)
  let ?F = "frame_rest demo_ops (replicate 16 9) [] ?ep"
  let ?m = "take 4 (Single demo_ops ?F) @ ?F"
  have m: "GetKeysFromPacket demo_ops ?m = Inr (prv_pub demo_ops (Prv 1), GetCloak demo_ops [] (prv_pub demo_ops (Prv 3)), replicate 16 0)"
    using GetKeysFromPacket_frame [of demo_ops "replicate 16 9" ?ep "[]"] demo_valid_derived by (simp add: demo_params_def)
  have no: "\<not> Match demo_ops (GetCloak demo_ops [] (prv_pub demo_ops (Prv 3))) (Pub_ToBytes demo_ops (prv_pub demo_ops (Prv 5)))"
    by code_simp
  have "dPrv d' = dPrv ?d \<and> (\<exists>s pieces packets ks. newkey_Encode demo_ops (Some (prv_pub demo_ops (Prv 3))) (New newkey_Len) = Inr s \<and>
      split_message demo_dispatch (sb s) ?d = Some (Inr (pieces, packets, ks)) \<and> dConnSent d' = dConnSent ?d @ packets) \<and>
     RecvFromConn demo_dispatch (\<lambda>_. GoTime 0 0) ?m d' = Some (Inl nil_panic)"
    by (rule rekey_forgets_new_key [OF _ _ d'(1) d'(2) _ m]) (use no in simp_all)
  then show ?thesis using d'(1) by auto
qed

theorem acknowledgement_accounted_witness:
  "\<exists>s d'. Codec_Encode acknowledge_Len (acknowledge_Encode \<lparr>rxID = replicate 8 1, rxHash = replicate 32 2, rxFirst = GoTime 100 0,
       rxLast = GoTime 101 0, rxSize = 40, rxReceived = 46, rxPing = 20\<rparr>) = Inr s \<and>
     Handle demo_dispatch (sb s) [] ((demo_link 116 [Prv 5])\<lparr>dPendingOutbound :=
       [\<lparr>txID = replicate 8 1, txHash = replicate 32 2, txFirst = GoTime 0 0, txLast = GoTime 1 0, txSize = 40, txPing = 0\<rparr>,
        \<lparr>txID = replicate 8 3, txHash = replicate 32 4, txFirst = GoTime 0 0, txLast = GoTime 1 0, txSize = 50, txPing = 0\<rparr>]\<rparr>) = Some (Inr d') \<and>
     dPendingOutbound d' = [] \<and> dDataSent d' = 40"
proof -
  let ?r = "\<lparr>rxID = replicate 8 1, rxHash = replicate 32 2, rxFirst = GoTime 100 0, rxLast = GoTime 101 0, rxSize = 40, rxReceived = 46, rxPing = 20\<rparr>"
  have ok: "rx_ok ?r" "KAcknowledge \<in> set all_kinds" by (simp_all add: rx_ok_def all_kinds_def)
  obtain s where s: "Codec_Encode acknowledge_Len (acknowledge_Encode ?r) = Inr s" using acknowledge_roundtrip [OF ok] by blast
  have "dDataSent (demo_link 116 [Prv 5]) = 0" by (simp add: demo_link_def empty_dispatcher_def)
  then show ?thesis
    using acknowledgement_accounted [OF ok _ _ s, of demo_dispatch "(demo_link 116 [Prv 5])\<lparr>dPendingOutbound :=
       [\<lparr>txID = replicate 8 1, txHash = replicate 32 2, txFirst = GoTime 0 0, txLast = GoTime 1 0, txSize = 40, txPing = 0\<rparr>,
        \<lparr>txID = replicate 8 3, txHash = replicate 32 4, txFirst = GoTime 0 0, txLast = GoTime 1 0, txSize = 50, txPing = 0\<rparr>]\<rparr>"
        "[]" "\<lparr>txID = replicate 8 1, txHash = replicate 32 2, txFirst = GoTime 0 0, txLast = GoTime 1 0, txSize = 40, txPing = 0\<rparr>" _ "[]"] s
    by auto
qed

text \<open>A start: the identity keys of the connection, then the first change of key.\<close>

lemma demo_start: "\<exists>d. dispatcher_reach demo_floats 0 d"
proof -
  let ?prk = "Prv_ToBytes demo_ops (Prv 5)" and ?fpk = "Pub_ToBytes demo_ops (prv_pub demo_ops (Prv 1))"
  have pk: "PubFromBytes demo_ops ?fpk = Inr (prv_pub demo_ops (Prv 1))"
    using demo_valid_derived by (simp add: PubFromBytes_def Pub_ToBytes_def valid_pub_def)
  let ?d2 = "(empty_dispatcher \<lparr>Base = Prv 1, Increment = Prv 1\<rparr> 116)\<lparr>dPrv := [PrvKeyFromBytes demo_ops ?prk], dRemoteKey := Some (prv_pub demo_ops (Prv 1)),
      dPingDivergence := [SetValue (fo_int demo_floats 1)], dErrorEWMA := [SetValue (fo_int demo_floats 0)], dParity := DefaultStartingParity\<rparr>"
  obtain d3 where "ReKey demo_dispatch (\<lambda>_. GoTime 0 0) (?d2\<lparr>dLocked := True\<rparr>) = Some (Inr d3)"
    using demo_rekey [of "?d2\<lparr>dLocked := True\<rparr>" "Prv 1"]
    by (auto simp: empty_dispatcher_def DefaultStartingParity_def simp del: demo_dispatch_simps)
  then have "NewDispatcher demo_dispatch (\<lambda>_. GoTime 0 0) (Inr ?prk) (Inr ?fpk) 116 \<lparr>Base = Prv 1, Increment = Prv 1\<rparr> =
      Some (Inr (True, d3\<lparr>dLocked := False, dReady := True\<rparr>))"
    using pk by (simp add: NewDispatcher_def Let_def Mx_def empty_dispatcher_def)
  then show ?thesis using dispatcher_reach.start by blast
qed



end
