(* ===== verification/Peer_Addrs.thy ===== *)
theory Peer_Addrs
  imports Multi "HOL-Library.AList" "HOL-Library.Multiset"
begin

text \<open>
  The address book of the peer store in memory, \<^verbatim>\<open>pkg/engine/transport/pstoremem\<close> (\<^verbatim>\<open>addr_book.go\<close>, \<^verbatim>\<open>sorting.go\<close>):
  256 segments selected by the last byte of a peer identity, each with the addresses of its peers and
  their signed records, and the manager of the subscriptions to new addresses.

  A Go map is the association list of its entries, with different keys; the order of the list stands
  for the order of one iteration, on which no theorem depends. The clock is an argument, in
  nanoseconds. A map or an entry reached through a pointer is written back where it was found: no two
  peers share one. What the multiaddr and libp2p packages do is the parameter \<open>addr_ops\<close> for addresses and
  \<open>env_ops\<close> for envelopes.
\<close>

section \<open>Parameters\<close>

type_synonym peer_id = bytes

text \<open>\<^verbatim>\<open>peer.SplitAddr\<close> (the address without its identity, nil for none, and the identity, empty for none),
  \<^verbatim>\<open>Multiaddr.Bytes\<close>, \<^verbatim>\<open>manet.IsIPLoopback\<close> and \<^verbatim>\<open>mafmt.TCP.Matches\<close>.\<close>

record addr_ops =
  SplitAddr :: "multiaddr option \<Rightarrow> multiaddr option \<times> peer_id"
  ma_Bytes :: "multiaddr \<Rightarrow> bytes"
  IsIPLoopback :: "multiaddr \<Rightarrow> bool"
  TCP_Matches :: "multiaddr \<Rightarrow> bool"

text \<open>\<^verbatim>\<open>peer.PeerRecord\<close>, the other records an envelope may hold, and the operations on envelopes and keys.\<close>

record peer_record =
  recPeerID :: peer_id
  recAddrs :: "multiaddr option list"
  recSeq :: u64

datatype env_record = IsPeerRecord peer_record | OtherRecord

record ('e, 'k) env_ops =
  env_Record :: "'e \<Rightarrow> env_record res"
  env_PublicKey :: "'e \<Rightarrow> 'k option"
  MatchesPublicKey :: "peer_id \<Rightarrow> 'k option \<Rightarrow> bool res"

section \<open>Data\<close>

record expiringAddr =
  eaAddr :: multiaddr
  eaTTL :: int
  eaExpires :: int

definition ExpiredBy :: "expiringAddr \<Rightarrow> int \<Rightarrow> bool" where
  "ExpiredBy e t \<longleftrightarrow> \<not> t < eaExpires e"

record 'e peerRecordState =
  prsEnvelope :: 'e
  prsSeq :: u64

type_synonym amap = "(bytes \<times> expiringAddr) list"

record 'e addrSegment =
  sgAddrs :: "(peer_id \<times> amap) list"
  sgRecords :: "(peer_id \<times> 'e peerRecordState) list"

text \<open>A subscription is the address of its \<^verbatim>\<open>addrSub\<close>.\<close>

type_synonym addrSub = nat

record AddrSubManager =
  smSubs :: "(peer_id \<times> addrSub list) list"

record 'e memoryAddrBook =
  abSegments :: "'e addrSegment list"
  abSubManager :: AddrSubManager

definition seg_index :: "peer_id \<Rightarrow> nat" where
  "seg_index p = (if p = [] then 0 else unat (last p))"

definition addrSegments_get :: "'e addrSegment list \<Rightarrow> peer_id \<Rightarrow> 'e addrSegment" where
  "addrSegments_get segments p = segments ! seg_index p"

definition NewAddrSubManager :: AddrSubManager where
  "NewAddrSubManager = \<lparr>smSubs = []\<rparr>"

definition NewAddrBook :: "'e memoryAddrBook" where
  "NewAddrBook = \<lparr>abSegments = replicate 256 \<lparr>sgAddrs = [], sgRecords = []\<rparr>,
                 abSubManager = NewAddrSubManager\<rparr>"

text \<open>The segment of a peer after an operation on it through the pointer that \<^verbatim>\<open>get\<close> returns.\<close>

definition set_segment :: "peer_id \<Rightarrow> 'e addrSegment \<Rightarrow> 'e memoryAddrBook \<Rightarrow> 'e memoryAddrBook" where
  "set_segment p s mab = mab\<lparr>abSegments := (abSegments mab)[seg_index p := s]\<rparr>"

section \<open>Subscriptions\<close>

text \<open>\<^verbatim>\<open>mgr.subs[p]\<close>, nil for a missing key.\<close>

definition subs_of :: "AddrSubManager \<Rightarrow> peer_id \<Rightarrow> addrSub list" where
  "subs_of mgr p = (case map_of (smSubs mgr) p of None \<Rightarrow> [] | Some l \<Rightarrow> l)"

definition removeSub :: "peer_id \<Rightarrow> addrSub \<Rightarrow> AddrSubManager \<Rightarrow> AddrSubManager" where
  "removeSub p s mgr =
     (let subs = subs_of mgr p in
      if length subs = 1 then
        (if subs ! 0 \<noteq> s then mgr else mgr\<lparr>smSubs := AList.delete p (smSubs mgr)\<rparr>)
      else case find_index (\<lambda>v. v = s) subs of
        None \<Rightarrow> mgr
      | Some i \<Rightarrow> mgr\<lparr>smSubs := AList.update p
            (take (length subs - 1) (subs[i := subs ! (length subs - 1)])) (smSubs mgr)\<rparr>)"

text \<open>\<^verbatim>\<open>BroadcastAddr\<close> hands the address to each subscription of the peer: the pairs that are published.\<close>

definition BroadcastAddr :: "AddrSubManager \<Rightarrow> peer_id \<Rightarrow> multiaddr \<Rightarrow> (addrSub \<times> multiaddr) list" where
  "BroadcastAddr mgr p addr = map (\<lambda>sub. (sub, addr)) (subs_of mgr p)"

text \<open>The part of \<^verbatim>\<open>AddrStream\<close> before the goroutine: the new subscription is appended.\<close>

definition subscribe :: "peer_id \<Rightarrow> addrSub \<Rightarrow> AddrSubManager \<Rightarrow> AddrSubManager" where
  "subscribe p sub mgr = mgr\<lparr>smSubs := AList.update p (subs_of mgr p @ [sub]) (smSubs mgr)\<rparr>"

section \<open>Operations of the address book\<close>

text \<open>The inner loop of \<^verbatim>\<open>gc\<close>: the entries of the map as it was found are visited, the expired ones deleted.\<close>

definition gc_amap :: "int \<Rightarrow> amap \<Rightarrow> amap" where
  "gc_amap now amap = foldl (\<lambda>m (k, addr). if ExpiredBy addr now then AList.delete k m else m) amap amap"

fun gc_loop :: "int \<Rightarrow> (peer_id \<times> amap) list \<Rightarrow> 'e addrSegment \<Rightarrow> 'e addrSegment" where
  "gc_loop now [] s = s"
| "gc_loop now ((p, amap) # rest) s =
     (let amap' = gc_amap now amap in
      gc_loop now rest
        (if length amap' = 0
         then s\<lparr>sgAddrs := AList.delete p (sgAddrs s), sgRecords := AList.delete p (sgRecords s)\<rparr>
         else s\<lparr>sgAddrs := AList.update p amap' (sgAddrs s)\<rparr>))"

definition gc :: "int \<Rightarrow> 'e memoryAddrBook \<Rightarrow> 'e memoryAddrBook" where
  "gc now mab = mab\<lparr>abSegments := map (\<lambda>s. gc_loop now (sgAddrs s) s) (abSegments mab)\<rparr>"

text \<open>The keys of the set that \<^verbatim>\<open>PeersWithAddrs\<close> builds.\<close>

definition peers_segment :: "'e addrSegment \<Rightarrow> peer_id list \<Rightarrow> peer_id list" where
  "peers_segment s pids =
     foldl (\<lambda>acc (pid, amap). if 0 < length amap then List.insert pid acc else acc) pids (sgAddrs s)"

definition PeersWithAddrs :: "'e memoryAddrBook \<Rightarrow> peer_id list" where
  "PeersWithAddrs mab = foldl (\<lambda>acc s. peers_segment s acc) [] (abSegments mab)"

text \<open>One turn of the loop of \<^verbatim>\<open>addAddrsUnlocked\<close> on the map of the peer, with what is published.\<close>

definition add_one :: "addr_ops \<Rightarrow> AddrSubManager \<Rightarrow> peer_id \<Rightarrow> int \<Rightarrow> int \<Rightarrow> multiaddr option \<Rightarrow>
    amap \<times> (addrSub \<times> multiaddr) list \<Rightarrow> amap \<times> (addrSub \<times> multiaddr) list" where
  "add_one A mgr p ttl exp arg st =
     (let (amap, pub) = st in
      case SplitAddr A arg of
        (None, addrPid) \<Rightarrow> st
      | (Some addr, addrPid) \<Rightarrow>
          if addrPid \<noteq> [] \<and> addrPid \<noteq> p then st
          else case map_of amap (ma_Bytes A addr) of
            None \<Rightarrow> (AList.update (ma_Bytes A addr)
                       \<lparr>eaAddr = addr, eaTTL = ttl, eaExpires = exp\<rparr> amap, pub @ BroadcastAddr mgr p addr)
          | Some a \<Rightarrow>
              (let a1 = (if ttl > eaTTL a then a\<lparr>eaTTL := ttl\<rparr> else a);
                   a2 = (if exp > eaExpires a1 then a1\<lparr>eaExpires := exp\<rparr> else a1)
               in (AList.update (ma_Bytes A addr) a2 amap, pub)))"

text \<open>\<^verbatim>\<open>amap, ok := s.addrs[p]; if !ok \{ ... \}\<close>.\<close>

definition amap_of :: "'e addrSegment \<Rightarrow> peer_id \<Rightarrow> amap" where
  "amap_of s p = (case map_of (sgAddrs s) p of None \<Rightarrow> [] | Some amap \<Rightarrow> amap)"

definition addAddrsUnlocked :: "addr_ops \<Rightarrow> int \<Rightarrow> AddrSubManager \<Rightarrow> 'e addrSegment \<Rightarrow> peer_id \<Rightarrow>
    multiaddr option list \<Rightarrow> int \<Rightarrow> 'e addrSegment \<times> (addrSub \<times> multiaddr) list" where
  "addAddrsUnlocked A now mgr s p addrs ttl =
     (if ttl \<le> 0 then (s, [])
      else let (amap, pub) = fold (add_one A mgr p ttl (now + ttl)) addrs (amap_of s p, [])
           in (s\<lparr>sgAddrs := AList.update p amap (sgAddrs s)\<rparr>, pub))"

definition addAddrs :: "addr_ops \<Rightarrow> int \<Rightarrow> peer_id \<Rightarrow> multiaddr option list \<Rightarrow> int \<Rightarrow>
    'e memoryAddrBook \<Rightarrow> 'e memoryAddrBook \<times> (addrSub \<times> multiaddr) list" where
  "addAddrs A now p addrs ttl mab =
     (let (s, pub) = addAddrsUnlocked A now (abSubManager mab)
                       (addrSegments_get (abSegments mab) p) p addrs ttl
      in (set_segment p s mab, pub))"

definition AddAddrs :: "addr_ops \<Rightarrow> int \<Rightarrow> peer_id \<Rightarrow> multiaddr option list \<Rightarrow> int \<Rightarrow>
    'e memoryAddrBook \<Rightarrow> 'e memoryAddrBook \<times> (addrSub \<times> multiaddr) list" where
  "AddAddrs A now p addrs ttl mab = addAddrs A now p addrs ttl mab"

definition AddAddr :: "addr_ops \<Rightarrow> int \<Rightarrow> peer_id \<Rightarrow> multiaddr option \<Rightarrow> int \<Rightarrow>
    'e memoryAddrBook \<Rightarrow> 'e memoryAddrBook \<times> (addrSub \<times> multiaddr) list" where
  "AddAddr A now p addr ttl mab = AddAddrs A now p [addr] ttl mab"

text \<open>\<^verbatim>\<open>ConsumePeerRecord\<close>: an error leaves the book as it is.\<close>

definition ConsumePeerRecord :: "addr_ops \<Rightarrow> ('e, 'k) env_ops \<Rightarrow> int \<Rightarrow> 'e \<Rightarrow> int \<Rightarrow> 'e memoryAddrBook \<Rightarrow>
    ('e memoryAddrBook \<times> (addrSub \<times> multiaddr) list \<times> bool) res" where
  "ConsumePeerRecord A V now env ttl mab =
     rbind (env_Record V env) (\<lambda>r. case r of
       OtherRecord \<Rightarrow> Inl (Error ''unable to process envelope: not a PeerRecord'')
     | IsPeerRecord rec \<Rightarrow>
         rbind (MatchesPublicKey V (recPeerID rec) (env_PublicKey V env)) (\<lambda>ok.
           if \<not> ok then Inl (Error ''signing key does not match PeerID in PeerRecord'')
           else
             let p = recPeerID rec; s = addrSegments_get (abSegments mab) p;
                 newer = (case map_of (sgRecords s) p of
                            Some lastState \<Rightarrow> prsSeq lastState > recSeq rec | None \<Rightarrow> False)
             in if newer then Inr (mab, [], False)
                else
                  let s1 = s\<lparr>sgRecords := AList.update p \<lparr>prsEnvelope = env, prsSeq = recSeq rec\<rparr> (sgRecords s)\<rparr>;
                      (s2, pub) = addAddrsUnlocked A now (abSubManager mab) s1 p (recAddrs rec) ttl
                  in Inr (set_segment p s2 mab, pub, True)))"

text \<open>One turn of the loop of \<^verbatim>\<open>SetAddrs\<close>.\<close>

definition set_one :: "addr_ops \<Rightarrow> AddrSubManager \<Rightarrow> peer_id \<Rightarrow> int \<Rightarrow> int \<Rightarrow> multiaddr option \<Rightarrow>
    amap \<times> (addrSub \<times> multiaddr) list \<Rightarrow> amap \<times> (addrSub \<times> multiaddr) list" where
  "set_one A mgr p ttl exp arg st =
     (let (amap, pub) = st in
      case SplitAddr A arg of
        (None, addrPid) \<Rightarrow> st
      | (Some addr, addrPid) \<Rightarrow>
          if addrPid \<noteq> [] \<and> addrPid \<noteq> p then st
          else if ttl > 0
            then (AList.update (ma_Bytes A addr)
                    \<lparr>eaAddr = addr, eaTTL = ttl, eaExpires = exp\<rparr> amap, pub @ BroadcastAddr mgr p addr)
            else (AList.delete (ma_Bytes A addr) amap, pub))"

definition SetAddrs :: "addr_ops \<Rightarrow> int \<Rightarrow> peer_id \<Rightarrow> multiaddr option list \<Rightarrow> int \<Rightarrow>
    'e memoryAddrBook \<Rightarrow> 'e memoryAddrBook \<times> (addrSub \<times> multiaddr) list" where
  "SetAddrs A now p addrs ttl mab =
     (let s = addrSegments_get (abSegments mab) p;
          (amap, pub) = fold (set_one A (abSubManager mab) p ttl (now + ttl)) addrs (amap_of s p, [])
      in (set_segment p (s\<lparr>sgAddrs := AList.update p amap (sgAddrs s)\<rparr>) mab, pub))"

definition SetAddr :: "addr_ops \<Rightarrow> int \<Rightarrow> peer_id \<Rightarrow> multiaddr option \<Rightarrow> int \<Rightarrow>
    'e memoryAddrBook \<Rightarrow> 'e memoryAddrBook \<times> (addrSub \<times> multiaddr) list" where
  "SetAddr A now p addr ttl mab = SetAddrs A now p [addr] ttl mab"

text \<open>One turn of the loop of \<^verbatim>\<open>UpdateAddrs\<close>.\<close>

definition update_one :: "int \<Rightarrow> int \<Rightarrow> int \<Rightarrow> bytes \<times> expiringAddr \<Rightarrow> amap \<Rightarrow> amap" where
  "update_one oldTTL newTTL exp ka amap =
     (let (k, a) = ka in
      if oldTTL = eaTTL a
      then (if newTTL = 0 then AList.delete k amap
            else AList.update k (a\<lparr>eaTTL := newTTL, eaExpires := exp\<rparr>) amap)
      else amap)"

definition UpdateAddrs :: "int \<Rightarrow> peer_id \<Rightarrow> int \<Rightarrow> int \<Rightarrow> 'e memoryAddrBook \<Rightarrow> 'e memoryAddrBook" where
  "UpdateAddrs now p oldTTL newTTL mab =
     (let s = addrSegments_get (abSegments mab) p in
      case map_of (sgAddrs s) p of
        None \<Rightarrow> mab
      | Some amap \<Rightarrow>
          set_segment p (s\<lparr>sgAddrs := AList.update p
            (fold (update_one oldTTL newTTL (now + newTTL)) amap amap) (sgAddrs s)\<rparr>) mab)"

text \<open>\<^verbatim>\<open>validAddrs\<close>; a nil map has no entries.\<close>

definition validAddrs :: "int \<Rightarrow> amap option \<Rightarrow> multiaddr list" where
  "validAddrs now amap =
     (case amap of None \<Rightarrow> []
      | Some amap \<Rightarrow> foldl (\<lambda>good (_, m). if \<not> ExpiredBy m now then good @ [eaAddr m] else good) [] amap)"

definition Addrs :: "int \<Rightarrow> peer_id \<Rightarrow> 'e memoryAddrBook \<Rightarrow> multiaddr list" where
  "Addrs now p mab = validAddrs now (map_of (sgAddrs (addrSegments_get (abSegments mab) p)) p)"

definition GetPeerRecord :: "int \<Rightarrow> peer_id \<Rightarrow> 'e memoryAddrBook \<Rightarrow> 'e option" where
  "GetPeerRecord now p mab =
     (let s = addrSegments_get (abSegments mab) p in
      if length (validAddrs now (map_of (sgAddrs s) p)) = 0 then None
      else map_option prsEnvelope (map_of (sgRecords s) p))"

definition ClearAddrs :: "peer_id \<Rightarrow> 'e memoryAddrBook \<Rightarrow> 'e memoryAddrBook" where
  "ClearAddrs p mab =
     (let s = addrSegments_get (abSegments mab) p in
      set_segment p \<lparr>sgAddrs = AList.delete p (sgAddrs s), sgRecords = AList.delete p (sgRecords s)\<rparr> mab)"

text \<open>\<^verbatim>\<open>AddrStream\<close> of the book: the addresses on file, expired or not, and the book with the subscription.\<close>

definition AddrStream :: "peer_id \<Rightarrow> addrSub \<Rightarrow> 'e memoryAddrBook \<Rightarrow> multiaddr list \<times> 'e memoryAddrBook" where
  "AddrStream p sub mab =
     (map (\<lambda>(_, a). eaAddr a) (amap_of (addrSegments_get (abSegments mab) p) p),
      mab\<lparr>abSubManager := subscribe p sub (abSubManager mab)\<rparr>)"

section \<open>The order of addresses\<close>

definition isFDCostlyTransport :: "addr_ops \<Rightarrow> multiaddr \<Rightarrow> bool" where
  "isFDCostlyTransport A a = TCP_Matches A a"

text \<open>\<^verbatim>\<open>bytes.Compare\<close>.\<close>

fun bytes_Compare :: "bytes \<Rightarrow> bytes \<Rightarrow> int" where
  "bytes_Compare [] [] = 0"
| "bytes_Compare [] (y # ys) = - 1"
| "bytes_Compare (x # xs) [] = 1"
| "bytes_Compare (x # xs) (y # ys) = (if x < y then - 1 else if y < x then 1 else bytes_Compare xs ys)"

definition Less :: "addr_ops \<Rightarrow> multiaddr \<Rightarrow> multiaddr \<Rightarrow> bool" where
  "Less A a b =
     (let lba = IsIPLoopback A a; lbb = IsIPLoopback A b;
          fda = isFDCostlyTransport A a; fdb = isFDCostlyTransport A b
      in if lba \<and> \<not> lbb then True
         else if \<not> fda then fdb
         else if \<not> fdb then False
         else if lbb then False
         else bytes_Compare (ma_Bytes A a) (ma_Bytes A b) > 0)"

section \<open>The stream of a subscription\<close>

text \<open>The goroutine of \<^verbatim>\<open>AddrStream\<close>: what is left to deliver, the next address (none while \<^verbatim>\<open>outch\<close> is nil), the
  byte strings seen, and what was put into the channel \<^verbatim>\<open>out\<close>.\<close>

record stream =
  stBuffer :: "multiaddr list"
  stNext :: "multiaddr option"
  stSent :: "bytes list"
  stOut :: "multiaddr list"
  stClosed :: bool

definition start_stream :: "addr_ops \<Rightarrow> multiaddr list \<Rightarrow> stream" where
  "start_stream A buffer =
     (case buffer of
        [] \<Rightarrow> \<lparr>stBuffer = [], stNext = None, stSent = [], stOut = [], stClosed = False\<rparr>
      | a # rest \<Rightarrow> \<lparr>stBuffer = rest, stNext = Some a, stSent = map (ma_Bytes A) buffer,
                    stOut = [], stClosed = False\<rparr>)"

definition stream_deliver :: "stream \<Rightarrow> multiaddr \<Rightarrow> stream" where
  "stream_deliver st a =
     (case stBuffer st of
        [] \<Rightarrow> st\<lparr>stOut := stOut st @ [a], stNext := None\<rparr>
      | b # rest \<Rightarrow> st\<lparr>stOut := stOut st @ [a], stNext := Some b, stBuffer := rest\<rparr>)"

definition stream_receive :: "addr_ops \<Rightarrow> multiaddr \<Rightarrow> stream \<Rightarrow> stream" where
  "stream_receive A naddr st =
     (if ma_Bytes A naddr \<in> set (stSent st) then st
      else let st1 = st\<lparr>stSent := ma_Bytes A naddr # stSent st\<rparr> in
           if stNext st1 = None then st1\<lparr>stNext := Some naddr\<rparr>
           else st1\<lparr>stBuffer := stBuffer st1 @ [naddr]\<rparr>)"

text \<open>A turn of the loop: the reader takes the next address, an address is published, or the context
  is done, \<^verbatim>\<open>removeSub\<close> is called and the channel is closed.\<close>

datatype stream_event = Delivered multiaddr | Received multiaddr | Cancelled

inductive stream_step :: "addr_ops \<Rightarrow> stream \<Rightarrow> stream_event \<Rightarrow> stream \<Rightarrow> bool" for A where
  step_deliver: "\<not> stClosed st \<Longrightarrow> stNext st = Some a \<Longrightarrow> stream_step A st (Delivered a) (stream_deliver st a)"
| step_receive: "\<not> stClosed st \<Longrightarrow> stream_step A st (Received a) (stream_receive A a st)"
| step_cancel: "\<not> stClosed st \<Longrightarrow> stream_step A st Cancelled (st\<lparr>stClosed := True\<rparr>)"

inductive_simps stream_step_simps:
  "stream_step A st (Delivered a) st'" "stream_step A st (Received a) st'" "stream_step A st Cancelled st'"

inductive stream_run :: "addr_ops \<Rightarrow> multiaddr list \<Rightarrow> stream_event list \<Rightarrow> stream \<Rightarrow> bool" for A buffer where
  run_start: "stream_run A buffer [] (start_stream A buffer)"
| run_step: "stream_run A buffer evs st \<Longrightarrow> stream_step A st ev st' \<Longrightarrow> stream_run A buffer (evs @ [ev]) st'"

end
