(* ===== verification/Peer_Refine.thy ===== *)
theory Peer_Refine
  imports Peer_Addrs
begin

text \<open>
  What the address book promises, and that the segmented book keeps it. The specification \<open>flat_book\<close> is one map
  from peers to their addresses, one to their signed records and the bag of subscriptions of each peer;
  its operations say in closed form what becomes of each address. The locale \<open>data_refinement\<close> is the
  contract between a concrete component and its specification: its lemma lifts it to every run.
\<close>

section \<open>Refinement of one component by another\<close>

fun run_ops :: "('op \<Rightarrow> 's \<Rightarrow> 's \<times> 'r) \<Rightarrow> 'op list \<Rightarrow> 's \<Rightarrow> 's \<times> 'r list" where
  "run_ops exec [] s = (s, [])"
| "run_ops exec (x # xs) s = (let (s1, r) = exec x s; (s2, rs) = run_ops exec xs s1 in (s2, r # rs))"

text \<open>What the specification says of the results of a run, one by one.\<close>

fun run_agrees :: "('op \<Rightarrow> 'a \<Rightarrow> 'a) \<Rightarrow> ('op \<Rightarrow> 'a \<Rightarrow> 'r \<Rightarrow> bool) \<Rightarrow> 'op list \<Rightarrow> 'a \<Rightarrow> 'r list \<Rightarrow> bool" where
  "run_agrees spec agrees [] a rs \<longleftrightarrow> rs = []"
| "run_agrees spec agrees (x # xs) a rs \<longleftrightarrow>
     (case rs of [] \<Rightarrow> False | r # rs' \<Rightarrow> agrees x a r \<and> run_agrees spec agrees xs (spec x a) rs')"

locale data_refinement =
  fixes inv :: "'c \<Rightarrow> bool" and abs_of :: "'c \<Rightarrow> 'a" and exec :: "'op \<Rightarrow> 'c \<Rightarrow> 'c \<times> 'r"
    and spec :: "'op \<Rightarrow> 'a \<Rightarrow> 'a" and agrees :: "'op \<Rightarrow> 'a \<Rightarrow> 'r \<Rightarrow> bool"
  assumes step_inv: "inv c \<Longrightarrow> inv (fst (exec x c))"
    and step_abs: "inv c \<Longrightarrow> abs_of (fst (exec x c)) = spec x (abs_of c)"
    and step_agrees: "inv c \<Longrightarrow> agrees x (abs_of c) (snd (exec x c))"
begin

lemma run_inv: "inv c \<Longrightarrow> inv (fst (run_ops exec xs c))"
  by (induction xs arbitrary: c) (auto simp: Let_def split_beta dest: step_inv)

lemma run_abs: "inv c \<Longrightarrow> abs_of (fst (run_ops exec xs c)) = fold spec xs (abs_of c)"
  by (induction xs arbitrary: c) (auto simp: Let_def split_beta step_abs step_inv)

lemma run_results: "inv c \<Longrightarrow> run_agrees spec agrees xs (abs_of c) (snd (run_ops exec xs c))"
  by (induction xs arbitrary: c) (auto simp: Let_def split_beta step_agrees step_abs [symmetric] step_inv)

end

section \<open>The specification of the address book\<close>

record 'e flat_book =
  fbAddrs :: "peer_id \<Rightarrow> (bytes \<rightharpoonup> expiringAddr) option"
  fbRecords :: "peer_id \<rightharpoonup> 'e peerRecordState"
  fbSubs :: "peer_id \<Rightarrow> addrSub multiset"

text \<open>The addresses of the arguments that are used for a peer: there is one, and it names no other peer.\<close>

definition accept :: "addr_ops \<Rightarrow> peer_id \<Rightarrow> multiaddr option \<Rightarrow> multiaddr option" where
  "accept A p x = (case SplitAddr A x of
      (None, _) \<Rightarrow> None | (Some a, q) \<Rightarrow> if q \<noteq> [] \<and> q \<noteq> p then None else Some a)"

definition accepted :: "addr_ops \<Rightarrow> peer_id \<Rightarrow> multiaddr option list \<Rightarrow> multiaddr list" where
  "accepted A p xs = List.map_filter (accept A p) xs"

definition spec_expire :: "int \<Rightarrow> (bytes \<rightharpoonup> expiringAddr) \<Rightarrow> (bytes \<rightharpoonup> expiringAddr)" where
  "spec_expire now m k = (case m k of None \<Rightarrow> None | Some e \<Rightarrow> if ExpiredBy e now then None else Some e)"

definition spec_add :: "addr_ops \<Rightarrow> int \<Rightarrow> int \<Rightarrow> multiaddr list \<Rightarrow> (bytes \<rightharpoonup> expiringAddr) \<Rightarrow> (bytes \<rightharpoonup> expiringAddr)" where
  "spec_add A ttl exp as m k =
     (case find (\<lambda>a. ma_Bytes A a = k) as of
        None \<Rightarrow> m k
      | Some a \<Rightarrow> Some (case m k of
          None \<Rightarrow> \<lparr>eaAddr = a, eaTTL = ttl, eaExpires = exp\<rparr>
        | Some e \<Rightarrow> e\<lparr>eaTTL := max ttl (eaTTL e), eaExpires := max exp (eaExpires e)\<rparr>))"

definition spec_set :: "addr_ops \<Rightarrow> int \<Rightarrow> int \<Rightarrow> multiaddr list \<Rightarrow> (bytes \<rightharpoonup> expiringAddr) \<Rightarrow> (bytes \<rightharpoonup> expiringAddr)" where
  "spec_set A ttl exp as m k =
     (case find (\<lambda>a. ma_Bytes A a = k) (rev as) of
        None \<Rightarrow> m k
      | Some a \<Rightarrow> if 0 < ttl then Some \<lparr>eaAddr = a, eaTTL = ttl, eaExpires = exp\<rparr> else None)"

definition spec_retime :: "int \<Rightarrow> int \<Rightarrow> int \<Rightarrow> (bytes \<rightharpoonup> expiringAddr) \<Rightarrow> (bytes \<rightharpoonup> expiringAddr)" where
  "spec_retime oldTTL newTTL exp m k =
     (case m k of None \<Rightarrow> None
      | Some e \<Rightarrow> if eaTTL e \<noteq> oldTTL then Some e
                 else if newTTL = 0 then None else Some (e\<lparr>eaTTL := newTTL, eaExpires := exp\<rparr>))"

definition known :: "'e flat_book \<Rightarrow> peer_id \<Rightarrow> (bytes \<rightharpoonup> expiringAddr)" where
  "known f p = (case fbAddrs f p of None \<Rightarrow> Map.empty | Some m \<Rightarrow> m)"

definition spec_AddAddrs :: "addr_ops \<Rightarrow> int \<Rightarrow> peer_id \<Rightarrow> multiaddr option list \<Rightarrow> int \<Rightarrow> 'e flat_book \<Rightarrow> 'e flat_book" where
  "spec_AddAddrs A now p addrs ttl f =
     (if ttl \<le> 0 then f
      else f\<lparr>fbAddrs := (fbAddrs f)(p \<mapsto> spec_add A ttl (now + ttl) (accepted A p addrs) (known f p))\<rparr>)"

definition spec_SetAddrs :: "addr_ops \<Rightarrow> int \<Rightarrow> peer_id \<Rightarrow> multiaddr option list \<Rightarrow> int \<Rightarrow> 'e flat_book \<Rightarrow> 'e flat_book" where
  "spec_SetAddrs A now p addrs ttl f =
     f\<lparr>fbAddrs := (fbAddrs f)(p \<mapsto> spec_set A ttl (now + ttl) (accepted A p addrs) (known f p))\<rparr>"

definition spec_UpdateAddrs :: "int \<Rightarrow> peer_id \<Rightarrow> int \<Rightarrow> int \<Rightarrow> 'e flat_book \<Rightarrow> 'e flat_book" where
  "spec_UpdateAddrs now p oldTTL newTTL f =
     f\<lparr>fbAddrs := (fbAddrs f)(p := map_option (spec_retime oldTTL newTTL (now + newTTL)) (fbAddrs f p))\<rparr>"

text \<open>A record is consumed when its envelope holds one signed by its peer and no newer one is kept.\<close>

definition signed_record :: "('e, 'k) env_ops \<Rightarrow> 'e \<Rightarrow> peer_record res" where
  "signed_record V env =
     rbind (env_Record V env) (\<lambda>r. case r of
       OtherRecord \<Rightarrow> Inl (Error ''unable to process envelope: not a PeerRecord'')
     | IsPeerRecord rec \<Rightarrow>
         rbind (MatchesPublicKey V (recPeerID rec) (env_PublicKey V env)) (\<lambda>ok.
           if ok then Inr rec else Inl (Error ''signing key does not match PeerID in PeerRecord'')))"

definition fresh_record :: "'e flat_book \<Rightarrow> peer_record \<Rightarrow> bool" where
  "fresh_record f rec = (case fbRecords f (recPeerID rec) of
      None \<Rightarrow> True | Some st \<Rightarrow> prsSeq st \<le> recSeq rec)"

definition spec_Consume :: "addr_ops \<Rightarrow> ('e, 'k) env_ops \<Rightarrow> int \<Rightarrow> 'e \<Rightarrow> int \<Rightarrow> 'e flat_book \<Rightarrow> 'e flat_book" where
  "spec_Consume A V now env ttl f =
     (case signed_record V env of
        Inl _ \<Rightarrow> f
      | Inr rec \<Rightarrow>
          if fresh_record f rec
          then spec_AddAddrs A now (recPeerID rec) (recAddrs rec) ttl
                 (f\<lparr>fbRecords := (fbRecords f)(recPeerID rec \<mapsto> \<lparr>prsEnvelope = env, prsSeq = recSeq rec\<rparr>)\<rparr>)
          else f)"

definition spec_gc :: "int \<Rightarrow> 'e flat_book \<Rightarrow> 'e flat_book" where
  "spec_gc now f =
     f\<lparr>fbAddrs := (\<lambda>p. case fbAddrs f p of None \<Rightarrow> None
         | Some m \<Rightarrow> if spec_expire now m = Map.empty then None else Some (spec_expire now m)),
       fbRecords := (\<lambda>p. case fbAddrs f p of None \<Rightarrow> fbRecords f p
         | Some m \<Rightarrow> if spec_expire now m = Map.empty then None else fbRecords f p)\<rparr>"

definition spec_Clear :: "peer_id \<Rightarrow> 'e flat_book \<Rightarrow> 'e flat_book" where
  "spec_Clear p f = f\<lparr>fbAddrs := (fbAddrs f)(p := None), fbRecords := (fbRecords f)(p := None)\<rparr>"

definition spec_Addrs :: "int \<Rightarrow> peer_id \<Rightarrow> 'e flat_book \<Rightarrow> multiaddr set" where
  "spec_Addrs now p f = {eaAddr e | k e. known f p k = Some e \<and> now < eaExpires e}"

definition spec_Record :: "int \<Rightarrow> peer_id \<Rightarrow> 'e flat_book \<Rightarrow> 'e option" where
  "spec_Record now p f = (if spec_Addrs now p f = {} then None else map_option prsEnvelope (fbRecords f p))"

section \<open>Abstraction and invariant\<close>

definition amap_ok :: "addr_ops \<Rightarrow> amap \<Rightarrow> bool" where
  "amap_ok A m \<longleftrightarrow> distinct (map fst m) \<and> (\<forall>k e. map_of m k = Some e \<longrightarrow> k = ma_Bytes A (eaAddr e))"

definition seg_ok :: "addr_ops \<Rightarrow> nat \<Rightarrow> 'e addrSegment \<Rightarrow> bool" where
  "seg_ok A i s \<longleftrightarrow>
     distinct (map fst (sgAddrs s)) \<and> distinct (map fst (sgRecords s)) \<and>
     (\<forall>p m. map_of (sgAddrs s) p = Some m \<longrightarrow> seg_index p = i \<and> amap_ok A m) \<and>
     (\<forall>p r. map_of (sgRecords s) p = Some r \<longrightarrow> seg_index p = i)"

definition book_ok :: "addr_ops \<Rightarrow> 'e memoryAddrBook \<Rightarrow> bool" where
  "book_ok A b \<longleftrightarrow> length (abSegments b) = 256 \<and> (\<forall>i<256. seg_ok A i (abSegments b ! i)) \<and>
     distinct (map fst (smSubs (abSubManager b)))"

definition flat_of :: "'e memoryAddrBook \<Rightarrow> 'e flat_book" where
  "flat_of b = \<lparr>
     fbAddrs = (\<lambda>p. map_option map_of (map_of (sgAddrs (addrSegments_get (abSegments b) p)) p)),
     fbRecords = (\<lambda>p. map_of (sgRecords (addrSegments_get (abSegments b) p)) p),
     fbSubs = (\<lambda>p. mset (subs_of (abSubManager b) p))\<rparr>"

named_theorems flat_simps "the specification of a concrete address book"

lemma seg_index_less [simp]: "seg_index p < 256"
  using unsigned_less [of "last p", where ?'a = nat] by (simp add: seg_index_def)

lemma amap_okI: "distinct (map fst m) \<Longrightarrow> (\<And>k e. map_of m k = Some e \<Longrightarrow> k = ma_Bytes A (eaAddr e)) \<Longrightarrow> amap_ok A m"
  by (simp add: amap_ok_def)

lemma amap_ok_Nil [simp]: "amap_ok A []"
  by (simp add: amap_ok_def)

section \<open>The loops over the addresses of one peer\<close>

lemma foldl_delete:
  "map_of (foldl (\<lambda>m (k, e). if P e then AList.delete k m else m) acc xs) k
   = (if \<exists>e. (k, e) \<in> set xs \<and> P e then None else map_of acc k)"
  by (induction xs arbitrary: acc) (auto simp: delete_conv')

lemma map_of_gc_amap:
  assumes "distinct (map fst m)"
  shows "map_of (gc_amap now m) = spec_expire now (map_of m)"
proof
  fix k
  show "map_of (gc_amap now m) k = spec_expire now (map_of m) k"
  proof (cases "map_of m k")
    case None
    then show ?thesis unfolding gc_amap_def foldl_delete
      by (auto simp: spec_expire_def)
  next
    case (Some e)
    then have "(\<exists>e'. (k, e') \<in> set m \<and> ExpiredBy e' now) \<longleftrightarrow> ExpiredBy e now"
      using assms by (metis map_of_SomeD map_of_is_SomeI option.inject)
    then show ?thesis unfolding gc_amap_def foldl_delete
      by (simp add: spec_expire_def Some)
  qed
qed

lemma distinct_foldl_delete:
  "distinct (map fst acc) \<Longrightarrow>
   distinct (map fst (foldl (\<lambda>m (k, e). if P e then AList.delete k m else m) acc xs))"
  by (induction xs arbitrary: acc) (auto simp: distinct_delete)

lemma distinct_gc_amap: "distinct (map fst m) \<Longrightarrow> distinct (map fst (gc_amap now m))"
  by (simp add: gc_amap_def distinct_foldl_delete)

lemma gc_amap_empty: "distinct (map fst m) \<Longrightarrow> gc_amap now m = [] \<longleftrightarrow> spec_expire now (map_of m) = Map.empty"
  by (metis map_of_gc_amap map_of_eq_empty_iff)

lemma accepted_Nil [simp]: "accepted A p [] = []"
  by (simp add: accepted_def)

lemma accepted_Cons: "accepted A p (x # xs) = (case accept A p x of None \<Rightarrow> [] | Some a \<Rightarrow> [a]) @ accepted A p xs"
  by (simp add: accepted_def split: option.split)

lemma accepted_snoc: "accepted A p (xs @ [x]) = accepted A p xs @ (case accept A p x of None \<Rightarrow> [] | Some a \<Rightarrow> [a])"
  by (induction xs) (simp_all add: accepted_Cons)

lemma add_one_accept:
  "add_one A mgr p ttl exp x (m, pub) = (case accept A p x of
      None \<Rightarrow> (m, pub)
    | Some a \<Rightarrow> (AList.update (ma_Bytes A a) (the (spec_add A ttl exp [a] (map_of m) (ma_Bytes A a))) m,
                pub @ (if map_of m (ma_Bytes A a) = None then BroadcastAddr mgr p a else [])))"
  by (auto simp: add_one_def accept_def spec_add_def Let_def max_def split: option.split prod.split)

lemma spec_add_Nil [simp]: "spec_add A ttl exp [] m = m"
  by (auto simp: spec_add_def)

lemma spec_add_Cons: "spec_add A ttl exp (a # as) m = spec_add A ttl exp as (spec_add A ttl exp [a] m)"
  by (rule ext) (auto simp: spec_add_def split: option.split)

lemma map_of_add_step:
  "map_of (AList.update (ma_Bytes A a) (the (spec_add A ttl exp [a] (map_of m) (ma_Bytes A a))) m)
   = spec_add A ttl exp [a] (map_of m)"
  by (rule ext) (auto simp: update_conv' spec_add_def)

lemma map_of_add_loop:
  "map_of (fst (fold (add_one A mgr p ttl exp) xs (m, pub))) = spec_add A ttl exp (accepted A p xs) (map_of m)"
proof (induction xs arbitrary: m pub)
  case (Cons x xs)
  show ?case
    by (cases "accept A p x")
      (simp_all add: add_one_accept accepted_Cons Cons.IH map_of_add_step spec_add_Cons [of A ttl exp _ "accepted A p xs"])
qed simp

lemma distinct_add_loop:
  "distinct (map fst m) \<Longrightarrow> distinct (map fst (fst (fold (add_one A mgr p ttl exp) xs (m, pub))))"
proof (induction xs arbitrary: m pub)
  case (Cons x xs)
  then show ?case
    by (cases "accept A p x") (simp_all add: add_one_accept distinct_update)
qed simp

lemma set_one_accept:
  "set_one A mgr p ttl exp x (m, pub) = (case accept A p x of
      None \<Rightarrow> (m, pub)
    | Some a \<Rightarrow> if 0 < ttl
        then (AList.update (ma_Bytes A a) \<lparr>eaAddr = a, eaTTL = ttl, eaExpires = exp\<rparr> m, pub @ BroadcastAddr mgr p a)
        else (AList.delete (ma_Bytes A a) m, pub))"
  by (auto simp: set_one_def accept_def Let_def split: option.split prod.split)

lemma map_of_set_loop:
  "map_of (fst (fold (set_one A mgr p ttl exp) xs (m, pub))) = spec_set A ttl exp (accepted A p xs) (map_of m)"
proof (induction xs arbitrary: m pub rule: rev_induct)
  case Nil
  then show ?case by (auto simp: spec_set_def)
next
  case (snoc x xs)
  obtain m1 pub1 where st: "fold (set_one A mgr p ttl exp) xs (m, pub) = (m1, pub1)"
    by (cases "fold (set_one A mgr p ttl exp) xs (m, pub)")
  have ih: "map_of m1 = spec_set A ttl exp (accepted A p xs) (map_of m)"
    using snoc.IH [of m pub] by (simp add: st)
  show ?case
    by (rule ext)
      (auto simp: st set_one_accept accepted_snoc ih spec_set_def update_conv' delete_conv' split: option.split)
qed

lemma distinct_set_loop:
  "distinct (map fst m) \<Longrightarrow> distinct (map fst (fst (fold (set_one A mgr p ttl exp) xs (m, pub))))"
proof (induction xs arbitrary: m pub)
  case (Cons x xs)
  then show ?case
    by (cases "accept A p x") (simp_all add: set_one_accept distinct_update distinct_delete)
qed simp

lemma map_of_update_loop_gen:
  "distinct (map fst xs) \<Longrightarrow>
   map_of (fold (update_one oldTTL newTTL exp) xs acc) k
   = (case map_of xs k of None \<Rightarrow> map_of acc k
      | Some e \<Rightarrow> if eaTTL e = oldTTL then spec_retime oldTTL newTTL exp (map_of xs) k else map_of acc k)"
proof (induction xs arbitrary: acc)
  case (Cons x xs)
  obtain j a where x: "x = (j, a)" by (cases x)
  have "map_of xs j = None" using Cons.prems by (simp add: x map_of_eq_None_iff)
  then show ?case using Cons
    by (auto simp: x update_one_def spec_retime_def update_conv' delete_conv' split: option.split)
qed simp

lemma map_of_update_loop:
  "distinct (map fst m) \<Longrightarrow>
   map_of (fold (update_one oldTTL newTTL exp) m m) = spec_retime oldTTL newTTL exp (map_of m)"
  by (rule ext) (auto simp: map_of_update_loop_gen spec_retime_def split: option.split)

lemma distinct_update_loop:
  "distinct (map fst acc) \<Longrightarrow> distinct (map fst (fold (update_one oldTTL newTTL exp) xs acc))"
  by (induction xs arbitrary: acc) (auto simp: update_one_def Let_def distinct_update distinct_delete split_beta)

text \<open>What every loop keeps of the addresses of one peer: the key of an entry is its address.\<close>

definition keyed :: "addr_ops \<Rightarrow> (bytes \<rightharpoonup> expiringAddr) \<Rightarrow> bool" where
  "keyed A m \<longleftrightarrow> (\<forall>k e. m k = Some e \<longrightarrow> k = ma_Bytes A (eaAddr e))"

lemma keyed_spec:
  assumes "keyed A m"
  shows "keyed A (spec_expire now m)" and "keyed A (spec_add A ttl exp as m)"
    and "keyed A (spec_set A ttl exp as m)" and "keyed A (spec_retime oldTTL newTTL exp m)"
  using assms
  by (auto simp: keyed_def spec_expire_def spec_add_def spec_set_def spec_retime_def
      split: option.splits if_splits dest!: find_Some_in_set)

lemma amap_ok_keyed: "amap_ok A m \<longleftrightarrow> distinct (map fst m) \<and> keyed A (map_of m)"
  by (simp add: amap_ok_def keyed_def)

lemma amap_ok_loops:
  assumes "amap_ok A m"
  shows "amap_ok A (gc_amap now m)" and "amap_ok A (fst (fold (add_one A mgr p ttl exp) xs (m, pub)))"
    and "amap_ok A (fst (fold (set_one A mgr p ttl exp) xs (m, pub)))"
    and "amap_ok A (fold (update_one oldTTL newTTL exp) m m)"
  using assms
  by (simp_all add: amap_ok_keyed map_of_gc_amap map_of_add_loop map_of_set_loop map_of_update_loop keyed_spec
      distinct_add_loop distinct_set_loop distinct_update_loop distinct_gc_amap)

section \<open>One segment, and the book around it\<close>

lemma gc_loop_addrs:
  "distinct (map fst xs) \<Longrightarrow> map_of (sgAddrs (gc_loop now xs s)) p =
     (case map_of xs p of None \<Rightarrow> map_of (sgAddrs s) p
      | Some m \<Rightarrow> if gc_amap now m = [] then None else Some (gc_amap now m))"
proof (induction now xs s rule: gc_loop.induct)
  case (2 now q amap rest s)
  have "map_of rest q = None" using "2.prems" by (simp add: map_of_eq_None_iff)
  then show ?case using 2 by (auto simp: Let_def update_conv' delete_conv' split: option.split)
qed simp

lemma gc_loop_records:
  "distinct (map fst xs) \<Longrightarrow> map_of (sgRecords (gc_loop now xs s)) p =
     (case map_of xs p of None \<Rightarrow> map_of (sgRecords s) p
      | Some m \<Rightarrow> if gc_amap now m = [] then None else map_of (sgRecords s) p)"
proof (induction now xs s rule: gc_loop.induct)
  case (2 now q amap rest s)
  have "map_of rest q = None" using "2.prems" by (simp add: map_of_eq_None_iff)
  then show ?case using 2 by (auto simp: Let_def delete_conv' split: option.split)
qed simp

lemma gc_loop_distinct:
  "distinct (map fst (sgAddrs s)) \<and> distinct (map fst (sgRecords s)) \<Longrightarrow>
   distinct (map fst (sgAddrs (gc_loop now xs s))) \<and> distinct (map fst (sgRecords (gc_loop now xs s)))"
  by (induction now xs s rule: gc_loop.induct) (simp_all add: Let_def distinct_update distinct_delete)

lemma seg_ok_gc: "seg_ok A i s \<Longrightarrow> seg_ok A i (gc_loop now (sgAddrs s) s)"
  by (auto simp: seg_ok_def gc_loop_distinct gc_loop_addrs gc_loop_records amap_ok_loops
      split: option.splits if_splits)

lemma seg_ok_update:
  "seg_ok A (seg_index p) s \<Longrightarrow> amap_ok A m \<Longrightarrow> seg_ok A (seg_index p) (s\<lparr>sgAddrs := AList.update p m (sgAddrs s)\<rparr>)"
  by (auto simp: seg_ok_def update_conv' distinct_update split: if_splits)

lemma seg_ok_record:
  "seg_ok A (seg_index p) s \<Longrightarrow> seg_ok A (seg_index p) (s\<lparr>sgRecords := AList.update p r (sgRecords s)\<rparr>)"
  by (auto simp: seg_ok_def update_conv' distinct_update split: if_splits)

lemma seg_ok_delete:
  "seg_ok A i s \<Longrightarrow> seg_ok A i \<lparr>sgAddrs = AList.delete p (sgAddrs s), sgRecords = AList.delete p (sgRecords s)\<rparr>"
  by (auto simp: seg_ok_def delete_conv' distinct_delete split: if_splits)

lemma seg_ok_amap: "seg_ok A i s \<Longrightarrow> amap_ok A (amap_of s p)"
  by (auto simp: seg_ok_def amap_of_def split: option.split)

lemma book_ok_get: "book_ok A b \<Longrightarrow> seg_ok A (seg_index p) (addrSegments_get (abSegments b) p)"
  by (simp add: book_ok_def addrSegments_get_def)

lemma book_ok_amap: "book_ok A b \<Longrightarrow> amap_ok A (amap_of (addrSegments_get (abSegments b) p) p)"
  using book_ok_get by (rule seg_ok_amap)

lemma book_ok_set: "book_ok A b \<Longrightarrow> seg_ok A (seg_index p) s \<Longrightarrow> book_ok A (set_segment p s b)"
  by (auto simp: book_ok_def set_segment_def nth_list_update)

lemma get_set_segment:
  "book_ok A b \<Longrightarrow> addrSegments_get (abSegments (set_segment p s b)) q
     = (if seg_index q = seg_index p then s else addrSegments_get (abSegments b) q)"
  by (auto simp: book_ok_def set_segment_def addrSegments_get_def nth_list_update)

lemma subManager_set [simp]: "abSubManager (set_segment p s b) = abSubManager b"
  by (simp add: set_segment_def)

text \<open>Operations on one peer: a new map of addresses, a new record, both deleted.\<close>

lemma flat_set_addrs [flat_simps]:
  assumes "book_ok A b" and "s = addrSegments_get (abSegments b) p"
  shows "flat_of (set_segment p (s\<lparr>sgAddrs := AList.update p m (sgAddrs s)\<rparr>) b)
         = (flat_of b)\<lparr>fbAddrs := (fbAddrs (flat_of b))(p \<mapsto> map_of m)\<rparr>"
  using assms
  by (auto simp: flat_of_def get_set_segment update_conv' fun_eq_iff)
    (auto simp: addrSegments_get_def)

lemma flat_set_record [flat_simps]:
  assumes "book_ok A b" and "s = addrSegments_get (abSegments b) p"
  shows "flat_of (set_segment p (s\<lparr>sgRecords := AList.update p r (sgRecords s)\<rparr>) b)
         = (flat_of b)\<lparr>fbRecords := (fbRecords (flat_of b))(p \<mapsto> r)\<rparr>"
  using assms
  by (auto simp: flat_of_def get_set_segment update_conv' fun_eq_iff)
    (auto simp: addrSegments_get_def)

lemma flat_clear:
  assumes "book_ok A b"
  shows "flat_of (ClearAddrs p b) = spec_Clear p (flat_of b)"
  using assms
  by (auto simp: flat_of_def ClearAddrs_def spec_Clear_def get_set_segment delete_conv' Let_def fun_eq_iff)
    (auto simp: addrSegments_get_def)

lemma known_flat [flat_simps]: "known (flat_of b) p = map_of (amap_of (addrSegments_get (abSegments b) p) p)"
  by (simp add: known_def flat_of_def amap_of_def split: option.split)

section \<open>Each operation refines its specification\<close>

lemma flat_gc:
  assumes "book_ok A b"
  shows "flat_of (gc now b) = spec_gc now (flat_of b)"
proof -
  have get: "addrSegments_get (abSegments (gc now b)) p
             = (let s = addrSegments_get (abSegments b) p in gc_loop now (sgAddrs s) s)" for p
    using assms by (simp add: gc_def addrSegments_get_def book_ok_def Let_def)
  have dist: "distinct (map fst (sgAddrs (addrSegments_get (abSegments b) p)))" for p
    using book_ok_get [OF assms, of p] by (simp add: seg_ok_def)
  have ok: "distinct (map fst m)" if "map_of (sgAddrs (addrSegments_get (abSegments b) p)) p = Some m" for p m
    using book_ok_get [OF assms, of p] that by (auto simp: seg_ok_def amap_ok_def)
  have "fbAddrs (flat_of (gc now b)) p = fbAddrs (spec_gc now (flat_of b)) p" for p
    using dist [of p] ok [of p]
    by (auto simp: flat_of_def spec_gc_def get Let_def gc_loop_addrs gc_amap_empty map_of_gc_amap
        split: option.split)
  moreover have "fbRecords (flat_of (gc now b)) p = fbRecords (spec_gc now (flat_of b)) p" for p
    using dist [of p] ok [of p]
    by (auto simp: flat_of_def spec_gc_def get Let_def gc_loop_records gc_amap_empty split: option.split)
  moreover have "fbSubs (flat_of (gc now b)) = fbSubs (spec_gc now (flat_of b))"
    by (simp add: flat_of_def spec_gc_def gc_def)
  ultimately show ?thesis by (intro flat_book.equality) (auto simp: fun_eq_iff)
qed

lemma book_ok_gc: "book_ok A b \<Longrightarrow> book_ok A (gc now b)"
  by (auto simp: book_ok_def gc_def seg_ok_gc)

lemma addAddrs_eq:
  "addAddrs A now p addrs ttl b =
     (if ttl \<le> 0 then (b, [])
      else let s = addrSegments_get (abSegments b) p;
               r = fold (add_one A (abSubManager b) p ttl (now + ttl)) addrs (amap_of s p, [])
           in (set_segment p (s\<lparr>sgAddrs := AList.update p (fst r) (sgAddrs s)\<rparr>) b, snd r))"
  by (simp add: addAddrs_def addAddrsUnlocked_def Let_def split_beta set_segment_def addrSegments_get_def)

lemma flat_addAddrs:
  "book_ok A b \<Longrightarrow> flat_of (fst (addAddrs A now p addrs ttl b)) = spec_AddAddrs A now p addrs ttl (flat_of b)"
  by (simp add: addAddrs_eq spec_AddAddrs_def Let_def flat_simps map_of_add_loop)

lemma book_ok_addAddrs: "book_ok A b \<Longrightarrow> book_ok A (fst (addAddrs A now p addrs ttl b))"
  by (simp add: addAddrs_eq Let_def book_ok_set seg_ok_update book_ok_get amap_ok_loops book_ok_amap)

lemma flat_SetAddrs:
  "book_ok A b \<Longrightarrow> flat_of (fst (SetAddrs A now p addrs ttl b)) = spec_SetAddrs A now p addrs ttl (flat_of b)"
  by (simp add: SetAddrs_def spec_SetAddrs_def Let_def split_beta flat_simps map_of_set_loop)

lemma book_ok_SetAddrs: "book_ok A b \<Longrightarrow> book_ok A (fst (SetAddrs A now p addrs ttl b))"
  by (simp add: SetAddrs_def Let_def split_beta book_ok_set seg_ok_update book_ok_get amap_ok_loops book_ok_amap)

lemma flat_UpdateAddrs:
  assumes "book_ok A b"
  shows "flat_of (UpdateAddrs now p oldTTL newTTL b) = spec_UpdateAddrs now p oldTTL newTTL (flat_of b)"
proof (cases "map_of (sgAddrs (addrSegments_get (abSegments b) p)) p")
  case None
  then have "fbAddrs (flat_of b) p = None" by (simp add: flat_of_def)
  then show ?thesis using None by (simp add: UpdateAddrs_def spec_UpdateAddrs_def Let_def fun_upd_idem)
next
  case (Some m)
  then have m: "fbAddrs (flat_of b) p = Some (map_of m)" by (simp add: flat_of_def)
  have "distinct (map fst m)"
    using book_ok_get [OF assms, of p] Some by (auto simp: seg_ok_def amap_ok_def)
  then show ?thesis using Some m assms
    by (simp add: UpdateAddrs_def spec_UpdateAddrs_def Let_def flat_simps map_of_update_loop)
qed

lemma book_ok_UpdateAddrs: "book_ok A b \<Longrightarrow> book_ok A (UpdateAddrs now p oldTTL newTTL b)"
proof -
  assume b: "book_ok A b"
  have "amap_ok A m" if "map_of (sgAddrs (addrSegments_get (abSegments b) p)) p = Some m" for m
    using book_ok_get [OF b, of p] that by (auto simp: seg_ok_def)
  then show ?thesis using b
    by (auto simp: UpdateAddrs_def Let_def book_ok_set seg_ok_update book_ok_get amap_ok_loops split: option.split)
qed

lemma book_ok_ClearAddrs: "book_ok A b \<Longrightarrow> book_ok A (ClearAddrs p b)"
  by (simp add: ClearAddrs_def Let_def book_ok_set seg_ok_delete book_ok_get)

text \<open>A record that is consumed is stored, and then its addresses are added.\<close>

definition store_record :: "'e \<Rightarrow> peer_record \<Rightarrow> 'e memoryAddrBook \<Rightarrow> 'e memoryAddrBook" where
  "store_record env rec b =
     (let s = addrSegments_get (abSegments b) (recPeerID rec)
      in set_segment (recPeerID rec) (s\<lparr>sgRecords := AList.update (recPeerID rec)
           \<lparr>prsEnvelope = env, prsSeq = recSeq rec\<rparr> (sgRecords s)\<rparr>) b)"

lemma set_segment_twice [simp]: "set_segment p s (set_segment p s' b) = set_segment p s b"
  by (simp add: set_segment_def)

lemma ConsumePeerRecord_eq:
  assumes "book_ok A b"
  shows "ConsumePeerRecord A V now env ttl b =
     rbind (signed_record V env) (\<lambda>rec.
       if fresh_record (flat_of b) rec
       then Inr (let (b', pub) = addAddrs A now (recPeerID rec) (recAddrs rec) ttl (store_record env rec b)
                 in (b', pub, True))
       else Inr (b, [], False))"
proof -
  have fresh: "fresh_record (flat_of b) rec \<longleftrightarrow>
      \<not> (case map_of (sgRecords (addrSegments_get (abSegments b) (recPeerID rec))) (recPeerID rec) of
           Some lastState \<Rightarrow> prsSeq lastState > recSeq rec | None \<Rightarrow> False)" for rec
    by (auto simp: fresh_record_def flat_of_def split: option.split)
  show ?thesis
    unfolding ConsumePeerRecord_def signed_record_def rbind_assoc
    by (intro arg_cong2 [where f = rbind] refl ext)
      (auto simp: fresh Let_def split_beta addAddrs_def store_record_def get_set_segment [OF assms] rbind_def
        split: env_record.split sum.split)
qed

lemma flat_store_record:
  "book_ok A b \<Longrightarrow> flat_of (store_record env rec b) = (flat_of b)\<lparr>fbRecords :=
     (fbRecords (flat_of b))(recPeerID rec \<mapsto> \<lparr>prsEnvelope = env, prsSeq = recSeq rec\<rparr>)\<rparr>"
  by (simp add: store_record_def Let_def flat_simps)

lemma book_ok_store_record: "book_ok A b \<Longrightarrow> book_ok A (store_record env rec b)"
  by (simp add: store_record_def Let_def book_ok_set seg_ok_record book_ok_get)

section \<open>What is published and what queries return\<close>

definition spec_new :: "addr_ops \<Rightarrow> multiaddr list \<Rightarrow> (bytes \<rightharpoonup> expiringAddr) \<Rightarrow> multiaddr set" where
  "spec_new A as m = {a. \<exists>k. m k = None \<and> find (\<lambda>a. ma_Bytes A a = k) as = Some a}"

lemma spec_new_Nil [simp]: "spec_new A [] m = {}"
  by (simp add: spec_new_def)

lemma spec_new_Cons:
  "spec_new A (a # as) m =
     (if m (ma_Bytes A a) = None then {a} else {}) \<union> spec_new A as (spec_add A ttl exp [a] m)"
  unfolding spec_new_def spec_add_def by (auto split: if_splits option.splits dest: find_Some_in_set)

lemma set_BroadcastAddr: "set (BroadcastAddr mgr p a) = set (subs_of mgr p) \<times> {a}"
  by (auto simp: BroadcastAddr_def)

lemma add_loop_published:
  "set (snd (fold (add_one A mgr p ttl exp) xs (m, pub)))
   = set pub \<union> set (subs_of mgr p) \<times> spec_new A (accepted A p xs) (map_of m)"
proof (induction xs arbitrary: m pub)
  case (Cons x xs)
  show ?case
    by (cases "accept A p x")
      (auto simp: add_one_accept accepted_Cons Cons.IH map_of_add_step set_BroadcastAddr
        spec_new_Cons [of A _ "accepted A p xs" _ ttl exp])
qed simp

lemma set_loop_published:
  "set (snd (fold (set_one A mgr p ttl exp) xs (m, pub)))
   = set pub \<union> (if 0 < ttl then set (subs_of mgr p) \<times> set (accepted A p xs) else {})"
proof (induction xs arbitrary: m pub)
  case (Cons x xs)
  show ?case
    by (cases "accept A p x") (auto simp: set_one_accept accepted_Cons Cons.IH set_BroadcastAddr)
qed simp

lemma validAddrs_filter:
  "validAddrs now (Some m) = map (eaAddr \<circ> snd) (filter (\<lambda>(_, e). now < eaExpires e) m)"
proof -
  have "foldl (\<lambda>good (_, e). if \<not> ExpiredBy e now then good @ [eaAddr e] else good) acc m
        = acc @ map (eaAddr \<circ> snd) (filter (\<lambda>(_, e). now < eaExpires e) m)" for acc
    by (induction m arbitrary: acc) (auto simp: ExpiredBy_def)
  then show ?thesis by (simp add: validAddrs_def)
qed

lemma amap_ok_distinct_addrs:
  assumes "amap_ok A m"
  shows "distinct (map (eaAddr \<circ> snd) m)"
proof -
  have "map (ma_Bytes A) (map (eaAddr \<circ> snd) m) = map fst m"
    using assms by (auto simp: amap_ok_def)
  then show ?thesis using assms by (metis amap_ok_def distinct_map)
qed

lemma set_amap_addrs:
  assumes "distinct (map fst m)"
  shows "(eaAddr \<circ> snd) ` {x \<in> set m. P (snd x)} = {eaAddr e | k e. map_of m k = Some e \<and> P e}"
  using assms by (force simp: image_iff)

lemma Addrs_spec:
  assumes "book_ok A b"
  shows "distinct (Addrs now p b) \<and> set (Addrs now p b) = spec_Addrs now p (flat_of b)"
proof (cases "map_of (sgAddrs (addrSegments_get (abSegments b) p)) p")
  case None
  then show ?thesis by (simp add: Addrs_def validAddrs_def spec_Addrs_def known_flat amap_of_def)
next
  case (Some m)
  then have m: "amap_ok A m" using book_ok_get [OF assms, of p] by (auto simp: seg_ok_def)
  have "distinct (map (eaAddr \<circ> snd) (filter (\<lambda>(_, e). now < eaExpires e) m))"
    using amap_ok_distinct_addrs [OF m] by (rule distinct_map_filter)
  moreover have "set (map (eaAddr \<circ> snd) (filter (\<lambda>(_, e). now < eaExpires e) m))
      = {eaAddr e | k e. map_of m k = Some e \<and> now < eaExpires e}"
    using set_amap_addrs [of m "\<lambda>e. now < eaExpires e"] m by (simp add: amap_ok_def split_beta)
  ultimately show ?thesis
    by (simp add: Addrs_def Some validAddrs_filter spec_Addrs_def known_flat amap_of_def)
qed

lemma GetPeerRecord_spec: "book_ok A b \<Longrightarrow> GetPeerRecord now p b = spec_Record now p (flat_of b)"
  using Addrs_spec [of A b now p]
  by (auto simp: GetPeerRecord_def spec_Record_def Let_def flat_of_def Addrs_def [symmetric])

end
