(* ===== verification/Peer_Book.thy ===== *)
theory Peer_Book
  imports Peer_Refine
begin

text \<open>
  Runs of the address book: every call as a value of \<open>book_op\<close>, its result as one of \<open>book_res\<close>, and the
  interpretation of \<open>data_refinement\<close> by the book. The properties of the book follow from the
  specification: it is well formed in every run, a collection of garbage cannot be observed,
  adding never shortens the life of an address, the records kept have rising sequence numbers, and
  a subscriber gets every new address once.
\<close>

section \<open>Subscriptions\<close>

lemma mset_swap_delete:
  assumes "i < length l"
  shows "mset (take (length l - 1) (l[i := l ! (length l - 1)])) = mset l - {#l ! i#}"
proof (cases l rule: rev_cases)
  case (snoc ys x)
  then show ?thesis using assms
    by (cases "i = length ys") (auto simp: nth_append list_update_append mset_update)
qed (use assms in simp)

lemma removeSub_spec:
  "mset (subs_of (removeSub p s mgr) q) = (if q = p then mset (subs_of mgr p) - {#s#} else mset (subs_of mgr q))"
proof (cases "length (subs_of mgr p) = 1")
  case True
  then obtain v where v: "subs_of mgr p = [v]" by (metis One_nat_def length_0_conv length_Suc_conv)
  then show ?thesis
    by (auto simp: removeSub_def Let_def subs_of_def delete_conv')
next
  case False
  show ?thesis
  proof (cases "find_index (\<lambda>v. v = s) (subs_of mgr p)")
    case None
    then have "s \<notin># mset (subs_of mgr p)" by (auto simp: find_index_None)
    then show ?thesis using False None
      by (simp add: removeSub_def Let_def diff_single_trivial)
  next
    case (Some i)
    then have i: "i < length (subs_of mgr p)" "subs_of mgr p ! i = s" by (simp_all add: find_index_Some)
    have "subs_of (removeSub p s mgr) q =
        (if q = p then take (length (subs_of mgr p) - 1)
             ((subs_of mgr p)[i := subs_of mgr p ! (length (subs_of mgr p) - 1)]) else subs_of mgr q)"
      using False Some by (simp add: removeSub_def Let_def subs_of_def [of "mgr\<lparr>smSubs := _\<rparr>"] update_conv')
        (simp add: subs_of_def)
    then show ?thesis using mset_swap_delete [OF i(1)] i(2) by simp
  qed
qed

lemma distinct_removeSub: "distinct (map fst (smSubs mgr)) \<Longrightarrow> distinct (map fst (smSubs (removeSub p s mgr)))"
  by (auto simp: removeSub_def Let_def distinct_update distinct_delete split: option.split)

lemma subs_of_subscribe: "subs_of (subscribe p s mgr) q = (if q = p then subs_of mgr p @ [s] else subs_of mgr q)"
  by (simp add: subscribe_def subs_of_def [of "mgr\<lparr>smSubs := _\<rparr>"] update_conv') (simp add: subs_of_def)

section \<open>Peers\<close>

lemma peers_segment_spec:
  "set (peers_segment s acc) = set acc \<union> {p. \<exists>m. (p, m) \<in> set (sgAddrs s) \<and> m \<noteq> []}"
  "distinct acc \<Longrightarrow> distinct (peers_segment s acc)"
proof -
  have "set (foldl (\<lambda>acc (pid, amap). if 0 < length amap then List.insert pid acc else acc) acc xs)
        = set acc \<union> {p. \<exists>m. (p, m) \<in> set xs \<and> m \<noteq> []}" for xs :: "(peer_id \<times> amap) list"
    by (induction xs arbitrary: acc) auto
  then show "set (peers_segment s acc) = set acc \<union> {p. \<exists>m. (p, m) \<in> set (sgAddrs s) \<and> m \<noteq> []}"
    by (simp add: peers_segment_def)
  have "distinct acc \<Longrightarrow>
      distinct (foldl (\<lambda>acc (pid, amap). if 0 < length amap then List.insert pid acc else acc) acc xs)"
    for xs :: "(peer_id \<times> amap) list"
    by (induction xs arbitrary: acc) auto
  then show "distinct acc \<Longrightarrow> distinct (peers_segment s acc)"
    by (simp add: peers_segment_def)
qed

lemma peers_segments_spec:
  "set (foldl (\<lambda>acc s. peers_segment s acc) acc segs)
   = set acc \<union> {p. \<exists>s\<in>set segs. \<exists>m. (p, m) \<in> set (sgAddrs s) \<and> m \<noteq> []}"
  "distinct acc \<Longrightarrow> distinct (foldl (\<lambda>acc s. peers_segment s acc) acc segs)"
  by (induction segs arbitrary: acc) (auto simp: peers_segment_spec)

lemma PeersWithAddrs_spec:
  assumes "book_ok A b"
  shows "distinct (PeersWithAddrs b) \<and> set (PeersWithAddrs b) = {p. known (flat_of b) p \<noteq> Map.empty}"
proof -
  have len: "length (abSegments b) = 256" using assms by (simp add: book_ok_def)
  have "(\<exists>s\<in>set (abSegments b). \<exists>m. (p, m) \<in> set (sgAddrs s) \<and> m \<noteq> []) \<longleftrightarrow> known (flat_of b) p \<noteq> Map.empty"
    (is "?l \<longleftrightarrow> ?r") for p
  proof
    assume ?l
    then obtain i m where i: "i < 256" and m: "(p, m) \<in> set (sgAddrs (abSegments b ! i))" "m \<noteq> []"
      by (metis in_set_conv_nth len)
    have ok: "seg_ok A i (abSegments b ! i)" using assms i by (simp add: book_ok_def)
    then have mo: "map_of (sgAddrs (abSegments b ! i)) p = Some m" using m by (auto simp: seg_ok_def)
    then have "seg_index p = i" using ok by (auto simp: seg_ok_def)
    then show ?r using mo m by (auto simp: known_flat amap_of_def addrSegments_get_def)
  next
    assume ?r
    then obtain m where m: "map_of (sgAddrs (addrSegments_get (abSegments b) p)) p = Some m" "m \<noteq> []"
      by (auto simp: known_flat amap_of_def split: option.splits)
    moreover have "addrSegments_get (abSegments b) p \<in> set (abSegments b)"
      by (simp add: addrSegments_get_def len)
    ultimately show ?l by (meson map_of_SomeD)
  qed
  then show ?thesis by (simp add: PeersWithAddrs_def peers_segments_spec)
qed

section \<open>Calls and results\<close>

datatype 'e book_op =
    OpAdd int peer_id "multiaddr option list" int
  | OpSet int peer_id "multiaddr option list" int
  | OpUpdate int peer_id int int
  | OpConsume int 'e int
  | OpGc int
  | OpClear peer_id
  | OpStream peer_id addrSub
  | OpRemoveSub peer_id addrSub
  | OpAddrs int peer_id
  | OpRecord int peer_id
  | OpPeers

datatype 'e book_res =
    Done
  | Published "(addrSub \<times> multiaddr) list"
  | Consumed "bool res" "(addrSub \<times> multiaddr) list"
  | AddrList "multiaddr list"
  | EnvelopeIs "'e option"
  | PeerList "peer_id list"

fun book_exec :: "addr_ops \<Rightarrow> ('e, 'k) env_ops \<Rightarrow> 'e book_op \<Rightarrow> 'e memoryAddrBook \<Rightarrow> 'e memoryAddrBook \<times> 'e book_res" where
  "book_exec A V (OpAdd now p addrs ttl) b = (let (b', pub) = AddAddrs A now p addrs ttl b in (b', Published pub))"
| "book_exec A V (OpSet now p addrs ttl) b = (let (b', pub) = SetAddrs A now p addrs ttl b in (b', Published pub))"
| "book_exec A V (OpUpdate now p oldTTL newTTL) b = (UpdateAddrs now p oldTTL newTTL b, Done)"
| "book_exec A V (OpConsume now env ttl) b =
     (case ConsumePeerRecord A V now env ttl b of
        Inl e \<Rightarrow> (b, Consumed (Inl e) [])
      | Inr (b', pub, ok) \<Rightarrow> (b', Consumed (Inr ok) pub))"
| "book_exec A V (OpGc now) b = (gc now b, Done)"
| "book_exec A V (OpClear p) b = (ClearAddrs p b, Done)"
| "book_exec A V (OpStream p sub) b = (let (initial, b') = AddrStream p sub b in (b', AddrList initial))"
| "book_exec A V (OpRemoveSub p sub) b = (b\<lparr>abSubManager := removeSub p sub (abSubManager b)\<rparr>, Done)"
| "book_exec A V (OpAddrs now p) b = (b, AddrList (Addrs now p b))"
| "book_exec A V (OpRecord now p) b = (b, EnvelopeIs (GetPeerRecord now p b))"
| "book_exec A V OpPeers b = (b, PeerList (PeersWithAddrs b))"

fun book_spec :: "addr_ops \<Rightarrow> ('e, 'k) env_ops \<Rightarrow> 'e book_op \<Rightarrow> 'e flat_book \<Rightarrow> 'e flat_book" where
  "book_spec A V (OpAdd now p addrs ttl) f = spec_AddAddrs A now p addrs ttl f"
| "book_spec A V (OpSet now p addrs ttl) f = spec_SetAddrs A now p addrs ttl f"
| "book_spec A V (OpUpdate now p oldTTL newTTL) f = spec_UpdateAddrs now p oldTTL newTTL f"
| "book_spec A V (OpConsume now env ttl) f = spec_Consume A V now env ttl f"
| "book_spec A V (OpGc now) f = spec_gc now f"
| "book_spec A V (OpClear p) f = spec_Clear p f"
| "book_spec A V (OpStream p sub) f = f\<lparr>fbSubs := (fbSubs f)(p := add_mset sub (fbSubs f p))\<rparr>"
| "book_spec A V (OpRemoveSub p sub) f = f\<lparr>fbSubs := (fbSubs f)(p := fbSubs f p - {#sub#})\<rparr>"
| "book_spec A V _ f = f"

text \<open>What is published by adding: each new address, to each subscriber of the peer.\<close>

definition spec_published :: "addr_ops \<Rightarrow> peer_id \<Rightarrow> multiaddr option list \<Rightarrow> int \<Rightarrow> 'e flat_book \<Rightarrow>
    (addrSub \<times> multiaddr) set" where
  "spec_published A p addrs ttl f =
     (if ttl \<le> 0 then {} else set_mset (fbSubs f p) \<times> spec_new A (accepted A p addrs) (known f p))"

fun book_agrees :: "addr_ops \<Rightarrow> ('e, 'k) env_ops \<Rightarrow> 'e book_op \<Rightarrow> 'e flat_book \<Rightarrow> 'e book_res \<Rightarrow> bool" where
  "book_agrees A V (OpAdd now p addrs ttl) f r \<longleftrightarrow>
     (\<exists>pub. r = Published pub \<and> set pub = spec_published A p addrs ttl f)"
| "book_agrees A V (OpSet now p addrs ttl) f r \<longleftrightarrow>
     (\<exists>pub. r = Published pub \<and>
        set pub = (if 0 < ttl then set_mset (fbSubs f p) \<times> set (accepted A p addrs) else {}))"
| "book_agrees A V (OpConsume now env ttl) f r \<longleftrightarrow>
     (case signed_record V env of
        Inl e \<Rightarrow> r = Consumed (Inl e) []
      | Inr rec \<Rightarrow> \<exists>pub. r = Consumed (Inr (fresh_record f rec)) pub \<and>
          set pub = (if fresh_record f rec then spec_published A (recPeerID rec) (recAddrs rec) ttl f else {}))"
| "book_agrees A V (OpStream p sub) f r \<longleftrightarrow>
     (\<exists>as. r = AddrList as \<and> distinct as \<and> set as = {eaAddr e | k e. known f p k = Some e})"
| "book_agrees A V (OpAddrs now p) f r \<longleftrightarrow>
     (\<exists>as. r = AddrList as \<and> distinct as \<and> set as = spec_Addrs now p f)"
| "book_agrees A V (OpRecord now p) f r \<longleftrightarrow> r = EnvelopeIs (spec_Record now p f)"
| "book_agrees A V OpPeers f r \<longleftrightarrow>
     (\<exists>ps. r = PeerList ps \<and> distinct ps \<and> set ps = {p. known f p \<noteq> Map.empty})"
| "book_agrees A V _ f r \<longleftrightarrow> r = Done"

section \<open>The address book refines its specification\<close>

lemma book_ok_subs [simp]:
  "book_ok A (b\<lparr>abSubManager := m\<rparr>) \<longleftrightarrow> length (abSegments b) = 256 \<and>
     (\<forall>i<256. seg_ok A i (abSegments b ! i)) \<and> distinct (map fst (smSubs m))"
  by (simp add: book_ok_def)

lemma book_ok_New: "book_ok A NewAddrBook"
  by (simp add: book_ok_def NewAddrBook_def NewAddrSubManager_def seg_ok_def)

lemma book_step_inv:
  assumes "book_ok A b"
  shows "book_ok A (fst (book_exec A V x b))"
proof (cases x)
  case (OpConsume now env ttl)
  show ?thesis using assms
    by (cases "signed_record V env")
      (auto simp: OpConsume ConsumePeerRecord_eq [OF assms] Let_def split_beta
        intro: book_ok_addAddrs book_ok_store_record)
next
  case (OpStream p sub)
  have "distinct (map fst (smSubs (subscribe p sub (abSubManager b))))"
    using assms by (simp add: subscribe_def distinct_update book_ok_def)
  then show ?thesis using assms by (simp add: OpStream AddrStream_def book_ok_def)
next
  case (OpRemoveSub p sub)
  then show ?thesis using assms by (auto simp: book_ok_def distinct_removeSub)
qed (use assms in \<open>simp_all add: AddAddrs_def Let_def split_beta book_ok_addAddrs book_ok_SetAddrs
      book_ok_UpdateAddrs book_ok_gc book_ok_ClearAddrs\<close>)

lemma flat_subs:
  "flat_of (b\<lparr>abSubManager := m\<rparr>) = (flat_of b)\<lparr>fbSubs := (\<lambda>p. mset (subs_of m p))\<rparr>"
  by (simp add: flat_of_def addrSegments_get_def)

lemma fbSubs_flat: "fbSubs (flat_of b) p = mset (subs_of (abSubManager b) p)"
  by (simp add: flat_of_def)

lemma book_step_abs:
  assumes "book_ok A b"
  shows "flat_of (fst (book_exec A V x b)) = book_spec A V x (flat_of b)"
proof (cases x)
  case (OpConsume now env ttl)
  show ?thesis
    by (cases "signed_record V env")
      (auto simp: OpConsume ConsumePeerRecord_eq [OF assms] spec_Consume_def Let_def split_beta
        flat_addAddrs [OF book_ok_store_record [OF assms]] flat_store_record [OF assms])
next
  case (OpStream p sub)
  then show ?thesis
    by (auto simp: AddrStream_def flat_subs fbSubs_flat subs_of_subscribe fun_eq_iff intro!: flat_book.equality)
next
  case (OpRemoveSub p sub)
  then show ?thesis
    by (auto simp: flat_subs fbSubs_flat removeSub_spec fun_eq_iff intro!: flat_book.equality)
qed (use assms in \<open>simp_all add: AddAddrs_def Let_def split_beta flat_addAddrs flat_SetAddrs
      flat_UpdateAddrs flat_gc flat_clear\<close>)

lemma addAddrs_published:
  "set (snd (addAddrs A now p addrs ttl b)) = spec_published A p addrs ttl (flat_of b)"
  by (simp add: addAddrs_eq spec_published_def Let_def add_loop_published known_flat fbSubs_flat)

lemma AddrStream_initial:
  assumes "book_ok A b"
  shows "distinct (fst (AddrStream p sub b)) \<and>
         set (fst (AddrStream p sub b)) = {eaAddr e | k e. known (flat_of b) p k = Some e}"
proof -
  define m where "m = amap_of (addrSegments_get (abSegments b) p) p"
  have ok: "amap_ok A m" using book_ok_amap [OF assms] by (simp add: m_def)
  have snd: "(\<lambda>(_, a). eaAddr a) = eaAddr \<circ> snd" by auto
  then show ?thesis
    using amap_ok_distinct_addrs [OF ok] set_amap_addrs [of m "\<lambda>_. True"] ok
    by (simp add: AddrStream_def known_flat m_def [symmetric] amap_ok_def snd)
qed

lemma published_after_record:
  "book_ok A b \<Longrightarrow> spec_published A p addrs ttl (flat_of (store_record env rec b)) = spec_published A p addrs ttl (flat_of b)"
  by (simp add: spec_published_def flat_store_record known_def)

lemma book_step_agrees:
  assumes "book_ok A b"
  shows "book_agrees A V x (flat_of b) (snd (book_exec A V x b))"
proof (cases x)
  case (OpConsume now env ttl)
  show ?thesis
    by (cases "signed_record V env")
      (auto simp: OpConsume ConsumePeerRecord_eq [OF assms] Let_def split_beta addAddrs_published
        published_after_record [OF assms])
next
  case (OpSet now p addrs ttl)
  then show ?thesis by (simp add: SetAddrs_def Let_def split_beta set_loop_published fbSubs_flat)
next
  case (OpStream p sub)
  then show ?thesis using AddrStream_initial [OF assms, of p sub] by (simp add: Let_def split_beta)
qed (use assms in \<open>simp_all add: AddAddrs_def Let_def split_beta addAddrs_published Addrs_spec
      GetPeerRecord_spec PeersWithAddrs_spec\<close>)

interpretation address_book: data_refinement "book_ok A" flat_of "book_exec A V" "book_spec A V" "book_agrees A V" for A V
  by unfold_locales (simp_all add: book_step_inv book_step_abs book_step_agrees)

end
