(* ===== verification/Peer_Store.thy ===== *)
theory Peer_Store
  imports Peer_Book
begin

text \<open>
  The other books of the peer store in memory, \<^verbatim>\<open>pkg/engine/transport/pstoremem\<close>: keys (\<^verbatim>\<open>keybook.go\<close>), metadata (\<^verbatim>\<open>metadata.go\<close>),
  protocols (\<^verbatim>\<open>protobook.go\<close>) and the store that holds them (\<^verbatim>\<open>peerstore.go\<close>). What libp2p identities do
  is the parameter \<open>id_ops\<close>; the metrics of libp2p are a value and the function that removes a peer from it.
\<close>

section \<open>Keys\<close>

record ('k, 's) id_ops =
  ExtractPublicKey :: "peer_id \<Rightarrow> 'k option \<times> go_error option"
  id_MatchesPublicKey :: "peer_id \<Rightarrow> 'k option \<Rightarrow> bool res"
  MatchesPrivateKey :: "peer_id \<Rightarrow> 's \<Rightarrow> bool res"

text \<open>A public key of the map may be nil.\<close>

record ('k, 's) memoryKeyBook =
  kbPks :: "(peer_id \<times> 'k option) list"
  kbSks :: "(peer_id \<times> 's) list"

definition NewKeyBook :: "('k, 's) memoryKeyBook" where
  "NewKeyBook = \<lparr>kbPks = [], kbSks = []\<rparr>"

definition PeersWithKeys :: "('k, 's) memoryKeyBook \<Rightarrow> peer_id list" where
  "PeersWithKeys mkb =
     foldl (\<lambda>ps p. if map_of (kbPks mkb) p = None then ps @ [p] else ps) (map fst (kbPks mkb)) (map fst (kbSks mkb))"

definition PubKey :: "('k, 's) id_ops \<Rightarrow> peer_id \<Rightarrow> ('k, 's) memoryKeyBook \<Rightarrow> 'k option \<times> ('k, 's) memoryKeyBook" where
  "PubKey I p mkb =
     (case Option.bind (map_of (kbPks mkb) p) id of
        Some pk \<Rightarrow> (Some pk, mkb)
      | None \<Rightarrow>
          let (pk, err) = ExtractPublicKey I p
          in (pk, if err = None then mkb\<lparr>kbPks := AList.update p pk (kbPks mkb)\<rparr> else mkb))"

definition AddPubKey :: "('k, 's) id_ops \<Rightarrow> peer_id \<Rightarrow> 'k option \<Rightarrow> ('k, 's) memoryKeyBook \<Rightarrow> ('k, 's) memoryKeyBook res" where
  "AddPubKey I p pk mkb =
     rbind (id_MatchesPublicKey I p pk) (\<lambda>ok.
       if \<not> ok then Inl (Error ''ID does not match PublicKey'')
       else Inr (mkb\<lparr>kbPks := AList.update p pk (kbPks mkb)\<rparr>))"

definition PrivKey :: "peer_id \<Rightarrow> ('k, 's) memoryKeyBook \<Rightarrow> 's option" where
  "PrivKey p mkb = map_of (kbSks mkb) p"

definition AddPrivKey :: "('k, 's) id_ops \<Rightarrow> peer_id \<Rightarrow> 's option \<Rightarrow> ('k, 's) memoryKeyBook \<Rightarrow> ('k, 's) memoryKeyBook res" where
  "AddPrivKey I p sk mkb =
     (case sk of
        None \<Rightarrow> Inl (Error ''sk is nil (PrivKey)'')
      | Some sk \<Rightarrow>
          rbind (MatchesPrivateKey I p sk) (\<lambda>ok.
            if \<not> ok then Inl (Error ''ID does not match PrivateKey'')
            else Inr (mkb\<lparr>kbSks := AList.update p sk (kbSks mkb)\<rparr>)))"

definition keybook_RemovePeer :: "peer_id \<Rightarrow> ('k, 's) memoryKeyBook \<Rightarrow> ('k, 's) memoryKeyBook" where
  "keybook_RemovePeer p mkb = mkb\<lparr>kbSks := AList.delete p (kbSks mkb), kbPks := AList.delete p (kbPks mkb)\<rparr>"

section \<open>Metadata\<close>

record 'v memoryPeerMetadata =
  pmDs :: "(peer_id \<times> (string \<times> 'v) list) list"

definition NewPeerMetadata :: "'v memoryPeerMetadata" where
  "NewPeerMetadata = \<lparr>pmDs = []\<rparr>"

definition Put :: "peer_id \<Rightarrow> string \<Rightarrow> 'v \<Rightarrow> 'v memoryPeerMetadata \<Rightarrow> 'v memoryPeerMetadata" where
  "Put p key val ps =
     (let m = (case map_of (pmDs ps) p of None \<Rightarrow> [] | Some m \<Rightarrow> m)
      in ps\<lparr>pmDs := AList.update p (AList.update key val m) (pmDs ps)\<rparr>)"

definition ErrNotFound :: go_error where
  "ErrNotFound = Error ''item not found''"

definition Get :: "peer_id \<Rightarrow> string \<Rightarrow> 'v memoryPeerMetadata \<Rightarrow> 'v res" where
  "Get p key ps =
     (case map_of (pmDs ps) p of
        None \<Rightarrow> Inl ErrNotFound
      | Some m \<Rightarrow> (case map_of m key of None \<Rightarrow> Inl ErrNotFound | Some val \<Rightarrow> Inr val))"

definition metadata_RemovePeer :: "peer_id \<Rightarrow> 'v memoryPeerMetadata \<Rightarrow> 'v memoryPeerMetadata" where
  "metadata_RemovePeer p ps = ps\<lparr>pmDs := AList.delete p (pmDs ps)\<rparr>"

section \<open>Protocols\<close>

type_synonym protocol_id = string

text \<open>The set of protocols of a peer is the list of the keys of its map.\<close>

type_synonym protoSegment = "(peer_id \<times> protocol_id list) list"

record memoryProtoBook =
  pbSegments :: "protoSegment list"
  pbMaxProtos :: int
  pbInterned :: "(protocol_id \<times> protocol_id) list"

text \<open>The index of a segment; an empty identity has no last byte.\<close>

definition protoSegments_get :: "peer_id \<Rightarrow> nat res" where
  "protoSegments_get p = rbind (index_expr p (int (length p) - 1)) (\<lambda>c. Inr (unat c))"

definition errTooManyProtocols :: go_error where
  "errTooManyProtocols = Error ''too many protocols''"

definition WithMaxProtocols :: "int \<Rightarrow> memoryProtoBook \<Rightarrow> memoryProtoBook res" where
  "WithMaxProtocols num pb = Inr (pb\<lparr>pbMaxProtos := num\<rparr>)"

definition NewProtoBook :: "(memoryProtoBook \<Rightarrow> memoryProtoBook res) list \<Rightarrow> memoryProtoBook res" where
  "NewProtoBook opts = rfold (\<lambda>opt pb. opt pb) opts
     \<lparr>pbSegments = replicate 256 [], pbMaxProtos = 1024, pbInterned = []\<rparr>"

definition internProtocol :: "protocol_id \<Rightarrow> (protocol_id \<times> protocol_id) list \<Rightarrow>
    protocol_id \<times> (protocol_id \<times> protocol_id) list" where
  "internProtocol proto t =
     (case map_of t proto of Some interned \<Rightarrow> (interned, t) | None \<Rightarrow> (proto, AList.update proto proto t))"

text \<open>The loops over protocols, which intern each and put it into the map or delete it.\<close>

fun intern_loop :: "(protocol_id \<Rightarrow> protocol_id list \<Rightarrow> protocol_id list) \<Rightarrow> protocol_id list \<Rightarrow>
    protocol_id list \<Rightarrow> (protocol_id \<times> protocol_id) list \<Rightarrow> protocol_id list \<times> (protocol_id \<times> protocol_id) list" where
  "intern_loop f [] protomap t = (protomap, t)"
| "intern_loop f (proto # protos) protomap t =
     (let (q, t') = internProtocol proto t in intern_loop f protos (f q protomap) t')"

text \<open>\<^verbatim>\<open>s.protocols[p]\<close>, nil for a missing key, and the assignment to it.\<close>

definition protocols_at :: "memoryProtoBook \<Rightarrow> nat \<Rightarrow> peer_id \<Rightarrow> protocol_id list" where
  "protocols_at pb i p = (case map_of (pbSegments pb ! i) p of None \<Rightarrow> [] | Some m \<Rightarrow> m)"

definition set_protocols :: "nat \<Rightarrow> peer_id \<Rightarrow> protocol_id list \<Rightarrow> memoryProtoBook \<Rightarrow> memoryProtoBook" where
  "set_protocols i p m pb = pb\<lparr>pbSegments := (pbSegments pb)[i := AList.update p m (pbSegments pb ! i)]\<rparr>"

definition SetProtocols :: "peer_id \<Rightarrow> protocol_id list \<Rightarrow> memoryProtoBook \<Rightarrow> (memoryProtoBook \<times> go_error option) res" where
  "SetProtocols p protos pb =
     (if int (length protos) > pbMaxProtos pb then Inr (pb, Some errTooManyProtocols)
      else let (newprotos, t) = intern_loop List.insert protos [] (pbInterned pb) in
           rbind (protoSegments_get p) (\<lambda>i. Inr (set_protocols i p newprotos (pb\<lparr>pbInterned := t\<rparr>), None)))"

text \<open>\<^verbatim>\<open>AddProtocols\<close> puts an empty map in place before it checks the limit.\<close>

definition AddProtocols :: "peer_id \<Rightarrow> protocol_id list \<Rightarrow> memoryProtoBook \<Rightarrow> (memoryProtoBook \<times> go_error option) res" where
  "AddProtocols p protos pb =
     rbind (protoSegments_get p) (\<lambda>i.
       let protomap = protocols_at pb i p; pb1 = set_protocols i p protomap pb in
       if int (length protomap) + int (length protos) > pbMaxProtos pb then Inr (pb1, Some errTooManyProtocols)
       else let (protomap', t) = intern_loop List.insert protos protomap (pbInterned pb1)
            in Inr (set_protocols i p protomap' (pb1\<lparr>pbInterned := t\<rparr>), None))"

definition GetProtocols :: "peer_id \<Rightarrow> memoryProtoBook \<Rightarrow> protocol_id list res" where
  "GetProtocols p pb = rbind (protoSegments_get p) (\<lambda>i. Inr (protocols_at pb i p))"

definition RemoveProtocols :: "peer_id \<Rightarrow> protocol_id list \<Rightarrow> memoryProtoBook \<Rightarrow> memoryProtoBook res" where
  "RemoveProtocols p protos pb =
     rbind (protoSegments_get p) (\<lambda>i.
       case map_of (pbSegments pb ! i) p of
         None \<Rightarrow> Inr pb
       | Some protomap \<Rightarrow>
           let (protomap', t) = intern_loop removeAll protos protomap (pbInterned pb)
           in Inr (set_protocols i p protomap' (pb\<lparr>pbInterned := t\<rparr>)))"

definition SupportsProtocols :: "peer_id \<Rightarrow> protocol_id list \<Rightarrow> memoryProtoBook \<Rightarrow> protocol_id list res" where
  "SupportsProtocols p protos pb =
     rbind (protoSegments_get p) (\<lambda>i.
       Inr (foldl (\<lambda>out proto. if proto \<in> set (protocols_at pb i p) then out @ [proto] else out) [] protos))"

text \<open>\<^verbatim>\<open>FirstSupportedProtocol\<close> returns the empty string when there is none.\<close>

fun first_supported :: "protocol_id list \<Rightarrow> protocol_id list \<Rightarrow> protocol_id" where
  "first_supported m [] = ''''"
| "first_supported m (proto # protos) = (if proto \<in> set m then proto else first_supported m protos)"

definition FirstSupportedProtocol :: "peer_id \<Rightarrow> protocol_id list \<Rightarrow> memoryProtoBook \<Rightarrow> protocol_id res" where
  "FirstSupportedProtocol p protos pb =
     rbind (protoSegments_get p) (\<lambda>i. Inr (first_supported (protocols_at pb i p) protos))"

definition protobook_RemovePeer :: "peer_id \<Rightarrow> memoryProtoBook \<Rightarrow> memoryProtoBook res" where
  "protobook_RemovePeer p pb =
     rbind (protoSegments_get p) (\<lambda>i.
       Inr (pb\<lparr>pbSegments := (pbSegments pb)[i := AList.delete p (pbSegments pb ! i)]\<rparr>))"

section \<open>The store\<close>

record ('e, 'k, 's, 'v, 'm) pstoremem =
  psMetrics :: 'm
  psKeyBook :: "('k, 's) memoryKeyBook"
  psAddrBook :: "'e memoryAddrBook"
  psProtoBook :: memoryProtoBook
  psMetadata :: "'v memoryPeerMetadata"

text \<open>An option of \<^verbatim>\<open>NewPeerstore\<close>, by its dynamic type; the error of an option for the address book is dropped.\<close>

datatype 'e ps_option =
    ProtoBookOption "memoryProtoBook \<Rightarrow> memoryProtoBook res"
  | AddrBookOption "'e memoryAddrBook \<Rightarrow> 'e memoryAddrBook \<times> go_error option"
  | OtherOption string

fun peerstore_options :: "'e ps_option list \<Rightarrow> 'e memoryAddrBook \<Rightarrow> (memoryProtoBook \<Rightarrow> memoryProtoBook res) list \<Rightarrow>
    ('e memoryAddrBook \<times> (memoryProtoBook \<Rightarrow> memoryProtoBook res) list) res" where
  "peerstore_options [] ab protoOpts = Inr (ab, protoOpts)"
| "peerstore_options (ProtoBookOption f # opts) ab protoOpts = peerstore_options opts ab (protoOpts @ [f])"
| "peerstore_options (AddrBookOption f # opts) ab protoOpts = peerstore_options opts (fst (f ab)) protoOpts"
| "peerstore_options (OtherOption v # opts) ab protoOpts = Inl (Error (''unexpected peer store option: '' @ v))"

definition NewPeerstore :: "'m \<Rightarrow> 'e ps_option list \<Rightarrow> ('e, 'k, 's, 'v, 'm) pstoremem res" where
  "NewPeerstore metrics opts =
     rbind (peerstore_options opts NewAddrBook []) (\<lambda>(ab, protoBookOpts).
       rbind (NewProtoBook protoBookOpts) (\<lambda>pb.
         Inr \<lparr>psMetrics = metrics, psKeyBook = NewKeyBook, psAddrBook = ab, psProtoBook = pb,
              psMetadata = NewPeerMetadata\<rparr>))"

definition Peers :: "('e, 'k, 's, 'v, 'm) pstoremem \<Rightarrow> peer_id list" where
  "Peers ps = foldl (\<lambda>acc p. List.insert p acc)
     (foldl (\<lambda>acc p. List.insert p acc) [] (PeersWithKeys (psKeyBook ps))) (PeersWithAddrs (psAddrBook ps))"

definition PeerInfo :: "int \<Rightarrow> peer_id \<Rightarrow> ('e, 'k, 's, 'v, 'm) pstoremem \<Rightarrow> peer_id \<times> multiaddr list" where
  "PeerInfo now p ps = (p, Addrs now p (psAddrBook ps))"

definition RemovePeer :: "(peer_id \<Rightarrow> 'm \<Rightarrow> 'm) \<Rightarrow> peer_id \<Rightarrow> ('e, 'k, 's, 'v, 'm) pstoremem \<Rightarrow>
    ('e, 'k, 's, 'v, 'm) pstoremem res" where
  "RemovePeer metrics_RemovePeer p ps =
     (let ps1 = ps\<lparr>psKeyBook := keybook_RemovePeer p (psKeyBook ps)\<rparr> in
      rbind (protobook_RemovePeer p (psProtoBook ps1)) (\<lambda>pb.
        let ps2 = ps1\<lparr>psProtoBook := pb\<rparr>;
            ps3 = ps2\<lparr>psMetadata := metadata_RemovePeer p (psMetadata ps2)\<rparr>
        in Inr (ps3\<lparr>psMetrics := metrics_RemovePeer p (psMetrics ps3)\<rparr>)))"

end
