(* ===== verification/Peer_Store_Props.thy ===== *)
theory Peer_Store_Props
  imports Peer_Store
begin

text \<open>
  The book of protocols refines one map from peers to sets of protocols, the second interpretation of
  \<open>data_refinement\<close>; no peer ever has more protocols than the limit. \<^verbatim>\<open>RemovePeer\<close> forgets all of a peer but its
  addresses, and panics for the empty identity.
\<close>

section \<open>The specification of the book of protocols\<close>

record flat_protos =
  fpProtos :: "peer_id \<Rightarrow> protocol_id set"
  fpMax :: int

datatype proto_op =
    PSet peer_id "protocol_id list"
  | PAdd peer_id "protocol_id list"
  | PRemove peer_id "protocol_id list"
  | PRemovePeer peer_id
  | PGet peer_id
  | PSupports peer_id "protocol_id list"
  | PFirst peer_id "protocol_id list"

datatype proto_res =
    PPanic go_error
  | PErr "go_error option"
  | PList "protocol_id list"
  | PFirstIs protocol_id

text \<open>A call that panics ends the program; the book is taken as it was.\<close>

fun proto_exec :: "proto_op \<Rightarrow> memoryProtoBook \<Rightarrow> memoryProtoBook \<times> proto_res" where
  "proto_exec (PSet p protos) pb =
     (case SetProtocols p protos pb of Inl e \<Rightarrow> (pb, PPanic e) | Inr (pb', err) \<Rightarrow> (pb', PErr err))"
| "proto_exec (PAdd p protos) pb =
     (case AddProtocols p protos pb of Inl e \<Rightarrow> (pb, PPanic e) | Inr (pb', err) \<Rightarrow> (pb', PErr err))"
| "proto_exec (PRemove p protos) pb =
     (case RemoveProtocols p protos pb of Inl e \<Rightarrow> (pb, PPanic e) | Inr pb' \<Rightarrow> (pb', PErr None))"
| "proto_exec (PRemovePeer p) pb =
     (case protobook_RemovePeer p pb of Inl e \<Rightarrow> (pb, PPanic e) | Inr pb' \<Rightarrow> (pb', PErr None))"
| "proto_exec (PGet p) pb = (pb, case GetProtocols p pb of Inl e \<Rightarrow> PPanic e | Inr l \<Rightarrow> PList l)"
| "proto_exec (PSupports p protos) pb = (pb, case SupportsProtocols p protos pb of Inl e \<Rightarrow> PPanic e | Inr l \<Rightarrow> PList l)"
| "proto_exec (PFirst p protos) pb = (pb, case FirstSupportedProtocol p protos pb of Inl e \<Rightarrow> PPanic e | Inr q \<Rightarrow> PFirstIs q)"

definition set_fits :: "protocol_id list \<Rightarrow> flat_protos \<Rightarrow> bool" where
  "set_fits protos f \<longleftrightarrow> int (length protos) \<le> fpMax f"

definition add_fits :: "peer_id \<Rightarrow> protocol_id list \<Rightarrow> flat_protos \<Rightarrow> bool" where
  "add_fits p protos f \<longleftrightarrow> int (card (fpProtos f p)) + int (length protos) \<le> fpMax f"

fun proto_spec :: "proto_op \<Rightarrow> flat_protos \<Rightarrow> flat_protos" where
  "proto_spec (PSet p protos) f =
     (if p \<noteq> [] \<and> set_fits protos f then f\<lparr>fpProtos := (fpProtos f)(p := set protos)\<rparr> else f)"
| "proto_spec (PAdd p protos) f =
     (if p \<noteq> [] \<and> add_fits p protos f then f\<lparr>fpProtos := (fpProtos f)(p := fpProtos f p \<union> set protos)\<rparr> else f)"
| "proto_spec (PRemove p protos) f = f\<lparr>fpProtos := (fpProtos f)(p := fpProtos f p - set protos)\<rparr>"
| "proto_spec (PRemovePeer p) f = f\<lparr>fpProtos := (fpProtos f)(p := {})\<rparr>"
| "proto_spec _ f = f"

definition limit_error :: "bool \<Rightarrow> go_error option" where
  "limit_error fits = (if fits then None else Some errTooManyProtocols)"

fun proto_agrees :: "proto_op \<Rightarrow> flat_protos \<Rightarrow> proto_res \<Rightarrow> bool" where
  "proto_agrees (PSet p protos) f r \<longleftrightarrow>
     r = (if p = [] \<and> set_fits protos f then PPanic index_panic else PErr (limit_error (set_fits protos f)))"
| "proto_agrees (PAdd p protos) f r \<longleftrightarrow>
     r = (if p = [] then PPanic index_panic else PErr (limit_error (add_fits p protos f)))"
| "proto_agrees (PRemove p protos) f r \<longleftrightarrow> r = (if p = [] then PPanic index_panic else PErr None)"
| "proto_agrees (PRemovePeer p) f r \<longleftrightarrow> r = (if p = [] then PPanic index_panic else PErr None)"
| "proto_agrees (PGet p) f r \<longleftrightarrow>
     (if p = [] then r = PPanic index_panic else \<exists>l. r = PList l \<and> distinct l \<and> set l = fpProtos f p)"
| "proto_agrees (PSupports p protos) f r \<longleftrightarrow>
     r = (if p = [] then PPanic index_panic else PList (filter (\<lambda>q. q \<in> fpProtos f p) protos))"
| "proto_agrees (PFirst p protos) f r \<longleftrightarrow>
     r = (if p = [] then PPanic index_panic
          else PFirstIs (case find (\<lambda>q. q \<in> fpProtos f p) protos of None \<Rightarrow> '''' | Some q \<Rightarrow> q))"

section \<open>Abstraction and invariant\<close>

definition pseg_ok :: "nat \<Rightarrow> protoSegment \<Rightarrow> bool" where
  "pseg_ok i s \<longleftrightarrow> distinct (map fst s) \<and>
     (\<forall>p m. map_of s p = Some m \<longrightarrow> p \<noteq> [] \<and> unat (last p) = i \<and> distinct m)"

definition proto_ok :: "memoryProtoBook \<Rightarrow> bool" where
  "proto_ok pb \<longleftrightarrow> length (pbSegments pb) = 256 \<and> (\<forall>i<256. pseg_ok i (pbSegments pb ! i)) \<and>
     (\<forall>k v. map_of (pbInterned pb) k = Some v \<longrightarrow> v = k)"

definition protos_of :: "memoryProtoBook \<Rightarrow> flat_protos" where
  "protos_of pb = \<lparr>fpProtos = (\<lambda>p. set (protocols_at pb (unat (last p)) p) \<inter> {q. p \<noteq> []}), fpMax = pbMaxProtos pb\<rparr>"

lemma last_byte_less [simp]: "unat (last (p :: bytes)) < 256"
  using unsigned_less [of "last p", where ?'a = nat] by simp

lemma pseg_ok_update: "pseg_ok i s \<Longrightarrow> p \<noteq> [] \<Longrightarrow> unat (last p) = i \<Longrightarrow> distinct m \<Longrightarrow> pseg_ok i (AList.update p m s)"
  by (simp add: pseg_ok_def distinct_update update_conv')

lemma pseg_ok_delete: "pseg_ok i s \<Longrightarrow> pseg_ok i (AList.delete p s)"
  by (simp add: pseg_ok_def distinct_delete delete_conv')

lemma pseg_ok_distinct: "pseg_ok i s \<Longrightarrow> map_of s p = Some m \<Longrightarrow> distinct m"
  unfolding pseg_ok_def by blast

lemma proto_ok_seg: "proto_ok pb \<Longrightarrow> pseg_ok (unat (last (p :: bytes))) (pbSegments pb ! unat (last p))"
  by (simp add: proto_ok_def)

lemma protoSegments_get_eq: "protoSegments_get p = (if p = [] then Inl index_panic else Inr (unat (last p)))"
  by (simp add: protoSegments_get_def index_expr_def last_conv_nth nat_diff_distrib Suc_le_eq)

lemma internProtocol_id:
  assumes "\<forall>k v. map_of t k = Some v \<longrightarrow> v = k"
  shows "fst (internProtocol q t) = q" and "\<forall>k v. map_of (snd (internProtocol q t)) k = Some v \<longrightarrow> v = k"
  using assms by (auto simp: internProtocol_def update_conv' split: option.split)

lemma intern_loop_id:
  assumes "\<forall>k v. map_of t k = Some v \<longrightarrow> v = k"
  shows "fst (intern_loop f protos m t) = fold f protos m \<and>
         (\<forall>k v. map_of (snd (intern_loop f protos m t)) k = Some v \<longrightarrow> v = k)"
  using assms
proof (induction protos arbitrary: m t)
  case (Cons q protos)
  obtain q' t' where i: "internProtocol q t = (q', t')" by (cases "internProtocol q t")
  then have "q' = q" "\<forall>k v. map_of t' k = Some v \<longrightarrow> v = k"
    using internProtocol_id [OF Cons.prems, of q] by auto
  then show ?case using Cons.IH [of t' "f q m"] by (simp add: i)
qed simp

lemma fold_insert: "set (fold List.insert xs m) = set m \<union> set xs" "distinct m \<Longrightarrow> distinct (fold List.insert xs m)"
  by (induction xs arbitrary: m) auto

lemma fold_removeAll: "set (fold removeAll xs m) = set m - set xs" "distinct m \<Longrightarrow> distinct (fold removeAll xs m)"
  by (induction xs arbitrary: m) (auto simp: distinct_removeAll)

lemma proto_ok_set:
  assumes "proto_ok pb" and "p \<noteq> []" and "distinct m" and "\<forall>k v. map_of t k = Some v \<longrightarrow> v = k"
  shows "proto_ok (set_protocols (unat (last p)) p m (pb\<lparr>pbInterned := t\<rparr>))"
  using assms by (auto simp: proto_ok_def set_protocols_def nth_list_update pseg_ok_update)

lemma protocols_at_update:
  assumes "proto_ok pb" and "p \<noteq> []"
  shows "protocols_at (set_protocols (unat (last p)) p m (pb\<lparr>pbInterned := t\<rparr>)) (unat (last q)) q
         = (if q = p then m else protocols_at pb (unat (last q)) q)"
  using assms by (simp add: proto_ok_def set_protocols_def protocols_at_def nth_list_update update_conv')

lemma protos_of_set:
  assumes "proto_ok pb" and "p \<noteq> []"
  shows "protos_of (set_protocols (unat (last p)) p m (pb\<lparr>pbInterned := t\<rparr>))
         = (protos_of pb)\<lparr>fpProtos := (fpProtos (protos_of pb))(p := set m)\<rparr>"
  using assms(2) unfolding protos_of_def protocols_at_update [OF assms]
  by (auto simp: set_protocols_def fun_eq_iff)

lemma distinct_protocols_at: "proto_ok pb \<Longrightarrow> distinct (protocols_at pb (unat (last p)) p)"
  using pseg_ok_distinct [OF proto_ok_seg] by (cases "map_of (pbSegments pb ! unat (last p)) p") (auto simp: protocols_at_def)

lemma fpProtos_of: "p \<noteq> [] \<Longrightarrow> fpProtos (protos_of pb) p = set (protocols_at pb (unat (last p)) p)"
  by (simp add: protos_of_def)

lemma fpProtos_empty: "fpProtos (protos_of pb) [] = {}"
  by (simp add: protos_of_def)

lemma fpMax_of [simp]: "fpMax (protos_of pb) = pbMaxProtos pb"
  by (simp add: protos_of_def)

lemma card_protocols:
  "proto_ok pb \<Longrightarrow> p \<noteq> [] \<Longrightarrow> card (fpProtos (protos_of pb) p) = length (protocols_at pb (unat (last p)) p)"
  by (simp add: fpProtos_of distinct_card distinct_protocols_at)

text \<open>Assignment of what is there already.\<close>

lemma set_protocols_same:
  assumes "proto_ok pb" and "p \<noteq> []" and "pb1 = set_protocols (unat (last p)) p (protocols_at pb (unat (last p)) p) pb"
  shows "proto_ok pb1 \<and> protos_of pb1 = protos_of pb \<and> pbInterned pb1 = pbInterned pb"
proof -
  have same: "pb\<lparr>pbInterned := pbInterned pb\<rparr> = pb" by simp
  have t: "\<forall>k v. map_of (pbInterned pb) k = Some v \<longrightarrow> v = k" using assms(1) by (simp add: proto_ok_def)
  have "proto_ok pb1"
    using proto_ok_set [OF assms(1,2) distinct_protocols_at [OF assms(1), of p] t] by (simp add: assms(3) same)
  moreover have "protos_of pb1 = protos_of pb"
    using protos_of_set [OF assms(1,2), of "protocols_at pb (unat (last p)) p" "pbInterned pb"]
    by (simp add: assms(3) same fpProtos_of [OF assms(2), symmetric])
  ultimately show ?thesis by (simp add: assms(3) set_protocols_def)
qed

lemma interned_ok: "proto_ok pb \<Longrightarrow> \<forall>k v. map_of (pbInterned pb) k = Some v \<longrightarrow> v = k"
  by (simp add: proto_ok_def)

section \<open>Each call\<close>

definition proto_refines :: "proto_op \<Rightarrow> memoryProtoBook \<Rightarrow> bool" where
  "proto_refines x pb \<longleftrightarrow> proto_ok (fst (proto_exec x pb)) \<and>
     protos_of (fst (proto_exec x pb)) = proto_spec x (protos_of pb) \<and>
     proto_agrees x (protos_of pb) (snd (proto_exec x pb))"

lemma PSet_refines:
  assumes ok: "proto_ok pb"
  shows "proto_refines (PSet p protos) pb"
proof -
  obtain m t where i: "intern_loop List.insert protos [] (pbInterned pb) = (m, t)"
    by (cases "intern_loop List.insert protos [] (pbInterned pb)")
  then have m: "m = fold List.insert protos []" and t: "\<forall>k v. map_of t k = Some v \<longrightarrow> v = k"
    using intern_loop_id [OF interned_ok [OF ok], of List.insert protos "[]"] by auto
  have ms: "set m = set protos" "distinct m" by (simp_all add: m fold_insert)
  show ?thesis
    using ok proto_ok_set [OF ok _ ms(2) t] protos_of_set [OF ok]
    by (auto simp: proto_refines_def SetProtocols_def i protoSegments_get_eq set_fits_def limit_error_def ms(1))
qed

lemma PAdd_refines:
  assumes ok: "proto_ok pb"
  shows "proto_refines (PAdd p protos) pb"
proof (cases "p = []")
  case True
  then show ?thesis using ok by (simp add: proto_refines_def AddProtocols_def protoSegments_get_eq)
next
  case False
  define m0 where "m0 = protocols_at pb (unat (last p)) p"
  define pb1 where "pb1 = set_protocols (unat (last p)) p m0 pb"
  have pb1: "proto_ok pb1" "protos_of pb1 = protos_of pb" "pbInterned pb1 = pbInterned pb"
    using set_protocols_same [OF ok False] by (simp_all add: pb1_def m0_def)
  obtain m t where i: "intern_loop List.insert protos m0 (pbInterned pb1) = (m, t)"
    by (cases "intern_loop List.insert protos m0 (pbInterned pb1)")
  then have m: "m = fold List.insert protos m0" and t: "\<forall>k v. map_of t k = Some v \<longrightarrow> v = k"
    using intern_loop_id [OF interned_ok [OF pb1(1)], of List.insert protos m0] by auto
  have ms: "set m = fpProtos (protos_of pb) p \<union> set protos" "distinct m"
    using distinct_protocols_at [OF ok, of p]
    by (simp_all add: m fold_insert m0_def fpProtos_of [OF False])
  have fits: "add_fits p protos (protos_of pb) \<longleftrightarrow> int (length m0) + int (length protos) \<le> pbMaxProtos pb"
    by (simp add: add_fits_def card_protocols [OF ok False] m0_def)
  have eq: "AddProtocols p protos pb =
      (if add_fits p protos (protos_of pb) then Inr (set_protocols (unat (last p)) p m (pb1\<lparr>pbInterned := t\<rparr>), None)
       else Inr (pb1, Some errTooManyProtocols))"
    using False i by (auto simp: AddProtocols_def protoSegments_get_eq Let_def fits m0_def pb1_def)
  show ?thesis
    using False pb1 proto_ok_set [OF pb1(1) False ms(2) t] protos_of_set [OF pb1(1) False, of m t]
    by (auto simp: proto_refines_def eq limit_error_def ms(1))
qed

lemma PRemove_refines:
  assumes ok: "proto_ok pb"
  shows "proto_refines (PRemove p protos) pb"
proof (cases "p = [] \<or> map_of (pbSegments pb ! unat (last p)) p = None")
  case True
  have "fpProtos (protos_of pb) p = {}" using True by (auto simp: protos_of_def protocols_at_def)
  then have "proto_spec (PRemove p protos) (protos_of pb) = protos_of pb"
    by (auto simp: fun_upd_idem_iff intro!: flat_protos.equality)
  then show ?thesis using True ok
    by (auto simp: proto_refines_def RemoveProtocols_def protoSegments_get_eq)
next
  case False
  then obtain m0 where m0: "map_of (pbSegments pb ! unat (last p)) p = Some m0" by auto
  obtain m t where i: "intern_loop removeAll protos m0 (pbInterned pb) = (m, t)"
    by (cases "intern_loop removeAll protos m0 (pbInterned pb)")
  then have m: "m = fold removeAll protos m0" and t: "\<forall>k v. map_of t k = Some v \<longrightarrow> v = k"
    using intern_loop_id [OF interned_ok [OF ok], of removeAll protos m0] by auto
  have ms: "set m = fpProtos (protos_of pb) p - set protos" "distinct m"
    using distinct_protocols_at [OF ok, of p] False m0
    by (simp_all add: m fold_removeAll fpProtos_of protocols_at_def)
  show ?thesis
    using False m0 proto_ok_set [OF ok _ ms(2) t] protos_of_set [OF ok]
    by (auto simp: proto_refines_def RemoveProtocols_def protoSegments_get_eq i ms(1))
qed

lemma PRemovePeer_refines:
  assumes ok: "proto_ok pb"
  shows "proto_refines (PRemovePeer p) pb"
proof (cases "p = []")
  case True
  then have "(protos_of pb)\<lparr>fpProtos := (fpProtos (protos_of pb))([] := {})\<rparr> = protos_of pb"
    by (auto simp: fun_upd_idem_iff fpProtos_empty intro!: flat_protos.equality)
  then show ?thesis using True ok
    by (simp add: proto_refines_def protobook_RemovePeer_def protoSegments_get_eq)
next
  case False
  define pb1 where "pb1 = pb\<lparr>pbSegments := (pbSegments pb)[unat (last p) := AList.delete p (pbSegments pb ! unat (last p))]\<rparr>"
  have "proto_ok pb1"
    using ok by (auto simp: proto_ok_def pb1_def nth_list_update pseg_ok_delete)
  moreover have "protos_of pb1 = (protos_of pb)\<lparr>fpProtos := (fpProtos (protos_of pb))(p := {})\<rparr>"
    using ok by (auto simp: proto_ok_def pb1_def protos_of_def protocols_at_def nth_list_update delete_conv' fun_eq_iff)
  ultimately show ?thesis using False
    by (simp add: proto_refines_def protobook_RemovePeer_def protoSegments_get_eq pb1_def)
qed

lemma first_supported_find:
  "first_supported m protos = (case find (\<lambda>q. q \<in> set m) protos of None \<Rightarrow> '''' | Some q \<Rightarrow> q)"
  by (induction protos) auto

lemma supports_filter:
  "foldl (\<lambda>out proto. if proto \<in> S then out @ [proto] else out) acc protos = acc @ filter (\<lambda>q. q \<in> S) protos"
  by (induction protos arbitrary: acc) auto

lemma proto_call_refines:
  assumes "proto_ok pb"
  shows "proto_refines x pb"
proof (cases x)
  case (PGet p)
  then show ?thesis using assms distinct_protocols_at [OF assms, of p]
    by (auto simp: proto_refines_def GetProtocols_def protoSegments_get_eq fpProtos_of)
next
  case (PSupports p protos)
  then show ?thesis using assms
    by (auto simp: proto_refines_def SupportsProtocols_def protoSegments_get_eq fpProtos_of supports_filter)
next
  case (PFirst p protos)
  then show ?thesis using assms
    by (auto simp: proto_refines_def FirstSupportedProtocol_def protoSegments_get_eq fpProtos_of first_supported_find)
qed (use assms in \<open>simp_all add: PSet_refines PAdd_refines PRemove_refines PRemovePeer_refines\<close>)

interpretation proto_book: data_refinement proto_ok protos_of proto_exec proto_spec proto_agrees
  by unfold_locales (use proto_call_refines in \<open>simp_all add: proto_refines_def\<close>)

end
