(* ===== verification/Peer_Thms.thy ===== *)
theory Peer_Thms
  imports Peer_Book
begin

text \<open>
  The properties of the address book of the peer store in memory, over its runs from the empty book, and of the
  stream of a subscription, with a concrete instance of the parameters for the witnesses.
\<close>

section \<open>Reachable books\<close>

definition book_after :: "addr_ops \<Rightarrow> ('e, 'k) env_ops \<Rightarrow> 'e book_op list \<Rightarrow> 'e memoryAddrBook" where
  "book_after A V xs = fst (run_ops (book_exec A V) xs NewAddrBook)"

definition empty_flat :: "'e flat_book" where
  "empty_flat = \<lparr>fbAddrs = (\<lambda>_. None), fbRecords = (\<lambda>_. None), fbSubs = (\<lambda>_. {#})\<rparr>"

lemma flat_New: "flat_of NewAddrBook = empty_flat"
  by (simp add: flat_of_def empty_flat_def NewAddrBook_def NewAddrSubManager_def addrSegments_get_def subs_of_def)

lemma book_after_ok: "book_ok A (book_after A V xs)"
  unfolding book_after_def by (rule address_book.run_inv) (rule book_ok_New)

text \<open>C33: The segmented address book implements the specification of one map from peers to addresses: after any sequence
  of calls its contents are those of the specification, and every result (the addresses that are
  valid, the signed record, the peers, what is published to subscribers, whether a record is accepted) is what the specification says.\<close>

theorem address_book_refines:
  "flat_of (book_after A V xs) = fold (book_spec A V) xs empty_flat \<and>
   run_agrees (book_spec A V) (book_agrees A V) xs empty_flat (snd (run_ops (book_exec A V) xs NewAddrBook))"
  using address_book.run_abs [OF book_ok_New, of A V xs] address_book.run_results [OF book_ok_New, of A V xs]
  by (simp add: flat_New book_after_def)

text \<open>C34: The book is well formed after any sequence of calls: 256 segments, every peer and every record in the segment of
  the last byte of the peer identity, one entry per key, and each address filed under its own byte string.\<close>

theorem address_book_well_formed:
  "length (abSegments (book_after A V xs)) = 256 \<and>
   (\<forall>i s. i < 256 \<and> s = abSegments (book_after A V xs) ! i \<longrightarrow>
      distinct (map fst (sgAddrs s)) \<and> distinct (map fst (sgRecords s)) \<and>
      (\<forall>p r. (p, r) \<in> set (sgRecords s) \<longrightarrow> seg_index p = i) \<and>
      (\<forall>p m. (p, m) \<in> set (sgAddrs s) \<longrightarrow> seg_index p = i \<and> distinct (map fst m) \<and>
         (\<forall>k e. (k, e) \<in> set m \<longrightarrow> k = ma_Bytes A (eaAddr e))))"
proof -
  have "book_ok A (book_after A V xs)" by (rule book_after_ok)
  then show ?thesis by (auto simp: book_ok_def seg_ok_def amap_ok_def)
qed

section \<open>Garbage collection\<close>

lemma known_gc: "known (spec_gc now f) p = spec_expire now (known f p)"
  by (auto simp: known_def spec_gc_def spec_expire_def fun_eq_iff split: option.split)

lemma spec_Addrs_gc: "now \<le> t \<Longrightarrow> spec_Addrs t p (spec_gc now f) = spec_Addrs t p f"
  by (force simp: spec_Addrs_def known_gc spec_expire_def ExpiredBy_def split: option.splits if_splits)

lemma spec_Record_gc:
  assumes "now \<le> t"
  shows "spec_Record t p (spec_gc now f) = spec_Record t p f"
proof (cases "spec_Addrs t p f = {}")
  case True
  then show ?thesis by (simp add: spec_Record_def spec_Addrs_gc [OF assms])
next
  case False
  then obtain k e where "known f p k = Some e" "t < eaExpires e" by (auto simp: spec_Addrs_def)
  then have "spec_expire now (known f p) k \<noteq> None" using assms by (simp add: spec_expire_def ExpiredBy_def)
  then have "spec_expire now (known f p) \<noteq> Map.empty" by auto
  then have "fbRecords (spec_gc now f) p = fbRecords f p"
    by (auto simp: spec_gc_def known_def split: option.split)
  then show ?thesis using False by (simp add: spec_Record_def spec_Addrs_gc [OF assms])
qed

lemma known_gc_nonempty: "known (spec_gc now f) p \<noteq> Map.empty \<longleftrightarrow> spec_Addrs now p f \<noteq> {}"
  by (auto simp: known_gc spec_expire_def spec_Addrs_def ExpiredBy_def fun_eq_iff split: option.splits)

text \<open>C35: A collection of garbage cannot be observed: from its time on \<^verbatim>\<open>Addrs\<close> and \<^verbatim>\<open>GetPeerRecord\<close> return what they would have
  returned without it, and afterwards \<^verbatim>\<open>PeersWithAddrs\<close> names exactly the peers with an address that is valid.\<close>

theorem gc_unobservable:
  assumes "now \<le> t" and "b = book_after A V xs"
  shows "set (Addrs t p (gc now b)) = set (Addrs t p b) \<and>
         length (Addrs t p (gc now b)) = length (Addrs t p b) \<and>
         GetPeerRecord t p (gc now b) = GetPeerRecord t p b \<and>
         set (PeersWithAddrs (gc now b)) = {q. Addrs now q b \<noteq> []}"
proof -
  have b: "book_ok A b" unfolding assms(2) by (rule book_after_ok)
  note g = book_ok_gc [OF b, of now]
  have "set (Addrs t p (gc now b)) = set (Addrs t p b)"
    using Addrs_spec [OF b, of t p] Addrs_spec [OF g, of t p] spec_Addrs_gc [OF assms(1)]
    by (simp add: flat_gc [OF b])
  moreover from this have "length (Addrs t p (gc now b)) = length (Addrs t p b)"
    using Addrs_spec [OF b, of t p] Addrs_spec [OF g, of t p] by (metis distinct_card)
  moreover have "GetPeerRecord t p (gc now b) = GetPeerRecord t p b"
    by (simp add: GetPeerRecord_spec [OF b] GetPeerRecord_spec [OF g] flat_gc [OF b] spec_Record_gc [OF assms(1)])
  moreover have "set (PeersWithAddrs (gc now b)) = {q. Addrs now q b \<noteq> []}"
    using PeersWithAddrs_spec [OF g] Addrs_spec [OF b, of now]
    by (simp add: flat_gc [OF b] known_gc_nonempty) (metis set_empty)
  ultimately show ?thesis by blast
qed

section \<open>Adding addresses\<close>

lemma keyed_known: "book_ok A b \<Longrightarrow> keyed A (known (flat_of b) p)"
  using book_ok_amap [of A b p] by (simp add: known_flat amap_ok_keyed)

lemma find_accepted: "find (\<lambda>a. ma_Bytes A a = k) as = None \<longleftrightarrow> k \<notin> ma_Bytes A ` set as"
  by (auto simp: find_None_iff_all image_iff)

lemma spec_Addrs_Bytes:
  "keyed A (known f p) \<Longrightarrow> ma_Bytes A ` spec_Addrs t p f = {k. \<exists>e. known f p k = Some e \<and> t < eaExpires e}"
  by (force simp: spec_Addrs_def keyed_def image_iff)

lemma spec_add_expiry:
  "(\<exists>e. spec_add A ttl exp as m k = Some e \<and> t < eaExpires e) \<longleftrightarrow>
     (\<exists>e. m k = Some e \<and> t < eaExpires e) \<or> t < exp \<and> k \<in> ma_Bytes A ` set as"
  using find_accepted [of A k as]
  by (cases "find (\<lambda>a. ma_Bytes A a = k) as"; cases "m k") (auto simp: spec_add_def)

lemma spec_add_keeps:
  "m k = Some e \<Longrightarrow> \<exists>e'. spec_add A ttl exp as m k = Some e' \<and> eaAddr e' = eaAddr e \<and>
     eaTTL e \<le> eaTTL e' \<and> eaExpires e \<le> eaExpires e'"
  by (auto simp: spec_add_def split: option.split)

lemma spec_add_late:
  assumes "exp \<le> t" and "spec_add A ttl exp as m k = Some e'" and "t < eaExpires e'"
  shows "\<exists>e. m k = Some e \<and> t < eaExpires e \<and> eaAddr e = eaAddr e'"
  using assms by (auto simp: spec_add_def split: option.splits)

lemma known_AddAddrs:
  "0 < ttl \<Longrightarrow> known (spec_AddAddrs A now p addrs ttl f) q
     = (if q = p then spec_add A ttl (now + ttl) (accepted A p addrs) (known f p) else known f q)"
  by (simp add: spec_AddAddrs_def known_def)

text \<open>C36: Adding addresses with a positive time to live only extends: every address stays valid as long as it was, nothing
  changes for other peers or for times after the new expiry, and until then the valid addresses of the
  peer are the old ones and those of the arguments that are not for another peer.\<close>

theorem AddAddrs_extends:
  assumes "0 < ttl" and b: "b = book_after A V xs" and b': "b' = fst (AddAddrs A now p addrs ttl b)"
  shows "set (Addrs t q b) \<subseteq> set (Addrs t q b') \<and>
         (q \<noteq> p \<or> now + ttl \<le> t \<longrightarrow> set (Addrs t q b') = set (Addrs t q b)) \<and>
         (t < now + ttl \<longrightarrow> ma_Bytes A ` set (Addrs t p b') = ma_Bytes A ` (set (Addrs t p b) \<union> set (accepted A p addrs)))"
proof -
  have ok: "book_ok A b" unfolding b by (rule book_after_ok)
  then have ok': "book_ok A b'" unfolding b' AddAddrs_def by (rule book_ok_addAddrs)
  have flat: "flat_of b' = spec_AddAddrs A now p addrs ttl (flat_of b)"
    unfolding b' AddAddrs_def by (rule flat_addAddrs [OF ok])
  have known': "known (flat_of b') q = (if q = p then spec_add A ttl (now + ttl) (accepted A p addrs)
      (known (flat_of b) p) else known (flat_of b) q)" for q
    unfolding flat by (rule known_AddAddrs [OF assms(1)])
  have addrs: "set (Addrs t q b) = spec_Addrs t q (flat_of b)" "set (Addrs t q b') = spec_Addrs t q (flat_of b')" for q
    using Addrs_spec [OF ok] Addrs_spec [OF ok'] by auto
  have "spec_Addrs t q (flat_of b) \<subseteq> spec_Addrs t q (flat_of b')"
    unfolding spec_Addrs_def known' using spec_add_keeps [of "known (flat_of b) p"]
    by (auto split: if_splits) (metis order_less_le_trans)
  moreover have "spec_Addrs t q (flat_of b') \<subseteq> spec_Addrs t q (flat_of b)" if "q \<noteq> p \<or> now + ttl \<le> t"
    using that spec_add_late [of "now + ttl" t A ttl] unfolding spec_Addrs_def known'
    by (cases "q = p") (auto, metis)
  moreover have "ma_Bytes A ` spec_Addrs t p (flat_of b')
      = ma_Bytes A ` spec_Addrs t p (flat_of b) \<union> ma_Bytes A ` set (accepted A p addrs)" if "t < now + ttl"
    using that unfolding spec_Addrs_Bytes [OF keyed_known [OF ok]] spec_Addrs_Bytes [OF keyed_known [OF ok']]
    by (auto simp: known' spec_add_expiry)
  ultimately show ?thesis unfolding addrs by (auto simp: image_Un)
qed

section \<open>Sequence numbers of signed records\<close>

definition forgets :: "peer_id \<Rightarrow> 'e book_op \<Rightarrow> bool" where
  "forgets p x = (case x of OpGc _ \<Rightarrow> True | OpClear q \<Rightarrow> q = p | _ \<Rightarrow> False)"

definition seq_at_least :: "u64 \<Rightarrow> peer_id \<Rightarrow> 'e flat_book \<Rightarrow> bool" where
  "seq_at_least n p f \<longleftrightarrow> (\<exists>st. fbRecords f p = Some st \<and> n \<le> prsSeq st)"

lemma fbRecords_AddAddrs [simp]: "fbRecords (spec_AddAddrs A now p addrs ttl f) = fbRecords f"
  by (simp add: spec_AddAddrs_def)

lemma seq_at_least_step:
  assumes "seq_at_least n p f" and "\<not> forgets p x"
  shows "seq_at_least n p (book_spec A V x f)"
proof (cases x)
  case (OpConsume now env ttl)
  then show ?thesis using assms(1)
    by (cases "signed_record V env") (auto simp: spec_Consume_def seq_at_least_def fresh_record_def)
qed (use assms in \<open>auto simp: seq_at_least_def forgets_def spec_SetAddrs_def spec_UpdateAddrs_def spec_Clear_def\<close>)

lemma seq_at_least_steps:
  "seq_at_least n p f \<Longrightarrow> \<forall>y\<in>set ys. \<not> forgets p y \<Longrightarrow> seq_at_least n p (fold (book_spec A V) ys f)"
  by (induction ys arbitrary: f) (auto simp: seq_at_least_step)

lemma seq_at_least_consumed:
  "signed_record V env = Inr rec \<Longrightarrow> seq_at_least (recSeq rec) (recPeerID rec) (spec_Consume A V now env ttl f)"
  by (auto simp: spec_Consume_def seq_at_least_def fresh_record_def split: option.split)

lemma flat_book_after: "flat_of (book_after A V xs) = fold (book_spec A V) xs empty_flat"
  using address_book.run_abs [OF book_ok_New, of A V xs] by (simp add: flat_New book_after_def)

text \<open>C37: A signed record that is older than one presented before is refused and changes nothing, whatever calls came in
  between, unless a garbage collection ran or the addresses of the peer were cleared.\<close>

theorem stale_record_refused:
  assumes "env_Record V env1 = Inr (IsPeerRecord rec1)"
    and "MatchesPublicKey V (recPeerID rec1) (env_PublicKey V env1) = Inr True"
    and "env_Record V env2 = Inr (IsPeerRecord rec2)"
    and "MatchesPublicKey V (recPeerID rec2) (env_PublicKey V env2) = Inr True"
    and "recPeerID rec2 = recPeerID rec1" and "recSeq rec2 < recSeq rec1"
    and "\<forall>y\<in>set ys. \<not> forgets (recPeerID rec1) y"
    and b: "b = book_after A V (xs @ OpConsume t1 env1 ttl1 # ys)"
  shows "ConsumePeerRecord A V t2 env2 ttl2 b = Inr (b, [], False)"
proof -
  have s1: "signed_record V env1 = Inr rec1" and s2: "signed_record V env2 = Inr rec2"
    using assms(1-4) by (simp_all add: signed_record_def)
  have "seq_at_least (recSeq rec1) (recPeerID rec1) (flat_of b)"
    unfolding b flat_book_after
    using seq_at_least_steps [OF seq_at_least_consumed [OF s1] assms(7)] by simp
  then have "\<not> fresh_record (flat_of b) rec2"
    using assms(5,6) by (auto simp: seq_at_least_def fresh_record_def)
  moreover have "book_ok A b" unfolding b by (rule book_after_ok)
  ultimately show ?thesis by (simp add: ConsumePeerRecord_eq s2)
qed

section \<open>The order of addresses\<close>

lemma bytes_Compare_swap: "bytes_Compare ys xs = - bytes_Compare xs ys"
  by (induction xs ys rule: bytes_Compare.induct) auto

text \<open>C6: \<^verbatim>\<open>addrList.Less\<close> is no order: two addresses are each less than the other exactly when one is a loopback TCP address and
  the other is neither loopback nor TCP, so that the place of such addresses after sorting depends on
  where they were before.\<close>

theorem Less_contradicts:
  "Less A a b \<and> Less A b a \<longleftrightarrow>
     IsIPLoopback A a \<and> TCP_Matches A a \<and> \<not> IsIPLoopback A b \<and> \<not> TCP_Matches A b \<or>
     IsIPLoopback A b \<and> TCP_Matches A b \<and> \<not> IsIPLoopback A a \<and> \<not> TCP_Matches A a"
  using bytes_Compare_swap [of "ma_Bytes A a" "ma_Bytes A b"]
  by (auto simp: Less_def Let_def isFDCostlyTransport_def)

section \<open>The stream of a subscription\<close>

text \<open>The first of the elements with each image, in their order.\<close>

fun firsts :: "('a \<Rightarrow> 'b) \<Rightarrow> 'b set \<Rightarrow> 'a list \<Rightarrow> 'a list" where
  "firsts f seen [] = []"
| "firsts f seen (x # xs) = (if f x \<in> seen then firsts f seen xs else x # firsts f (insert (f x) seen) xs)"

fun received :: "stream_event list \<Rightarrow> multiaddr list" where
  "received [] = []"
| "received (Received a # evs) = a # received evs"
| "received (_ # evs) = received evs"

fun delivered :: "stream_event list \<Rightarrow> multiaddr list" where
  "delivered [] = []"
| "delivered (Delivered a # evs) = a # delivered evs"
| "delivered (_ # evs) = delivered evs"

definition pending :: "stream \<Rightarrow> multiaddr list" where
  "pending st = (case stNext st of None \<Rightarrow> [] | Some a \<Rightarrow> [a]) @ stBuffer st"

lemma received_append: "received (xs @ ys) = received xs @ received ys"
  by (induction xs rule: received.induct) auto

lemma delivered_append: "delivered (xs @ ys) = delivered xs @ delivered ys"
  by (induction xs rule: delivered.induct) auto

lemma firsts_snoc: "firsts f seen (xs @ [x]) = firsts f seen xs @ (if f x \<in> seen \<union> f ` set xs then [] else [x])"
  by (induction f seen xs rule: firsts.induct) auto

lemma firsts_distinct: "distinct (map f xs) \<Longrightarrow> f ` set xs \<inter> seen = {} \<Longrightarrow> firsts f seen xs = xs"
  by (induction f seen xs rule: firsts.induct) auto

lemma distinct_firsts: "distinct (map f (firsts f seen xs)) \<and> f ` set (firsts f seen xs) \<inter> seen = {}"
  by (induction f seen xs rule: firsts.induct) auto

lemma stream_invariant:
  assumes "stream_run A buffer evs st" and "distinct (map (ma_Bytes A) buffer)"
  shows "stOut st = delivered evs \<and>
         stOut st @ pending st = firsts (ma_Bytes A) {} (buffer @ received evs) \<and>
         set (stSent st) = ma_Bytes A ` set (buffer @ received evs) \<and>
         (stNext st = None \<longrightarrow> stBuffer st = [])"
  using assms
proof (induction rule: stream_run.induct)
  case run_start
  have "firsts (ma_Bytes A) {} buffer = buffer" using run_start by (simp add: firsts_distinct)
  then show ?case by (auto simp: start_stream_def pending_def split: list.split)
next
  case (run_step evs st ev st')
  note ih = run_step.IH [OF run_step.prems]
  from run_step.hyps(2) show ?case
  proof (cases rule: stream_step.cases)
    case (step_deliver a)
    then show ?thesis using ih
      by (auto simp: stream_deliver_def pending_def delivered_append received_append split: list.split)
  next
    case (step_receive a)
    have "firsts (ma_Bytes A) {} ((buffer @ received evs) @ [a]) = firsts (ma_Bytes A) {} (buffer @ received evs) @
        (if ma_Bytes A a \<in> set (stSent st) then [] else [a])"
      using ih unfolding firsts_snoc by simp
    then show ?thesis using ih step_receive
      by (auto simp: stream_receive_def pending_def delivered_append received_append Let_def split: option.splits)
  next
    case step_cancel
    then show ?thesis using ih by (auto simp: pending_def delivered_append received_append)
  qed
qed

lemma stream_drains:
  "stream_run A buffer evs st \<Longrightarrow> \<not> stClosed st \<Longrightarrow> stNext st = None \<longrightarrow> stBuffer st = [] \<Longrightarrow>
   \<exists>st'. stream_run A buffer (evs @ map Delivered (pending st)) st' \<and> stOut st' = stOut st @ pending st"
proof (induction "stBuffer st" arbitrary: evs st)
  case Nil
  show ?case
  proof (cases "stNext st")
    case None
    then show ?thesis using Nil by (auto simp: pending_def)
  next
    case (Some a)
    have "stream_step A st (Delivered a) (stream_deliver st a)" using Nil.prems Some by (intro step_deliver)
    then have "stream_run A buffer (evs @ [Delivered a]) (stream_deliver st a)"
      using Nil.prems(1) by (rule run_step [rotated])
    moreover have "pending st = [a]" using Some Nil.hyps by (simp add: pending_def)
    moreover have "stOut (stream_deliver st a) = stOut st @ [a]" using Nil.hyps by (simp add: stream_deliver_def)
    ultimately show ?thesis by auto
  qed
next
  case (Cons c rest)
  then obtain a where a: "stNext st = Some a" by (cases "stNext st") auto
  define st1 where "st1 = stream_deliver st a"
  have "stream_step A st (Delivered a) st1"
    using Cons.prems(2) a unfolding st1_def by (intro step_deliver)
  then have run: "stream_run A buffer (evs @ [Delivered a]) st1"
    using Cons.prems(1) by (rule run_step [rotated])
  have st1: "stBuffer st1 = rest" "stNext st1 = Some c" "\<not> stClosed st1" "stOut st1 = stOut st @ [a]"
    using Cons.hyps(2) [symmetric] Cons.prems(2) by (simp_all add: st1_def stream_deliver_def)
  have "pending st = a # pending st1" using a st1 Cons.hyps(2) [symmetric] by (simp add: pending_def)
  moreover obtain st' where "stream_run A buffer ((evs @ [Delivered a]) @ map Delivered (pending st1)) st'"
      "stOut st' = stOut st1 @ pending st1"
    using Cons.hyps(1) [OF st1(1) [symmetric] run st1(3)] st1(2) by auto
  ultimately show ?case using st1(4) by auto
qed

text \<open>C38: A subscriber gets each address once: whatever was published so far, what is delivered is the beginning of the
  sequence of the addresses on file and those published, each at its first occurrence; and while the
  subscription lives, reading on delivers all the rest of it.\<close>

theorem stream_delivers_once:
  assumes "stream_run A buffer evs st" and "distinct (map (ma_Bytes A) buffer)"
    and "all = firsts (ma_Bytes A) {} (buffer @ received evs)"
  shows "stOut st = delivered evs \<and> distinct (map (ma_Bytes A) all) \<and> (\<exists>rest. stOut st @ rest = all \<and>
         (\<not> stClosed st \<longrightarrow> (\<exists>st'. stream_run A buffer (evs @ map Delivered rest) st' \<and> stOut st' = all)))"
proof -
  note inv = stream_invariant [OF assms(1,2)]
  have "distinct (map (ma_Bytes A) all)" using distinct_firsts assms(3) by blast
  moreover have "stOut st @ pending st = all" using inv unfolding assms(3) by blast
  moreover have "\<exists>st'. stream_run A buffer (evs @ map Delivered (pending st)) st' \<and> stOut st' = all" if "\<not> stClosed st"
    using stream_drains [OF assms(1) that] inv assms(3) by auto
  ultimately show ?thesis using inv by blast
qed

end
