(* ===== verification/Peer_Store_Thms.thy ===== *)
theory Peer_Store_Thms
  imports Peer_Store_Props Peer_Thms
begin

text \<open>
  The properties of the books of protocols and keys and of the peer store in memory, over every reachable state of the store:
  the calls of its books in any order, keys, metadata and the removal of peers.
\<close>

section \<open>Protocols\<close>

definition empty_protos :: "int \<Rightarrow> flat_protos" where
  "empty_protos n = \<lparr>fpProtos = (\<lambda>_. {}), fpMax = n\<rparr>"

definition new_protos :: "int \<Rightarrow> memoryProtoBook" where
  "new_protos n = \<lparr>pbSegments = replicate 256 [], pbMaxProtos = n, pbInterned = []\<rparr>"

lemma NewProtoBook_limit: "NewProtoBook [WithMaxProtocols n] = Inr (new_protos n)"
  by (simp add: NewProtoBook_def WithMaxProtocols_def new_protos_def)

lemma new_protos_ok: "proto_ok (new_protos n)" and new_protos_flat: "protos_of (new_protos n) = empty_protos n"
  by (simp_all add: proto_ok_def pseg_ok_def new_protos_def protos_of_def empty_protos_def protocols_at_def)

definition within_limit :: "flat_protos \<Rightarrow> bool" where
  "within_limit f \<longleftrightarrow> (\<forall>p. finite (fpProtos f p) \<and> int (card (fpProtos f p)) \<le> max 0 (fpMax f))"

lemma within_limit_step:
  assumes "within_limit f"
  shows "within_limit (proto_spec x f) \<and> fpMax (proto_spec x f) = fpMax f"
proof (cases x)
  case (PSet p protos)
  then show ?thesis using assms card_length [of protos] by (auto simp: within_limit_def set_fits_def)
next
  case (PAdd p protos)
  have "card (fpProtos f p \<union> set protos) \<le> card (fpProtos f p) + length protos"
    using card_Un_le [of "fpProtos f p" "set protos"] card_length [of protos] by linarith
  then show ?thesis using assms PAdd by (auto simp: within_limit_def add_fits_def)
next
  case (PRemove p protos)
  have "card (fpProtos f p - set protos) \<le> card (fpProtos f p)"
    using assms by (auto simp: within_limit_def intro: card_mono)
  then show ?thesis using assms PRemove
    by (auto simp: within_limit_def) (meson dual_order.trans of_nat_mono)
qed (use assms in \<open>auto simp: within_limit_def\<close>)

lemma within_limit_run: "within_limit f \<Longrightarrow> within_limit (fold proto_spec xs f) \<and> fpMax (fold proto_spec xs f) = fpMax f"
  by (induction xs arbitrary: f) (auto simp: within_limit_step)

text \<open>C39: The book of protocols, with its segments and interned names, implements one map from peers to sets of protocols: after
  any sequence of calls its contents and every result are those of the specification (the limit
  error, the panic for an empty identity), and no peer has more protocols than the limit.\<close>

theorem protocol_book_refines:
  "\<exists>pb. NewProtoBook [WithMaxProtocols n] = Inr pb \<and>
     protos_of (fst (run_ops proto_exec xs pb)) = fold proto_spec xs (empty_protos n) \<and>
     run_agrees proto_spec proto_agrees xs (empty_protos n) (snd (run_ops proto_exec xs pb)) \<and>
     (\<forall>p. int (card (fpProtos (protos_of (fst (run_ops proto_exec xs pb))) p)) \<le> max 0 n)"
proof -
  have flat: "protos_of (fst (run_ops proto_exec xs (new_protos n))) = fold proto_spec xs (empty_protos n)"
    using proto_book.run_abs [OF new_protos_ok] by (simp add: new_protos_flat)
  have "within_limit (empty_protos n)" by (simp add: within_limit_def empty_protos_def)
  moreover have "fpMax (empty_protos n) = n" by (simp add: empty_protos_def)
  ultimately have "\<forall>p. int (card (fpProtos (fold proto_spec xs (empty_protos n)) p)) \<le> max 0 n"
    using within_limit_run [of "empty_protos n" xs] by (metis within_limit_def)
  then show ?thesis
    using NewProtoBook_limit flat proto_book.run_results [OF new_protos_ok [of n], of xs] by (simp add: new_protos_flat)
qed

section \<open>Reachable stores\<close>

text \<open>The calls on a store, by the book they go to; a call that fails or panics leaves no new state.\<close>

inductive store_step :: "addr_ops \<Rightarrow> ('e, 'k) env_ops \<Rightarrow> ('k, 's) id_ops \<Rightarrow> (peer_id \<Rightarrow> 'm \<Rightarrow> 'm) \<Rightarrow>
    ('e, 'k, 's, 'v, 'm) pstoremem \<Rightarrow> ('e, 'k, 's, 'v, 'm) pstoremem \<Rightarrow> bool" for A V I R where
  on_addrs: "store_step A V I R ps (ps\<lparr>psAddrBook := fst (book_exec A V x (psAddrBook ps))\<rparr>)"
| on_protos: "store_step A V I R ps (ps\<lparr>psProtoBook := fst (proto_exec y (psProtoBook ps))\<rparr>)"
| on_pubkey: "store_step A V I R ps (ps\<lparr>psKeyBook := snd (PubKey I p (psKeyBook ps))\<rparr>)"
| add_pubkey: "AddPubKey I p pk (psKeyBook ps) = Inr mkb \<Longrightarrow> store_step A V I R ps (ps\<lparr>psKeyBook := mkb\<rparr>)"
| add_privkey: "AddPrivKey I p sk (psKeyBook ps) = Inr mkb \<Longrightarrow> store_step A V I R ps (ps\<lparr>psKeyBook := mkb\<rparr>)"
| on_meta: "store_step A V I R ps (ps\<lparr>psMetadata := Put p key val (psMetadata ps)\<rparr>)"
| remove_peer: "RemovePeer R p ps = Inr ps' \<Longrightarrow> store_step A V I R ps ps'"

inductive store_reach :: "addr_ops \<Rightarrow> ('e, 'k) env_ops \<Rightarrow> ('k, 's) id_ops \<Rightarrow> (peer_id \<Rightarrow> 'm \<Rightarrow> 'm) \<Rightarrow>
    ('e, 'k, 's, 'v, 'm) pstoremem \<Rightarrow> bool" for A V I R where
  reach_new: "NewPeerstore metrics (map (\<lambda>n. ProtoBookOption (WithMaxProtocols n)) ns) = Inr ps \<Longrightarrow> store_reach A V I R ps"
| reach_step: "store_reach A V I R ps \<Longrightarrow> store_step A V I R ps ps' \<Longrightarrow> store_reach A V I R ps'"

definition keys_ok :: "('k, 's) id_ops \<Rightarrow> ('k, 's) memoryKeyBook \<Rightarrow> bool" where
  "keys_ok I mkb \<longleftrightarrow> distinct (map fst (kbPks mkb)) \<and> distinct (map fst (kbSks mkb)) \<and>
     (\<forall>p k. map_of (kbPks mkb) p = Some k \<longrightarrow> id_MatchesPublicKey I p k = Inr True \<or> ExtractPublicKey I p = (k, None)) \<and>
     (\<forall>p s. map_of (kbSks mkb) p = Some s \<longrightarrow> MatchesPrivateKey I p s = Inr True)"

definition store_ok :: "addr_ops \<Rightarrow> ('k, 's) id_ops \<Rightarrow> ('e, 'k, 's, 'v, 'm) pstoremem \<Rightarrow> bool" where
  "store_ok A I ps \<longleftrightarrow> book_ok A (psAddrBook ps) \<and> proto_ok (psProtoBook ps) \<and> keys_ok I (psKeyBook ps)"

lemma protobook_RemovePeer_ok: "proto_ok pb \<Longrightarrow> protobook_RemovePeer p pb = Inr pb' \<Longrightarrow> proto_ok pb'"
  using PRemovePeer_refines [of pb p] by (simp add: proto_refines_def)

lemma keys_ok_set_pub:
  "keys_ok I mkb \<Longrightarrow> id_MatchesPublicKey I p k = Inr True \<or> ExtractPublicKey I p = (k, None) \<Longrightarrow>
   keys_ok I (mkb\<lparr>kbPks := AList.update p k (kbPks mkb)\<rparr>)"
  by (simp add: keys_ok_def update_conv' distinct_update del: map_of_eq_Some_iff)

lemma keys_ok_set_priv:
  "keys_ok I mkb \<Longrightarrow> MatchesPrivateKey I p s = Inr True \<Longrightarrow> keys_ok I (mkb\<lparr>kbSks := AList.update p s (kbSks mkb)\<rparr>)"
  by (simp add: keys_ok_def update_conv' distinct_update del: map_of_eq_Some_iff)

lemma keys_ok_PubKey: "keys_ok I mkb \<Longrightarrow> keys_ok I (snd (PubKey I p mkb))"
  by (auto simp: PubKey_def Let_def split_beta prod_eq_iff intro: keys_ok_set_pub split: option.split)

lemma keys_ok_AddPubKey: "keys_ok I mkb \<Longrightarrow> AddPubKey I p pk mkb = Inr mkb' \<Longrightarrow> keys_ok I mkb'"
  by (auto simp: AddPubKey_def rbind_eq_Inr keys_ok_set_pub split: if_splits)

lemma keys_ok_AddPrivKey: "keys_ok I mkb \<Longrightarrow> AddPrivKey I p sk mkb = Inr mkb' \<Longrightarrow> keys_ok I mkb'"
  by (auto simp: AddPrivKey_def rbind_eq_Inr keys_ok_set_priv split: if_splits option.splits)

lemma keys_ok_RemovePeer: "keys_ok I mkb \<Longrightarrow> keys_ok I (keybook_RemovePeer p mkb)"
  by (simp add: keybook_RemovePeer_def keys_ok_def delete_conv' distinct_delete del: map_of_eq_Some_iff)

lemma RemovePeer_Inr:
  assumes "RemovePeer R p ps = Inr ps'"
  shows "p \<noteq> [] \<and> psAddrBook ps' = psAddrBook ps \<and> psKeyBook ps' = keybook_RemovePeer p (psKeyBook ps) \<and>
         protobook_RemovePeer p (psProtoBook ps) = Inr (psProtoBook ps') \<and>
         psMetadata ps' = metadata_RemovePeer p (psMetadata ps) \<and> psMetrics ps' = R p (psMetrics ps)"
  using assms
  by (auto simp: RemovePeer_def Let_def rbind_eq_Inr protobook_RemovePeer_def protoSegments_get_eq split: if_splits)

lemma store_ok_step: "store_step A V I R ps ps' \<Longrightarrow> store_ok A I ps \<Longrightarrow> store_ok A I ps'"
proof (induction rule: store_step.induct)
  case (on_protos ps y)
  then show ?case using proto_book.step_inv [of "psProtoBook ps" y] by (simp add: store_ok_def)
next
  case (remove_peer p ps ps')
  then show ?case using RemovePeer_Inr [OF remove_peer.hyps]
    by (auto simp: store_ok_def keys_ok_RemovePeer intro: protobook_RemovePeer_ok)
qed (auto simp: store_ok_def book_step_inv keys_ok_PubKey intro: keys_ok_AddPubKey keys_ok_AddPrivKey)

lemma WithMaxProtocols_fold:
  "rfold (\<lambda>opt pb. opt pb) (map WithMaxProtocols ns) pb = Inr (case ns of [] \<Rightarrow> pb | _ \<Rightarrow> pb\<lparr>pbMaxProtos := last ns\<rparr>)"
  by (induction ns arbitrary: pb) (auto simp: WithMaxProtocols_def split: list.split)

lemma peerstore_options_limits:
  "peerstore_options (map (\<lambda>n. ProtoBookOption (WithMaxProtocols n)) ns) ab fs = Inr (ab, fs @ map WithMaxProtocols ns)"
  by (induction ns arbitrary: fs) auto

lemma NewPeerstore_books:
  assumes "NewPeerstore metrics (map (\<lambda>n. ProtoBookOption (WithMaxProtocols n)) ns) = Inr ps"
  shows "psAddrBook ps = NewAddrBook \<and> psKeyBook ps = NewKeyBook \<and> psMetadata ps = NewPeerMetadata \<and>
         psProtoBook ps = new_protos (if ns = [] then 1024 else last ns)"
  using assms
  by (auto simp: NewPeerstore_def peerstore_options_limits NewProtoBook_def WithMaxProtocols_fold new_protos_def
      split: list.splits)

lemma store_reach_ok: "store_reach A V I R ps \<Longrightarrow> store_ok A I ps"
proof (induction rule: store_reach.induct)
  case (reach_new metrics ns ps)
  then show ?case using NewPeerstore_books [OF reach_new]
    by (simp add: store_ok_def book_ok_New new_protos_ok keys_ok_def NewKeyBook_def)
qed (rule store_ok_step)

lemma set_PeersWithKeys: "set (PeersWithKeys mkb) = fst ` set (kbPks mkb) \<union> fst ` set (kbSks mkb)"
proof -
  have "set (foldl (\<lambda>ps p. if map_of (kbPks mkb) p = None then ps @ [p] else ps) acc xs)
        = set acc \<union> {p \<in> set xs. p \<notin> fst ` set (kbPks mkb)}" for acc xs
    by (induction xs arbitrary: acc) (auto simp: map_of_eq_None_iff)
  then show ?thesis by (auto simp: PeersWithKeys_def)
qed

lemma set_foldl_insert: "set (foldl (\<lambda>acc p. List.insert p acc) acc xs) = set acc \<union> set xs"
  by (induction xs arbitrary: acc) auto

lemma set_Peers: "set (Peers ps) = set (PeersWithKeys (psKeyBook ps)) \<union> set (PeersWithAddrs (psAddrBook ps))"
  by (simp add: Peers_def set_foldl_insert)

lemma Get_RemovePeer: "Get q key (metadata_RemovePeer p m) = (if q = p then Inl ErrNotFound else Get q key m)"
  by (simp add: Get_def metadata_RemovePeer_def delete_conv')

lemma Get_Put: "Get q key' (Put p key val m) = (if q = p \<and> key' = key then Inr val else Get q key' m)"
  by (auto simp: Get_def Put_def Let_def update_conv' split: option.split)

lemma set_keys_RemovePeer: "set (PeersWithKeys (keybook_RemovePeer p mkb)) = set (PeersWithKeys mkb) - {p}"
  by (auto simp: set_PeersWithKeys keybook_RemovePeer_def AList.delete_eq)

lemma GetProtocols_RemovePeer:
  assumes "proto_ok pb" and "protobook_RemovePeer p pb = Inr pb'"
  shows "GetProtocols q pb' = (if q = p then Inr [] else GetProtocols q pb)"
  using assms
  by (auto simp: protobook_RemovePeer_def GetProtocols_def protoSegments_get_eq protocols_at_def proto_ok_def
      nth_list_update delete_conv' split: if_splits)

text \<open>C40: In every reachable store \<^verbatim>\<open>RemovePeer\<close> panics for the empty identity, and for every other one forgets the keys, the
  protocols and the metadata of that peer and nothing of any other; the addresses stay, so
  that the peer is still listed exactly when it has some.\<close>

theorem RemovePeer_forgets:
  assumes "store_reach A V I R ps"
  shows "RemovePeer R [] ps = Inl index_panic \<and>
         (p \<noteq> [] \<longrightarrow> (\<exists>ps'. RemovePeer R p ps = Inr ps' \<and>
            set (PeersWithKeys (psKeyBook ps')) = set (PeersWithKeys (psKeyBook ps)) - {p} \<and>
            (p \<in> set (Peers ps') \<longleftrightarrow> p \<in> set (PeersWithAddrs (psAddrBook ps))) \<and>
            (\<forall>q. GetProtocols q (psProtoBook ps') = (if q = p then Inr [] else GetProtocols q (psProtoBook ps))) \<and>
            (\<forall>q key. Get q key (psMetadata ps') = (if q = p then Inl ErrNotFound else Get q key (psMetadata ps))) \<and>
            (\<forall>now q. PeerInfo now q ps' = PeerInfo now q ps)))"
proof -
  have ok: "proto_ok (psProtoBook ps)" using store_reach_ok [OF assms] by (simp add: store_ok_def)
  have "RemovePeer R [] ps = Inl index_panic"
    by (simp add: RemovePeer_def protobook_RemovePeer_def protoSegments_get_eq Let_def)
  moreover have "set (PeersWithKeys (psKeyBook ps')) = set (PeersWithKeys (psKeyBook ps)) - {p} \<and>
      (p \<in> set (Peers ps') \<longleftrightarrow> p \<in> set (PeersWithAddrs (psAddrBook ps))) \<and>
      (\<forall>q. GetProtocols q (psProtoBook ps') = (if q = p then Inr [] else GetProtocols q (psProtoBook ps))) \<and>
      (\<forall>q key. Get q key (psMetadata ps') = (if q = p then Inl ErrNotFound else Get q key (psMetadata ps))) \<and>
      (\<forall>now q. PeerInfo now q ps' = PeerInfo now q ps)" if "RemovePeer R p ps = Inr ps'" for ps'
    using RemovePeer_Inr [OF that] GetProtocols_RemovePeer [OF ok]
    by (simp add: set_keys_RemovePeer set_Peers Get_RemovePeer PeerInfo_def)
  moreover have "\<exists>ps'. RemovePeer R p ps = Inr ps'" if "p \<noteq> []"
    using that by (simp add: RemovePeer_def protobook_RemovePeer_def protoSegments_get_eq Let_def)
  ultimately show ?thesis by blast
qed

text \<open>Every key that a reachable store keeps belongs to its peer, when a key that is extracted from an identity does: what
  \<^verbatim>\<open>PrivKey\<close> and \<^verbatim>\<open>PubKey\<close> return fits the peer.\<close>

lemma stored_keys_match:
  assumes "store_reach A V I R ps"
    and fits: "\<And>p k e. ExtractPublicKey I p = (Some k, e) \<Longrightarrow> id_MatchesPublicKey I p (Some k) = Inr True"
  shows "(PrivKey p (psKeyBook ps) = Some s \<longrightarrow> MatchesPrivateKey I p s = Inr True) \<and>
         (fst (PubKey I p (psKeyBook ps)) = Some k \<longrightarrow> id_MatchesPublicKey I p (Some k) = Inr True)"
proof -
  have keys: "keys_ok I (psKeyBook ps)" using store_reach_ok [OF assms(1)] by (simp add: store_ok_def)
  have "id_MatchesPublicKey I p (Some k) = Inr True" if "fst (PubKey I p (psKeyBook ps)) = Some k"
  proof (cases "map_of (kbPks (psKeyBook ps)) p = Some (Some k)")
    case True
    then show ?thesis using keys fits unfolding keys_ok_def by blast
  next
    case False
    then have "fst (ExtractPublicKey I p) = Some k"
      using that by (auto simp: PubKey_def Let_def split_beta split: option.splits bind_splits)
    then show ?thesis using fits by (metis prod.collapse)
  qed
  then show ?thesis using keys by (auto simp: keys_ok_def PrivKey_def)
qed

end
