(* ===== verification/Peer_Demo.thy ===== *)
theory Peer_Demo
  imports Peer_Store_Thms
begin

text \<open>
  Witnesses of the properties of the address book: a concrete instance of the parameters, where an address has no
  identity in it, its byte string is that of its components, and an envelope is the record it holds.
\<close>

definition demo_addr_ops :: addr_ops where
  "demo_addr_ops = \<lparr>SplitAddr = (\<lambda>x. (x, [])), ma_Bytes = (\<lambda>a. concat (map ma_val a)),
     IsIPLoopback = (\<lambda>a. case a of c # _ \<Rightarrow> hd (ma_val c) = 127 | [] \<Rightarrow> False),
     TCP_Matches = (\<lambda>a. \<exists>c\<in>set a. ma_code c = 6)\<rparr>"

definition demo_env_ops :: "(peer_record, peer_id) env_ops" where
  "demo_env_ops = \<lparr>env_Record = (\<lambda>e. Inr (IsPeerRecord e)), env_PublicKey = (\<lambda>e. Some (recPeerID e)),
     MatchesPublicKey = (\<lambda>p k. Inr (k = Some p))\<rparr>"

definition demo_a1 :: multiaddr where "demo_a1 = [MaComp 4 [10, 0, 0, 1], MaComp 6 [31, 144]]"
definition demo_a2 :: multiaddr where "demo_a2 = [MaComp 4 [10, 0, 0, 2], MaComp 6 [31, 144]]"

definition demo_calls :: "peer_record book_op list" where
  "demo_calls = [OpAdd 0 [1, 7] [Some demo_a1] 10, OpAdd 0 [1, 7] [Some demo_a2] 4]"

definition demo_book :: "peer_record memoryAddrBook" where
  "demo_book = book_after demo_addr_ops demo_env_ops demo_calls"

lemma demo_book_addrs: "Addrs 5 [1, 7] demo_book = [demo_a1] \<and> Addrs 3 [1, 7] demo_book = [demo_a1, demo_a2]"
  by code_simp

lemma demo_book_segment: "map fst (sgAddrs (abSegments demo_book ! 7)) = [[1, 7]]"
  by code_simp

theorem address_book_well_formed_witness:
  "length (abSegments demo_book) = 256 \<and> distinct (map fst (sgAddrs (abSegments demo_book ! 7))) \<and>
   (\<exists>m. ([1, 7], m) \<in> set (sgAddrs (abSegments demo_book ! 7)) \<and> seg_index [1, 7] = 7 \<and> distinct (map fst m))"
proof -
  note wf = address_book_well_formed [of demo_addr_ops demo_env_ops demo_calls, folded demo_book_def]
  have "[1, 7] \<in> fst ` set (sgAddrs (abSegments demo_book ! 7))"
    unfolding set_map [symmetric] demo_book_segment by simp
  then obtain m where m: "([1, 7], m) \<in> set (sgAddrs (abSegments demo_book ! 7))" by force
  then have "seg_index [1, 7] = 7" "distinct (map fst m)"
    using wf [THEN conjunct2, rule_format, of 7 "abSegments demo_book ! 7"] by auto
  then show ?thesis using m wf by auto
qed

theorem gc_unobservable_witness:
  "set (Addrs 5 [1, 7] (gc 4 demo_book)) = {demo_a1} \<and>
   set (PeersWithAddrs (gc 4 demo_book)) = {q. Addrs 4 q demo_book \<noteq> []}"
  using gc_unobservable [of 4 5 demo_book demo_addr_ops demo_env_ops demo_calls "[1, 7]"] demo_book_addrs
  by (simp add: demo_book_def)

lemma demo_accepted: "accepted demo_addr_ops p [Some a] = [a]"
  by (simp add: accepted_def accept_def demo_addr_ops_def List.map_filter_simps)

theorem AddAddrs_extends_witness:
  "ma_Bytes demo_addr_ops ` set (Addrs 5 [1, 7] (fst (AddAddrs demo_addr_ops 5 [1, 7] [Some demo_a2] 3 demo_book)))
   = ma_Bytes demo_addr_ops ` {demo_a1, demo_a2}"
  using AddAddrs_extends [of 3 demo_book demo_addr_ops demo_env_ops demo_calls
      "fst (AddAddrs demo_addr_ops 5 [1, 7] [Some demo_a2] 3 demo_book)" 5 "[1, 7]" "[Some demo_a2]" 5 "[1, 7]"]
    demo_book_addrs
  by (simp add: demo_accepted demo_book_def [symmetric] insert_commute)

definition demo_record :: "u64 \<Rightarrow> peer_record" where
  "demo_record n = \<lparr>recPeerID = [1, 7], recAddrs = [Some demo_a1], recSeq = n\<rparr>"

definition demo_consumed :: "peer_record memoryAddrBook" where
  "demo_consumed = book_after demo_addr_ops demo_env_ops ([] @ OpConsume 0 (demo_record 5) 10 # demo_calls)"

theorem stale_record_refused_witness:
  "ConsumePeerRecord demo_addr_ops demo_env_ops 1 (demo_record 3) 10 demo_consumed = Inr (demo_consumed, [], False)"
  by (rule stale_record_refused [of demo_env_ops "demo_record 5" "demo_record 5" "demo_record 3" "demo_record 3"
        demo_calls demo_consumed demo_addr_ops "[]" 0 10])
    (simp_all add: demo_env_ops_def demo_record_def demo_consumed_def demo_calls_def forgets_def)

definition demo_stream :: stream where
  "demo_stream = stream_deliver (stream_receive demo_addr_ops demo_a1
     (stream_receive demo_addr_ops demo_a2 (start_stream demo_addr_ops [demo_a1]))) demo_a1"

lemma demo_stream_run:
  "stream_run demo_addr_ops [demo_a1] [Received demo_a2, Received demo_a1, Delivered demo_a1] demo_stream"
proof -
  define s0 s1 s2 where "s0 = start_stream demo_addr_ops [demo_a1]"
    and "s1 = stream_receive demo_addr_ops demo_a2 s0" and "s2 = stream_receive demo_addr_ops demo_a1 s1"
  have "stream_run demo_addr_ops [demo_a1] [] s0" unfolding s0_def by (rule run_start)
  moreover have "stream_step demo_addr_ops s0 (Received demo_a2) s1"
    by (simp add: stream_step_simps s1_def s0_def start_stream_def)
  moreover have "stream_step demo_addr_ops s1 (Received demo_a1) s2"
    by (simp add: stream_step_simps s2_def) (simp add: s1_def s0_def start_stream_def stream_receive_def Let_def)
  moreover have "stream_step demo_addr_ops s2 (Delivered demo_a1) demo_stream"
    unfolding stream_step_simps demo_stream_def s2_def s1_def s0_def by code_simp
  ultimately show ?thesis using run_step by (metis append_Cons append_Nil)
qed

theorem stream_delivers_once_witness:
  "stOut demo_stream = [demo_a1] \<and> (\<exists>rest. stOut demo_stream @ rest = [demo_a1, demo_a2])"
proof -
  have all: "firsts (ma_Bytes demo_addr_ops) {} ([demo_a1] @ received [Received demo_a2, Received demo_a1, Delivered demo_a1])
        = [demo_a1, demo_a2]"
    by (simp add: demo_addr_ops_def demo_a1_def demo_a2_def)
  show ?thesis using stream_delivers_once [OF demo_stream_run _ all [symmetric]] by auto
qed

section \<open>The store\<close>

definition demo_id_ops :: "(peer_id, peer_id) id_ops" where
  "demo_id_ops = \<lparr>ExtractPublicKey = (\<lambda>p. (Some p, None)), id_MatchesPublicKey = (\<lambda>p k. Inr (k = Some p)),
     MatchesPrivateKey = (\<lambda>p s. Inr (s = p))\<rparr>"

definition demo_new_store :: "(peer_record, peer_id, peer_id, nat, nat) pstoremem" where
  "demo_new_store = \<lparr>psMetrics = 0, psKeyBook = NewKeyBook, psAddrBook = NewAddrBook, psProtoBook = new_protos 1024,
     psMetadata = NewPeerMetadata\<rparr>"

definition demo_store :: "(peer_record, peer_id, peer_id, nat, nat) pstoremem" where
  "demo_store = demo_new_store\<lparr>psMetadata := Put [1, 7] ''agent'' 5 (psMetadata demo_new_store)\<rparr>"

lemma demo_store_reach: "store_reach demo_addr_ops demo_env_ops demo_id_ops (\<lambda>_ m. m) demo_store"
proof -
  have "NewPeerstore 0 (map (\<lambda>n. ProtoBookOption (WithMaxProtocols n)) []) = Inr demo_new_store"
    by (simp add: NewPeerstore_def NewProtoBook_def demo_new_store_def new_protos_def)
  then have "store_reach demo_addr_ops demo_env_ops demo_id_ops (\<lambda>_ m. m) demo_new_store" by (rule reach_new)
  then show ?thesis unfolding demo_store_def by (rule reach_step) (rule on_meta)
qed

theorem RemovePeer_forgets_witness:
  "Get [1, 7] ''agent'' (psMetadata demo_store) = Inr 5 \<and> RemovePeer (\<lambda>_ m. m) [] demo_store = Inl index_panic \<and>
   (\<exists>ps'. RemovePeer (\<lambda>_ m. m) [1, 7] demo_store = Inr ps' \<and> Get [1, 7] ''agent'' (psMetadata ps') = Inl ErrNotFound)"
proof -
  have "Get [1, 7] ''agent'' (psMetadata demo_store) = Inr 5" by (simp add: demo_store_def Get_Put)
  then show ?thesis using RemovePeer_forgets [OF demo_store_reach, of "[1, 7]"] by auto
qed

end
