(* ===== verification/Spec2Isabelle.thy ===== *)
theory Spec2Isabelle
  imports Packet_Split Clients_Acct Dispatcher_Demo Peer_Demo
begin

text \<open>
  \<^bold>\<open>Indranet.\<close> This library models the core of Indranet (the Go packages under \<^verbatim>\<open>src/pkg\<close>) and proves what makes it work, or what
  keeps it from working. Indranet is an onion routing network whose relays are paid per session: a client buys sessions
  from relays, wraps a request in layers for the hops of a circuit, and the exit sends a response back along a prepared
  reply header; relays announce themselves with signed advertisements; two peers exchange messages as encrypted packets with
  Reed-Solomon parity.

  \<^bold>\<open>How the parts interact.\<close> A message is written into a splice (a byte buffer with a cursor) behind a four-byte magic and
  recognised through a registry. Onion messages nest: each crypt layer hides the rest under a key that only its hop
  can derive. The engine takes bytes from the transport, recognises, decodes, unwraps and handles them; handlers consult and change
  the session manager (sessions, nodes, balances, pending payments), the pending responses and the hidden service tables. The client
  side selects a circuit in the session manager, builds the layers, accounts for them and hands them to the transport. The
  dispatcher of a connection splits such messages into packets, gathers and joins received packets and changes keys.

  \<^bold>\<open>Theories, and the code they model.\<close>
  \<^item> \<open>Go_Prelude\<close>: machine integers, errors and panics as values (\<open>'a res\<close>: \<open>Inl (Panic _)\<close>, \<open>Inl (Error _)\<close>, \<open>Inr _\<close>), slice expressions with
    their bounds checks, \<^verbatim>\<open>copy\<close>, little-endian integers, deletion from a slice, and the lemmas all theories share.
  \<^item> \<open>Crypto\<close>: \<^verbatim>\<open>pkg/crypto\<close> with \<^verbatim>\<open>sha256\<close>, \<^verbatim>\<open>nonce\<close> and \<^verbatim>\<open>ciph\<close>: keys, cloaks (\<^verbatim>\<open>GetCloak\<close>, \<^verbatim>\<open>Match\<close>), key sets, AES-CTR over an
    abstract block cipher. The curve, hash and block functions are the record \<open>crypto_ops\<close> with the laws \<open>crypto_laws\<close>.
  \<^item> \<open>Slice_Util\<close>: \<^verbatim>\<open>pkg/util/slice\<close>. \<open>Multi\<close>: \<^verbatim>\<open>pkg/util/multi\<close>, addresses over the parameter \<open>maddr_ops\<close>. \<open>Shuffle\<close>: \<^verbatim>\<open>pkg/util/cryptorand\<close>.
  \<^item> \<open>Splice\<close>, \<open>Splice_Spec\<close>: \<^verbatim>\<open>pkg/util/splice\<close>, every reader and writer, and the relations \<open>writes\<close> and \<open>reads\<close> between an operation and
    the bytes it produces or consumes, from which all round trips are composed.
  \<^item> \<open>Codec\<close>: \<^verbatim>\<open>pkg/codec\<close>, \<^verbatim>\<open>pkg/codec/reg\<close>; the locale \<open>message_codec\<close> is the contract of a message, interpreted by
    the messages. \<open>Ads\<close>, \<open>Ads_Props\<close>: \<^verbatim>\<open>pkg/codec/ad\<close>, the five advertisements.
  \<^item> \<open>Packet\<close>, \<open>Packet_Props\<close>, \<open>Packet_Split\<close>: \<^verbatim>\<open>pkg/engine/packet\<close>: frame, segment plan, splitting, joining; the coder is the
    parameter \<open>rs_ops\<close> with the law \<open>rs_code\<close>.
  \<^item> \<open>Onion\<close>, \<open>Onion_Props\<close>, \<open>Onion_Layers\<close>, \<open>Onion_Thms\<close>: \<^verbatim>\<open>pkg/codec/onion\<close> and \<^verbatim>\<open>pkg/codec/ont\<close>: the sixteen messages as one datatype
    \<open>onion\<close>, their wire format, lengths, assembly, crypt layers and reply headers.
  \<^item> \<open>Accounts\<close>, \<open>Accounts_Props\<close>: \<^verbatim>\<open>services\<close>, \<^verbatim>\<open>payments\<close>, \<^verbatim>\<open>responses\<close>, \<^verbatim>\<open>node\<close> and \<^verbatim>\<open>sessions\<close> of \<^verbatim>\<open>pkg/engine\<close>.
  \<^item> \<open>Manager\<close>, \<open>Select\<close> and their \<open>_Props\<close>, \<open>Manager_Thms\<close>: \<^verbatim>\<open>pkg/engine/sess\<close>. Sessions and nodes are shared by pointer in the code, so
    the record \<open>mgr\<close> has a store from addresses to session data and to nodes.
  \<^item> \<open>Hidden\<close>, \<open>Hidden_Props\<close>: \<^verbatim>\<open>pkg/hidden\<close>. \<open>Dispatch\<close>: the messages of \<^verbatim>\<open>pkg/engine/dispatcher\<close>.
  \<^item> \<open>Engine\<close>, \<open>Engine_Props\<close>, \<open>Engine_Thms\<close>, \<open>Engine_Relay\<close>, \<open>Engine_Accounts\<close>: \<^verbatim>\<open>pkg/engine/engine.go\<close> and the \<^verbatim>\<open>Handle\<close> methods of all onion
    messages: \<open>handle_once\<close> is one call of \<^verbatim>\<open>HandleMessage\<close> up to the next one, \<open>HandleMessage\<close> the chain of them, \<open>Handler\<close> the event loop.
  \<^item> \<open>Skins\<close>, \<open>Clients\<close>, \<open>Clients_Props\<close>, \<open>Clients_Acct\<close>: \<^verbatim>\<open>onion_skins.go\<close>, \<^verbatim>\<open>reply.go\<close>, \<^verbatim>\<open>acct.go\<close>, \<^verbatim>\<open>eng_senders.go\<close>, \<^verbatim>\<open>eng_sessions.go\<close> of \<^verbatim>\<open>pkg/engine\<close>
    and \<^verbatim>\<open>pkg/headers\<close>, with the \<^verbatim>\<open>Account\<close> methods.
  \<^item> \<open>Dispatcher\<close>, \<open>Dispatcher_Props\<close>, \<open>Dispatcher_Deliver\<close>, \<open>Dispatcher_Demo\<close>: \<^verbatim>\<open>pkg/engine/dispatcher/dispatcher.go\<close>.

  \<^bold>\<open>Conventions.\<close> Pure code is a function; stateful code takes and returns a record; every early return, error and panic of the source
  is a branch. Random bytes, clocks, string forms of addresses, the order in which a map is ranged over, results
  of callbacks and of services are arguments. The capacity of a slice is its length. A method that holds its mutex from start to
  end is one step; where a mutex is left locked or locked twice the model has it (\<open>enLocked\<close>, \<open>dLocked\<close>), and a call that would wait
  for it never returns (\<open>None\<close> in \<open>'a run\<close>). Code outside the repository is a parameter, and what a theorem needs of it is a hypothesis.

  \<^bold>\<open>Fuel.\<close> Three loops of the code may run forever: the chain of \<^verbatim>\<open>HandleMessage\<close> calls, the inner loop of \<^verbatim>\<open>SelectHops\<close> and the outer one of
  \<^verbatim>\<open>SelectUnusedCircuit\<close>. They take fuel, and out of fuel is \<open>None\<close>. The theorems of selection state how much is enough
  (five passes for an unused circuit when every position has a free peer; one round of the candidates per hop) and that no fuel is when
  a position has none; the theorems on messages hold for whatever fuel the run used.

  \<^bold>\<open>What the lemmas show.\<close> Round trips: of splices, advertisements, packets (any sufficient selection in any order) and onion layers, with a forward
  path of any number of hops peeled by its relays, and of reply ciphers. Invariants of every reachable state: the session
  manager, the engine, the dispatcher. Safety: no message raises a balance or calls a pending response twice. Selection: circuits
  are complete, made of the right hops, and found in bounded time. Composition: a payment reaches its session, an exit request is
  accounted for hop by hop, a response settles the request, what a dispatcher sends is delivered by the other. Where the code cannot
  do what it means to, a theorem says what it does: no client sender ever sends, a purchase pays and panics, a
  relay drops a forward message, a long message crashes its receiver, a dispatcher never acknowledges.

  \<^bold>\<open>Not modelled.\<close> Network transports, discovery and the libp2p host (goroutines around third-party connections and channels), the peer
  store on a datastore (queries and records of third-party packages), the RPC and storage services, logging, the command
  line, docker and release tools, generated code and constants. Data races between goroutines are not modelled: an
  operation is one step. Formatting for logs is left out except where its evaluation can panic.
\<close>

end
